(* ===== verification/Schemas.thy ===== *)
theory Schemas
  imports Prelude
begin

text \<open>
  The data of the workflow language (\<open>allama/dsl/enums.py\<close>, \<open>allama/dsl/schemas.py\<close>):
  its enumerations, the hierarchical stream identifiers, action statements, and the textual form of
  dependency edges (\<open>edge_components_from_dep\<close> and \<open>dep_from_edge_components\<close> of
  \<open>allama/dsl/common.py\<close>).
\<close>

section \<open>Enumerations\<close>

datatype join_strategy = JoinAny | JoinAll

datatype edge_marker = Pending | Visited | Skipped

datatype edge_type = Success | Error

fun edge_value :: "edge_type \<Rightarrow> string" where
  "edge_value Success = ''success''"
| "edge_value Error = ''error''"

lemma edge_value_inj [simp]: "edge_value a = edge_value b \<longleftrightarrow> a = b"
  by (cases a; cases b) auto

text \<open>Edge types are compared by their string values, as the scheduler's sort key does.\<close>

instantiation edge_type :: linorder
begin

definition less_eq_edge_type :: "edge_type \<Rightarrow> edge_type \<Rightarrow> bool" where
  "less_eq_edge_type a b \<longleftrightarrow> edge_value a \<le> edge_value b"

definition less_edge_type :: "edge_type \<Rightarrow> edge_type \<Rightarrow> bool" where
  "less_edge_type a b \<longleftrightarrow> edge_value a < edge_value b"

instance
proof
  fix a b c :: edge_type
  show "(a < b) = (a \<le> b \<and> \<not> b \<le> a)"
    unfolding less_eq_edge_type_def less_edge_type_def by (rule less_le_not_le)
  show "a \<le> a" by (simp add: less_eq_edge_type_def)
  show "a \<le> b \<Longrightarrow> b \<le> c \<Longrightarrow> a \<le> c" by (simp add: less_eq_edge_type_def)
  show "a \<le> b \<Longrightarrow> b \<le> a \<Longrightarrow> a = b" by (auto simp: less_eq_edge_type_def)
  show "a \<le> b \<or> b \<le> a" by (auto simp: less_eq_edge_type_def)
qed

end

datatype stream_error_strategy = Partition | Include | Drop | Raise

definition TRANSFORM_SCATTER :: string where
  "TRANSFORM_SCATTER = ''core.transform.scatter''"

definition TRANSFORM_GATHER :: string where
  "TRANSFORM_GATHER = ''core.transform.gather''"

lemma scatter_not_gather [simp]:
  "TRANSFORM_SCATTER \<noteq> TRANSFORM_GATHER" "TRANSFORM_GATHER \<noteq> TRANSFORM_SCATTER"
  by (simp_all add: TRANSFORM_SCATTER_def TRANSFORM_GATHER_def)

section \<open>Python's \<open>int(s)\<close>\<close>

text \<open>
  White space around the numeral, one sign and single underscores between digits are accepted;
  everything else raises \<open>ValueError\<close> (here \<open>None\<close>).
\<close>

definition is_ws :: "char \<Rightarrow> bool" where
  "is_ws c = (let n = (of_char c :: nat) in (9 \<le> n \<and> n \<le> 13) \<or> (28 \<le> n \<and> n \<le> 32) \<or> n = 133 \<or> n = 160)"

definition strip_ws :: "string \<Rightarrow> string" where
  "strip_ws s = rev (dropWhile is_ws (rev (dropWhile is_ws s)))"

definition grouped_digits :: "string \<Rightarrow> int option" where
  "grouped_digits s =
     (let ps = split_on (CHR ''_'') s
      in if list_all (\<lambda>p. p \<noteq> []) ps then map_option int (digits_value 0 (concat ps)) else None)"

definition py_int :: "string \<Rightarrow> int option" where
  "py_int s =
     (case strip_ws s of
        [] \<Rightarrow> None
      | c # cs \<Rightarrow>
          if c = CHR ''-'' then map_option uminus (grouped_digits cs)
          else if c = CHR ''+'' then grouped_digits cs
          else grouped_digits (c # cs))"

lemma digit_not_special:
  "c \<in> set ''0123456789'' \<Longrightarrow>
   \<not> is_ws c \<and> c \<noteq> CHR ''-'' \<and> c \<noteq> CHR ''+'' \<and> c \<noteq> CHR ''_'' \<and> c \<noteq> CHR '':'' \<and>
   c \<noteq> CHR ''/'' \<and> c \<noteq> CHR ''s''"
  by (auto simp: is_ws_def Let_def)

lemma dropWhile_hd_not: "s \<noteq> [] \<Longrightarrow> \<not> P (hd s) \<Longrightarrow> dropWhile P s = s"
  by (cases s) auto

lemma strip_ws_id: "s \<noteq> [] \<Longrightarrow> \<not> is_ws (hd s) \<Longrightarrow> \<not> is_ws (last s) \<Longrightarrow> strip_ws s = s"
  by (simp add: strip_ws_def dropWhile_hd_not hd_rev)

lemma show_nat_chars:
  assumes "c \<in> set (show_nat n)"
  shows "\<not> is_ws c" "c \<noteq> CHR ''-''" "c \<noteq> CHR ''+''" "c \<noteq> CHR ''_''" "c \<noteq> CHR '':''"
    "c \<noteq> CHR ''/''" "c \<noteq> CHR ''s''"
  using digit_not_special [OF set_show_nat_digits [OF assms]] by auto

lemma grouped_show_nat [simp]: "grouped_digits (show_nat n) = Some (int n)"
proof -
  have "CHR ''_'' \<notin> set (show_nat n)" using show_nat_chars(4) by blast
  then show ?thesis by (simp add: grouped_digits_def digits_value_show_nat)
qed

lemma py_int_show_int [simp]: "py_int (show_int i) = Some i"
proof (cases "i < 0")
  case True
  define d where "d = show_nat (nat (- i))"
  have d: "d \<noteq> []" "\<not> is_ws (last d)"
    using show_nat_chars(1) [of "last d" "nat (- i)"] by (auto simp: d_def)
  then have "strip_ws (CHR ''-'' # d) = CHR ''-'' # d"
    by (intro strip_ws_id) (auto simp: is_ws_def)
  with True show ?thesis by (simp add: py_int_def show_int_def d_def)
next
  case False
  define d where "d = show_nat (nat i)"
  have d: "d \<noteq> []" "\<not> is_ws (hd d)" "\<not> is_ws (last d)" "hd d \<noteq> CHR ''-''" "hd d \<noteq> CHR ''+''"
    using show_nat_chars(1) [of "last d" "nat i"] show_nat_chars(1,2,3) [of "hd d" "nat i"]
    by (auto simp: d_def)
  then have "strip_ws d = d" by (intro strip_ws_id) auto
  moreover have "grouped_digits d = Some i" using False by (simp add: d_def)
  moreover have "show_int i = d" using False by (simp add: show_int_def d_def)
  ultimately show ?thesis using d by (cases d) (auto simp: py_int_def)
qed

section \<open>Stream identifiers\<close>

text \<open>
  A stream identifier is a string \<open>scope:index/scope:index/...\<close>; the index of a skipped
  scatter is the word \<open>skip\<close> (\<open>StreamID\<close>).
\<close>

type_synonym stream_id = string

datatype stream_index = Idx int | SkipToken

fun index_str :: "stream_index \<Rightarrow> string" where
  "index_str (Idx i) = show_int i"
| "index_str SkipToken = ''skip''"

definition stream_new :: "string \<Rightarrow> stream_index \<Rightarrow> stream_id option \<Rightarrow> stream_id" where
  "stream_new scope index base =
     (let new_stream = scope @ '':'' @ index_str index
      in case base of None \<Rightarrow> new_stream | Some b \<Rightarrow> b @ ''/'' @ new_stream)"

definition stream_skip :: "string \<Rightarrow> stream_id option \<Rightarrow> stream_id" where
  "stream_skip scope base = stream_new scope SkipToken base"

definition stream_streams :: "stream_id \<Rightarrow> string list" where
  "stream_streams s = split_on (CHR ''/'') s"

text \<open>\<open>leaf\<close> raises \<open>ValueError\<close> (here \<open>None\<close>) unless the last segment is \<open>scope:index\<close>.\<close>

definition stream_leaf :: "stream_id \<Rightarrow> (string \<times> stream_index) option" where
  "stream_leaf s =
     (case split_on (CHR '':'') (last (stream_streams s)) of
        [scope, index] \<Rightarrow>
          if index \<noteq> ''skip'' then map_option (\<lambda>i. (scope, Idx i)) (py_int index)
          else Some (scope, SkipToken)
      | _ \<Rightarrow> None)"

definition ROOT_STREAM :: stream_id where
  "ROOT_STREAM = stream_new ''<root>'' (Idx 0) None"

text \<open>Scopes are action references; the pattern of references excludes both separators.\<close>

definition plain_scope :: "string \<Rightarrow> bool" where
  "plain_scope s \<longleftrightarrow> CHR ''/'' \<notin> set s \<and> CHR '':'' \<notin> set s"

lemma show_int_chars:
  assumes "c \<in> set (show_int i)"
  shows "c \<noteq> CHR '':''" "c \<noteq> CHR ''/''" "c \<noteq> CHR ''s''"
  using assms show_nat_chars(5-7) [of c "nat (- i)"] show_nat_chars(5-7) [of c "nat i"]
  by (auto simp: show_int_def split: if_splits)

lemma index_str_chars:
  "CHR '':'' \<notin> set (index_str i)" "CHR ''/'' \<notin> set (index_str i)"
  using show_int_chars by (cases i; auto)+

lemma show_int_not_skip: "show_int i \<noteq> ''skip''"
proof
  assume "show_int i = ''skip''"
  then have "CHR ''s'' \<in> set (show_int i)" by simp
  then show False using show_int_chars(3) by blast
qed

lemma index_str_inj [simp]: "index_str i = index_str j \<longleftrightarrow> i = j"
proof (cases i; cases j)
  fix a b assume "i = Idx a" "j = Idx b"
  then show ?thesis using py_int_show_int [of a] py_int_show_int [of b]
    by (metis index_str.simps(1) option.inject)
qed (auto simp: show_int_not_skip show_int_not_skip [symmetric])

lemma stream_streams_new:
  assumes "plain_scope scope"
  shows "stream_streams (stream_new scope i (Some b)) = stream_streams b @ [scope @ '':'' @ index_str i]"
    and "stream_streams (stream_new scope i None) = [scope @ '':'' @ index_str i]"
proof -
  have "CHR ''/'' \<notin> set (scope @ '':'' @ index_str i)"
    using assms index_str_chars by (auto simp: plain_scope_def)
  then show "stream_streams (stream_new scope i (Some b)) = stream_streams b @ [scope @ '':'' @ index_str i]"
    and "stream_streams (stream_new scope i None) = [scope @ '':'' @ index_str i]"
    by (simp_all add: stream_streams_def stream_new_def split_on_snoc)
qed

lemma stream_leaf_new [simp]:
  assumes "plain_scope scope"
  shows "stream_leaf (stream_new scope i base) = Some (scope, i)"
proof -
  have "last (stream_streams (stream_new scope i base)) = scope @ '':'' @ index_str i"
    using stream_streams_new [OF assms] by (cases base) auto
  moreover have "split_on (CHR '':'') (scope @ '':'' @ index_str i) = [scope, index_str i]"
    using assms index_str_chars by (simp add: plain_scope_def split_on_append)
  ultimately show ?thesis
    by (cases i) (auto simp: stream_leaf_def show_int_not_skip)
qed

lemma stream_new_inj:
  assumes "plain_scope a" "plain_scope b"
    and "stream_new a i (Some s) = stream_new b j (Some t)"
  shows "a = b \<and> i = j \<and> s = t"
proof -
  have "stream_leaf (stream_new a i (Some s)) = stream_leaf (stream_new b j (Some t))"
    using assms(3) by simp
  then have ij: "a = b" "i = j" using assms(1,2) by auto
  have "stream_streams s @ [a @ '':'' @ index_str i] = stream_streams t @ [b @ '':'' @ index_str j]"
    using assms stream_streams_new by metis
  then have "stream_streams s = stream_streams t" by simp
  then have "s = t" by (metis join_split_on stream_streams_def)
  with ij show ?thesis by simp
qed

lemma stream_new_neq_base: "stream_new a i (Some s) \<noteq> s"
  by (simp add: stream_new_def Let_def)

lemma endswith_skip:
  assumes "plain_scope scope"
  shows "endswith (stream_new scope i base) '':skip'' \<longleftrightarrow> i = SkipToken"
proof
  assume "i = SkipToken"
  then show "endswith (stream_new scope i base) '':skip''"
    by (cases base) (auto simp: stream_new_def endswith_iff)
next
  assume e: "endswith (stream_new scope i base) '':skip''"
  show "i = SkipToken"
  proof (cases i)
    case (Idx n)
    obtain r where r: "stream_new scope i base = r @ '':skip''" using e by (auto simp: endswith_iff)
    define p where "p = (case base of None \<Rightarrow> scope | Some b \<Rightarrow> b @ ''/'' @ scope)"
    have "stream_new scope i base = p @ CHR '':'' # show_int n"
      by (cases base) (auto simp: p_def stream_new_def Idx)
    with r have "split_on (CHR '':'') (p @ CHR '':'' # show_int n) = split_on (CHR '':'') (r @ CHR '':'' # ''skip'')"
      by simp
    moreover have "CHR '':'' \<notin> set (show_int n)" using show_int_chars by blast
    ultimately have "show_int n = ''skip''" by (subst (asm) (1 2) split_on_snoc) auto
    then show ?thesis using show_int_not_skip by blast
  qed simp
qed

section \<open>Dependency edges\<close>

text \<open>
  A dependency is \<open>ref\<close>, \<open>ref.success\<close> or \<open>ref.error\<close>; any other suffix raises
  \<open>ValueError\<close>.
\<close>

type_synonym adj_dst = "string \<times> edge_type"

definition edge_components_from_dep :: "string \<Rightarrow> adj_dst option" where
  "edge_components_from_dep dep_ref =
     (case split_once (CHR ''.'') dep_ref of
        (src_ref, path) \<Rightarrow>
          if path = None \<or> path = Some ''success'' then Some (src_ref, Success)
          else if path = Some ''error'' then Some (src_ref, Error)
          else None)"

definition dep_from_edge_components :: "string \<Rightarrow> edge_type \<Rightarrow> string" where
  "dep_from_edge_components src_ref t = src_ref @ ''.'' @ edge_value t"

lemma edge_components_roundtrip:
  "CHR ''.'' \<notin> set src \<Longrightarrow> edge_components_from_dep (dep_from_edge_components src t) = Some (src, t)"
  by (cases t) (auto simp: edge_components_from_dep_def dep_from_edge_components_def)

lemma edge_components_plain:
  "CHR ''.'' \<notin> set src \<Longrightarrow> edge_components_from_dep src = Some (src, Success)"
  by (simp add: edge_components_from_dep_def)

interpretation dep_codec: codec "\<lambda>(src, t). dep_from_edge_components src t" edge_components_from_dep
  "\<lambda>(src, t). CHR ''.'' \<notin> set src"
  by unfold_locales (auto simp: edge_components_roundtrip)

section \<open>Action statements\<close>

text \<open>
  \<open>ActionStatement\<close>. The nested models (interaction, retry policy) are kept as the JSON they
  serialise to, which is all the validation reads of them.
\<close>

record action_stmt =
  stmt_ref :: string
  stmt_description :: string
  stmt_action :: string
  stmt_args :: "(string \<times> json) list"
  stmt_depends_on :: "string list"
  stmt_interaction :: json
  stmt_run_if :: "string option"
  stmt_for_each :: json
  stmt_retry_policy :: json
  stmt_start_delay :: rat
  stmt_wait_until :: "string option"
  stmt_join_strategy :: join_strategy
  stmt_environment :: "string option"

fun opt_str :: "string option \<Rightarrow> json" where
  "opt_str None = JNull"
| "opt_str (Some s) = JStr s"

fun join_value :: "join_strategy \<Rightarrow> string" where
  "join_value JoinAny = ''any''"
| "join_value JoinAll = ''all''"

text \<open>The items of \<open>model_dump()\<close> in field order (the identifier is excluded by its field).\<close>

definition stmt_dump :: "action_stmt \<Rightarrow> (string \<times> json) list" where
  "stmt_dump a =
     [(''ref'', JStr (stmt_ref a)),
      (''description'', JStr (stmt_description a)),
      (''action'', JStr (stmt_action a)),
      (''args'', JObj (stmt_args a)),
      (''depends_on'', JArr (map JStr (stmt_depends_on a))),
      (''interaction'', stmt_interaction a),
      (''run_if'', opt_str (stmt_run_if a)),
      (''for_each'', stmt_for_each a),
      (''retry_policy'', stmt_retry_policy a),
      (''start_delay'', JFloat (stmt_start_delay a)),
      (''wait_until'', opt_str (stmt_wait_until a)),
      (''join_strategy'', JStr (join_value (stmt_join_strategy a))),
      (''environment'', opt_str (stmt_environment a))]"

text \<open>\<open>SLUG_PATTERN\<close>, the pattern of references, and a statement with the default of every
  optional field.\<close>

definition slug_char :: "char \<Rightarrow> bool" where
  "slug_char c = (let n = (of_char c :: nat) in (97 \<le> n \<and> n \<le> 122) \<or> (48 \<le> n \<and> n \<le> 57) \<or> n = 95)"

definition slug_ok :: "string \<Rightarrow> bool" where
  "slug_ok s \<longleftrightarrow> s \<noteq> [] \<and> list_all slug_char s"

lemma slug_char_not:
  "\<not> slug_char (CHR ''/'')" "\<not> slug_char (CHR '':'')" "\<not> slug_char (CHR ''.'')" "\<not> slug_char (CHR ''<'')"
  by (simp_all add: slug_char_def Let_def)

lemma slug_plain: "slug_ok s \<Longrightarrow> plain_scope s \<and> CHR ''.'' \<notin> set s"
  using slug_char_not by (auto simp: slug_ok_def plain_scope_def list_all_iff)

definition default_stmt :: "string \<Rightarrow> string \<Rightarrow> action_stmt" where
  "default_stmt ref action =
     \<lparr>stmt_ref = ref, stmt_description = [], stmt_action = action, stmt_args = [], stmt_depends_on = [],
      stmt_interaction = JNull, stmt_run_if = None, stmt_for_each = JNull,
      stmt_retry_policy = JObj [(''max_attempts'', JInt 1), (''timeout'', JInt 300), (''retry_until'', JNull)],
      stmt_start_delay = 0, stmt_wait_until = None, stmt_join_strategy = JoinAll,
      stmt_environment = None\<rparr>"

definition is_scatter :: "action_stmt \<Rightarrow> bool" where
  "is_scatter a \<longleftrightarrow> stmt_action a = TRANSFORM_SCATTER"

definition is_gather :: "action_stmt \<Rightarrow> bool" where
  "is_gather a \<longleftrightarrow> stmt_action a = TRANSFORM_GATHER"

lemma not_scatter_and_gather [simp]: "is_scatter a \<Longrightarrow> \<not> is_gather a"
  by (simp add: is_scatter_def is_gather_def)

text \<open>The model validator: an interactive action cannot loop.\<close>

definition validate_interaction :: "action_stmt \<Rightarrow> bool" where
  "validate_interaction a \<longleftrightarrow> \<not> (truthy (stmt_interaction a) \<and> truthy (stmt_for_each a))"

end
