(* ===== verification/Templates.thy ===== *)
theory Templates
  imports Schemas
begin

text \<open>
  Finding template expressions in action arguments: the traversal of nested values
  (\<open>allama/parse.py\<close>), the pattern \<open>TEMPLATE_STRING\<close> (\<open>allama/expressions/patterns.py\<close>)
  and the collection of action references (\<open>RegistryActionExtractor\<close>, \<open>extract_expressions\<close>
  of \<open>allama/expressions/core.py\<close>). The parser of the expression language is generated by a
  library from the grammar; it is a parameter that returns the paths of the \<open>ACTIONS\<close> nodes of
  an expression, or nothing when the expression does not parse.
\<close>

section \<open>Traversal\<close>

lemma size_snd_json [termination_simp]:
  "kv \<in> set kvs \<Longrightarrow> size (snd kv) < Suc (size_list (size_prod (\<lambda>_. 0) size) kvs)"
  by (induction kvs) auto

lemma size_zip_json [termination_simp]:
  "(i, x) \<in> set (zip is xs) \<Longrightarrow> size x < Suc (size_list size xs)"
  by (auto dest!: set_zip_rightD simp: less_Suc_eq_le intro: size_list_estimation')

fun traverse_nodes :: "json \<Rightarrow> json list" where
  "traverse_nodes (JObj kvs) = concat (map (\<lambda>kv. JStr (fst kv) # traverse_nodes (snd kv)) kvs)"
| "traverse_nodes (JArr xs) = concat (map traverse_nodes xs)"
| "traverse_nodes v = [v]"

fun leaf_path :: "string \<Rightarrow> string \<Rightarrow> string" where
  "leaf_path [] key = key"
| "leaf_path parent key = parent @ ''.'' @ key"

fun traverse_leaves :: "string \<Rightarrow> json \<Rightarrow> (string \<times> json) list" where
  "traverse_leaves parent (JObj kvs) =
     concat (map (\<lambda>kv. traverse_leaves (leaf_path parent (fst kv)) (snd kv)) kvs)"
| "traverse_leaves parent (JArr xs) =
     concat (map (\<lambda>ix. traverse_leaves (parent @ ''['' @ show_nat (fst ix) @ '']'') (snd ix))
       (zip [0..<length xs] xs))"
| "traverse_leaves parent v = [(parent, v)]"

section \<open>The template pattern\<close>

text \<open>
  \<open>\$\{\{\s*(?P<expr>.+?)\s*\}\}\<close> with the dot matching newlines. After the opening braces the
  white space is taken greedily, then the shortest nonempty expression that is followed by optional
  white space and two closing braces; when there is none, one white space character is given back
  to the expression and the search is repeated.
\<close>

definition open_braces :: string where "open_braces = ''${{''"

fun lazy_expr :: "string \<Rightarrow> string \<Rightarrow> (string \<times> string) option" where
  "lazy_expr acc t =
     (if acc \<noteq> [] \<and> startswith (dropWhile is_ws t) ''}}''
      then Some (rev acc, drop 2 (dropWhile is_ws t))
      else case t of [] \<Rightarrow> None | c # cs \<Rightarrow> lazy_expr (c # acc) cs)"

declare lazy_expr.simps [simp del]

fun give_back :: "nat \<Rightarrow> string \<Rightarrow> (string \<times> string) option" where
  "give_back 0 t = lazy_expr [] t"
| "give_back (Suc k) t =
     (case lazy_expr [] (drop (Suc k) t) of Some r \<Rightarrow> Some r | None \<Rightarrow> give_back k t)"

definition template_match :: "string \<Rightarrow> (string \<times> string) option" where
  "template_match s =
     (if startswith s open_braces
      then let t = drop 3 s in give_back (length (takeWhile is_ws t)) t
      else None)"

lemma lazy_expr_length: "lazy_expr acc t = Some (e, r) \<Longrightarrow> length r \<le> length t"
proof (induction acc t rule: lazy_expr.induct)
  case (1 acc t)
  show ?case
  proof (cases "acc \<noteq> [] \<and> startswith (dropWhile is_ws t) ''}}''")
    case True
    with "1.prems" show ?thesis
      using length_dropWhile_le [of is_ws t] by (auto simp: lazy_expr.simps [of acc t])
  next
    case False
    with "1.prems" obtain c cs where t: "t = c # cs" and l: "lazy_expr (c # acc) cs = Some (e, r)"
      by (auto simp: lazy_expr.simps [of acc t] split: list.splits if_splits)
    from "1.IH" [OF False t l] t show ?thesis by simp
  qed
qed

lemma give_back_length: "give_back k t = Some (e, r) \<Longrightarrow> length r \<le> length t"
proof (induction k)
  case 0
  then show ?case by (simp add: lazy_expr_length)
next
  case (Suc k)
  then show ?case using lazy_expr_length [of "[]" "drop (Suc k) t"]
    by (fastforce split: option.splits)
qed

lemma template_match_length: "template_match s = Some (e, r) \<Longrightarrow> length r < length s"
proof -
  assume m: "template_match s = Some (e, r)"
  then have "startswith s open_braces" by (simp add: template_match_def split: if_splits)
  then have "3 \<le> length s" by (auto simp: startswith_iff open_braces_def)
  moreover from m have "length r \<le> length (drop 3 s)"
    by (auto simp: template_match_def Let_def split: if_splits dest: give_back_length)
  ultimately show ?thesis by simp
qed

text \<open>\<open>re.finditer\<close>: the expression of every match, scanning on after each of them.\<close>

function template_exprs :: "string \<Rightarrow> string list" where
  "template_exprs s =
     (case template_match s of
        Some (e, r) \<Rightarrow> e # template_exprs r
      | None \<Rightarrow> (case s of [] \<Rightarrow> [] | c # cs \<Rightarrow> template_exprs cs))"
  by pat_completeness auto
termination
  by (relation "measure length") (auto dest: template_match_length)

declare template_exprs.simps [simp del]

lemma template_exprs_plain: "CHR ''$'' \<notin> set s \<Longrightarrow> template_exprs s = []"
proof (induction s)
  case Nil
  then show ?case by (subst template_exprs.simps) (simp add: template_match_def startswith_def open_braces_def)
next
  case (Cons c s)
  then have "template_match (c # s) = None"
    by (auto simp: template_match_def startswith_def open_braces_def)
  with Cons show ?case by (subst template_exprs.simps) simp
qed

definition traverse_expressions :: "json \<Rightarrow> string list" where
  "traverse_expressions obj =
     concat (map (\<lambda>v. case v of JStr s \<Rightarrow> template_exprs s | _ \<Rightarrow> []) (traverse_nodes obj))"

section \<open>Action references\<close>

text \<open>
  The visitor reads the token of an \<open>ACTIONS\<close> node: the reference is what stands before the first
  dot, and a token without one makes the unpacking raise (\<open>None\<close>).
\<close>

type_synonym expr_parser = "string \<Rightarrow> string list option"

definition action_token_ref :: "string \<Rightarrow> string option" where
  "action_token_ref token =
     (case split_once (CHR ''.'') (lstrip (CHR ''.'') token) of
        (ref, Some rest) \<Rightarrow> Some ref
      | (ref, None) \<Rightarrow> None)"

datatype expr_error = ParseFailed string | ExtractFailed string

definition extract_one :: "expr_parser \<Rightarrow> string \<Rightarrow> expr_error + string list" where
  "extract_one parse e =
     (case parse e of
        None \<Rightarrow> Inl (ParseFailed e)
      | Some tokens \<Rightarrow>
          if list_all (\<lambda>t. action_token_ref t \<noteq> None) tokens
          then Inr (map (the \<circ> action_token_ref) tokens)
          else Inl (ExtractFailed e))"

definition extract_expressions :: "expr_parser \<Rightarrow> json \<Rightarrow> expr_error + string list" where
  "extract_expressions parse obj =
     rbind (rmap (extract_one parse) (traverse_expressions obj)) (\<lambda>rs. Inr (remdups (concat rs)))"

lemma extract_no_template:
  "traverse_expressions obj = [] \<Longrightarrow> extract_expressions parse obj = Inr []"
  by (simp add: extract_expressions_def)

lemma action_token_ref_path:
  "r \<noteq> [] \<Longrightarrow> CHR ''.'' \<notin> set r \<Longrightarrow> action_token_ref (CHR ''.'' # r @ CHR ''.'' # rest) = Some r"
  by (cases r) (auto simp: action_token_ref_def lstrip_def)

end
