(* ===== verification/Scheduler.thy ===== *)
theory Scheduler
  imports Templates
begin

text \<open>
  The workflow scheduler (\<open>DSLScheduler\<close> in \<open>allama/dsl/scheduler.py\<close>): a queue of tasks,
  one coroutine per dispatched task, and shared dictionaries. A coroutine runs without interruption
  from one \<open>await\<close> to the next, so the model has one function per such segment, a program counter
  that names the await a pending coroutine stands at, and replies that the environment gives to it.
\<close>

section \<open>Data\<close>

text \<open>
  Stored results. \<open>Slots\<close> is the list a gather fills while its streams finish: \<open>None\<close>
  stands for the sentinel of an unset slot. \<open>Collected\<close> is an externalised collection with its
  count, \<open>External\<close> any other externalised object.
\<close>

datatype stored =
    Inline json
  | Slots "stored option list"
  | External json
  | Collected nat json

record task_result =
  tr_result :: stored
  tr_typename :: string
  tr_error :: json
  tr_error_typename :: "string option"
  tr_index :: "nat option"

definition from_stored :: "stored \<Rightarrow> string \<Rightarrow> task_result" where
  "from_stored st ty = \<lparr>tr_result = st, tr_typename = ty, tr_error = JNull, tr_error_typename = None, tr_index = None\<rparr>"

definition from_slots :: "stored option list \<Rightarrow> task_result" where
  "from_slots xs = from_stored (Slots xs) ''list''"

definition from_collection_item :: "stored \<Rightarrow> nat \<Rightarrow> string \<Rightarrow> task_result" where
  "from_collection_item st i ty = (from_stored st ty)\<lparr>tr_index := Some i\<rparr>"

text \<open>An execution context: its \<open>ACTIONS\<close>, and the remaining keys, which are only passed on.\<close>

record exec_ctx =
  ctx_actions :: "(string, task_result) dict"
  ctx_others :: "(string \<times> json) list"

definition stream_ctx :: "(string, task_result) dict \<Rightarrow> exec_ctx" where
  "stream_ctx acts = \<lparr>ctx_actions = acts, ctx_others = [(''TRIGGER'', JNull)]\<rparr>"

text \<open>
  Exceptions: class name, whether it is an \<open>ApplicationError\<close>, its text, its details, its cause.
\<close>

datatype exn = Exn (exn_class: string) (exn_app: bool) (exn_str: string)
  (exn_details: "json list") (exn_cause: "exn option")

record action_error =
  ae_ref :: json
  ae_message :: json
  ae_type :: json
  ae_expr_context :: json
  ae_attempt :: json
  ae_stream_id :: json
  ae_children :: json

definition dump_error :: "action_error \<Rightarrow> json" where
  "dump_error e =
     JObj [(''ref'', ae_ref e), (''message'', ae_message e), (''type'', ae_type e),
           (''expr_context'', ae_expr_context e), (''attempt'', ae_attempt e),
           (''stream_id'', ae_stream_id e), (''children'', ae_children e)]"

record exc_info =
  ei_exception :: exn
  ei_details :: action_error

text \<open>A task; equality of tasks, and so every dictionary key, ignores the delay.\<close>

record task =
  t_ref :: string
  t_stream :: stream_id
  t_delay :: rat

type_synonym tkey = "string \<times> stream_id"

definition tkey :: "task \<Rightarrow> tkey" where
  "tkey t = (t_ref t, t_stream t)"

definition mk_task :: "string \<Rightarrow> stream_id \<Rightarrow> task" where
  "mk_task ref sid = \<lparr>t_ref = ref, t_stream = sid, t_delay = 0\<rparr>"

record dsl_edge =
  e_src :: string
  e_dst :: string
  e_type :: edge_type
  e_stream :: stream_id

definition mk_edge :: "string \<Rightarrow> string \<Rightarrow> edge_type \<Rightarrow> stream_id \<Rightarrow> dsl_edge" where
  "mk_edge s d ty sid = \<lparr>e_src = s, e_dst = d, e_type = ty, e_stream = sid\<rparr>"

lemma mk_edge_inj [simp]:
  "mk_edge s d ty sid = mk_edge s' d' ty' sid' \<longleftrightarrow> s = s' \<and> d = d' \<and> ty = ty' \<and> sid = sid'"
  by (auto simp: mk_edge_def)

record scatter_args =
  sa_collection :: json
  sa_interval :: "rat option"

record gather_args =
  ga_items :: json
  ga_drop_nulls :: bool
  ga_error_strategy :: stream_error_strategy

text \<open>
  The await a coroutine stands at, with what it has computed so far: the evaluation of \<open>run_if\<close>,
  the sleep, the activity that evaluates a scattered collection, the yield between two new streams,
  the activities of a gather, and the executor.
\<close>

datatype pc =
    P_start
  | P_run_if string exec_ctx
  | P_sleep rat
  | P_scatter scatter_args exec_ctx
  | P_scatter_loop scatter_args stored nat nat
  | P_gather_empty stream_id
  | P_gather_item gather_args stream_id exec_ctx
  | P_gather_final gather_args stream_id "stored list" task_result
  | P_gather_exec stream_id
  | P_execute

datatype reply =
    R_value json
  | R_woken
  | R_stored stored
  | R_finalized stored "string option" "json list"
  | R_executed "task_result option" "exn option"
  | R_raise exn

record pending =
  p_task :: task
  p_delay :: rat
  p_pc :: pc

text \<open>
  Static part: the statements by reference, the sorted adjacency, and what the code gets from its
  libraries: the validated arguments of a scatter and a gather, JSON rendering, the expression parser.
\<close>

record sched =
  sch_tasks :: "(string, action_stmt) dict"
  sch_adj :: "(string, adj_dst list) dict"
  sch_scatter_args :: "action_stmt \<Rightarrow> exn + scatter_args"
  sch_gather_args :: "action_stmt \<Rightarrow> exn + gather_args"
  sch_to_json :: "json \<Rightarrow> string"
  sch_parse :: expr_parser

record sstate =
  st_queue :: "task list"
  st_indegrees :: "(tkey, int) dict"
  st_completed :: "tkey set"
  st_edges :: "dsl_edge \<Rightarrow> edge_marker"
  st_task_exceptions :: "(string, exc_info) dict"
  st_stream_exceptions :: "(stream_id, exc_info) dict"
  st_streams :: "(stream_id, exec_ctx) dict"
  st_hierarchy :: "(stream_id, stream_id option) dict"
  st_task_streams :: "(tkey, stream_id list) dict"
  st_open_streams :: "(tkey, int) dict"
  st_pending :: "pending list"

section \<open>Construction\<close>

text \<open>
  The adjacency sets are sorted by destination and edge type value; duplicates disappear in the
  sets, while the indegree counts every dependency.
\<close>

definition adj_add :: "string \<Rightarrow> (string, adj_dst list) dict \<Rightarrow> string \<Rightarrow> (string, adj_dst list) dict" where
  "adj_add ref adj dep =
     (case edge_components_from_dep dep of
        None \<Rightarrow> adj
      | Some (src, ty) \<Rightarrow>
          dset src ((case dget adj src of None \<Rightarrow> [] | Some ds \<Rightarrow> ds) @ [(ref, ty)]) adj)"

definition build_adj :: "action_stmt list \<Rightarrow> (string, adj_dst list) dict" where
  "build_adj as =
     (let temp = foldl (\<lambda>adj a. foldl (adj_add (stmt_ref a)) adj (stmt_depends_on a)) [] as;
          tasks = foldl (\<lambda>m a. dset (stmt_ref a) a m) [] as
      in map (\<lambda>(ref, _). (ref, sort (remdups (case dget temp ref of None \<Rightarrow> [] | Some ds \<Rightarrow> ds)))) tasks)"

definition init_sched ::
  "action_stmt list \<Rightarrow> (action_stmt \<Rightarrow> exn + scatter_args) \<Rightarrow> (action_stmt \<Rightarrow> exn + gather_args) \<Rightarrow>
   (json \<Rightarrow> string) \<Rightarrow> expr_parser \<Rightarrow> sched" where
  "init_sched as sa ga tj parse =
     \<lparr>sch_tasks = foldl (\<lambda>m a. dset (stmt_ref a) a m) [] as, sch_adj = build_adj as,
      sch_scatter_args = sa, sch_gather_args = ga, sch_to_json = tj, sch_parse = parse\<rparr>"

text \<open>The state when the main loop starts: tasks without dependencies are queued.\<close>

definition init_state :: "action_stmt list \<Rightarrow> exec_ctx \<Rightarrow> sstate" where
  "init_state as ctx =
     (let indeg = foldl (\<lambda>m a. dset (stmt_ref a, ROOT_STREAM) (int (length (stmt_depends_on a))) m) [] as
      in \<lparr>st_queue = map (\<lambda>(k, _). mk_task (fst k) (snd k)) (filter (\<lambda>(_, n). n = 0) indeg),
          st_indegrees = indeg, st_completed = {}, st_edges = (\<lambda>_. Pending),
          st_task_exceptions = [], st_stream_exceptions = [],
          st_streams = [(ROOT_STREAM, ctx)], st_hierarchy = [(ROOT_STREAM, None)],
          st_task_streams = [], st_open_streams = [], st_pending = []\<rparr>)"

definition adj_of :: "sched \<Rightarrow> string \<Rightarrow> adj_dst list" where
  "adj_of sch ref = (case dget (sch_adj sch) ref of None \<Rightarrow> [] | Some ds \<Rightarrow> ds)"

definition n_deps :: "sched \<Rightarrow> string \<Rightarrow> int" where
  "n_deps sch ref = (case dget (sch_tasks sch) ref of None \<Rightarrow> 0 | Some a \<Rightarrow> int (length (stmt_depends_on a)))"

section \<open>Queueing\<close>

definition mark_edge :: "dsl_edge \<Rightarrow> edge_marker \<Rightarrow> sstate \<Rightarrow> sstate" where
  "mark_edge e m s = s\<lparr>st_edges := (st_edges s)(e := m)\<rparr>"

text \<open>
  One successor: its edge is marked, its indegree, entered on first sight, goes down by one, and at
  zero the successor is queued with the delay of the task.
\<close>

definition queue_next ::
  "sched \<Rightarrow> task \<Rightarrow> dsl_edge set \<Rightarrow> adj_dst \<Rightarrow> sstate \<Rightarrow> sstate" where
  "queue_next sch t unreachable d s =
     (let (next_ref, ty) = d;
          e = mk_edge (t_ref t) next_ref ty (t_stream t);
          s1 = mark_edge e (if e \<in> unreachable then Skipped else Visited) s;
          nt = \<lparr>t_ref = next_ref, t_stream = t_stream t, t_delay = t_delay t\<rparr>;
          k0 = (case dget (st_indegrees s1) (tkey nt) of None \<Rightarrow> n_deps sch next_ref | Some k \<Rightarrow> k);
          s2 = s1\<lparr>st_indegrees := dset (tkey nt) (k0 - 1) (st_indegrees s1)\<rparr>
      in if k0 - 1 = 0 then s2\<lparr>st_queue := st_queue s2 @ [nt]\<rparr> else s2)"

definition queue_tasks :: "sched \<Rightarrow> task \<Rightarrow> dsl_edge set \<Rightarrow> sstate \<Rightarrow> sstate" where
  "queue_tasks sch t unreachable s = fold (queue_next sch t unreachable) (adj_of sch (t_ref t)) s"

definition out_edges :: "sched \<Rightarrow> string \<Rightarrow> stream_id \<Rightarrow> (edge_type \<Rightarrow> bool) \<Rightarrow> dsl_edge set" where
  "out_edges sch ref sid P =
     set (map (\<lambda>(dst, ty). mk_edge ref dst ty sid) (filter (\<lambda>(dst, ty). P ty) (adj_of sch ref)))"

definition handle_success_path :: "sched \<Rightarrow> task \<Rightarrow> sstate \<Rightarrow> sstate" where
  "handle_success_path sch t s =
     queue_tasks sch t (out_edges sch (t_ref t) (t_stream t) (\<lambda>ty. ty \<noteq> Success)) s"

section \<open>Errors\<close>

definition new_error :: "string \<Rightarrow> string \<Rightarrow> string \<Rightarrow> stream_id \<Rightarrow> action_error" where
  "new_error ref message ty sid =
     \<lparr>ae_ref = JStr ref, ae_message = JStr message, ae_type = JStr ty, ae_expr_context = JStr ''ACTIONS'',
      ae_attempt = JInt 1, ae_stream_id = JStr sid, ae_children = JNull\<rparr>"

definition error_fields :: "string list" where
  "error_fields = [''ref'', ''message'', ''type'', ''expr_context'', ''attempt'', ''stream_id'', ''children'']"

text \<open>
  \<open>ActionErrorInfo(**d)\<close>, a plain data class: three fields are required, an unknown keyword is a
  \<open>TypeError\<close> that names it, and no value is checked. The result is the text of the error or the object.
\<close>

definition error_from_kwargs :: "(string \<times> json) list \<Rightarrow> string + action_error" where
  "error_from_kwargs d =
     (case filter (\<lambda>k. k \<notin> set error_fields) (dkeys d) of
        k # _ \<Rightarrow> Inl (''ActionErrorInfo.__init__() got an unexpected keyword argument '' @ [char_of (39::nat)] @ k @ [char_of (39::nat)])
      | [] \<Rightarrow>
          (case (dget d ''ref'', dget d ''message'', dget d ''type'') of
             (Some r, Some m, Some ty) \<Rightarrow>
               Inr \<lparr>ae_ref = r, ae_message = m, ae_type = ty,
                    ae_expr_context = (case dget d ''expr_context'' of None \<Rightarrow> JStr ''ACTIONS'' | Some v \<Rightarrow> v),
                    ae_attempt = (case dget d ''attempt'' of None \<Rightarrow> JInt 1 | Some v \<Rightarrow> v),
                    ae_stream_id = (case dget d ''stream_id'' of None \<Rightarrow> JStr ROOT_STREAM | Some v \<Rightarrow> v),
                    ae_children = (case dget d ''children'' of None \<Rightarrow> JNull | Some v \<Rightarrow> v)\<rparr>
           | _ \<Rightarrow> Inl ''ActionErrorInfo.__init__() missing required positional arguments''))"

definition nl :: string where "nl = [char_of (10::nat)]"

definition error_details :: "(json \<Rightarrow> string) \<Rightarrow> string \<Rightarrow> stream_id \<Rightarrow> exn \<Rightarrow> action_error" where
  "error_details to_json ref sid exc =
     (let fallback = (\<lambda>message. new_error ref message (exn_class exc) sid) in
      if exn_app exc \<and> exn_details exc \<noteq> [] then
        (case hd (exn_details exc) of
           JObj d \<Rightarrow>
             if list_all (\<lambda>k. k \<in> set (dkeys d)) [''ref'', ''message'', ''type''] then
               (case error_from_kwargs d of
                  Inr e \<Rightarrow> e
                | Inl msg \<Rightarrow> fallback (''Failed to parse regular application error details: '' @ msg @ ''.''
                               @ nl @ to_json (JObj d)))
             else
               (case d of
                  (_, JObj v) # _ \<Rightarrow>
                    (case error_from_kwargs v of
                       Inr e \<Rightarrow> e
                     | Inl _ \<Rightarrow> fallback (''Child workflow error details are not a dictionary.'' @ nl @ ''Got: '' @ to_json (JObj d)))
                | _ \<Rightarrow> fallback (''Child workflow error details are not a dictionary.'' @ nl @ ''Got: '' @ to_json (JObj d)))
         | v \<Rightarrow> fallback (''Application error details are not a dictionary.'' @ nl @ ''Got: '' @ to_json v))
      else fallback (exn_str exc))"

text \<open>
  With an error edge the failure is routed along it. Otherwise it fails the workflow when the task
  runs in the root stream, and ends the stream it runs in when it does not.
\<close>

definition handle_error_path :: "sched \<Rightarrow> task \<Rightarrow> exn \<Rightarrow> sstate \<Rightarrow> sstate" where
  "handle_error_path sch t exc s =
     (let ref = t_ref t; sid = t_stream t; non_err = out_edges sch ref sid (\<lambda>ty. ty \<noteq> Error) in
      if card non_err < length (adj_of sch ref) then queue_tasks sch t non_err s
      else
        let info = \<lparr>ei_exception = exc, ei_details = error_details (sch_to_json sch) ref sid exc\<rparr> in
        if sid = ROOT_STREAM then s\<lparr>st_task_exceptions := dset ref info (st_task_exceptions s)\<rparr>
        else queue_tasks sch t (out_edges sch ref sid (\<lambda>_. True))
               (s\<lparr>st_stream_exceptions := dset sid info (st_stream_exceptions s)\<rparr>))"

section \<open>Reachability\<close>

definition edge_has_marker :: "string \<Rightarrow> string \<Rightarrow> edge_marker \<Rightarrow> stream_id \<Rightarrow> sstate \<Rightarrow> bool" where
  "edge_has_marker dep dst m sid s =
     (case edge_components_from_dep dep of
        None \<Rightarrow> False
      | Some (src, ty) \<Rightarrow> st_edges s (mk_edge src dst ty sid) = m)"

definition is_reachable :: "task \<Rightarrow> action_stmt \<Rightarrow> sstate \<Rightarrow> bool" where
  "is_reachable t a s =
     (let n = length (stmt_depends_on a) in
      if n = 0 then True
      else if n = 1 then edge_has_marker (stmt_depends_on a ! 0) (t_ref t) Visited (t_stream t) s
      else
        let n_success = length (filter (\<lambda>dep. edge_has_marker dep (t_ref t) Visited (t_stream t) s) (stmt_depends_on a))
        in case stmt_join_strategy a of JoinAny \<Rightarrow> n_success > 0 | JoinAll \<Rightarrow> n_success = n)"

definition skip_should_propagate :: "task \<Rightarrow> action_stmt \<Rightarrow> sstate \<Rightarrow> bool" where
  "skip_should_propagate t a s =
     (stmt_depends_on a \<noteq> [] \<and>
      list_all (\<lambda>dep. edge_has_marker dep (t_ref t) Skipped (t_stream t) s) (stmt_depends_on a))"

section \<open>Stream aware lookup\<close>

text \<open>
  The walk from a stream to the root. A parent has a shorter identifier (\<open>hier_shrinks\<close>), so the
  length of the identifier bounds the walk.
\<close>

fun lookup_fuel :: "nat \<Rightarrow> sstate \<Rightarrow> string \<Rightarrow> stream_id option \<Rightarrow> task_result option" where
  "lookup_fuel fuel s ref None = None"
| "lookup_fuel 0 s ref (Some sid) = None"
| "lookup_fuel (Suc fuel) s ref (Some sid) =
     (case (case dget (st_streams s) sid of None \<Rightarrow> None | Some c \<Rightarrow> dget (ctx_actions c) ref) of
        Some r \<Rightarrow> Some r
      | None \<Rightarrow> lookup_fuel fuel s ref
          (case dget (st_hierarchy s) sid of None \<Rightarrow> None | Some p \<Rightarrow> p))"

definition stream_aware_result :: "sstate \<Rightarrow> string \<Rightarrow> stream_id \<Rightarrow> task_result option" where
  "stream_aware_result s ref sid = lookup_fuel (Suc (length sid)) s ref (Some sid)"

definition root_ctx :: "sstate \<Rightarrow> exec_ctx" where
  "root_ctx s = (case dget (st_streams s) ROOT_STREAM of None \<Rightarrow> stream_ctx [] | Some c \<Rightarrow> c)"

definition build_stream_aware_context ::
  "sched \<Rightarrow> sstate \<Rightarrow> action_stmt \<Rightarrow> stream_id \<Rightarrow> expr_error + exec_ctx" where
  "build_stream_aware_context sch s a sid =
     rbind (extract_expressions (sch_parse sch) (JObj (stmt_dump a)))
       (\<lambda>refs. Inr ((root_ctx s)\<lparr>ctx_actions :=
          concat (map (\<lambda>r. case stream_aware_result s r sid of None \<Rightarrow> [] | Some v \<Rightarrow> [(r, v)]) refs)\<rparr>))"

section \<open>Segments of a coroutine\<close>

text \<open>
  How a segment ends: at the next await, with a return, or with an exception (the changes made
  before it stay). The texts of the exceptions are those of the code; a missing key of a dictionary
  prints the task that was looked up.
\<close>

datatype seg = Await pc | Return | Raised exn

definition quoted :: "string \<Rightarrow> string" where
  "quoted s = [char_of (39::nat)] @ s @ [char_of (39::nat)]"

definition task_repr :: "string \<Rightarrow> stream_id \<Rightarrow> string" where
  "task_repr ref sid = ''Task(ref='' @ quoted ref @ '', stream_id='' @ quoted sid @ '', delay=0.0)''"

definition key_error :: "string \<Rightarrow> exn" where
  "key_error k = Exn ''KeyError'' False k [] None"

definition runtime_error :: "string \<Rightarrow> exn" where
  "runtime_error msg = Exn ''RuntimeError'' False msg [] None"

definition app_error :: "string \<Rightarrow> json list \<Rightarrow> exn" where
  "app_error msg details = Exn ''ApplicationError'' True msg details None"

text \<open>\<open>except ActivityError as e\<close>: the cause is raised when it is an application error.\<close>

definition unwrap_activity :: "exn \<Rightarrow> exn" where
  "unwrap_activity e =
     (if exn_class e = ''ActivityError''
      then (case exn_cause e of Some c \<Rightarrow> if exn_app c then c else e | None \<Rightarrow> e)
      else e)"

definition get_collection_size :: "stored \<Rightarrow> nat option" where
  "get_collection_size st =
     (case st of Collected n _ \<Rightarrow> Some n | Inline (JArr xs) \<Rightarrow> Some (length xs)
      | Slots xs \<Rightarrow> Some (length xs) | _ \<Rightarrow> None)"

definition action_ctx :: "sstate \<Rightarrow> stream_id \<Rightarrow> (string, task_result) dict option" where
  "action_ctx s sid = map_option ctx_actions (dget (st_streams s) sid)"

definition set_action :: "stream_id \<Rightarrow> string \<Rightarrow> task_result \<Rightarrow> sstate \<Rightarrow> sstate" where
  "set_action sid ref r s =
     (case dget (st_streams s) sid of
        None \<Rightarrow> s
      | Some c \<Rightarrow> s\<lparr>st_streams := dset sid (c\<lparr>ctx_actions := dset ref r (ctx_actions c)\<rparr>) (st_streams s)\<rparr>)"

subsection \<open>Scatter\<close>

definition new_stream :: "stream_id \<Rightarrow> stream_id \<Rightarrow> exec_ctx \<Rightarrow> sstate \<Rightarrow> sstate" where
  "new_stream new_sid sid c s =
     s\<lparr>st_hierarchy := dset new_sid (Some sid) (st_hierarchy s), st_streams := dset new_sid c (st_streams s)\<rparr>"

definition handle_scatter_skip_stream :: "sched \<Rightarrow> task \<Rightarrow> stream_id \<Rightarrow> sstate \<Rightarrow> sstate" where
  "handle_scatter_skip_stream sch t sid s =
     (let new_sid = stream_skip (t_ref t) (Some sid) in
      queue_tasks sch (mk_task (t_ref t) new_sid) (out_edges sch (t_ref t) new_sid (\<lambda>_. True))
        (new_stream new_sid sid (stream_ctx []) s))"

definition start_scatter :: "sched \<Rightarrow> task \<Rightarrow> action_stmt \<Rightarrow> sstate \<Rightarrow> sstate \<times> seg" where
  "start_scatter sch t a s =
     (case sch_scatter_args sch a of
        Inl e \<Rightarrow> (s, Raised e)
      | Inr args \<Rightarrow>
          (case dget (st_streams s) (t_stream t) of
             None \<Rightarrow> (s, Raised (key_error (quoted (t_stream t))))
           | Some c \<Rightarrow> (s, Await (P_scatter args c))))"

text \<open>One round of the loop over the collection: a new stream, and its first tasks with their delay.\<close>

definition scatter_round :: "sched \<Rightarrow> task \<Rightarrow> scatter_args \<Rightarrow> stored \<Rightarrow> nat \<Rightarrow> sstate \<Rightarrow> sstate" where
  "scatter_round sch t args coll i s =
     (let sid = t_stream t;
          new_sid = stream_new (t_ref t) (Idx (int i)) (Some sid);
          streams = (case dget (st_task_streams s) (tkey t) of None \<Rightarrow> [] | Some xs \<Rightarrow> xs);
          s1 = s\<lparr>st_task_streams := dset (tkey t) (streams @ [new_sid]) (st_task_streams s)\<rparr>;
          s2 = new_stream new_sid sid
                 (stream_ctx [(t_ref t, from_collection_item coll i ''collection_item'')]) s1;
          delay = of_nat i * (case sa_interval args of None \<Rightarrow> 0 | Some d \<Rightarrow> d)
      in queue_tasks sch \<lparr>t_ref = t_ref t, t_stream = new_sid, t_delay = delay\<rparr> {} s2)"

definition scatter_collected :: "sched \<Rightarrow> task \<Rightarrow> scatter_args \<Rightarrow> stored \<Rightarrow> sstate \<Rightarrow> sstate \<times> seg" where
  "scatter_collected sch t args coll s =
     (let s1 = s\<lparr>st_task_streams := dset (tkey t) [] (st_task_streams s)\<rparr> in
      case get_collection_size coll of
        None \<Rightarrow> (s1, Raised (Exn ''TypeError'' False
                  ''Expected CollectionObject or InlineObject with list data'' [] None))
      | Some n \<Rightarrow>
          if n = 0 then
            (handle_scatter_skip_stream sch t (t_stream t)
               (s1\<lparr>st_open_streams := dset (tkey t) 0 (st_open_streams s1)\<rparr>), Return)
          else (scatter_round sch t args coll 0 s1, Await (P_scatter_loop args coll 1 n)))"

definition scatter_next :: "sched \<Rightarrow> task \<Rightarrow> scatter_args \<Rightarrow> stored \<Rightarrow> nat \<Rightarrow> nat \<Rightarrow> sstate \<Rightarrow> sstate \<times> seg" where
  "scatter_next sch t args coll i n s =
     (if i < n then (scatter_round sch t args coll i s, Await (P_scatter_loop args coll (Suc i) n))
      else (s\<lparr>st_open_streams := dset (tkey t)
              (int (length (case dget (st_task_streams s) (tkey t) of None \<Rightarrow> [] | Some xs \<Rightarrow> xs)))
              (st_open_streams s)\<rparr>, Return))"

subsection \<open>Gather\<close>

definition parent_stream :: "sstate \<Rightarrow> task \<Rightarrow> stream_id \<Rightarrow> exn + stream_id" where
  "parent_stream s t sid =
     (case dget (st_hierarchy s) sid of
        None \<Rightarrow> Inl (key_error (quoted sid))
      | Some None \<Rightarrow> Inl (runtime_error ''Invalid state: Gather encountered in skip stream with no parent stream'')
      | Some (Some p) \<Rightarrow> Inr p)"

text \<open>
  The list of slots in the parent's context is created by the first stream that arrives, with one
  slot per stream of the scatter; then the item is stored at the index of the arriving stream.
\<close>

definition list_assign :: "stored option list \<Rightarrow> stream_index \<Rightarrow> stored \<Rightarrow> exn + stored option list" where
  "list_assign xs idx item =
     (case idx of
        SkipToken \<Rightarrow> Inl (Exn ''TypeError'' False ''list indices must be integers or slices, not str'' [] None)
      | Idx i \<Rightarrow>
          (let n = int (length xs); j = (if i < 0 then i + n else i) in
           if 0 \<le> j \<and> j < n then Inr (xs[nat j := Some item])
           else Inl (Exn ''IndexError'' False ''list assignment index out of range'' [] None)))"

definition set_slot :: "stream_id \<Rightarrow> string \<Rightarrow> tkey \<Rightarrow> stream_index \<Rightarrow> stored \<Rightarrow> sstate \<Rightarrow> sstate \<times> exn option" where
  "set_slot parent gref scatter idx item s =
     (case action_ctx s parent of
        None \<Rightarrow> (s, Some (key_error (quoted parent)))
      | Some acts \<Rightarrow>
          (let size = length (case dget (st_task_streams s) scatter of None \<Rightarrow> [] | Some xs \<Rightarrow> xs);
               s1 = (if gref \<in> set (dkeys acts) then s
                     else set_action parent gref (from_slots (replicate size None)) s)
           in case (case action_ctx s1 parent of None \<Rightarrow> None | Some acts1 \<Rightarrow> dget acts1 gref) of
                None \<Rightarrow> (s1, Some (key_error (quoted gref)))
              | Some r \<Rightarrow>
                  (case tr_result r of
                     Slots xs \<Rightarrow>
                       (case list_assign xs idx item of
                          Inl e \<Rightarrow> (s1, Some e)
                        | Inr ys \<Rightarrow> (set_action parent gref (r\<lparr>tr_result := Slots ys\<rparr>) s1, None))
                   | Inline _ \<Rightarrow> (s1, Some (Exn ''TypeError'' False ''object does not support item assignment'' [] None))
                   | _ \<Rightarrow> (s1, Some (Exn ''ValueError'' False
                        ''Cannot get data from ExternalObject. Use materialize_operand() first.'' [] None)))))"

text \<open>The set slots; only the list of slots holds values that validate as stored objects.\<close>

definition filled_slots :: "task_result \<Rightarrow> exn + stored list" where
  "filled_slots r =
     (case tr_result r of
        Slots xs \<Rightarrow> Inr (map the (filter (\<lambda>x. x \<noteq> None) xs))
      | Inline v \<Rightarrow> if v = JArr [] then Inr [] else Inl (Exn ''ValidationError'' False ''StoredObject'' [] None)
      | _ \<Rightarrow> Inl (Exn ''ValueError'' False
               ''Cannot get data from ExternalObject. Use materialize_operand() first.'' [] None))"

definition handle_gather_result ::
  "task \<Rightarrow> gather_args \<Rightarrow> stream_id \<Rightarrow> sstate \<Rightarrow> sstate \<times> seg" where
  "handle_gather_result t args parent s =
     (case action_ctx s parent of
        None \<Rightarrow> (s, Raised (key_error (quoted parent)))
      | Some acts \<Rightarrow>
          (let r = (case dget acts (t_ref t) of None \<Rightarrow> from_slots [] | Some r \<Rightarrow> r);
               s1 = (if t_ref t \<in> set (dkeys acts) then s else set_action parent (t_ref t) r s)
           in case filled_slots r of
                Inl e \<Rightarrow> (s1, Raised e)
              | Inr items \<Rightarrow> (s1, Await (P_gather_final args parent items r))))"

text \<open>The end of a stream: when it was the last one, the gather is finalised.\<close>

definition close_check ::
  "task \<Rightarrow> gather_args \<Rightarrow> stream_id \<Rightarrow> tkey \<Rightarrow> sstate \<Rightarrow> sstate \<times> seg" where
  "close_check t args parent scatter s =
     (case dget (st_open_streams s) scatter of
        None \<Rightarrow> (s, Raised (key_error (task_repr (fst scatter) (snd scatter))))
      | Some n \<Rightarrow> if n = 0 then handle_gather_result t args parent s else (s, Return))"

definition handle_gather_skip_stream ::
  "sched \<Rightarrow> task \<Rightarrow> action_stmt \<Rightarrow> stream_id \<Rightarrow> sstate \<Rightarrow> sstate \<times> seg" where
  "handle_gather_skip_stream sch t a sid s =
     (case parent_stream s t sid of
        Inl e \<Rightarrow> (s, Raised e)
      | Inr parent \<Rightarrow>
          (case (action_ctx s parent, stream_leaf sid) of
             (None, _) \<Rightarrow> (s, Raised (key_error (quoted parent)))
           | (_, None) \<Rightarrow> (s, Raised (Exn ''ValueError'' False ''Invalid stream'' [] None))
           | (_, Some (scatter_ref, idx)) \<Rightarrow>
               (let scatter = (scatter_ref, parent);
                    (s1, err) =
                      (case dget (st_stream_exceptions s) sid of
                         None \<Rightarrow> (s, None)
                       | Some info \<Rightarrow>
                           set_slot parent (t_ref t) scatter idx
                             (Inline (dump_error (ei_details info))) s)
                in case err of
                     Some e \<Rightarrow> (s1, Raised e)
                   | None \<Rightarrow>
                       (case dget (st_open_streams s1) scatter of
                          None \<Rightarrow> (s1, Raised (key_error (task_repr scatter_ref parent)))
                        | Some n \<Rightarrow>
                            if n = 0 then
                              (case sch_gather_args sch a of
                                 Inl e \<Rightarrow> (s1, Raised e)
                               | Inr args \<Rightarrow> handle_gather_result t args parent s1)
                            else (s1, Return)))))"

definition decr_open :: "tkey \<Rightarrow> sstate \<Rightarrow> sstate \<times> exn option" where
  "decr_open scatter s =
     (case dget (st_open_streams s) scatter of
        None \<Rightarrow> (s, Some (key_error (task_repr (fst scatter) (snd scatter))))
      | Some n \<Rightarrow> (s\<lparr>st_open_streams := dset scatter (n - 1) (st_open_streams s)\<rparr>, None))"

definition handle_gather ::
  "sched \<Rightarrow> task \<Rightarrow> action_stmt \<Rightarrow> bool \<Rightarrow> sstate \<Rightarrow> sstate \<times> seg" where
  "handle_gather sch t a is_skipping s =
     (let sid = t_stream t in
      if sid = ROOT_STREAM then
        (s, Raised (runtime_error
           (if is_skipping then ''We are skipping but we should be in a skip stream''
            else ''Found gather in root stream but not skipping: '' @ task_repr (t_ref t) sid
                   @ ''. User has probably made a mistake'')))
      else if sid \<noteq> [] \<and> endswith sid '':skip'' then
        (case parent_stream s t sid of
           Inl e \<Rightarrow> (s, Raised e)
         | Inr parent \<Rightarrow>
             (case stream_leaf sid of
                None \<Rightarrow> (s, Raised (Exn ''ValueError'' False ''Invalid stream'' [] None))
              | Some (scatter_ref, _) \<Rightarrow>
                  if (scatter_ref, parent) \<in> set (dkeys (st_open_streams s)) then
                    (if action_ctx s parent = None then (s, Raised (key_error (quoted parent)))
                     else (s, Await (P_gather_empty parent)))
                  else (queue_tasks sch t (out_edges sch (t_ref t) sid (\<lambda>_. True)) s, Return)))
      else if sid \<noteq> [] then
        (case parent_stream s t sid of
           Inl e \<Rightarrow> (s, Raised e)
         | Inr parent \<Rightarrow>
             (case stream_leaf sid of
                None \<Rightarrow> (s, Raised (Exn ''ValueError'' False ''Invalid stream'' [] None))
              | Some (scatter_ref, _) \<Rightarrow>
                  if is_skipping then
                    (case decr_open (scatter_ref, parent) s of
                       (s1, Some e) \<Rightarrow> (s1, Raised e)
                     | (s1, None) \<Rightarrow> handle_gather_skip_stream sch t a sid s1)
                  else
                    (case sch_gather_args sch a of
                       Inl e \<Rightarrow> (s, Raised e)
                     | Inr args \<Rightarrow>
                         (case dget (st_streams s) sid of
                            None \<Rightarrow> (s, Raised (key_error (quoted sid)))
                          | Some c \<Rightarrow> (s, Await (P_gather_item args parent c))))))
      else (s, Raised (app_error ''Invalid gather state'' [])))"

text \<open>The item of a stream has been evaluated: the stream is closed and its slot filled.\<close>

definition gather_item ::
  "task \<Rightarrow> gather_args \<Rightarrow> stream_id \<Rightarrow> stored \<Rightarrow> sstate \<Rightarrow> sstate \<times> seg" where
  "gather_item t args parent item s =
     (case stream_leaf (t_stream t) of
        None \<Rightarrow> (s, Raised (Exn ''ValueError'' False ''Invalid stream'' [] None))
      | Some (scatter_ref, idx) \<Rightarrow>
          (case decr_open (scatter_ref, parent) s of
             (s1, Some e) \<Rightarrow> (s1, Raised e)
           | (s1, None) \<Rightarrow>
               (case set_slot parent (t_ref t) (scatter_ref, parent) idx item s1 of
                  (s2, Some e) \<Rightarrow> (s2, Raised e)
                | (s2, None) \<Rightarrow> close_check t args parent (scatter_ref, parent) s2)))"

definition gather_final ::
  "task \<Rightarrow> gather_args \<Rightarrow> stream_id \<Rightarrow> task_result \<Rightarrow> stored \<Rightarrow> string option \<Rightarrow> json list \<Rightarrow> sstate \<Rightarrow> sstate \<times> seg" where
  "gather_final t args parent r res ty errors s =
     (if ga_error_strategy args = Raise \<and> errors \<noteq> [] then
        (let message = ''Gather '' @ quoted (t_ref t) @ '' encountered '' @ show_nat (length errors) @ '' error(s)'';
             err = (new_error (t_ref t) message ''ApplicationError'' parent)\<lparr>ae_children := JArr errors\<rparr>;
             exc = app_error message [JObj [(t_ref t, dump_error err)]]
         in (s\<lparr>st_task_exceptions := dset (t_ref t) \<lparr>ei_exception = exc, ei_details = err\<rparr> (st_task_exceptions s)\<rparr>,
             Raised exc))
      else
        (let r1 = r\<lparr>tr_result := res, tr_typename := (case ty of Some n \<Rightarrow> (if n = [] then ''list'' else n) | None \<Rightarrow> ''list'')\<rparr>;
             r2 = (if errors \<noteq> [] then r1\<lparr>tr_error := JArr errors, tr_error_typename := Some ''list''\<rparr> else r1)
         in (set_action parent (t_ref t) r2 s, Await (P_gather_exec parent))))"

definition gather_empty ::
  "sched \<Rightarrow> task \<Rightarrow> stream_id \<Rightarrow> stored \<Rightarrow> string option \<Rightarrow> sstate \<Rightarrow> sstate \<times> seg" where
  "gather_empty sch t parent res ty s =
     (let tn = (case ty of Some n \<Rightarrow> (if n = [] then ''list'' else n) | None \<Rightarrow> ''list'');
          s1 = set_action parent (t_ref t) (from_stored res tn) s
      in (queue_tasks sch (mk_task (t_ref t) parent) {} s1, Return))"

subsection \<open>A whole coroutine\<close>

definition handle_skip_path :: "sched \<Rightarrow> task \<Rightarrow> action_stmt \<Rightarrow> sstate \<Rightarrow> sstate \<times> seg" where
  "handle_skip_path sch t a s =
     (if is_scatter a then (handle_scatter_skip_stream sch t (t_stream t) s, Return)
      else if is_gather a then handle_gather sch t a True s
      else (queue_tasks sch t (out_edges sch (t_ref t) (t_stream t) (\<lambda>_. True)) s, Return))"

text \<open>After the checks and the delay: scatter, gather, or the executor.\<close>

definition run_action :: "sched \<Rightarrow> task \<Rightarrow> action_stmt \<Rightarrow> sstate \<Rightarrow> sstate \<times> seg" where
  "run_action sch t a s =
     (if is_scatter a then start_scatter sch t a s
      else if is_gather a then handle_gather sch t a False s
      else (s, Await P_execute))"

definition after_checks :: "sched \<Rightarrow> task \<Rightarrow> rat \<Rightarrow> action_stmt \<Rightarrow> sstate \<Rightarrow> sstate \<times> seg" where
  "after_checks sch t delay a s =
     (if delay > 0 then (s, Await (P_sleep delay)) else run_action sch t a s)"

definition expr_exn :: "expr_error \<Rightarrow> exn" where
  "expr_exn e = (case e of ParseFailed x \<Rightarrow> Exn ''AllamaExpressionError'' False x [] None
                 | ExtractFailed x \<Rightarrow> Exn ''ValueError'' False x [] None)"

definition start_task :: "sched \<Rightarrow> task \<Rightarrow> rat \<Rightarrow> action_stmt \<Rightarrow> sstate \<Rightarrow> sstate \<times> seg" where
  "start_task sch t delay a s =
     (if skip_should_propagate t a s then handle_skip_path sch t a s
      else if \<not> is_reachable t a s then
        (s, Raised (Exn ''TaskUnreachable'' False
              (''Task '' @ task_repr (t_ref t) (t_stream t) @ '' is unreachable'') [] None))
      else case stmt_run_if a of
          None \<Rightarrow> after_checks sch t delay a s
        | Some e \<Rightarrow>
            (case build_stream_aware_context sch s a (t_stream t) of
               Inl x \<Rightarrow> (s, Raised (expr_exn x))
             | Inr c \<Rightarrow> (s, Await (P_run_if e c))))"

text \<open>The executor stores its result in the context of the stream, also when it fails.\<close>

definition store_executed :: "stream_id \<Rightarrow> string \<Rightarrow> task_result option \<Rightarrow> sstate \<Rightarrow> sstate" where
  "store_executed sid ref r s = (case r of None \<Rightarrow> s | Some v \<Rightarrow> set_action sid ref v s)"

text \<open>
  The continuation of each await. A reply of a kind the await does not expect is no behaviour of the
  code (\<open>None\<close>).
\<close>

definition resume_seg :: "sched \<Rightarrow> task \<Rightarrow> rat \<Rightarrow> action_stmt \<Rightarrow> pc \<Rightarrow> reply \<Rightarrow> sstate \<Rightarrow> (sstate \<times> seg) option" where
  "resume_seg sch t delay a k reply s =
     (case k of
        P_start \<Rightarrow> (case reply of R_woken \<Rightarrow> Some (start_task sch t delay a s) | _ \<Rightarrow> None)
      | P_run_if e c \<Rightarrow>
          (case reply of
             R_value v \<Rightarrow> Some (if truthy v then after_checks sch t delay a s else handle_skip_path sch t a s)
           | R_raise x \<Rightarrow>
               Some (s, Raised (app_error (''Error evaluating `run_if` condition: '' @ exn_str (unwrap_activity x)) []))
           | _ \<Rightarrow> None)
      | P_sleep d \<Rightarrow> (case reply of R_woken \<Rightarrow> Some (run_action sch t a s) | _ \<Rightarrow> None)
      | P_scatter args c \<Rightarrow>
          (case reply of
             R_stored coll \<Rightarrow> Some (scatter_collected sch t args coll s)
           | R_raise x \<Rightarrow> Some (s, Raised (unwrap_activity x))
           | _ \<Rightarrow> None)
      | P_scatter_loop args coll i n \<Rightarrow>
          (case reply of R_woken \<Rightarrow> Some (scatter_next sch t args coll i n s) | _ \<Rightarrow> None)
      | P_gather_empty parent \<Rightarrow>
          (case reply of
             R_finalized res ty errs \<Rightarrow> Some (gather_empty sch t parent res ty s)
           | R_raise x \<Rightarrow> Some (s, Raised x)
           | _ \<Rightarrow> None)
      | P_gather_item args parent c \<Rightarrow>
          (case reply of
             R_stored item \<Rightarrow> Some (gather_item t args parent item s)
           | R_raise x \<Rightarrow>
               Some (s, Raised (app_error
                 (''Error evaluating `items` expression in `core.transform.gather`: '' @ exn_str x) []))
           | _ \<Rightarrow> None)
      | P_gather_final args parent items r \<Rightarrow>
          (case reply of
             R_finalized res ty errs \<Rightarrow> Some (gather_final t args parent r res ty errs s)
           | R_raise x \<Rightarrow> Some (s, Raised x)
           | _ \<Rightarrow> None)
      | P_gather_exec parent \<Rightarrow>
          (case reply of
             R_executed r exc \<Rightarrow>
               (let s1 = store_executed parent (t_ref t) r s in
                Some (case exc of Some x \<Rightarrow> (s1, Raised x)
                      | None \<Rightarrow> (queue_tasks sch (mk_task (t_ref t) parent) {} s1, Return)))
           | _ \<Rightarrow> None)
      | P_execute \<Rightarrow>
          (case reply of
             R_executed r exc \<Rightarrow>
               (let s1 = store_executed (t_stream t) (t_ref t) r s in
                Some (case exc of Some x \<Rightarrow> (s1, Raised x) | None \<Rightarrow> (handle_success_path sch t s1, Return)))
           | _ \<Rightarrow> None))"

text \<open>
  A coroutine that returned, or whose exception went through the error path, is complete and leaves
  the pending tasks; one at an await stays, with its new program counter.
\<close>

definition finish :: "sched \<Rightarrow> nat \<Rightarrow> pending \<Rightarrow> sstate \<times> seg \<Rightarrow> sstate" where
  "finish sch i p r =
     (case r of
        (s, Await pc') \<Rightarrow> s\<lparr>st_pending := (st_pending s)[i := p\<lparr>p_pc := pc'\<rparr>]\<rparr>
      | (s, Return) \<Rightarrow>
          s\<lparr>st_completed := insert (tkey (p_task p)) (st_completed s),
            st_pending := take i (st_pending s) @ drop (Suc i) (st_pending s)\<rparr>
      | (s, Raised e) \<Rightarrow>
          (let s1 = handle_error_path sch (p_task p) e s in
           s1\<lparr>st_completed := insert (tkey (p_task p)) (st_completed s1),
              st_pending := take i (st_pending s1) @ drop (Suc i) (st_pending s1)\<rparr>))"

section \<open>The main loop\<close>

datatype event = Ev_dispatch | Ev_resume nat reply | Ev_cancel

text \<open>
  The loop creates a coroutine for the task at the head of the queue; the event loop runs a pending
  coroutine to its next await; once a task has failed the workflow the pending ones are cancelled
  (a coroutine that has started still records its task as completed).
\<close>

definition dispatch :: "sstate \<Rightarrow> sstate option" where
  "dispatch s =
     (case st_queue s of
        [] \<Rightarrow> None
      | t # q \<Rightarrow>
          if st_task_exceptions s \<noteq> [] then None
          else Some (s\<lparr>st_queue := q,
                 st_pending := st_pending s @ [\<lparr>p_task = t\<lparr>t_delay := 0\<rparr>, p_delay = t_delay t, p_pc = P_start\<rparr>]\<rparr>))"

definition resume :: "sched \<Rightarrow> nat \<Rightarrow> reply \<Rightarrow> sstate \<Rightarrow> sstate option" where
  "resume sch i r s =
     (if i < length (st_pending s) then
        (let p = st_pending s ! i in
         case dget (sch_tasks sch) (t_ref (p_task p)) of
           None \<Rightarrow> None
         | Some a \<Rightarrow> map_option (finish sch i p) (resume_seg sch (p_task p) (p_delay p) a (p_pc p) r s))
      else None)"

definition cancel_pending :: "sstate \<Rightarrow> sstate option" where
  "cancel_pending s =
     (if st_task_exceptions s = [] \<or> st_pending s = [] then None
      else Some (s\<lparr>st_completed := st_completed s \<union>
                     set (map (tkey \<circ> p_task) (filter (\<lambda>p. p_pc p \<noteq> P_start) (st_pending s))),
                   st_pending := []\<rparr>))"

fun exec_event :: "sched \<Rightarrow> sstate \<Rightarrow> event \<Rightarrow> sstate option" where
  "exec_event sch s Ev_dispatch = dispatch s"
| "exec_event sch s (Ev_resume i r) = resume sch i r s"
| "exec_event sch s Ev_cancel = cancel_pending s"

text \<open>A step of the system, and a run of it from a list of events.\<close>

inductive sched_step :: "sched \<Rightarrow> sstate \<Rightarrow> sstate \<Rightarrow> bool" for sch where
  step_dispatch: "dispatch s = Some s' \<Longrightarrow> sched_step sch s s'"
| step_resume: "resume sch i r s = Some s' \<Longrightarrow> sched_step sch s s'"
| step_cancel: "cancel_pending s = Some s' \<Longrightarrow> sched_step sch s s'"

inductive_cases sched_stepE: "sched_step sch s s'"

inductive reachable :: "sched \<Rightarrow> sstate \<Rightarrow> sstate \<Rightarrow> bool" for sch s0 where
  reach_init: "reachable sch s0 s0"
| reach_step: "reachable sch s0 s \<Longrightarrow> sched_step sch s s' \<Longrightarrow> reachable sch s0 s'"

fun run_events :: "sched \<Rightarrow> sstate \<Rightarrow> event list \<Rightarrow> sstate option" where
  "run_events sch s [] = Some s"
| "run_events sch s (e # es) = (case exec_event sch s e of None \<Rightarrow> None | Some s' \<Rightarrow> run_events sch s' es)"

text \<open>The loop has ended, and what \<open>start\<close> returns then: the exceptions, or nothing.\<close>

definition halted :: "sstate \<Rightarrow> bool" where
  "halted s \<longleftrightarrow> (if st_task_exceptions s = [] then st_queue s = [] \<and> st_pending s = [] else st_pending s = [])"

definition sched_result :: "sstate \<Rightarrow> (string, exc_info) dict option" where
  "sched_result s = (if st_task_exceptions s = [] then None else Some (st_task_exceptions s))"

lemma exec_event_step: "exec_event sch s e = Some s' \<Longrightarrow> sched_step sch s s'"
  by (cases e) (auto intro: sched_step.intros)

lemma sched_step_event: "sched_step sch s s' \<longleftrightarrow> (\<exists>e. exec_event sch s e = Some s')"
proof
  assume "sched_step sch s s'"
  then show "\<exists>e. exec_event sch s e = Some s'"
  proof cases
    case step_dispatch
    then show ?thesis by (intro exI [of _ Ev_dispatch]) simp
  next
    case (step_resume i r)
    then show ?thesis by (intro exI [of _ "Ev_resume i r"]) simp
  next
    case step_cancel
    then show ?thesis by (intro exI [of _ Ev_cancel]) simp
  qed
qed (auto intro: exec_event_step)

lemma run_events_reachable:
  "run_events sch s es = Some s' \<Longrightarrow> reachable sch s0 s \<Longrightarrow> reachable sch s0 s'"
  by (induction es arbitrary: s) (auto split: option.splits dest!: exec_event_step intro: reach_step)

end
