(* ===== verification/Dsl.thy ===== *)
theory Dsl
  imports Templates
begin

text \<open>
  Validation of a workflow definition (\<open>DSLInput\<close> in \<open>allama/dsl/common.py\<close>): structural
  checks, references in dependencies and expressions, and the scatter-gather scopes, which are
  assigned along a topological order of the actions.
\<close>

section \<open>Definitions under validation\<close>

record dsl_input =
  dsl_actions :: "action_stmt list"

datatype dsl_error =
    NoActions
  | DuplicateRefs "string list"
  | NoEntrypoints
  | InvalidDependsOn string string
  | InvalidDepRefs "string list"
  | ExprFailed expr_error
  | UnknownActionRef string string string
  | MoreGathersThanScatters
  | GatherInRootScope string
  | MultipleScopes string string string
  | ScopeCycle
  | ScatterEdgeScope string string
  | GatherEdgeScope string string
  | EdgeScope string string
  | ScatterExprScope string string string
  | GatherExprScope string string string
  | ExprScope string string string
  | KeyErr string

definition key2loc :: "string \<Rightarrow> string" where
  "key2loc key = (if key = ''args'' then ''inputs'' else key)"

abbreviation action_refs :: "dsl_input \<Rightarrow> string list" where
  "action_refs d \<equiv> map stmt_ref (dsl_actions d)"

definition dep_components :: "action_stmt \<Rightarrow> adj_dst option list" where
  "dep_components a = map edge_components_from_dep (stmt_depends_on a)"

text \<open>The source references of the dependencies that parse.\<close>

definition dep_srcs :: "action_stmt \<Rightarrow> string list" where
  "dep_srcs a = map fst (map the (filter (\<lambda>c. c \<noteq> None) (dep_components a)))"

section \<open>Structure\<close>

fun count_refs :: "action_stmt list \<Rightarrow> (string, int) dict \<Rightarrow> (string, int) dict" where
  "count_refs [] counter = counter"
| "count_refs (a # as) counter =
     count_refs as (dset (stmt_ref a) ((case dget counter (stmt_ref a) of None \<Rightarrow> 0 | Some n \<Rightarrow> n) + 1) counter)"

definition duplicate_refs :: "dsl_input \<Rightarrow> string list" where
  "duplicate_refs d = map fst (filter (\<lambda>(k, v). v > 1) (count_refs (dsl_actions d) []))"

definition check_deps_parse :: "dsl_input \<Rightarrow> dsl_error option" where
  "check_deps_parse d =
     first_error (\<lambda>a. first_error
       (\<lambda>dep. case edge_components_from_dep dep of
                None \<Rightarrow> Some (InvalidDependsOn dep (stmt_ref a)) | Some _ \<Rightarrow> None)
       (stmt_depends_on a)) (dsl_actions d)"

definition invalid_deps :: "dsl_input \<Rightarrow> string list" where
  "invalid_deps d =
     remdups (filter (\<lambda>s. s \<notin> set (action_refs d)) (concat (map dep_srcs (dsl_actions d))))"

definition all_action_expressions_valid :: "expr_parser \<Rightarrow> dsl_input \<Rightarrow> dsl_error option" where
  "all_action_expressions_valid parse d =
     first_error (\<lambda>a. first_error
       (\<lambda>(key, value). case extract_expressions parse value of
           Inl e \<Rightarrow> Some (ExprFailed e)
         | Inr deps \<Rightarrow> first_error
             (\<lambda>dep. check_that (dep \<in> set (action_refs d))
               (UnknownActionRef (stmt_ref a) (key2loc key) dep)) deps)
       (stmt_dump a)) (dsl_actions d)"

section \<open>Scopes\<close>

text \<open>\<open>_to_adjacency\<close>: a reference outside the definition is a \<open>KeyError\<close>.\<close>

definition add_dep :: "string \<Rightarrow> string \<Rightarrow> (string, string list) dict \<Rightarrow> dsl_error + (string, string list) dict" where
  "add_dep target dep adj =
     (case edge_components_from_dep dep of
        None \<Rightarrow> Inl (InvalidDependsOn dep target)
      | Some (src, _) \<Rightarrow>
          (case dget adj src of
             None \<Rightarrow> Inl (KeyErr src)
           | Some outs \<Rightarrow> Inr (dset src (outs @ [target]) adj)))"

fun init_adj :: "action_stmt list \<Rightarrow> (string, string list) dict \<Rightarrow> (string, string list) dict" where
  "init_adj [] adj = adj"
| "init_adj (a # as) adj = init_adj as (dset (stmt_ref a) [] adj)"

definition to_adjacency :: "dsl_input \<Rightarrow> dsl_error + (string, string list) dict" where
  "to_adjacency d =
     rfold (\<lambda>a. rfold (add_dep (stmt_ref a)) (stmt_depends_on a)) (dsl_actions d)
       (init_adj (dsl_actions d) [])"

definition ROOT_SCOPE :: string where "ROOT_SCOPE = ''<root>''"

type_synonym scopes = "(string, string) dict"
type_synonym hierarchy = "(string, string option) dict"

definition assign_scope :: "string \<Rightarrow> string \<Rightarrow> scopes \<Rightarrow> dsl_error + scopes" where
  "assign_scope ref scope scopes =
     (case dget scopes ref of
        None \<Rightarrow> Inr (dset ref scope scopes)
      | Some old \<Rightarrow> if old \<noteq> scope then Inl (MultipleScopes ref old scope) else Inr scopes)"

text \<open>One visited action: its own scope, the hierarchy, and the scope its successors start in.\<close>

definition visit_scope ::
  "action_stmt \<Rightarrow> string \<Rightarrow> scopes \<Rightarrow> hierarchy \<Rightarrow> dsl_error + (scopes \<times> hierarchy \<times> string)" where
  "visit_scope stmt curr_scope scopes hier =
     (let ref = stmt_ref stmt in
      if is_scatter stmt then
        rbind (assign_scope ref ref scopes) (\<lambda>sc. Inr (sc, dset ref (Some curr_scope) hier, ref))
      else if is_gather stmt then
        (case dget hier curr_scope of
           Some (Some next_scope) \<Rightarrow>
             rbind (assign_scope ref next_scope scopes) (\<lambda>sc. Inr (sc, hier, next_scope))
         | _ \<Rightarrow> Inl (GatherInRootScope ref))
      else rbind (assign_scope ref curr_scope scopes) (\<lambda>sc. Inr (sc, hier, curr_scope)))"

text \<open>The successors of a visited action: indegrees go down, and those that reach zero are queued.\<close>

type_synonym topo_queue = "(string \<times> string) list"

fun release_next ::
  "string \<Rightarrow> string list \<Rightarrow> (string, int) dict \<Rightarrow> topo_queue \<Rightarrow> dsl_error + ((string, int) dict \<times> topo_queue)" where
  "release_next scope [] indeg q = Inr (indeg, q)"
| "release_next scope (n # ns) indeg q =
     (case dget indeg n of
        None \<Rightarrow> Inl (KeyErr n)
      | Some k \<Rightarrow> release_next scope ns (dset n (k - 1) indeg)
                     (if k - 1 = 0 then q @ [(n, scope)] else q))"

definition positive_count :: "(string, int) dict \<Rightarrow> nat" where
  "positive_count indeg = length (filter (\<lambda>kv. snd kv > 0) indeg)"

lemma positive_count_dset:
  "dget indeg n = Some k \<Longrightarrow>
   positive_count (dset n (k - 1) indeg) + (if k - 1 = 0 then 1 else 0) = positive_count indeg"
  by (induction indeg) (auto simp: positive_count_def)

lemma release_next_measure:
  "release_next scope ns indeg q = Inr (indeg', q') \<Longrightarrow>
   positive_count indeg' + length q' = positive_count indeg + length q"
proof (induction scope ns indeg q rule: release_next.induct)
  case (1 scope indeg q)
  then show ?case by simp
next
  case (2 scope n ns indeg q)
  then obtain k where k: "dget indeg n = Some k" by (auto split: option.splits)
  with 2 positive_count_dset [OF k] show ?case by (fastforce split: if_splits)
qed

function assign_loop ::
  "(string, action_stmt) dict \<Rightarrow> (string, string list) dict \<Rightarrow> topo_queue \<Rightarrow> (string, int) dict \<Rightarrow>
   scopes \<Rightarrow> hierarchy \<Rightarrow> string list \<Rightarrow> dsl_error + (scopes \<times> hierarchy \<times> string list)" where
  "assign_loop stmts adj [] indeg scopes hier visited = Inr (scopes, hier, visited)"
| "assign_loop stmts adj ((ref, curr_scope) # q) indeg scopes hier visited =
     (case dget stmts ref of
        None \<Rightarrow> Inl (KeyErr ref)
      | Some stmt \<Rightarrow>
          (case visit_scope stmt curr_scope scopes hier of
             Inl e \<Rightarrow> Inl e
           | Inr (scopes', hier', next_scope) \<Rightarrow>
               (case release_next next_scope (case dget adj ref of None \<Rightarrow> [] | Some ns \<Rightarrow> ns) indeg q of
                  Inl e \<Rightarrow> Inl e
                | Inr (indeg', q') \<Rightarrow> assign_loop stmts adj q' indeg' scopes' hier' (visited @ [ref]))))"
  by pat_completeness auto
termination
  by (relation "measure (\<lambda>(stmts, adj, q, indeg, scopes, hier, visited). positive_count indeg + length q)")
    (auto dest!: release_next_measure)

text \<open>
  \<open>_assign_action_scopes\<close>. The loop returns the visited references instead of only counting
  them; the count is their number.
\<close>

definition init_indegrees :: "dsl_input \<Rightarrow> (string, int) dict" where
  "init_indegrees d =
     foldl (\<lambda>m a. dset (stmt_ref a) (int (length (stmt_depends_on a))) m) [] (dsl_actions d)"

definition assign_action_scopes ::
  "dsl_input \<Rightarrow> (string, string list) dict \<Rightarrow> dsl_error + (scopes \<times> hierarchy)" where
  "assign_action_scopes d adj =
     (let stmts = foldl (\<lambda>m a. dset (stmt_ref a) a m) [] (dsl_actions d);
          indeg = init_indegrees d;
          q = map (\<lambda>(r, k). (r, ROOT_SCOPE)) (filter (\<lambda>(r, k). k = 0) indeg)
      in rbind (assign_loop stmts adj q indeg [] [(ROOT_SCOPE, None)] [])
           (\<lambda>(scopes, hier, visited).
              if length visited \<noteq> length (dsl_actions d) then Inl ScopeCycle else Inr (scopes, hier)))"

text \<open>
  Looking up a scope: every reference that is asked for has been validated, so the dictionaries of
  the source have the key; a missing one is kept as a value of its own.
\<close>

definition ancestor_step :: "hierarchy \<Rightarrow> string \<Rightarrow> string option" where
  "ancestor_step hier s = (case dget hier s of None \<Rightarrow> None | Some p \<Rightarrow> p)"

text \<open>
  The walk from a scope to the root. The hierarchy is a tree (see \<open>hier_ok\<close> in Dsl_Correct), so the
  number of its entries bounds the length of the walk.
\<close>

fun is_ancestor :: "nat \<Rightarrow> hierarchy \<Rightarrow> string \<Rightarrow> string option \<Rightarrow> bool" where
  "is_ancestor fuel hier dep None = False"
| "is_ancestor 0 hier dep (Some s) = (dep = s)"
| "is_ancestor (Suc fuel) hier dep (Some s) =
     (dep = s \<or> is_ancestor fuel hier dep (ancestor_step hier s))"

definition edge_scope_check ::
  "scopes \<Rightarrow> hierarchy \<Rightarrow> action_stmt \<Rightarrow> string \<Rightarrow> dsl_error option" where
  "edge_scope_check scopes hier a dep =
     (case edge_components_from_dep dep of
        None \<Rightarrow> Some (InvalidDependsOn dep (stmt_ref a))
      | Some (dep_ref, _) \<Rightarrow>
          (case (dget scopes (stmt_ref a), dget scopes dep_ref) of
             (Some action_scope, Some dep_scope) \<Rightarrow>
               if is_scatter a then
                 (case dget hier action_scope of
                    None \<Rightarrow> Some (KeyErr action_scope)
                  | Some p \<Rightarrow> check_that (p = Some dep_scope) (ScatterEdgeScope (stmt_ref a) dep))
               else if is_gather a then
                 (case dget hier dep_scope of
                    None \<Rightarrow> Some (KeyErr dep_scope)
                  | Some p \<Rightarrow> check_that (p = Some action_scope) (GatherEdgeScope (stmt_ref a) dep))
               else check_that (dep_scope = action_scope) (EdgeScope (stmt_ref a) dep)
           | _ \<Rightarrow> Some (KeyErr dep_ref)))"

definition expr_scope_check ::
  "scopes \<Rightarrow> hierarchy \<Rightarrow> action_stmt \<Rightarrow> string \<Rightarrow> string \<Rightarrow> dsl_error option" where
  "expr_scope_check scopes hier a key dep =
     (case (dget scopes (stmt_ref a), dget scopes dep) of
        (Some action_scope, Some dep_scope) \<Rightarrow>
          if is_scatter a then
            (case dget hier action_scope of
               None \<Rightarrow> Some (KeyErr action_scope)
             | Some p \<Rightarrow> check_that (p = Some dep_scope) (ScatterExprScope (stmt_ref a) (key2loc key) dep))
          else if is_gather a then
            (case dget hier dep_scope of
               None \<Rightarrow> Some (KeyErr dep_scope)
             | Some p \<Rightarrow> check_that (p = Some action_scope) (GatherExprScope (stmt_ref a) (key2loc key) dep))
          else check_that (is_ancestor (length hier) hier dep_scope (Some action_scope))
                 (ExprScope (stmt_ref a) (key2loc key) dep)
      | _ \<Rightarrow> Some (KeyErr dep))"

definition validate_scope_dependencies ::
  "expr_parser \<Rightarrow> dsl_input \<Rightarrow> scopes \<Rightarrow> hierarchy \<Rightarrow> dsl_error option" where
  "validate_scope_dependencies parse d scopes hier =
     first_error (\<lambda>a. also_check
       (first_error (edge_scope_check scopes hier a) (stmt_depends_on a))
       (first_error
         (\<lambda>(key, value). case extract_expressions parse value of
             Inl e \<Rightarrow> Some (ExprFailed e)
           | Inr deps \<Rightarrow> first_error (expr_scope_check scopes hier a key) deps)
         (filter (\<lambda>(key, value). key \<noteq> ''depends_on'') (stmt_dump a))))
       (dsl_actions d)"

definition validate_scatter_gather_scopes :: "expr_parser \<Rightarrow> dsl_input \<Rightarrow> dsl_error option" where
  "validate_scatter_gather_scopes parse d =
     (let scatters = filter is_scatter (dsl_actions d);
          gathers = filter is_gather (dsl_actions d)
      in if length gathers > length scatters then Some MoreGathersThanScatters
         else if scatters = [] then None
         else case to_adjacency d of
                Inl e \<Rightarrow> Some e
              | Inr adj \<Rightarrow>
                  (case assign_action_scopes d adj of
                     Inl e \<Rightarrow> Some e
                   | Inr (scopes, hier) \<Rightarrow> validate_scope_dependencies parse d scopes hier))"

definition validate_structure :: "expr_parser \<Rightarrow> dsl_input \<Rightarrow> dsl_error option" where
  "validate_structure parse d =
     (if dsl_actions d = [] then Some NoActions
      else if length (remdups (action_refs d)) \<noteq> length (dsl_actions d) then Some (DuplicateRefs (duplicate_refs d))
      else if length (filter (\<lambda>a. stmt_depends_on a = []) (dsl_actions d)) = 0 then Some NoEntrypoints
      else also_check (check_deps_parse d)
             (also_check (check_that (invalid_deps d = []) (InvalidDepRefs (invalid_deps d)))
               (also_check (all_action_expressions_valid parse d)
                 (validate_scatter_gather_scopes parse d))))"

end
