(* ===== verification/Dsl_Correct.thy ===== *)
theory Dsl_Correct
  imports Dsl
begin

text \<open>
  What validation of a workflow definition establishes. The scope assignment is Kahn's algorithm
  with scopes carried along; \<open>kahn_inv\<close> is its invariant over the visited references, the
  queue and the remaining indegrees. An accepted definition with a scatter has a topological order,
  a rejected cycle has none, and the lookups the code performs with \<open>dict[...]\<close> never fail.
\<close>

section \<open>Edges and adjacency\<close>

definition dep_edges :: "dsl_input \<Rightarrow> (string \<times> string) list" where
  "dep_edges d = concat (map (\<lambda>a. map (\<lambda>s. (s, stmt_ref a)) (dep_srcs a)) (dsl_actions d))"

definition deps_ok :: "dsl_input \<Rightarrow> bool" where
  "deps_ok d \<longleftrightarrow> distinct (action_refs d) \<and> check_deps_parse d = None \<and> invalid_deps d = []"

definition outs_of :: "(string \<times> string) list \<Rightarrow> string \<Rightarrow> string list" where
  "outs_of E s = map snd (filter (\<lambda>e. fst e = s) E)"

lemma outs_of_append [simp]: "outs_of (E @ F) s = outs_of E s @ outs_of F s"
  by (simp add: outs_of_def)

lemma count_list_outs_of: "count_list (outs_of E s) t = count_list E (s, t)"
  by (induction E) (auto simp: outs_of_def)

lemma dep_srcs_Cons:
  "dep_components a = Some (s, t) # cs \<Longrightarrow>
   dep_srcs a = s # map fst (map the (filter (\<lambda>c. c \<noteq> None) cs))"
  by (simp add: dep_srcs_def)

lemma add_dep_Inr:
  "add_dep t dep adj = Inr adj' \<longleftrightarrow>
   (\<exists>src ty outs. edge_components_from_dep dep = Some (src, ty) \<and> dget adj src = Some outs \<and>
      adj' = dset src (outs @ [t]) adj)"
  by (auto simp: add_dep_def split: option.splits)

lemma rfold_add_dep:
  assumes "rfold (add_dep t) deps adj = Inr adj'"
  shows "dget adj' s = map_option (\<lambda>outs. outs @
           outs_of (map (\<lambda>s. (s, t)) (map fst (map the (filter (\<lambda>c. c \<noteq> None)
             (map edge_components_from_dep deps))))) s) (dget adj s)"
  using assms
proof (induction deps arbitrary: adj)
  case Nil
  then show ?case by (simp add: outs_of_def option.map_ident)
next
  case (Cons dep deps)
  obtain src ty outs where c: "edge_components_from_dep dep = Some (src, ty)" "dget adj src = Some outs"
    and r: "rfold (add_dep t) deps (dset src (outs @ [t]) adj) = Inr adj'"
    using Cons.prems by (auto simp: rbind_Inr_iff add_dep_Inr)
  from Cons.IH [OF r] c show ?case by (auto simp: outs_of_def option.map_comp comp_def)
qed

lemma rfold_add_deps:
  assumes "rfold (\<lambda>a. rfold (add_dep (stmt_ref a)) (stmt_depends_on a)) as adj = Inr adj'"
  shows "dget adj' s = map_option (\<lambda>outs. outs @
           outs_of (concat (map (\<lambda>a. map (\<lambda>s. (s, stmt_ref a)) (dep_srcs a)) as)) s) (dget adj s)"
  using assms
proof (induction as arbitrary: adj)
  case Nil
  then show ?case by (simp add: outs_of_def option.map_ident)
next
  case (Cons a as)
  then obtain adj1 where 1: "rfold (add_dep (stmt_ref a)) (stmt_depends_on a) adj = Inr adj1"
    and 2: "rfold (\<lambda>a. rfold (add_dep (stmt_ref a)) (stmt_depends_on a)) as adj1 = Inr adj'"
    by (auto simp: rbind_Inr_iff)
  from Cons.IH [OF 2] rfold_add_dep [OF 1, of s] show ?case
    by (simp add: option.map_comp comp_def dep_srcs_def dep_components_def)
qed

lemma dget_init_adj:
  "dget (init_adj as adj) s = (if s \<in> set (map stmt_ref as) then Some [] else dget adj s)"
  by (induction as arbitrary: adj) auto

lemma to_adjacency_dget:
  assumes "to_adjacency d = Inr adj"
  shows "dget adj s = (if s \<in> set (action_refs d) then Some (outs_of (dep_edges d) s) else None)"
  using rfold_add_deps [of "dsl_actions d" _ adj s] assms
  by (simp add: to_adjacency_def dget_init_adj dep_edges_def)

lemma rfold_add_dep_ok:
  assumes "\<forall>dep\<in>set deps. \<exists>src ty. edge_components_from_dep dep = Some (src, ty) \<and> dget adj src \<noteq> None"
  shows "\<exists>adj'. rfold (add_dep t) deps adj = Inr adj' \<and> (\<forall>k. dget adj' k = None \<longleftrightarrow> dget adj k = None)"
  using assms
proof (induction deps arbitrary: adj)
  case Nil
  then show ?case by simp
next
  case (Cons dep deps)
  then obtain src ty outs where c: "edge_components_from_dep dep = Some (src, ty)" "dget adj src = Some outs"
    by auto
  have "\<exists>adj'. rfold (add_dep t) deps (dset src (outs @ [t]) adj) = Inr adj' \<and>
     (\<forall>k. dget adj' k = None \<longleftrightarrow> dget (dset src (outs @ [t]) adj) k = None)"
  proof (intro Cons.IH ballI)
    fix x assume "x \<in> set deps"
    then obtain src' ty' where "edge_components_from_dep x = Some (src', ty')" "dget adj src' \<noteq> None"
      using Cons.prems by auto
    then show "\<exists>src' ty'. edge_components_from_dep x = Some (src', ty') \<and>
        dget (dset src (outs @ [t]) adj) src' \<noteq> None"
      by auto
  qed
  then obtain adj' where "rfold (add_dep t) deps (dset src (outs @ [t]) adj) = Inr adj'"
      "\<forall>k. dget adj' k = None \<longleftrightarrow> dget (dset src (outs @ [t]) adj) k = None" by blast
  moreover from this(2) have "\<forall>k. dget adj' k = None \<longleftrightarrow> dget adj k = None" using c(2) by auto
  moreover have "add_dep t dep adj = Inr (dset src (outs @ [t]) adj)" using c by (simp add: add_dep_Inr)
  ultimately show ?case by auto
qed

lemma rfold_add_deps_ok:
  assumes "\<forall>a\<in>set as. \<forall>dep\<in>set (stmt_depends_on a).
      \<exists>src ty. edge_components_from_dep dep = Some (src, ty) \<and> dget adj src \<noteq> None"
  shows "\<exists>adj'. rfold (\<lambda>a. rfold (add_dep (stmt_ref a)) (stmt_depends_on a)) as adj = Inr adj'"
  using assms
proof (induction as arbitrary: adj)
  case Nil
  then show ?case by simp
next
  case (Cons a as)
  obtain adj1 where 1: "rfold (add_dep (stmt_ref a)) (stmt_depends_on a) adj = Inr adj1"
      "\<forall>k. dget adj1 k = None \<longleftrightarrow> dget adj k = None"
    using rfold_add_dep_ok [of "stmt_depends_on a" adj "stmt_ref a"] Cons.prems by auto
  have "\<exists>adj'. rfold (\<lambda>a. rfold (add_dep (stmt_ref a)) (stmt_depends_on a)) as adj1 = Inr adj'"
    using Cons.prems 1(2) by (intro Cons.IH) simp
  with 1(1) show ?case by simp
qed

lemma deps_ok_parse:
  assumes "deps_ok d" "a \<in> set (dsl_actions d)" "dep \<in> set (stmt_depends_on a)"
  obtains src ty where "edge_components_from_dep dep = Some (src, ty)" "src \<in> set (action_refs d)"
    "src \<in> set (dep_srcs a)"
proof -
  have "edge_components_from_dep dep \<noteq> None"
    using assms by (auto simp: deps_ok_def check_deps_parse_def validation_simps split: option.splits)
  then obtain src ty where c: "edge_components_from_dep dep = Some (src, ty)" by auto
  then have "src \<in> set (dep_srcs a)"
    using assms(3) by (force simp: dep_srcs_def dep_components_def)
  moreover from this have "src \<in> set (action_refs d)"
    using assms(1,2) by (auto simp: deps_ok_def invalid_deps_def filter_empty_conv)
  ultimately show ?thesis using c that by blast
qed

lemma dep_srcs_length:
  assumes "deps_ok d" "a \<in> set (dsl_actions d)"
  shows "length (dep_srcs a) = length (stmt_depends_on a)"
proof -
  have "filter (\<lambda>c. c \<noteq> None) (dep_components a) = dep_components a"
    using assms deps_ok_parse unfolding dep_components_def
    by (intro filter_True) (auto, metis option.distinct(1))
  then show ?thesis by (simp add: dep_srcs_def dep_components_def)
qed

lemma to_adjacency_total: "deps_ok d \<Longrightarrow> \<exists>adj. to_adjacency d = Inr adj"
  unfolding to_adjacency_def
  by (rule rfold_add_deps_ok) (auto simp: dget_init_adj elim!: deps_ok_parse)

lemma dep_edges_refs:
  assumes "deps_ok d" "(s, t) \<in> set (dep_edges d)"
  shows "s \<in> set (action_refs d)" "t \<in> set (action_refs d)"
  using assms by (auto simp: dep_edges_def deps_ok_def invalid_deps_def filter_empty_conv)

lemma length_filter_snd_concat:
  "distinct (map stmt_ref as) \<Longrightarrow> a \<in> set as \<Longrightarrow>
   length (filter (\<lambda>e. snd e = stmt_ref a) (concat (map (\<lambda>a. map (\<lambda>s. (s, stmt_ref a)) (dep_srcs a)) as))) =
   length (dep_srcs a)"
proof (induction as)
  case Nil
  then show ?case by simp
next
  case (Cons b as)
  have other: "stmt_ref b \<notin> set (map stmt_ref as) \<Longrightarrow>
      filter (\<lambda>e. snd e = stmt_ref b) (concat (map (\<lambda>a. map (\<lambda>s. (s, stmt_ref a)) (dep_srcs a)) as)) = []"
    by (auto simp: filter_empty_conv) (metis image_eqI)
  show ?case
  proof (cases "a = b")
    case True
    with Cons.prems other show ?thesis by (simp add: comp_def)
  next
    case False
    with Cons.prems have "stmt_ref a \<noteq> stmt_ref b" by (metis distinct.simps(2) image_eqI list.set_map list.simps(9) set_ConsD)
    with Cons False show ?thesis by (simp add: comp_def)
  qed
qed

lemma indegree_edges:
  assumes "deps_ok d" "a \<in> set (dsl_actions d)"
  shows "length (stmt_depends_on a) = length (filter (\<lambda>e. snd e = stmt_ref a) (dep_edges d))"
  using assms length_filter_snd_concat [of "dsl_actions d" a] dep_srcs_length
  by (simp add: dep_edges_def deps_ok_def)

section \<open>Kahn's algorithm\<close>

lemma release_next_indeg:
  "release_next scope ns indeg q = Inr (indeg', q') \<Longrightarrow>
   dget indeg' n = map_option (\<lambda>k. k - int (count_list ns n)) (dget indeg n)"
proof (induction scope ns indeg q rule: release_next.induct)
  case (1 scope indeg q)
  then show ?case by (simp add: option.map_ident)
next
  case (2 scope m ns indeg q)
  then obtain k where k: "dget indeg m = Some k" by (auto split: option.splits)
  with 2 show ?case by (auto simp: option.map_comp comp_def)
qed

lemma release_next_queue:
  "release_next scope ns indeg q = Inr (indeg', q') \<Longrightarrow>
   \<exists>new. q' = q @ map (\<lambda>n. (n, scope)) new \<and> distinct new \<and>
     (\<forall>n. n \<in> set new \<longleftrightarrow> (\<exists>k. dget indeg n = Some k \<and> 0 < k \<and> k \<le> int (count_list ns n)))"
proof (induction scope ns indeg q rule: release_next.induct)
  case (1 scope indeg q)
  then show ?case by (intro exI [of _ "[]"]) auto
next
  case (2 scope m ns indeg q)
  then obtain k where k: "dget indeg m = Some k" by (auto split: option.splits)
  define q1 where "q1 = (if k - 1 = 0 then q @ [(m, scope)] else q)"
  have r: "release_next scope ns (dset m (k - 1) indeg) q1 = Inr (indeg', q')"
    using "2.prems" k by (simp add: q1_def)
  obtain new where new: "q' = q1 @ map (\<lambda>n. (n, scope)) new" "distinct new"
      "\<forall>n. n \<in> set new \<longleftrightarrow>
        (\<exists>k'. dget (dset m (k - 1) indeg) n = Some k' \<and> 0 < k' \<and> k' \<le> int (count_list ns n))"
    using "2.IH" [OF k] r q1_def by blast
  show ?case
  proof (cases "k = 1")
    case True
    then have "m \<notin> set new" using new(3) by simp
    with True new k show ?thesis
      by (intro exI [of _ "m # new"]) (auto simp: q1_def)
  next
    case False
    with new k show ?thesis
      by (intro exI [of _ new]) (auto simp: q1_def split: if_splits)
  qed
qed

lemma release_next_total:
  "\<forall>n\<in>set ns. dget indeg n \<noteq> None \<Longrightarrow> \<exists>r. release_next scope ns indeg q = Inr r"
  by (induction scope ns indeg q rule: release_next.induct) auto

text \<open>
  \<open>R\<close> are the references, \<open>E\<close> the edges, \<open>V\<close> the visited references. The
  remaining indegree of a reference counts its edges from references not yet visited, and exactly
  the references with none left are visited or queued.
\<close>

definition open_preds :: "(string \<times> string) list \<Rightarrow> string set \<Rightarrow> string \<Rightarrow> nat" where
  "open_preds E V n = length (filter (\<lambda>e. snd e = n \<and> fst e \<notin> V) E)"

definition topo_order :: "(string \<times> string) list \<Rightarrow> string list \<Rightarrow> bool" where
  "topo_order E V \<longleftrightarrow> distinct V \<and>
     (\<forall>i<length V. \<forall>s. (s, V ! i) \<in> set E \<longrightarrow> s \<in> set (take i V))"

definition kahn_inv ::
  "string list \<Rightarrow> (string \<times> string) list \<Rightarrow> string list \<Rightarrow> string list \<Rightarrow> (string, int) dict \<Rightarrow> bool" where
  "kahn_inv R E V Q indeg \<longleftrightarrow>
     topo_order E V \<and> distinct (V @ Q) \<and> set (V @ Q) \<subseteq> set R \<and>
     (\<forall>n\<in>set R. dget indeg n = Some (int (open_preds E (set V) n))) \<and>
     (\<forall>n\<in>set R. open_preds E (set V) n = 0 \<longleftrightarrow> n \<in> set (V @ Q))"

lemma open_preds_0_iff: "open_preds E V n = 0 \<longleftrightarrow> (\<forall>s. (s, n) \<in> set E \<longrightarrow> s \<in> V)"
  by (auto simp: open_preds_def filter_empty_conv)

lemma open_preds_insert:
  "r \<notin> V \<Longrightarrow> open_preds E (insert r V) n + count_list E (r, n) = open_preds E V n"
  by (induction E) (auto simp: open_preds_def)

lemma topo_order_snoc:
  "topo_order E (V @ [r]) \<longleftrightarrow> topo_order E V \<and> r \<notin> set V \<and> (\<forall>s. (s, r) \<in> set E \<longrightarrow> s \<in> set V)"
  by (auto simp: topo_order_def nth_append less_Suc_eq)

lemma kahn_step:
  assumes inv: "kahn_inv R E V (r # Q) indeg"
    and rel: "release_next scope (outs_of E r) indeg q = Inr (indeg', q')"
    and q: "map fst q = Q"
    and E: "\<forall>(s, t)\<in>set E. t \<in> set R"
  shows "kahn_inv R E (V @ [r]) (map fst q') indeg'"
    and "\<exists>new. q' = q @ map (\<lambda>n. (n, scope)) new \<and> (\<forall>n\<in>set new. (r, n) \<in> set E)"
proof -
  have i: "topo_order E V" "distinct (V @ r # Q)" "set (V @ r # Q) \<subseteq> set R"
    "\<And>n. n \<in> set R \<Longrightarrow> dget indeg n = Some (int (open_preds E (set V) n))"
    "\<And>n. n \<in> set R \<Longrightarrow> open_preds E (set V) n = 0 \<longleftrightarrow> n \<in> set (V @ r # Q)"
    using inv by (auto simp: kahn_inv_def)
  have rV: "r \<notin> set V" "r \<in> set R" using i(2,3) by auto
  obtain new where new: "q' = q @ map (\<lambda>n. (n, scope)) new" "distinct new"
      "\<And>n. n \<in> set new \<longleftrightarrow> (\<exists>k. dget indeg n = Some k \<and> 0 < k \<and> k \<le> int (count_list (outs_of E r) n))"
    using release_next_queue [OF rel] by blast
  have newE: "(r, n) \<in> set E" if "n \<in> set new" for n
  proof -
    have "0 < count_list (outs_of E r) n" using that new(3) by fastforce
    then show ?thesis by (simp add: count_list_outs_of count_list_pos_iff)
  qed
  then show "\<exists>new. q' = q @ map (\<lambda>n. (n, scope)) new \<and> (\<forall>n\<in>set new. (r, n) \<in> set E)" using new(1) by blast
  have op: "open_preds E (set (V @ [r])) n + count_list E (r, n) = open_preds E (set V) n" for n
    using open_preds_insert [OF rV(1)] by simp
  have newR: "n \<in> set R" if "n \<in> set new" for n using newE [OF that] E by auto
  have new_iff: "n \<in> set new \<longleftrightarrow> n \<in> set R \<and> 0 < open_preds E (set V) n \<and> open_preds E (set (V @ [r])) n = 0" for n
  proof (cases "n \<in> set R")
    case True
    have "n \<in> set new \<longleftrightarrow> 0 < open_preds E (set V) n \<and> open_preds E (set V) n \<le> count_list E (r, n)"
      using new(3) [of n] i(4) [OF True] by (simp add: count_list_outs_of)
    with op [of n] True show ?thesis by linarith
  qed (use newR in blast)
  have "open_preds E (set V) r = 0" using i(5) rV(2) by simp
  then have topo: "topo_order E (V @ [r])"
    using i(1) rV(1) by (simp add: topo_order_snoc open_preds_0_iff)
  have dist: "distinct ((V @ [r]) @ Q @ new)"
    using i(2,3) i(5) new(2) new_iff by fastforce
  have ind: "dget indeg' n = Some (int (open_preds E (set (V @ [r])) n))" if "n \<in> set R" for n
    using release_next_indeg [OF rel, of n] i(4) [OF that] op [of n] by (simp add: count_list_outs_of)
  have zero: "open_preds E (set (V @ [r])) n = 0 \<longleftrightarrow> n \<in> set ((V @ [r]) @ Q @ new)" if "n \<in> set R" for n
    using i(5) [OF that] new_iff [of n] op [of n] that by auto
  show "kahn_inv R E (V @ [r]) (map fst q') indeg'"
    unfolding kahn_inv_def using topo dist i(3) newR ind zero new(1) q
    by (auto simp: comp_def)
qed

section \<open>The scope hierarchy\<close>

text \<open>Every scope but the root has its parent earlier in the dictionary.\<close>

definition hier_ok :: "hierarchy \<Rightarrow> bool" where
  "hier_ok hier \<longleftrightarrow> hier \<noteq> [] \<and> hd hier = (ROOT_SCOPE, None) \<and> distinct (dkeys hier) \<and>
     (\<forall>i<length hier. 0 < i \<longrightarrow> (\<exists>p. snd (hier ! i) = Some p \<and> p \<in> set (dkeys (take i hier))))"

lemma hier_ok_init: "hier_ok [(ROOT_SCOPE, None)]"
  by (simp add: hier_ok_def)

lemma hier_ok_snoc:
  assumes "hier_ok hier" "k \<notin> set (dkeys hier)" "p \<in> set (dkeys hier)"
  shows "hier_ok (hier @ [(k, Some p)])"
  using assms by (auto simp: hier_ok_def nth_append less_Suc_eq)

lemma hier_ok_parent:
  assumes "hier_ok hier" "dget hier s = Some (Some p)"
  shows "p \<in> set (dkeys hier)"
proof -
  have "(s, Some p) \<in> set hier" using assms(2) by (rule map_of_SomeD)
  then obtain i where i: "i < length hier" "hier ! i = (s, Some p)" by (auto simp: in_set_conv_nth)
  have "i \<noteq> 0"
  proof
    assume "i = 0"
    then have "hd hier = (s, Some p)" using i by (simp add: hd_conv_nth)
    with assms(1) show False by (simp add: hier_ok_def)
  qed
  then obtain p' where "snd (hier ! i) = Some p'" "p' \<in> set (dkeys (take i hier))"
    using assms(1) i(1) unfolding hier_ok_def by blast
  then have "p \<in> set (dkeys (take i hier))" using i(2) by simp
  then show ?thesis by (metis in_set_takeD take_map)
qed

section \<open>The loop\<close>

text \<open>Where the scopes come from: entries start in the root scope, and a scatter is a scope of its own.\<close>

definition scope_inv :: "dsl_input \<Rightarrow> topo_queue \<Rightarrow> scopes \<Rightarrow> hierarchy \<Rightarrow> bool" where
  "scope_inv d q scopes hier \<longleftrightarrow> (\<forall>a\<in>set (dsl_actions d).
     (stmt_depends_on a = [] \<longrightarrow> (\<forall>cs. (stmt_ref a, cs) \<in> set q \<longrightarrow> cs = ROOT_SCOPE)) \<and>
     (\<forall>s. dget scopes (stmt_ref a) = Some s \<longrightarrow>
        (if is_scatter a then s = stmt_ref a \<and> (stmt_depends_on a = [] \<longrightarrow> dget hier s = Some (Some ROOT_SCOPE))
         else stmt_depends_on a = [] \<longrightarrow> \<not> is_gather a \<and> s = ROOT_SCOPE)))"

definition visited_as :: "action_stmt \<Rightarrow> string \<Rightarrow> hierarchy \<Rightarrow> string \<Rightarrow> hierarchy \<Rightarrow> bool" where
  "visited_as a cs hier sc hier' \<longleftrightarrow>
     (if is_scatter a then sc = stmt_ref a \<and> dget hier' sc = Some (Some cs)
      else if is_gather a then dget hier cs = Some (Some sc) else sc = cs)
     \<and> (\<forall>k v. dget hier k = Some v \<longrightarrow> dget hier' k = Some v)"

lemma hier_ok_root: "hier_ok hier \<Longrightarrow> dget hier ROOT_SCOPE = Some None"
  by (cases hier) (auto simp: hier_ok_def)

lemma entry_no_edge:
  assumes "deps_ok d" "a \<in> set (dsl_actions d)" "stmt_depends_on a = []"
  shows "(s, stmt_ref a) \<notin> set (dep_edges d)"
  using indegree_edges [OF assms(1,2)] assms(3) by (auto simp: filter_empty_conv)

lemma scope_inv_step:
  assumes d: "deps_ok d" "a \<in> set (dsl_actions d)" and inv: "scope_inv d ((stmt_ref a, cs) # q) scopes hier" "hier_ok hier"
    and fresh: "stmt_ref a \<notin> set (dkeys scopes)" and v: "visited_as a cs hier sc hier'"
    and new: "\<forall>n\<in>set new. (stmt_ref a, n) \<in> set (dep_edges d)"
  shows "scope_inv d (q @ map (\<lambda>n. (n, nxt)) new) (scopes @ [(stmt_ref a, sc)]) hier'"
  unfolding scope_inv_def
proof (intro ballI conjI impI allI)
  fix b c assume b: "b \<in> set (dsl_actions d)" "stmt_depends_on b = []"
    and "(stmt_ref b, c) \<in> set (q @ map (\<lambda>n. (n, nxt)) new)"
  then have "(stmt_ref b, c) \<in> set q \<or> stmt_ref b \<in> set new" by auto
  then show "c = ROOT_SCOPE" using inv(1) b new entry_no_edge [OF d(1) b] unfolding scope_inv_def by auto
next
  fix b s assume b: "b \<in> set (dsl_actions d)" and s: "dget (scopes @ [(stmt_ref a, sc)]) (stmt_ref b) = Some s"
  have mono: "dget hier k = Some v \<Longrightarrow> dget hier' k = Some v" for k v using v by (simp add: visited_as_def)
  show "if is_scatter b then s = stmt_ref b \<and> (stmt_depends_on b = [] \<longrightarrow> dget hier' s = Some (Some ROOT_SCOPE))
         else stmt_depends_on b = [] \<longrightarrow> \<not> is_gather b \<and> s = ROOT_SCOPE"
  proof (cases "stmt_ref b = stmt_ref a")
    case True
    then have "b = a" using d b by (auto simp: deps_ok_def distinct_map dest: inj_onD)
    moreover have "dget scopes (stmt_ref a) = None" using fresh by (simp add: dget_None_iff)
    then have "s = sc" using s True by (simp add: map_add_def)
    moreover have "stmt_depends_on a = [] \<longrightarrow> cs = ROOT_SCOPE" using inv(1) d(2) by (auto simp: scope_inv_def)
    ultimately show ?thesis using v hier_ok_root [OF inv(2)] by (auto simp: visited_as_def split: if_splits)
  next
    case False
    then have "dget scopes (stmt_ref b) = Some s" using s by (auto simp: map_add_def split: option.splits if_splits)
    then show ?thesis using inv(1) b mono by (simp add: scope_inv_def split: if_splits)
  qed
qed

definition loop_inv ::
  "dsl_input \<Rightarrow> topo_queue \<Rightarrow> (string, int) dict \<Rightarrow> scopes \<Rightarrow> hierarchy \<Rightarrow> string list \<Rightarrow> bool" where
  "loop_inv d q indeg scopes hier V \<longleftrightarrow>
     kahn_inv (action_refs d) (dep_edges d) V (map fst q) indeg \<and>
     dkeys scopes = V \<and> hier_ok hier \<and> set (map snd q) \<subseteq> set (dkeys hier) \<and>
     set (dkeys hier) \<subseteq> insert ROOT_SCOPE (set V) \<and> set (map snd scopes) \<subseteq> set (dkeys hier) \<and>
     scope_inv d q scopes hier"

lemma visit_scope_outcome:
  assumes "hier_ok hier" "cs \<in> set (dkeys hier)" "stmt_ref a \<notin> set (dkeys scopes)"
    and "stmt_ref a \<notin> set (dkeys hier)" and "set (map snd scopes) \<subseteq> set (dkeys hier)"
  shows "visit_scope a cs scopes hier = Inl (GatherInRootScope (stmt_ref a)) \<or>
    (\<exists>sc hier' nxt. visit_scope a cs scopes hier = Inr (scopes @ [(stmt_ref a, sc)], hier', nxt) \<and>
       hier_ok hier' \<and> nxt \<in> set (dkeys hier') \<and> sc \<in> set (dkeys hier') \<and>
       set (dkeys hier) \<subseteq> set (dkeys hier') \<and> set (dkeys hier') \<subseteq> insert (stmt_ref a) (set (dkeys hier)) \<and>
       visited_as a cs hier sc hier')"
proof -
  have none: "dget scopes (stmt_ref a) = None" using assms(3) by (simp add: dget_None_iff)
  have fr: "dset (stmt_ref a) s scopes = scopes @ [(stmt_ref a, s)]" for s
    using assms(3) by (rule dset_fresh)
  have hn: "dget hier (stmt_ref a) = None" using assms(4) by (simp add: dget_None_iff)
  have fh: "dset (stmt_ref a) s hier = hier @ [(stmt_ref a, s)]" for s
    using assms(4) by (rule dset_fresh)
  show ?thesis
    using assms hier_ok_snoc [OF assms(1,4,2)] hier_ok_parent [OF assms(1)]
    by (auto simp: visit_scope_def Let_def assign_scope_def visited_as_def none fr fh hn map_add_def split: option.splits)
qed

lemma assign_loop_outcome:
  assumes "deps_ok d" "ROOT_SCOPE \<notin> set (action_refs d)"
    and "\<forall>r\<in>set (action_refs d). \<exists>a\<in>set (dsl_actions d). dget stmts r = Some a \<and> stmt_ref a = r"
    and "\<forall>r\<in>set (action_refs d). dget adj r = Some (outs_of (dep_edges d) r)"
    and "loop_inv d q indeg scopes hier V"
  shows "(\<exists>r. assign_loop stmts adj q indeg scopes hier V = Inl (GatherInRootScope r)) \<or>
    (\<exists>sc h V' indeg'. assign_loop stmts adj q indeg scopes hier V = Inr (sc, h, V') \<and>
       loop_inv d [] indeg' sc h V')"
  using assms(3-5)
proof (induction stmts adj q indeg scopes hier V rule: assign_loop.induct)
  case (1 stmts adj indeg scopes hier visited)
  then show ?case by auto
next
  case (2 stmts adj ref cs q indeg scopes hier V)
  let ?R = "action_refs d" and ?E = "dep_edges d"
  have inv: "kahn_inv ?R ?E V (ref # map fst q) indeg" "dkeys scopes = V" "hier_ok hier"
    "cs \<in> set (dkeys hier)" "set (map snd q) \<subseteq> set (dkeys hier)"
    "set (dkeys hier) \<subseteq> insert ROOT_SCOPE (set V)" "set (map snd scopes) \<subseteq> set (dkeys hier)"
    "scope_inv d ((ref, cs) # q) scopes hier"
    using "2.prems"(3) by (auto simp: loop_inv_def)
  have rR: "ref \<in> set ?R" "ref \<notin> set V" using inv(1) by (auto simp: kahn_inv_def)
  then obtain a where a: "dget stmts ref = Some a" "stmt_ref a = ref" "a \<in> set (dsl_actions d)" using "2.prems"(1) by blast
  have fresh: "stmt_ref a \<notin> set (dkeys scopes)" "stmt_ref a \<notin> set (dkeys hier)"
    using a rR inv(2,6) assms(2) by auto
  from visit_scope_outcome [OF inv(3,4) fresh inv(7)] a(2) show ?case
  proof (elim disjE exE conjE)
    assume "visit_scope a cs scopes hier = Inl (GatherInRootScope (stmt_ref a))"
    then show ?thesis using a by auto
  next
    fix sc hier' nxt
    assume v: "visit_scope a cs scopes hier = Inr (scopes @ [(stmt_ref a, sc)], hier', nxt)"
      and h: "hier_ok hier'" "nxt \<in> set (dkeys hier')" "sc \<in> set (dkeys hier')"
        "set (dkeys hier) \<subseteq> set (dkeys hier')" "set (dkeys hier') \<subseteq> insert (stmt_ref a) (set (dkeys hier))"
        "visited_as a cs hier sc hier'"
    have E: "\<forall>(s, t)\<in>set ?E. t \<in> set ?R" using dep_edges_refs(2) [OF assms(1)] by auto
    have "\<forall>n\<in>set (outs_of ?E ref). dget indeg n \<noteq> None"
      using E inv(1) by (auto simp: outs_of_def kahn_inv_def)
    then obtain indeg' q' where rel: "release_next nxt (outs_of ?E ref) indeg q = Inr (indeg', q')"
      using release_next_total by (metis surj_pair)
    have k: "kahn_inv ?R ?E (V @ [ref]) (map fst q') indeg'"
      using kahn_step(1) [OF inv(1) rel refl E] .
    obtain new where q': "q' = q @ map (\<lambda>n. (n, nxt)) new" and new: "\<forall>n\<in>set new. (ref, n) \<in> set ?E"
      using kahn_step(2) [OF inv(1) rel refl E] by blast
    have si: "scope_inv d q' (scopes @ [(stmt_ref a, sc)]) hier'"
      unfolding q' by (rule scope_inv_step [OF assms(1) a(3) _ inv(3) fresh(1) h(6)]) (use inv(8) a(2) new in simp_all)
    from q' have "set (map snd q') \<subseteq> set (dkeys hier')" using inv(5) h(2,4) by (auto simp: image_image)
    then have inv': "loop_inv d q' indeg' (scopes @ [(stmt_ref a, sc)]) hier' (V @ [ref])"
    proof -
      have "set (dkeys hier') \<subseteq> insert ROOT_SCOPE (set (V @ [ref]))"
        using h(5) inv(6) a(2) by (simp add: subset_iff) blast
      moreover have "set (map snd (scopes @ [(stmt_ref a, sc)])) \<subseteq> set (dkeys hier')"
        using h(3,4) inv(7) by (simp add: subset_iff)
      ultimately show ?thesis
        using k h(1) inv(2) a(2) si \<open>set (map snd q') \<subseteq> set (dkeys hier')\<close> by (simp add: loop_inv_def)
    qed
    have adjr: "dget adj ref = Some (outs_of ?E ref)" using "2.prems"(2) rR(1) by blast
    have rel': "release_next nxt (case dget adj ref of None \<Rightarrow> [] | Some ns \<Rightarrow> ns) indeg q = Inr (indeg', q')"
      using rel adjr by simp
    have eq: "assign_loop stmts adj ((ref, cs) # q) indeg scopes hier V =
        assign_loop stmts adj q' indeg' (scopes @ [(stmt_ref a, sc)]) hier' (V @ [ref])"
      using a(1) v rel' by simp
    show ?thesis
      unfolding eq by (rule "2.IH" [OF a(1) v refl refl rel' refl "2.prems"(1,2) inv'])
  qed
qed

lemma foldl_dset_key:
  "distinct (map g xs) \<Longrightarrow> foldl (\<lambda>m x. dset (g x) (f x) m) [] xs = map (\<lambda>x. (g x, f x)) xs"
  by (simp add: foldl_dset_distinct)

lemma init_indegrees_map:
  "distinct (action_refs d) \<Longrightarrow>
   init_indegrees d = map (\<lambda>a. (stmt_ref a, int (length (stmt_depends_on a)))) (dsl_actions d)"
  by (simp add: init_indegrees_def foldl_dset_key)

lemma init_loop_inv:
  assumes "deps_ok d"
  shows "loop_inv d (map (\<lambda>(r, k). (r, ROOT_SCOPE)) (filter (\<lambda>(r, k). k = 0) (init_indegrees d)))
    (init_indegrees d) [] [(ROOT_SCOPE, None)] []"
proof -
  let ?as = "dsl_actions d"
  have dist: "distinct (action_refs d)" using assms by (simp add: deps_ok_def)
  have ind: "init_indegrees d = map (\<lambda>a. (stmt_ref a, int (length (stmt_depends_on a)))) ?as"
    using init_indegrees_map [OF dist] .
  have op: "open_preds (dep_edges d) {} (stmt_ref a) = length (stmt_depends_on a)" if "a \<in> set ?as" for a
    using indegree_edges [OF assms that] by (simp add: open_preds_def)
  have get: "dget (init_indegrees d) (stmt_ref a) = Some (int (length (stmt_depends_on a)))"
    if "a \<in> set ?as" for a
    unfolding ind using map_of_map_key [OF dist that] .
  have Q: "map fst (map (\<lambda>(r, k). (r, ROOT_SCOPE)) (filter (\<lambda>(r, k). k = 0) (init_indegrees d))) =
      map stmt_ref (filter (\<lambda>a. stmt_depends_on a = []) ?as)"
    by (simp add: ind filter_map comp_def)
  have dQ: "distinct (map stmt_ref (filter (\<lambda>a. stmt_depends_on a = []) ?as))"
    using dist by (rule distinct_map_filter)
  have zero: "stmt_depends_on a = [] \<longleftrightarrow> stmt_ref a \<in> stmt_ref ` {a \<in> set ?as. stmt_depends_on a = []}"
    if "a \<in> set ?as" for a
    using that dist by (auto simp: distinct_map inj_on_def)
  show ?thesis
    unfolding loop_inv_def Q kahn_inv_def
    using dQ op get zero
    by (auto simp: topo_order_def hier_ok_init scope_inv_def comp_def)
qed

section \<open>Scope assignment\<close>

definition slug_refs :: "dsl_input \<Rightarrow> bool" where
  "slug_refs d \<longleftrightarrow> list_all slug_ok (action_refs d)"

lemma slug_not_root: "slug_refs d \<Longrightarrow> ROOT_SCOPE \<notin> set (action_refs d)"
proof
  assume d: "slug_refs d" and "ROOT_SCOPE \<in> set (action_refs d)"
  then have "slug_ok ROOT_SCOPE" by (auto simp: slug_refs_def list_all_iff)
  then show False using slug_char_not(4) by (simp add: slug_ok_def ROOT_SCOPE_def)
qed

lemma stmts_dict:
  assumes "distinct (action_refs d)" "r \<in> set (action_refs d)"
  shows "\<exists>a\<in>set (dsl_actions d). dget (foldl (\<lambda>m a. dset (stmt_ref a) a m) [] (dsl_actions d)) r = Some a \<and> stmt_ref a = r"
proof -
  obtain a where a: "a \<in> set (dsl_actions d)" "stmt_ref a = r" using assms(2) by auto
  have "foldl (\<lambda>m a. dset (stmt_ref a) a m) [] (dsl_actions d) = map (\<lambda>a. (stmt_ref a, a)) (dsl_actions d)"
    using foldl_dset_key [of stmt_ref "dsl_actions d" "\<lambda>x. x"] assms(1) by simp
  then show ?thesis using map_of_map_key [OF assms(1) a(1), of "\<lambda>x. x"] a by auto
qed

lemma assign_action_scopes_outcome:
  assumes "deps_ok d" "slug_refs d" "to_adjacency d = Inr adj"
  shows "(\<exists>r. assign_action_scopes d adj = Inl (GatherInRootScope r)) \<or>
    (\<exists>sc h V indeg. loop_inv d [] indeg sc h V \<and>
       assign_action_scopes d adj =
         (if length V \<noteq> length (dsl_actions d) then Inl ScopeCycle else Inr (sc, h)))"
proof -
  have dist: "distinct (action_refs d)" using assms(1) by (simp add: deps_ok_def)
  have s: "\<forall>r\<in>set (action_refs d).
      \<exists>a\<in>set (dsl_actions d). dget (foldl (\<lambda>m a. dset (stmt_ref a) a m) [] (dsl_actions d)) r = Some a \<and> stmt_ref a = r"
    using stmts_dict [OF dist] by blast
  have a: "\<forall>r\<in>set (action_refs d). dget adj r = Some (outs_of (dep_edges d) r)"
    using to_adjacency_dget [OF assms(3)] by simp
  show ?thesis
    using assign_loop_outcome [OF assms(1) slug_not_root [OF assms(2)] s a init_loop_inv [OF assms(1)]]
  proof (elim disjE exE conjE, goal_cases)
    case (1 r)
    then show ?case by (simp add: assign_action_scopes_def Let_def)
  next
    case (2 sc h V indeg)
    then have "assign_action_scopes d adj =
        (if length V \<noteq> length (dsl_actions d) then Inl ScopeCycle else Inr (sc, h))"
      by (simp add: assign_action_scopes_def Let_def)
    with 2 show ?case by blast
  qed
qed

text \<open>A finished loop has visited every reference that some topological order reaches.\<close>

lemma kahn_complete:
  assumes "kahn_inv R E V [] indeg" "topo_order E W" "set W \<subseteq> set R"
  shows "set W \<subseteq> set V"
proof -
  have "i < length W \<Longrightarrow> W ! i \<in> set V" for i
  proof (induction i rule: less_induct)
    case (less i)
    have "\<forall>s. (s, W ! i) \<in> set E \<longrightarrow> s \<in> set V"
    proof (intro allI impI)
      fix s assume "(s, W ! i) \<in> set E"
      then have "s \<in> set (take i W)" using assms(2) less.prems by (simp add: topo_order_def)
      then obtain j where "j < i" "s = W ! j" using less.prems by (auto simp: in_set_conv_nth)
      with less show "s \<in> set V" by simp
    qed
    then have "open_preds E (set V) (W ! i) = 0" by (simp add: open_preds_0_iff)
    moreover have "W ! i \<in> set R" using assms(3) less.prems by auto
    ultimately show ?case using assms(1) by (simp add: kahn_inv_def)
  qed
  then show ?thesis by (auto simp: in_set_conv_nth)
qed

lemma assign_scopes_topological_aux:
  assumes "deps_ok d" "slug_refs d" "to_adjacency d = Inr adj"
    and "assign_action_scopes d adj = Inr (sc, h)"
  shows "topo_order (dep_edges d) (dkeys sc) \<and> set (dkeys sc) = set (action_refs d) \<and>
    hier_ok h \<and> set (map snd sc) \<subseteq> set (dkeys h)"
proof -
  obtain V indeg where inv: "loop_inv d [] indeg sc h V" "length V = length (dsl_actions d)"
    using assign_action_scopes_outcome [OF assms(1-3)] assms(4) by (auto split: if_splits)
  then have V: "topo_order (dep_edges d) V" "distinct V" "set V \<subseteq> set (action_refs d)" "dkeys sc = V"
    by (auto simp: loop_inv_def kahn_inv_def topo_order_def)
  have "card (set V) = card (set (action_refs d))"
    using V(2) inv(2) assms(1) distinct_card [of V] distinct_card [of "action_refs d"]
    by (simp add: deps_ok_def)
  then have "set V = set (action_refs d)" using V(3) by (simp add: card_subset_eq)
  then show ?thesis using V inv(1) by (simp add: loop_inv_def)
qed

text \<open>C32: An accepted scope assignment visits every action exactly once, in an order in which every
  action comes after all the actions it depends on; the scopes it assigns are entries of the
  hierarchy.\<close>

theorem assign_scopes_topological:
  assumes "deps_ok d" "slug_refs d" "to_adjacency d = Inr adj"
    and "assign_action_scopes d adj = Inr (sc, h)"
  shows "topo_order (dep_edges d) (dkeys sc) \<and> set (dkeys sc) = set (action_refs d) \<and>
    hier_ok h \<and> set (map snd sc) \<subseteq> set (dkeys h)"
  by (rule assign_scopes_topological_aux [OF assms])

lemma cycle_has_no_order:
  assumes "deps_ok d" "slug_refs d" "to_adjacency d = Inr adj"
    and "assign_action_scopes d adj = Inl ScopeCycle"
    and W: "topo_order (dep_edges d) W" "set W = set (action_refs d)"
  shows False
proof -
  obtain sc h V indeg where inv: "loop_inv d [] indeg sc h V" "length V \<noteq> length (dsl_actions d)"
    using assign_action_scopes_outcome [OF assms(1-3)] assms(4) by (auto split: if_splits)
  then have k: "kahn_inv (action_refs d) (dep_edges d) V [] indeg" by (simp add: loop_inv_def)
  then have "set V = set (action_refs d)" "distinct V"
    using kahn_complete [OF k W(1)] W(2) by (auto simp: kahn_inv_def)
  moreover have "distinct (action_refs d)" using assms(1) by (simp add: deps_ok_def)
  ultimately have "length V = length (action_refs d)" by (metis distinct_card)
  with inv(2) show False by simp
qed

text \<open>A cycle is reported only when there is one: when the scope assignment raises the cycle
  error, no topological order of the actions exists.\<close>

lemma scope_cycle_no_order:
  assumes "deps_ok d" "slug_refs d" "to_adjacency d = Inr adj"
    and "assign_action_scopes d adj = Inl ScopeCycle"
  shows "\<not> (\<exists>W. topo_order (dep_edges d) W \<and> set W = set (action_refs d))"
  using cycle_has_no_order [OF assms] by blast

lemma assign_scopes_errors:
  assumes "deps_ok d" "slug_refs d" "to_adjacency d = Inr adj" "assign_action_scopes d adj = Inl e"
  shows "e = ScopeCycle \<or> (\<exists>r. e = GatherInRootScope r)"
  using assign_action_scopes_outcome [OF assms(1-3)] assms(4) by (auto split: if_splits)

section \<open>Structure\<close>

lemma validate_structure_deps_ok:
  assumes "validate_structure parse d = None"
  shows "deps_ok d"
proof -
  have "distinct (action_refs d)"
    using assms card_distinct [of "action_refs d"] length_remdups_card_conv [of "action_refs d"]
    by (auto simp: validate_structure_def split: if_splits)
  then show ?thesis
    using assms by (auto simp: validate_structure_def deps_ok_def validation_simps split: if_splits)
qed

text \<open>C34: What an accepted definition guarantees to the rest of the system: there are actions, their
  references are distinct, one of them has no dependencies, every dependency parses and names an
  action, and every action named in any template expression of any field exists.\<close>

theorem validate_structure_sound:
  assumes "validate_structure parse d = None"
  shows "dsl_actions d \<noteq> [] \<and> distinct (action_refs d) \<and> (\<exists>a\<in>set (dsl_actions d). stmt_depends_on a = []) \<and>
    (\<forall>a\<in>set (dsl_actions d). \<forall>dep\<in>set (stmt_depends_on a).
       \<exists>src ty. edge_components_from_dep dep = Some (src, ty) \<and> src \<in> set (action_refs d)) \<and>
    (\<forall>a\<in>set (dsl_actions d). \<forall>(key, value)\<in>set (stmt_dump a).
       \<exists>deps. extract_expressions parse value = Inr deps \<and> set deps \<subseteq> set (action_refs d))"
proof (intro conjI ballI)
  have ok: "deps_ok d" using assms by (rule validate_structure_deps_ok)
  show "distinct (action_refs d)" using ok by (simp add: deps_ok_def)
  show "dsl_actions d \<noteq> []" using assms by (simp add: validate_structure_def split: if_splits)
  show "\<exists>a\<in>set (dsl_actions d). stmt_depends_on a = []"
    using assms by (auto simp: validate_structure_def filter_empty_conv split: if_splits)
  show "\<exists>src ty. edge_components_from_dep dep = Some (src, ty) \<and> src \<in> set (action_refs d)"
    if "a \<in> set (dsl_actions d)" "dep \<in> set (stmt_depends_on a)" for a dep
    using deps_ok_parse [OF ok that] by metis
  fix a kv assume a: "a \<in> set (dsl_actions d)" and kv: "kv \<in> set (stmt_dump a)"
  have "all_action_expressions_valid parse d = None"
    using assms by (auto simp: validate_structure_def validation_simps split: if_splits)
  with a kv show "case kv of (key, value) \<Rightarrow>
      \<exists>deps. extract_expressions parse value = Inr deps \<and> set deps \<subseteq> set (action_refs d)"
    by (fastforce simp: all_action_expressions_valid_def validation_simps subset_iff split: sum.splits)
qed

section \<open>Scopes of an accepted definition\<close>

definition parent_of :: "hierarchy \<Rightarrow> (string \<times> string) set" where
  "parent_of h = {(s, p). dget h s = Some (Some p)}"

lemma hier_index_parent:
  assumes "hier_ok h" "i < length h" "dget h (fst (h ! i)) = Some (Some p)"
  shows "\<exists>j<i. fst (h ! j) = p"
proof -
  have dist: "distinct (dkeys h)" using assms(1) by (simp add: hier_ok_def)
  have "(fst (h ! i), snd (h ! i)) \<in> set h" using assms(2) by simp
  then have "dget h (fst (h ! i)) = Some (snd (h ! i))" by (rule map_of_is_SomeI [OF dist])
  then have s: "snd (h ! i) = Some p" using assms(3) by simp
  have "i \<noteq> 0"
  proof
    assume "i = 0"
    then have "h ! i = (ROOT_SCOPE, None)" using assms(1) by (metis hier_ok_def hd_conv_nth)
    with s show False by simp
  qed
  then obtain p' where "snd (h ! i) = Some p'" "p' \<in> set (dkeys (take i h))"
    using assms(1,2) unfolding hier_ok_def by blast
  with s assms(2) show ?thesis by (auto simp: in_set_conv_nth) (metis fst_conv)
qed

lemma is_ancestor_sound:
  "is_ancestor fuel h dep (Some s) \<Longrightarrow> (s, dep) \<in> (parent_of h)\<^sup>*"
proof (induction fuel arbitrary: s)
  case 0
  then show ?case by simp
next
  case (Suc fuel)
  then show ?case
  proof (cases "dep = s")
    case False
    then obtain p where p: "ancestor_step h s = Some p" "is_ancestor fuel h dep (Some p)"
      using Suc.prems by (cases "ancestor_step h s") auto
    then have "(s, p) \<in> parent_of h"
      by (auto simp: parent_of_def ancestor_step_def split: option.splits)
    then show ?thesis using Suc.IH [OF p(2)] by (rule converse_rtrancl_into_rtrancl)
  qed simp
qed

lemma is_ancestor_complete:
  assumes "hier_ok h" "(s, dep) \<in> (parent_of h)\<^sup>*" "i < length h" "fst (h ! i) = s" "i \<le> fuel"
  shows "is_ancestor fuel h dep (Some s)"
  using assms(2-5)
proof (induction fuel arbitrary: s i)
  case 0
  then have "\<not> (\<exists>p. (s, p) \<in> parent_of h)"
    using hier_index_parent [OF assms(1), of 0] by (fastforce simp: parent_of_def)
  with 0(1) have "dep = s" by (metis converse_rtranclE)
  then show ?case by simp
next
  case (Suc fuel)
  show ?case
  proof (cases "dep = s")
    case False
    with Suc.prems(1) obtain p where p: "(s, p) \<in> parent_of h" "(p, dep) \<in> (parent_of h)\<^sup>*"
      by (metis converse_rtranclE)
    then have "dget h (fst (h ! i)) = Some (Some p)" using Suc.prems(3) by (simp add: parent_of_def)
    then obtain j where j: "j < i" "fst (h ! j) = p"
      using hier_index_parent [OF assms(1) Suc.prems(2)] by blast
    with Suc.prems have "is_ancestor fuel h dep (Some p)" by (intro Suc.IH [OF p(2), of j]) auto
    moreover have "ancestor_step h s = Some p" using p(1) by (simp add: parent_of_def ancestor_step_def)
    ultimately show ?thesis by simp
  qed simp
qed

text \<open>The walk up the scope hierarchy answers exactly whether one scope is the other or one of its
  ancestors; in particular the number of scopes bounds the walk, so the loop of the code ends.\<close>

lemma is_ancestor_correct:
  assumes "hier_ok h" "s \<in> set (dkeys h)"
  shows "is_ancestor (length h) h dep (Some s) \<longleftrightarrow> (s, dep) \<in> (parent_of h)\<^sup>*"
proof -
  obtain i where "i < length h" "fst (h ! i) = s" using assms(2) by (auto simp: in_set_conv_nth)
  then show ?thesis using is_ancestor_complete [OF assms(1)] is_ancestor_sound by auto
qed




















lemma expr_deps_known:
  assumes "all_action_expressions_valid parse d = None" "a \<in> set (dsl_actions d)"
    "(key, value) \<in> set (stmt_dump a)" "extract_expressions parse value = Inr deps" "dep \<in> set deps"
  shows "dep \<in> set (action_refs d)"
proof -
  have "first_error (\<lambda>dep. check_that (dep \<in> set (action_refs d))
      (UnknownActionRef (stmt_ref a) (key2loc key) dep)) deps = None"
    using bspec [OF bspec [OF assms(1) [unfolded all_action_expressions_valid_def first_error_None] assms(2),
        unfolded first_error_None] assms(3)] assms(4)
    by simp
  then show ?thesis using assms(5) by (simp add: validation_simps)
qed



section \<open>Instances\<close>

text \<open>A loop over a list: scatter, one action in the new scope, gather.\<close>

definition sample_scatter :: dsl_input where
  "sample_scatter = \<lparr>dsl_actions =
     [default_stmt ''split'' TRANSFORM_SCATTER,
      (default_stmt ''work'' ''core.noop'')\<lparr>stmt_depends_on := [''split''],
         stmt_args := [(''x'', JStr ''${{ ACTIONS.split.result }}'')]\<rparr>,
      (default_stmt ''join'' TRANSFORM_GATHER)\<lparr>stmt_depends_on := [''work.success'']\<rparr>]\<rparr>"

text \<open>An entrypoint, and beside it two actions that wait for each other.\<close>

definition sample_cycle :: "string \<Rightarrow> dsl_input" where
  "sample_cycle kind = \<lparr>dsl_actions =
     [default_stmt ''start'' kind,
      (default_stmt ''ping'' ''core.noop'')\<lparr>stmt_depends_on := [''pong'']\<rparr>,
      (default_stmt ''pong'' ''core.noop'')\<lparr>stmt_depends_on := [''ping'']\<rparr>]\<rparr>"

definition sample_parser :: expr_parser where
  "sample_parser e = (if e = ''ACTIONS.split.result'' then Some [''.split.result''] else None)"

lemmas sample_defs = sample_scatter_def sample_cycle_def sample_parser_def default_stmt_def

lemma sample_scatter_refs [simp]: "action_refs sample_scatter = [''split'', ''work'', ''join'']"
  by (simp add: sample_defs)

lemma sample_scatter_slugs: "slug_refs sample_scatter"
  by code_simp

lemma sample_scatter_valid: "validate_structure sample_parser sample_scatter = None"
  by code_simp

lemma sample_scatter_assigned:
  "(case to_adjacency sample_scatter of Inl _ \<Rightarrow> False
    | Inr adj \<Rightarrow> assign_action_scopes sample_scatter adj =
        Inr ([(''split'', ''split''), (''work'', ''split''), (''join'', ROOT_SCOPE)],
             [(ROOT_SCOPE, None), (''split'', Some ROOT_SCOPE)]))"
  by code_simp

lemma sample_cycle_deps: "deps_ok (sample_cycle TRANSFORM_SCATTER)" "slug_refs (sample_cycle TRANSFORM_SCATTER)"
  unfolding deps_ok_def by (code_simp, code_simp)

lemma sample_cycle_rejected:
  "(case to_adjacency (sample_cycle TRANSFORM_SCATTER) of Inl _ \<Rightarrow> False
    | Inr adj \<Rightarrow> assign_action_scopes (sample_cycle TRANSFORM_SCATTER) adj = Inl ScopeCycle)"
  by code_simp

theorem assign_scopes_topological_witness:
  "\<exists>adj sc h. to_adjacency sample_scatter = Inr adj \<and> assign_action_scopes sample_scatter adj = Inr (sc, h) \<and>
     topo_order (dep_edges sample_scatter) (dkeys sc)"
proof -
  have ok: "deps_ok sample_scatter" using sample_scatter_valid by (rule validate_structure_deps_ok)
  obtain adj sc h where a: "to_adjacency sample_scatter = Inr adj"
      "assign_action_scopes sample_scatter adj = Inr (sc, h)"
    using sample_scatter_assigned by (auto split: sum.splits)
  from a assign_scopes_topological [OF ok sample_scatter_slugs a] show ?thesis by blast
qed

lemma scope_cycle_no_order_witness:
  "\<not> (\<exists>W. topo_order (dep_edges (sample_cycle TRANSFORM_SCATTER)) W \<and>
        set W = set (action_refs (sample_cycle TRANSFORM_SCATTER)))"
proof -
  obtain adj where a: "to_adjacency (sample_cycle TRANSFORM_SCATTER) = Inr adj"
      "assign_action_scopes (sample_cycle TRANSFORM_SCATTER) adj = Inl ScopeCycle"
    using sample_cycle_rejected by (auto split: sum.splits)
  show ?thesis by (rule scope_cycle_no_order [OF sample_cycle_deps a])
qed

theorem validate_structure_sound_witness:
  "distinct (action_refs sample_scatter) \<and> (\<exists>a\<in>set (dsl_actions sample_scatter). stmt_depends_on a = [])"
  using validate_structure_sound [OF sample_scatter_valid] by blast

lemma is_ancestor_correct_witness:
  "(''inner'', ROOT_SCOPE) \<in> (parent_of [(ROOT_SCOPE, None), (''inner'', Some ROOT_SCOPE)])\<^sup>*"
proof -
  have "hier_ok [(ROOT_SCOPE, None), (''inner'', Some ROOT_SCOPE)]"
    using hier_ok_snoc [OF hier_ok_init, of "''inner''" ROOT_SCOPE] by (simp add: ROOT_SCOPE_def)
  then show ?thesis
    by (subst is_ancestor_correct [symmetric]) (simp_all add: ancestor_step_def ROOT_SCOPE_def)
qed



section \<open>Cycles outside scatter\<close>

text \<open>Without a scatter no cycle is looked for: a definition with an entrypoint and two actions that
  wait for each other is accepted, although no order of its actions respects the dependencies.\<close>

lemma cycle_accepted_without_scatter:
  "validate_structure sample_parser (sample_cycle ''core.noop'') = None \<and>
   \<not> (\<exists>W. topo_order (dep_edges (sample_cycle ''core.noop'')) W \<and>
          set W = set (action_refs (sample_cycle ''core.noop'')))"
proof
  show "validate_structure sample_parser (sample_cycle ''core.noop'') = None" by code_simp
  have "dep_edges (sample_cycle ''core.noop'') = dep_edges (sample_cycle TRANSFORM_SCATTER)"
    "action_refs (sample_cycle ''core.noop'') = action_refs (sample_cycle TRANSFORM_SCATTER)"
    by code_simp+
  moreover obtain adj where "to_adjacency (sample_cycle TRANSFORM_SCATTER) = Inr adj"
      "assign_action_scopes (sample_cycle TRANSFORM_SCATTER) adj = Inl ScopeCycle"
    using sample_cycle_rejected by (auto split: sum.splits)
  ultimately show "\<not> (\<exists>W. topo_order (dep_edges (sample_cycle ''core.noop'')) W \<and>
      set W = set (action_refs (sample_cycle ''core.noop'')))"
    using cycle_has_no_order [OF sample_cycle_deps] by metis
qed

section \<open>Failing lookups\<close>

lemma scope_known:
  assumes "set (dkeys sc) = R" "set (map snd sc) \<subseteq> set (dkeys h)" "r \<in> R"
  shows "\<exists>s p. dget sc r = Some s \<and> dget h s = Some p"
proof -
  have "dget sc r \<noteq> None" using assms(1,3) by (simp add: dget_None_iff)
  then obtain s where s: "dget sc r = Some s" by blast
  then have "(r, s) \<in> set sc" by (rule map_of_SomeD)
  then have "s \<in> set (map snd sc)" by force
  then have "s \<in> set (dkeys h)" using assms(2) by blast
  then have "dget h s \<noteq> None" by (simp only: dget_None_iff not_not)
  with s show ?thesis by blast
qed

lemma scope_checks_no_key_error:
  assumes "set (dkeys sc) = set (action_refs d)" "set (map snd sc) \<subseteq> set (dkeys h)"
    "a \<in> set (dsl_actions d)"
  shows "edge_components_from_dep dep = Some (src, ty) \<Longrightarrow> src \<in> set (action_refs d) \<Longrightarrow>
      edge_scope_check sc h a dep \<noteq> Some (KeyErr k)"
    and "src \<in> set (action_refs d) \<Longrightarrow> expr_scope_check sc h a key src \<noteq> Some (KeyErr k)"
proof -
  have "stmt_ref a \<in> set (action_refs d)" using assms(3) by simp
  then obtain s p where a: "dget sc (stmt_ref a) = Some s" "dget h s = Some p"
    using scope_known [OF assms(1,2)] by blast
  show "edge_scope_check sc h a dep \<noteq> Some (KeyErr k)"
    if "edge_components_from_dep dep = Some (src, ty)" and src: "src \<in> set (action_refs d)"
  proof -
    obtain s' p' where "dget sc src = Some s'" "dget h s' = Some p'"
      using scope_known [OF assms(1,2) src] by blast
    with a that(1) show ?thesis by (simp add: edge_scope_check_def check_that_def)
  qed
  show "expr_scope_check sc h a key src \<noteq> Some (KeyErr k)" if src: "src \<in> set (action_refs d)"
  proof -
    obtain s' p' where "dget sc src = Some s'" "dget h s' = Some p'"
      using scope_known [OF assms(1,2) src] by blast
    with a show ?thesis by (simp add: expr_scope_check_def check_that_def)
  qed
qed

lemma scope_dependencies_errors:
  assumes "deps_ok d" "all_action_expressions_valid parse d = None"
    and "set (dkeys sc) = set (action_refs d)" "set (map snd sc) \<subseteq> set (dkeys h)"
    and "validate_scope_dependencies parse d sc h = Some e"
  shows "(\<forall>k. e \<noteq> KeyErr k) \<and> (\<forall>r s t. e \<noteq> MultipleScopes r s t)"
proof -
  obtain a where a: "a \<in> set (dsl_actions d)"
    and x: "also_check (first_error (edge_scope_check sc h a) (stmt_depends_on a))
       (first_error
         (\<lambda>(key, value). case extract_expressions parse value of
             Inl e \<Rightarrow> Some (ExprFailed e)
           | Inr deps \<Rightarrow> first_error (expr_scope_check sc h a key) deps)
         (filter (\<lambda>(key, value). key \<noteq> ''depends_on'') (stmt_dump a))) = Some e"
    using first_error_Some [OF assms(5) [unfolded validate_scope_dependencies_def]] by blast
  have "(\<exists>dep\<in>set (stmt_depends_on a). edge_scope_check sc h a dep = Some e) \<or>
      (\<exists>(key, value)\<in>set (stmt_dump a). case extract_expressions parse value of
          Inl x \<Rightarrow> e = ExprFailed x | Inr deps \<Rightarrow> \<exists>dep\<in>set deps. expr_scope_check sc h a key dep = Some e)"
  proof (cases "first_error (edge_scope_check sc h a) (stmt_depends_on a)")
    case None
    with x have "first_error
         (\<lambda>(key, value). case extract_expressions parse value of
             Inl e \<Rightarrow> Some (ExprFailed e)
           | Inr deps \<Rightarrow> first_error (expr_scope_check sc h a key) deps)
         (filter (\<lambda>(key, value). key \<noteq> ''depends_on'') (stmt_dump a)) = Some e"
      by (simp add: also_check_def)
    from first_error_Some [OF this] obtain key val where kv: "(key, val) \<in> set (stmt_dump a)"
        "(case extract_expressions parse val of Inl e \<Rightarrow> Some (ExprFailed e)
           | Inr deps \<Rightarrow> first_error (expr_scope_check sc h a key) deps) = Some e"
      by auto
    show ?thesis
    proof (rule disjI2, rule bexI [OF _ kv(1)])
      show "case (key, val) of (key, value) \<Rightarrow> (case extract_expressions parse value of
          Inl x \<Rightarrow> e = ExprFailed x | Inr deps \<Rightarrow> \<exists>dep\<in>set deps. expr_scope_check sc h a key dep = Some e)"
        using kv(2) by (auto split: sum.splits dest!: first_error_Some)
    qed
  next
    case (Some e')
    with x have "first_error (edge_scope_check sc h a) (stmt_depends_on a) = Some e" by (simp add: also_check_def)
    from first_error_Some [OF this] show ?thesis by (rule disjI1)
  qed
  then show ?thesis
  proof (elim disjE bexE)
    fix dep assume dep: "dep \<in> set (stmt_depends_on a)" "edge_scope_check sc h a dep = Some e"
    obtain src ty where s: "edge_components_from_dep dep = Some (src, ty)" "src \<in> set (action_refs d)"
      using deps_ok_parse [OF assms(1) a dep(1)] by metis
    have "e \<noteq> MultipleScopes r s t" for r s t
      using dep(2) by (auto simp: edge_scope_check_def check_that_def split: option.splits if_splits)
    then show ?thesis using scope_checks_no_key_error(1) [OF assms(3,4) a s] dep(2) by auto
  next
    fix kv assume kv: "kv \<in> set (stmt_dump a)" "case kv of (key, value) \<Rightarrow> (case extract_expressions parse value of
          Inl x \<Rightarrow> e = ExprFailed x | Inr deps \<Rightarrow> \<exists>dep\<in>set deps. expr_scope_check sc h a key dep = Some e)"
    obtain key val where k: "kv = (key, val)" by fastforce
    show ?thesis
    proof (cases "extract_expressions parse val")
      case (Inr deps)
      then obtain dep where dep: "dep \<in> set deps" "expr_scope_check sc h a key dep = Some e"
        using kv k by auto
      then have "\<forall>r s t. e \<noteq> MultipleScopes r s t"
        by (auto simp: expr_scope_check_def check_that_def simp del: is_ancestor.simps split: option.splits if_splits)
      moreover have "dep \<in> set (action_refs d)"
        using expr_deps_known [OF assms(2) a _ Inr dep(1)] kv(1) k by blast
      ultimately show ?thesis using scope_checks_no_key_error(2) [OF assms(3,4) a] dep(2) by auto
    qed (use kv k in auto)
  qed
qed

lemma validate_structure_other_errors:
  assumes "validate_structure parse d = Some e"
  shows "(validate_scatter_gather_scopes parse d = Some e \<and> deps_ok d \<and>
      all_action_expressions_valid parse d = None \<and> filter is_scatter (dsl_actions d) \<noteq> []) \<or>
    ((\<forall>k. e \<noteq> KeyErr k) \<and> (\<forall>r s t. e \<noteq> MultipleScopes r s t))"
proof -
  have parse: "check_deps_parse d = Some e \<Longrightarrow> \<exists>dep r. e = InvalidDependsOn dep r"
    by (auto simp: check_deps_parse_def dest!: first_error_Some split: option.splits)
  have expr: "all_action_expressions_valid parse d = Some e \<Longrightarrow>
      (\<exists>x. e = ExprFailed x) \<or> (\<exists>r k p. e = UnknownActionRef r k p)"
    by (auto simp: all_action_expressions_valid_def check_that_def dest!: first_error_Some
        split: sum.splits if_splits)
  have dist: "length (remdups (action_refs d)) = length (dsl_actions d) \<Longrightarrow> distinct (action_refs d)"
    using card_distinct [of "action_refs d"] length_remdups_card_conv [of "action_refs d"] by simp
  have none: "validate_scatter_gather_scopes parse d = Some e \<Longrightarrow> filter is_scatter (dsl_actions d) = [] \<Longrightarrow>
      e = MoreGathersThanScatters"
    by (auto simp: validate_scatter_gather_scopes_def Let_def split: if_splits)
  show ?thesis
    using assms parse expr dist none
    by (auto simp: validate_structure_def also_check_def deps_ok_def check_that_def
        split: if_splits option.splits)
qed

text \<open>Validation fails only with the errors it means to raise: no lookup of an action, a scope or a
  parent scope misses its key, and no action is ever assigned two scopes.\<close>

lemma validation_never_key_error:
  assumes "slug_refs d" "validate_structure parse d = Some e"
  shows "(\<forall>k. e \<noteq> KeyErr k) \<and> (\<forall>r s t. e \<noteq> MultipleScopes r s t)"
proof (cases "validate_scatter_gather_scopes parse d = Some e \<and> deps_ok d \<and>
    all_action_expressions_valid parse d = None \<and> filter is_scatter (dsl_actions d) \<noteq> []")
  case False
  then show ?thesis using validate_structure_other_errors [OF assms(2)] by blast
next
  case True
  then obtain adj where adj: "to_adjacency d = Inr adj" using to_adjacency_total by blast
  show ?thesis
  proof (cases "assign_action_scopes d adj")
    case (Inl e')
    then have "e = e' \<or> e = MoreGathersThanScatters"
      using True adj by (auto simp: validate_scatter_gather_scopes_def Let_def split: if_splits)
    then show ?thesis using assign_scopes_errors [OF _ assms(1) adj Inl] True by auto
  next
    case (Inr r)
    obtain sc h where r: "r = (sc, h)" by fastforce
    then have "e = MoreGathersThanScatters \<or> validate_scope_dependencies parse d sc h = Some e"
      using True adj Inr by (auto simp: validate_scatter_gather_scopes_def Let_def split: if_splits)
    moreover have "set (dkeys sc) = set (action_refs d)" "set (map snd sc) \<subseteq> set (dkeys h)"
      using assign_scopes_topological_aux [OF _ assms(1) adj] Inr r True by auto
    ultimately show ?thesis
      using scope_dependencies_errors [where parse = parse and d = d and sc = sc and h = h and e = e] True by auto
  qed
qed

lemma validation_never_key_error_witness:
  "validate_structure sample_parser (sample_cycle TRANSFORM_SCATTER) = Some ScopeCycle \<and> (\<forall>k. ScopeCycle \<noteq> KeyErr k)"
proof
  show v: "validate_structure sample_parser (sample_cycle TRANSFORM_SCATTER) = Some ScopeCycle" by code_simp
  show "\<forall>k. ScopeCycle \<noteq> KeyErr k"
    using validation_never_key_error [OF sample_cycle_deps(2) v] by blast
qed

end
