(* ===== verification/Scheduler_Ops.thy ===== *)
theory Scheduler_Ops
  imports Scheduler Dsl_Correct
begin

text \<open>
  What the operations of the scheduler do to its state: the effect of queueing the successors of a
  task on indegrees, queue and edges, what it leaves alone, and the adjacency built from a definition.
\<close>

section \<open>Queueing the successors\<close>

definition succ_count :: "adj_dst list \<Rightarrow> string \<Rightarrow> nat" where
  "succ_count ds n = length (filter (\<lambda>d. fst d = n) ds)"

definition indeg0 :: "sched \<Rightarrow> sstate \<Rightarrow> string \<Rightarrow> stream_id \<Rightarrow> int" where
  "indeg0 sch s n sid = (case dget (st_indegrees s) (n, sid) of None \<Rightarrow> n_deps sch n | Some k \<Rightarrow> k)"

lemma queue_next_frame [simp]:
  "st_completed (queue_next sch t un d s) = st_completed s"
  "st_task_exceptions (queue_next sch t un d s) = st_task_exceptions s"
  "st_stream_exceptions (queue_next sch t un d s) = st_stream_exceptions s"
  "st_streams (queue_next sch t un d s) = st_streams s"
  "st_hierarchy (queue_next sch t un d s) = st_hierarchy s"
  "st_task_streams (queue_next sch t un d s) = st_task_streams s"
  "st_open_streams (queue_next sch t un d s) = st_open_streams s"
  "st_pending (queue_next sch t un d s) = st_pending s"
  by (auto simp: queue_next_def mark_edge_def Let_def split: prod.splits)

lemma fold_queue_next_frame [simp]:
  "st_completed (fold (queue_next sch t un) ds s) = st_completed s"
  "st_task_exceptions (fold (queue_next sch t un) ds s) = st_task_exceptions s"
  "st_stream_exceptions (fold (queue_next sch t un) ds s) = st_stream_exceptions s"
  "st_streams (fold (queue_next sch t un) ds s) = st_streams s"
  "st_hierarchy (fold (queue_next sch t un) ds s) = st_hierarchy s"
  "st_task_streams (fold (queue_next sch t un) ds s) = st_task_streams s"
  "st_open_streams (fold (queue_next sch t un) ds s) = st_open_streams s"
  "st_pending (fold (queue_next sch t un) ds s) = st_pending s"
  by (induction ds arbitrary: s) simp_all

lemma queue_tasks_frame [simp]:
  "st_completed (queue_tasks sch t un s) = st_completed s"
  "st_task_exceptions (queue_tasks sch t un s) = st_task_exceptions s"
  "st_stream_exceptions (queue_tasks sch t un s) = st_stream_exceptions s"
  "st_streams (queue_tasks sch t un s) = st_streams s"
  "st_hierarchy (queue_tasks sch t un s) = st_hierarchy s"
  "st_task_streams (queue_tasks sch t un s) = st_task_streams s"
  "st_open_streams (queue_tasks sch t un s) = st_open_streams s"
  "st_pending (queue_tasks sch t un s) = st_pending s"
  by (simp_all add: queue_tasks_def)

lemma queue_next_indeg:
  "dget (st_indegrees (queue_next sch t un (m, ty) s)) k =
   (if k = (m, t_stream t) then Some (indeg0 sch s m (t_stream t) - 1) else dget (st_indegrees s) k)"
  by (auto simp: queue_next_def mark_edge_def Let_def indeg0_def tkey_def)

lemma queue_next_edges:
  "st_edges (queue_next sch t un (m, ty) s) =
   (st_edges s)(mk_edge (t_ref t) m ty (t_stream t) :=
      (if mk_edge (t_ref t) m ty (t_stream t) \<in> un then Skipped else Visited))"
  by (auto simp: queue_next_def mark_edge_def Let_def)

lemma queue_next_queue:
  "st_queue (queue_next sch t un (m, ty) s) =
   st_queue s @ (if indeg0 sch s m (t_stream t) = 1
                 then [\<lparr>t_ref = m, t_stream = t_stream t, t_delay = t_delay t\<rparr>] else [])"
  by (auto simp: queue_next_def mark_edge_def Let_def indeg0_def tkey_def)

lemma fold_queue_indeg:
  "dget (st_indegrees (fold (queue_next sch t un) ds s)) (n, sid) =
   (if sid = t_stream t \<and> 0 < succ_count ds n
    then Some (indeg0 sch s n sid - int (succ_count ds n)) else dget (st_indegrees s) (n, sid))"
proof (induction ds arbitrary: s)
  case Nil
  then show ?case by (simp add: succ_count_def)
next
  case (Cons d ds)
  obtain m ty where d: "d = (m, ty)" by fastforce
  have i: "indeg0 sch (queue_next sch t un (m, ty) s) n sid =
      (if n = m \<and> sid = t_stream t then indeg0 sch s n sid - 1 else indeg0 sch s n sid)"
    by (auto simp: indeg0_def queue_next_indeg)
  have g: "dget (st_indegrees (queue_next sch t un (m, ty) s)) (n, sid) =
      (if n = m \<and> sid = t_stream t then Some (indeg0 sch s n sid - 1) else dget (st_indegrees s) (n, sid))"
    by (auto simp: queue_next_indeg)
  show ?case
    using Cons.IH [of "queue_next sch t un (m, ty) s"] unfolding d i g
    by (auto simp: succ_count_def)
qed

lemma fold_queue_edges:
  "st_edges (fold (queue_next sch t un) ds s) e =
   (if e_src e = t_ref t \<and> e_stream e = t_stream t \<and> (e_dst e, e_type e) \<in> set ds
    then (if e \<in> un then Skipped else Visited) else st_edges s e)"
proof (induction ds arbitrary: s)
  case Nil
  then show ?case by simp
next
  case (Cons d ds)
  obtain m ty where d: "d = (m, ty)" by fastforce
  have "e = mk_edge (t_ref t) m ty (t_stream t) \<longleftrightarrow>
      e_src e = t_ref t \<and> e_stream e = t_stream t \<and> (e_dst e, e_type e) = (m, ty)"
    by (cases e) (auto simp: mk_edge_def)
  then show ?case using Cons.IH [of "queue_next sch t un (m, ty) s"] by (auto simp: d queue_next_edges)
qed

lemma fold_queue_queue:
  "\<exists>new. st_queue (fold (queue_next sch t un) ds s) =
      st_queue s @ map (\<lambda>n. \<lparr>t_ref = n, t_stream = t_stream t, t_delay = t_delay t\<rparr>) new \<and> distinct new \<and>
    (\<forall>n. n \<in> set new \<longleftrightarrow> 0 < indeg0 sch s n (t_stream t) \<and>
       indeg0 sch s n (t_stream t) \<le> int (succ_count ds n))"
proof (induction ds arbitrary: s)
  case Nil
  then show ?case by (intro exI [of _ "[]"]) (auto simp: succ_count_def)
next
  case (Cons d ds)
  obtain m ty where d: "d = (m, ty)" by fastforce
  let ?s = "queue_next sch t un (m, ty) s"
  have i: "indeg0 sch ?s n (t_stream t) = indeg0 sch s n (t_stream t) - (if n = m then 1 else 0)" for n
    by (auto simp: indeg0_def queue_next_indeg)
  obtain new where new: "st_queue (fold (queue_next sch t un) ds ?s) =
      st_queue ?s @ map (\<lambda>n. \<lparr>t_ref = n, t_stream = t_stream t, t_delay = t_delay t\<rparr>) new" "distinct new"
    "\<forall>n. n \<in> set new \<longleftrightarrow> 0 < indeg0 sch ?s n (t_stream t) \<and> indeg0 sch ?s n (t_stream t) \<le> int (succ_count ds n)"
    using Cons.IH by blast
  have sc: "succ_count (d # ds) n = (if n = m then 1 else 0) + succ_count ds n" for n
    by (simp add: d succ_count_def)
  define k where "k n = indeg0 sch s n (t_stream t)" for n
  have mem: "n \<in> set new \<longleftrightarrow> 0 < k n - (if n = m then 1 else 0) \<and> k n - (if n = m then 1 else 0) \<le> int (succ_count ds n)" for n
    using new(3) i by (simp add: k_def)
  show ?case
  proof (cases "k m = 1")
    case True
    then have m: "m \<notin> set new" using mem [of m] by simp
    have "n \<in> set (m # new) \<longleftrightarrow> 0 < k n \<and> k n \<le> int (succ_count (d # ds) n)" for n
      using mem [of n] True sc [of n] by (cases "n = m") auto
    then show ?thesis using new(1,2) m True
      by (intro exI [of _ "m # new"]) (simp add: d queue_next_queue k_def)
  next
    case False
    have "n \<in> set new \<longleftrightarrow> 0 < k n \<and> k n \<le> int (succ_count (d # ds) n)" for n
      using mem [of n] False sc [of n] by (cases "n = m") auto
    then show ?thesis using new(1,2) False
      by (intro exI [of _ new]) (simp add: d queue_next_queue k_def)
  qed
qed

lemmas queue_tasks_indeg = fold_queue_indeg [of sch t un "adj_of sch (t_ref t)" for sch t un, folded queue_tasks_def]
lemmas queue_tasks_edges = fold_queue_edges [of sch t un "adj_of sch (t_ref t)" for sch t un, folded queue_tasks_def]
lemmas queue_tasks_queue = fold_queue_queue [of sch t un "adj_of sch (t_ref t)" for sch t un, folded queue_tasks_def]

lemma out_edges_iff:
  "e \<in> out_edges sch ref sid P \<longleftrightarrow>
   e_src e = ref \<and> e_stream e = sid \<and> P (e_type e) \<and> (e_dst e, e_type e) \<in> set (adj_of sch ref)"
  by (cases e) (auto simp: out_edges_def mk_edge_def image_iff)

section \<open>Adjacency\<close>

definition dlist :: "('k, 'v list) dict \<Rightarrow> 'k \<Rightarrow> 'v list" where
  "dlist d k = (case dget d k of None \<Rightarrow> [] | Some xs \<Rightarrow> xs)"

lemma adj_add_dlist:
  "set (dlist (adj_add ref adj dep) s) =
   set (dlist adj s) \<union> {x. fst x = ref \<and> edge_components_from_dep dep = Some (s, snd x)}"
  by (auto simp: adj_add_def dlist_def split: option.splits)

lemma adj_add_set:
  "set (dlist (foldl (adj_add ref) adj deps) s) =
   set (dlist adj s) \<union> {x. fst x = ref \<and> Some (s, snd x) \<in> set (map edge_components_from_dep deps)}"
proof (induction deps arbitrary: adj)
  case Nil
  then show ?case by simp
next
  case (Cons dep deps)
  have "x \<in> set (dlist (foldl (adj_add ref) (adj_add ref adj dep) deps) s) \<longleftrightarrow>
      x \<in> set (dlist adj s) \<or> (fst x = ref \<and> edge_components_from_dep dep = Some (s, snd x)) \<or>
      (fst x = ref \<and> Some (s, snd x) \<in> set (map edge_components_from_dep deps))" for x
    unfolding Cons.IH adj_add_dlist by blast
  then show ?case by (auto simp: eq_commute)
qed

definition temp_adj :: "action_stmt list \<Rightarrow> (string, adj_dst list) dict" where
  "temp_adj as = foldl (\<lambda>adj a. foldl (adj_add (stmt_ref a)) adj (stmt_depends_on a)) [] as"

lemma temp_adj_gen:
  "set (dlist (foldl (\<lambda>adj a. foldl (adj_add (stmt_ref a)) adj (stmt_depends_on a)) adj as) s) =
   set (dlist adj s) \<union> {x. \<exists>a\<in>set as. fst x = stmt_ref a \<and> Some (s, snd x) \<in> set (dep_components a)}"
  by (induction as arbitrary: adj) (auto simp: adj_add_set dep_components_def)

lemma temp_adj_set:
  "set (dlist (temp_adj as) s) = {x. \<exists>a\<in>set as. fst x = stmt_ref a \<and> Some (s, snd x) \<in> set (dep_components a)}"
  unfolding temp_adj_def temp_adj_gen by (simp add: dlist_def)

lemma map_of_keyed:
  "distinct (map g xs) \<Longrightarrow> dget (map (\<lambda>x. (g x, f (g x))) xs) k = (if k \<in> set (map g xs) then Some (f k) else None)"
  by (induction xs) auto

lemma build_adj_get:
  assumes "distinct (map stmt_ref as)"
  shows "dget (build_adj as) s =
    (if s \<in> set (map stmt_ref as) then Some (sort (remdups (dlist (temp_adj as) s))) else None)"
proof -
  have t: "foldl (\<lambda>m a. dset (stmt_ref a) a m) [] as = map (\<lambda>a. (stmt_ref a, a)) as"
    using foldl_dset_key [OF assms, of "\<lambda>x. x"] by simp
  have "build_adj as = map (\<lambda>a. (stmt_ref a, sort (remdups (dlist (temp_adj as) (stmt_ref a))))) as"
    by (simp add: build_adj_def Let_def t comp_def dlist_def temp_adj_def)
  then show ?thesis using map_of_keyed [OF assms, of "\<lambda>s. sort (remdups (dlist (temp_adj as) s))"] by simp
qed

section \<open>A scheduler for a validated definition\<close>

text \<open>
  \<open>sched_for d sch\<close>: the static part has been built from the definition \<open>d\<close>, whose
  references are distinct and whose dependencies parse and exist.
\<close>

definition sched_for :: "dsl_input \<Rightarrow> sched \<Rightarrow> bool" where
  "sched_for d sch \<longleftrightarrow> deps_ok d \<and> sch_adj sch = build_adj (dsl_actions d) \<and>
     sch_tasks sch = foldl (\<lambda>m a. dset (stmt_ref a) a m) [] (dsl_actions d)"

lemma sched_for_init: "deps_ok d \<Longrightarrow> sched_for d (init_sched (dsl_actions d) sa ga tj parse)"
  by (simp add: sched_for_def init_sched_def)

lemma sched_for_tasks:
  assumes "sched_for d sch"
  shows "sch_tasks sch = map (\<lambda>a. (stmt_ref a, a)) (dsl_actions d)"
  using assms foldl_dset_key [of stmt_ref "dsl_actions d" "\<lambda>x. x"] by (simp add: sched_for_def deps_ok_def)

lemma sched_for_task:
  assumes "sched_for d sch" "a \<in> set (dsl_actions d)"
  shows "dget (sch_tasks sch) (stmt_ref a) = Some a"
  using assms map_of_map_key [of stmt_ref "dsl_actions d" a "\<lambda>x. x"]
  by (simp add: sched_for_tasks [OF assms(1)]) (simp add: sched_for_def deps_ok_def)

lemma sched_for_task_iff:
  assumes "sched_for d sch"
  shows "dget (sch_tasks sch) r = Some a \<longleftrightarrow> a \<in> set (dsl_actions d) \<and> stmt_ref a = r"
  using sched_for_task [OF assms] map_of_map_key_Some [of stmt_ref "\<lambda>x. x" "dsl_actions d" r a]
  by (auto simp: sched_for_tasks [OF assms])

lemma sched_for_n_deps:
  assumes "sched_for d sch" "a \<in> set (dsl_actions d)"
  shows "n_deps sch (stmt_ref a) = int (length (stmt_depends_on a))"
  using sched_for_task [OF assms] by (simp add: n_deps_def)

lemma adj_of_iff:
  assumes "sched_for d sch"
  shows "(n, ty) \<in> set (adj_of sch s) \<longleftrightarrow>
    (\<exists>a\<in>set (dsl_actions d). stmt_ref a = n \<and> Some (s, ty) \<in> set (dep_components a))"
proof -
  have ok: "deps_ok d" using assms by (simp add: sched_for_def)
  have known: "s \<in> set (action_refs d)"
    if a: "a \<in> set (dsl_actions d)" and s: "Some (s, ty) \<in> set (dep_components a)" for a ty
  proof -
    obtain dep where "dep \<in> set (stmt_depends_on a)" "edge_components_from_dep dep = Some (s, ty)"
      using s by (auto simp: dep_components_def)
    then show ?thesis using deps_ok_parse [OF ok a] by (metis fst_conv option.inject)
  qed
  have "adj_of sch s = (if s \<in> set (action_refs d) then sort (remdups (dlist (temp_adj (dsl_actions d)) s)) else [])"
    using assms build_adj_get [of "dsl_actions d" s] by (simp add: sched_for_def adj_of_def deps_ok_def)
  then show ?thesis using known by (auto simp: temp_adj_set)
qed

lemma adj_of_distinct: "sched_for d sch \<Longrightarrow> distinct (adj_of sch s)"
  using build_adj_get [of "dsl_actions d" s] by (simp add: sched_for_def adj_of_def deps_ok_def)

definition dep_comps :: "action_stmt \<Rightarrow> adj_dst set" where
  "dep_comps a = {c. Some c \<in> set (dep_components a)}"

lemma finite_dep_comps [simp]: "finite (dep_comps a)"
proof -
  have "dep_comps a \<subseteq> the ` set (dep_components a)" unfolding dep_comps_def by force
  then show ?thesis using finite_subset by blast
qed

lemma succ_count_card:
  assumes "sched_for d sch" "a \<in> set (dsl_actions d)"
  shows "succ_count (adj_of sch s) (stmt_ref a) = card {c \<in> dep_comps a. fst c = s}"
proof -
  have dist: "distinct (filter (\<lambda>x. fst x = stmt_ref a) (adj_of sch s))"
    using adj_of_distinct [OF assms(1)] by simp
  have inj: "a' = a" if "a' \<in> set (dsl_actions d)" "stmt_ref a' = stmt_ref a" for a'
    using sched_for_task [OF assms(1)] that assms(2) by (metis option.inject)
  have "set (filter (\<lambda>x. fst x = stmt_ref a) (adj_of sch s)) = (\<lambda>c. (stmt_ref a, snd c)) ` {c \<in> dep_comps a. fst c = s}"
    using adj_of_iff [OF assms(1)] inj assms(2) by (auto simp: dep_comps_def image_iff) blast
  moreover have "inj_on (\<lambda>c. (stmt_ref a, snd c)) {c \<in> dep_comps a. fst c = s}"
    by (auto simp: inj_on_def prod_eq_iff)
  ultimately have "card (set (filter (\<lambda>x. fst x = stmt_ref a) (adj_of sch s))) = card {c \<in> dep_comps a. fst c = s}"
    by (simp add: card_image)
  then show ?thesis using distinct_card [OF dist] by (simp add: succ_count_def)
qed

lemma succ_count_unknown:
  assumes "sched_for d sch" "n \<notin> set (action_refs d)"
  shows "succ_count (adj_of sch s) n = 0"
proof -
  have "filter (\<lambda>x. fst x = n) (adj_of sch s) = []"
    using assms(2) adj_of_iff [OF assms(1), of n _ s] by (auto simp: filter_empty_conv)
  then show ?thesis by (simp add: succ_count_def)
qed

end
