(* ===== verification/Scheduler_Flat.thy ===== *)
theory Scheduler_Flat
  imports Scheduler_Ops
begin

text \<open>
  Workflows without scatter and gather: all tasks run in the root stream. \<open>flat_inv\<close> is the
  invariant of every interleaving: which tasks are queued, running or complete, what each indegree
  counts, and which edges are marked. It gives the order, the uniqueness and the completeness of
  execution.
\<close>

section \<open>The invariant\<close>

definition flat :: "dsl_input \<Rightarrow> bool" where
  "flat d \<longleftrightarrow> (\<forall>a\<in>set (dsl_actions d). \<not> is_scatter a \<and> \<not> is_gather a)"

definition live_refs :: "sstate \<Rightarrow> string list" where
  "live_refs s = map t_ref (st_queue s) @ map (t_ref \<circ> p_task) (st_pending s)"

definition done_refs :: "sstate \<Rightarrow> string set" where
  "done_refs s = {r. (r, ROOT_STREAM) \<in> st_completed s}"

text \<open>The completed tasks whose successors have been told: all but those that failed the workflow.\<close>

definition fired :: "sstate \<Rightarrow> string set" where
  "fired s = done_refs s - set (dkeys (st_task_exceptions s))"

definition open_deps :: "action_stmt \<Rightarrow> string set \<Rightarrow> int" where
  "open_deps a F = int (length (stmt_depends_on a)) - int (card {c \<in> dep_comps a. fst c \<in> F})"

fun flat_pc :: "pc \<Rightarrow> bool" where
  "flat_pc P_start = True"
| "flat_pc (P_run_if _ _) = True"
| "flat_pc P_execute = True"
| "flat_pc _ = False"

definition passed_checks :: "task \<Rightarrow> action_stmt \<Rightarrow> sstate \<Rightarrow> bool" where
  "passed_checks t a s \<longleftrightarrow> is_reachable t a s \<and> \<not> skip_should_propagate t a s"

definition flat_inv :: "dsl_input \<Rightarrow> sched \<Rightarrow> sstate \<Rightarrow> bool" where
  "flat_inv d sch s \<longleftrightarrow>
     (\<forall>t\<in>set (st_queue s). t_stream t = ROOT_STREAM \<and> t_delay t = 0) \<and>
     (\<forall>p\<in>set (st_pending s). t_stream (p_task p) = ROOT_STREAM \<and> t_delay (p_task p) = 0 \<and>
        p_delay p = 0 \<and> flat_pc (p_pc p)) \<and>
     distinct (live_refs s) \<and> set (live_refs s) \<subseteq> set (action_refs d) \<and>
     st_completed s \<subseteq> set (action_refs d) \<times> {ROOT_STREAM} \<and> set (live_refs s) \<inter> done_refs s = {} \<and>
     set (dkeys (st_task_exceptions s)) \<subseteq> done_refs s \<and>
     (\<forall>a\<in>set (dsl_actions d). dget (st_indegrees s) (stmt_ref a, ROOT_STREAM) = Some (open_deps a (fired s))) \<and>
     (\<forall>a\<in>set (dsl_actions d). stmt_ref a \<in> set (live_refs s) \<union> done_refs s \<longrightarrow> open_deps a (fired s) = 0) \<and>
     (st_task_exceptions s = [] \<longrightarrow>
        (\<forall>a\<in>set (dsl_actions d). open_deps a (fired s) = 0 \<longrightarrow> stmt_ref a \<in> set (live_refs s) \<union> done_refs s)) \<and>
     (\<forall>p\<in>set (st_pending s). p_pc p \<noteq> P_start \<longrightarrow>
        (\<forall>a\<in>set (dsl_actions d). stmt_ref a = t_ref (p_task p) \<longrightarrow> passed_checks (p_task p) a s))"

lemma flat_invD:
  assumes "flat_inv d sch s"
  shows "t \<in> set (st_queue s) \<Longrightarrow> t_stream t = ROOT_STREAM \<and> t_delay t = 0"
    and "p \<in> set (st_pending s) \<Longrightarrow> t_stream (p_task p) = ROOT_STREAM \<and> t_delay (p_task p) = 0 \<and>
        p_delay p = 0 \<and> flat_pc (p_pc p)"
    and "distinct (live_refs s)" and "set (live_refs s) \<subseteq> set (action_refs d)"
    and "st_completed s \<subseteq> set (action_refs d) \<times> {ROOT_STREAM}" and "set (live_refs s) \<inter> done_refs s = {}"
    and "set (dkeys (st_task_exceptions s)) \<subseteq> done_refs s"
    and "a \<in> set (dsl_actions d) \<Longrightarrow>
        dget (st_indegrees s) (stmt_ref a, ROOT_STREAM) = Some (open_deps a (fired s))"
    and "a \<in> set (dsl_actions d) \<Longrightarrow> stmt_ref a \<in> set (live_refs s) \<union> done_refs s \<Longrightarrow> open_deps a (fired s) = 0"
    and "st_task_exceptions s = [] \<Longrightarrow> a \<in> set (dsl_actions d) \<Longrightarrow> open_deps a (fired s) = 0 \<Longrightarrow>
        stmt_ref a \<in> set (live_refs s) \<union> done_refs s"
    and "p \<in> set (st_pending s) \<Longrightarrow> p_pc p \<noteq> P_start \<Longrightarrow> a \<in> set (dsl_actions d) \<Longrightarrow>
        stmt_ref a = t_ref (p_task p) \<Longrightarrow> passed_checks (p_task p) a s"
  using assms unfolding flat_inv_def by blast+

lemma open_deps_nonneg:
  assumes "deps_ok d" "a \<in> set (dsl_actions d)"
  shows "0 \<le> open_deps a F" and "open_deps a F = 0 \<Longrightarrow> c \<in> dep_comps a \<Longrightarrow> fst c \<in> F"
proof -
  have img: "Some ` dep_comps a \<subseteq> set (dep_components a)" by (auto simp: dep_comps_def)
  have "card (dep_comps a) = card (Some ` dep_comps a)" by (simp add: card_image)
  also have "\<dots> \<le> card (set (dep_components a))" using img by (intro card_mono) auto
  also have "\<dots> \<le> length (stmt_depends_on a)"
    using card_length [of "dep_components a"] by (simp add: dep_components_def)
  finally have le: "card (dep_comps a) \<le> length (stmt_depends_on a)" .
  have sub: "card {c \<in> dep_comps a. fst c \<in> F} \<le> card (dep_comps a)"
    by (intro card_mono) auto
  from le sub show "0 \<le> open_deps a F" by (simp add: open_deps_def)
  show "fst c \<in> F" if "open_deps a F = 0" "c \<in> dep_comps a"
  proof -
    have "card {c \<in> dep_comps a. fst c \<in> F} = card (dep_comps a)"
      using that(1) le sub by (simp add: open_deps_def)
    then have "{c \<in> dep_comps a. fst c \<in> F} = dep_comps a" by (intro card_subset_eq) auto
    with that(2) show ?thesis by blast
  qed
qed

lemma open_deps_insert:
  assumes "r \<notin> F"
  shows "open_deps a (insert r F) = open_deps a F - int (card {c \<in> dep_comps a. fst c = r})"
proof -
  have "{c \<in> dep_comps a. fst c \<in> insert r F} = {c \<in> dep_comps a. fst c \<in> F} \<union> {c \<in> dep_comps a. fst c = r}"
    by auto
  moreover have "{c \<in> dep_comps a. fst c \<in> F} \<inter> {c \<in> dep_comps a. fst c = r} = {}" using assms by auto
  ultimately have "card {c \<in> dep_comps a. fst c \<in> insert r F} =
      card {c \<in> dep_comps a. fst c \<in> F} + card {c \<in> dep_comps a. fst c = r}"
    by (simp add: card_Un_disjoint)
  then show ?thesis by (simp add: open_deps_def)
qed

text \<open>The checks of a task read the edges of its own dependencies only.\<close>

lemma edge_has_marker_cong:
  assumes "\<And>c. c \<in> dep_comps a \<Longrightarrow>
      st_edges s' (mk_edge (fst c) (t_ref t) (snd c) (t_stream t)) = st_edges s (mk_edge (fst c) (t_ref t) (snd c) (t_stream t))"
    and "dep \<in> set (stmt_depends_on a)"
  shows "edge_has_marker dep (t_ref t) m (t_stream t) s' = edge_has_marker dep (t_ref t) m (t_stream t) s"
proof (cases "edge_components_from_dep dep")
  case (Some c)
  then have "c \<in> dep_comps a" using assms(2) by (force simp: dep_comps_def dep_components_def)
  with assms(1) [of c] Some show ?thesis by (cases c) (simp add: edge_has_marker_def)
qed (simp add: edge_has_marker_def)

lemma passed_checks_cong:
  assumes "\<And>c. c \<in> dep_comps a \<Longrightarrow>
      st_edges s' (mk_edge (fst c) (t_ref t) (snd c) (t_stream t)) = st_edges s (mk_edge (fst c) (t_ref t) (snd c) (t_stream t))"
  shows "passed_checks t a s' = passed_checks t a s"
proof -
  have m: "edge_has_marker dep (t_ref t) m (t_stream t) s' = edge_has_marker dep (t_ref t) m (t_stream t) s"
    if "dep \<in> set (stmt_depends_on a)" for dep m
    using edge_has_marker_cong [OF assms that] .
  have "filter (\<lambda>dep. edge_has_marker dep (t_ref t) Visited (t_stream t) s') (stmt_depends_on a) =
      filter (\<lambda>dep. edge_has_marker dep (t_ref t) Visited (t_stream t) s) (stmt_depends_on a)"
    using m by (intro filter_cong) auto
  moreover have "stmt_depends_on a \<noteq> [] \<Longrightarrow> stmt_depends_on a ! 0 \<in> set (stmt_depends_on a)" by simp
  ultimately show ?thesis
    using m by (auto simp: passed_checks_def is_reachable_def skip_should_propagate_def list_all_iff Let_def)
qed

section \<open>The initial state\<close>

lemma init_indeg_list:
  assumes "distinct (map stmt_ref as)"
  shows "foldl (\<lambda>m a. dset (stmt_ref a, ROOT_STREAM) (int (length (stmt_depends_on a))) m) [] as =
    map (\<lambda>a. ((stmt_ref a, ROOT_STREAM), int (length (stmt_depends_on a)))) as"
proof -
  have "distinct (map (\<lambda>a. (stmt_ref a, ROOT_STREAM)) as)"
    using assms by (simp add: distinct_map inj_on_def)
  then show ?thesis by (rule foldl_dset_key)
qed

lemma init_flat_inv:
  assumes "deps_ok d"
  shows "flat_inv d sch (init_state (dsl_actions d) ctx)"
proof -
  let ?as = "dsl_actions d" and ?s = "init_state (dsl_actions d) ctx"
  have dist: "distinct (map stmt_ref ?as)" using assms by (simp add: deps_ok_def)
  have q: "st_queue ?s = map (\<lambda>a. mk_task (stmt_ref a) ROOT_STREAM) (filter (\<lambda>a. stmt_depends_on a = []) ?as)"
    by (simp add: init_state_def Let_def init_indeg_list [OF dist] filter_map comp_def)
  have live: "live_refs ?s = map stmt_ref (filter (\<lambda>a. stmt_depends_on a = []) ?as)"
    using q by (simp add: live_refs_def mk_task_def comp_def) (simp add: init_state_def Let_def)
  have fired: "fired ?s = {}" "done_refs ?s = {}"
    by (auto simp: fired_def done_refs_def init_state_def Let_def)
  have ind: "dget (st_indegrees ?s) (stmt_ref a, ROOT_STREAM) = Some (int (length (stmt_depends_on a)))"
    if "a \<in> set ?as" for a
  proof -
    have "distinct (map (\<lambda>a. (stmt_ref a, ROOT_STREAM)) ?as)"
      using dist by (simp add: distinct_map inj_on_def)
    from map_of_map_key [OF this that, of "\<lambda>a. int (length (stmt_depends_on a))"]
    show ?thesis by (simp add: init_state_def Let_def init_indeg_list [OF dist])
  qed
  have od: "open_deps a {} = int (length (stmt_depends_on a))" for a by (simp add: open_deps_def)
  have zero: "stmt_ref a \<in> set (live_refs ?s) \<longleftrightarrow> stmt_depends_on a = []" if "a \<in> set ?as" for a
    using that dist by (auto simp: live distinct_map inj_on_def)
  show ?thesis
    unfolding flat_inv_def fired od using zero ind dist
    by (auto simp: live distinct_map_filter q mk_task_def) (auto simp: init_state_def Let_def)
qed

section \<open>Completion of a task\<close>

definition complete :: "nat \<Rightarrow> task \<Rightarrow> sstate \<Rightarrow> sstate" where
  "complete i t s =
     s\<lparr>st_completed := insert (tkey t) (st_completed s),
       st_pending := take i (st_pending s) @ drop (Suc i) (st_pending s)\<rparr>"

lemma remove_nth:
  assumes "i < length xs" "distinct (map f xs)"
  shows "distinct (map f (take i xs @ drop (Suc i) xs))"
    and "set (map f (take i xs @ drop (Suc i) xs)) = set (map f xs) - {f (xs ! i)}"
    and "set (take i xs @ drop (Suc i) xs) \<subseteq> set xs"
proof -
  define ys where "ys = take i xs"
  define zs where "zs = drop (Suc i) xs"
  have x: "xs = ys @ xs ! i # zs" unfolding ys_def zs_def by (rule id_take_nth_drop [OF assms(1)])
  then have d: "distinct (map f (ys @ xs ! i # zs))" using assms(2) by metis
  have s: "set (map f xs) = set (map f (ys @ xs ! i # zs))" "set xs = set (ys @ xs ! i # zs)" using x by metis+
  show "distinct (map f (take i xs @ drop (Suc i) xs))"
    using d unfolding ys_def [symmetric] zs_def [symmetric] by auto
  show "set (map f (take i xs @ drop (Suc i) xs)) = set (map f xs) - {f (xs ! i)}"
    using d unfolding s ys_def [symmetric] zs_def [symmetric] by auto
  show "set (take i xs @ drop (Suc i) xs) \<subseteq> set xs"
    unfolding s ys_def [symmetric] zs_def [symmetric] by auto
qed

lemma flat_inv_pending:
  assumes "flat_inv d sch s" "i < length (st_pending s)" "t = p_task (st_pending s ! i)"
  shows "t_stream t = ROOT_STREAM" "t_delay t = 0" "t_ref t \<in> set (live_refs s)" "t_ref t \<notin> done_refs s"
    "t_ref t \<in> set (action_refs d)" "t_ref t \<notin> fired s"
proof -
  have p: "st_pending s ! i \<in> set (st_pending s)" using assms(2) by simp
  then show "t_stream t = ROOT_STREAM" "t_delay t = 0" using assms(1,3) by (auto simp: flat_inv_def)
  show live: "t_ref t \<in> set (live_refs s)" using p assms(3) by (simp add: live_refs_def)
  then show "t_ref t \<notin> done_refs s" "t_ref t \<in> set (action_refs d)"
    using assms(1) by (auto simp: flat_inv_def)
  then show "t_ref t \<notin> fired s" by (simp add: fired_def)
qed

lemma live_refs_complete:
  assumes "flat_inv d sch s" "i < length (st_pending s)" "t = p_task (st_pending s ! i)"
    and "st_pending s' = st_pending s" "st_completed s' = st_completed s"
    and "st_queue s' = st_queue s @ new" "distinct (map t_ref new)" "set (map t_ref new) \<inter> set (live_refs s) = {}"
  shows "distinct (live_refs (complete i t s'))"
    and "set (live_refs (complete i t s')) = set (live_refs s) - {t_ref t} \<union> set (map t_ref new)"
    and "done_refs (complete i t s') = insert (t_ref t) (done_refs s)"
proof -
  have st: "t_stream t = ROOT_STREAM" using flat_inv_pending [OF assms(1-3)] by simp
  have dist: "distinct (live_refs s)" using assms(1) by (simp add: flat_inv_def)
  then have dp: "distinct (map (t_ref \<circ> p_task) (st_pending s))" by (simp add: live_refs_def)
  note rm = remove_nth [OF assms(2) dp]
  have l: "live_refs (complete i t s') =
      map t_ref (st_queue s) @ map t_ref new @
      map (t_ref \<circ> p_task) (take i (st_pending s) @ drop (Suc i) (st_pending s))"
    using assms(4,6) by (simp add: live_refs_def complete_def)
  have t: "(t_ref \<circ> p_task) (st_pending s ! i) = t_ref t" using assms(3) by simp
  have tq: "t_ref t \<notin> set (map t_ref (st_queue s))"
  proof
    assume "t_ref t \<in> set (map t_ref (st_queue s))"
    moreover have "t_ref t \<in> set (map (t_ref \<circ> p_task) (st_pending s))"
      using assms(2,3) by (auto simp: image_iff intro: bexI [of _ "st_pending s ! i"])
    ultimately show False using dist by (auto simp: live_refs_def)
  qed
  show "distinct (live_refs (complete i t s'))"
    unfolding l using dist rm(1,2) assms(7,8) by (auto simp: live_refs_def)
  have "set (live_refs (complete i t s')) = set (map t_ref (st_queue s)) \<union> set (map t_ref new) \<union>
      (set (map (t_ref \<circ> p_task) (st_pending s)) - {t_ref t})"
    unfolding l set_append rm(2) t by blast
  then show "set (live_refs (complete i t s')) = set (live_refs s) - {t_ref t} \<union> set (map t_ref new)"
    using tq assms(8) flat_inv_pending(3) [OF assms(1-3)] unfolding live_refs_def set_append by blast
  show "done_refs (complete i t s') = insert (t_ref t) (done_refs s)"
    using st assms(5) by (auto simp: done_refs_def complete_def tkey_def)
qed

lemma live_stream_complete:
  assumes "flat_inv d sch s" "i < length (st_pending s)" "st_pending s' = st_pending s"
    and "p \<in> set (st_pending (complete i t s'))"
  shows "p \<in> set (st_pending s)"
  using assms by (auto simp: complete_def dest: in_set_takeD in_set_dropD)

lemma flat_inv_complete_queue:
  assumes sf: "sched_for d sch" and inv: "flat_inv d sch s"
    and i: "i < length (st_pending s)" "t = p_task (st_pending s ! i)"
    and frame: "st_queue s0 = st_queue s" "st_pending s0 = st_pending s" "st_completed s0 = st_completed s"
      "st_task_exceptions s0 = st_task_exceptions s" "st_indegrees s0 = st_indegrees s" "st_edges s0 = st_edges s"
  shows "flat_inv d sch (complete i t (queue_tasks sch t un s0))"
proof -
  let ?s1 = "queue_tasks sch t un s0" and ?r = "t_ref t" and ?F = "fired s"
  let ?s' = "complete i t ?s1" and ?as = "dsl_actions d"
  have ok: "deps_ok d" using sf by (simp add: sched_for_def)
  note pend = flat_inv_pending [OF inv i]
  have key: "dget (st_indegrees s) (stmt_ref a, ROOT_STREAM) = Some (open_deps a ?F)" if "a \<in> set ?as" for a
    using flat_invD(8) [OF inv that] .
  have k0: "indeg0 sch s0 (stmt_ref a) ROOT_STREAM = open_deps a ?F" if "a \<in> set ?as" for a
    using key [OF that] frame(5) by (simp add: indeg0_def)
  obtain new where new: "st_queue ?s1 = st_queue s0 @
        map (\<lambda>n. \<lparr>t_ref = n, t_stream = ROOT_STREAM, t_delay = 0\<rparr>) new" "distinct new"
      "\<And>n. n \<in> set new \<longleftrightarrow> 0 < indeg0 sch s0 n ROOT_STREAM \<and>
         indeg0 sch s0 n ROOT_STREAM \<le> int (succ_count (adj_of sch ?r) n)"
    using queue_tasks_queue [of sch t un s0] pend(1,2) by auto
  have newref: "n \<in> set (action_refs d)" if "n \<in> set new" for n
    using that new(3) [of n] succ_count_unknown [OF sf, of n ?r] by fastforce
  have step: "open_deps a (insert ?r ?F) = open_deps a ?F - int (succ_count (adj_of sch ?r) (stmt_ref a))"
    if "a \<in> set ?as" for a
    using open_deps_insert [OF pend(6)] succ_count_card [OF sf that] by simp
  have new_iff: "stmt_ref a \<in> set new \<longleftrightarrow> 0 < open_deps a ?F \<and> open_deps a (insert ?r ?F) = 0"
    if a: "a \<in> set ?as" for a
    using new(3) [of "stmt_ref a"] k0 [OF a] step [OF a] open_deps_nonneg(1) [OF ok a, of "insert ?r ?F"] by auto
  have live0: "open_deps a ?F = 0" if "a \<in> set ?as" "stmt_ref a \<in> set (live_refs s) \<union> done_refs s" for a
    using flat_invD(9) [OF inv that] .
  have fresh: "set new \<inter> (set (live_refs s) \<union> done_refs s) = {}"
    using newref new_iff live0 by fastforce
  have F': "fired ?s' = insert ?r ?F"
    using live_refs_complete(3) [OF inv i, of ?s1 "map (\<lambda>n. \<lparr>t_ref = n, t_stream = ROOT_STREAM, t_delay = 0\<rparr>) new"]
      frame new(1,2) fresh pend(4) flat_invD(7) [OF inv]
    by (auto simp: fired_def complete_def comp_def)
  note lr = live_refs_complete [OF inv i, of ?s1 "map (\<lambda>n. \<lparr>t_ref = n, t_stream = ROOT_STREAM, t_delay = 0\<rparr>) new"]
  have live': "distinct (live_refs ?s')" "set (live_refs ?s') = set (live_refs s) - {?r} \<union> set new"
    "done_refs ?s' = insert ?r (done_refs s)"
    using lr frame new(1,2) fresh by (auto simp: comp_def)
  have ind': "dget (st_indegrees ?s') (stmt_ref a, ROOT_STREAM) = Some (open_deps a (insert ?r ?F))"
    if a: "a \<in> set ?as" for a
    using queue_tasks_indeg [of sch t un s0 "stmt_ref a" ROOT_STREAM] key [OF a] k0 [OF a] step [OF a] pend(1) frame(5)
    by (simp add: complete_def split: if_splits)
  have zero': "open_deps a (insert ?r ?F) = 0"
    if a: "a \<in> set ?as" "stmt_ref a \<in> set (live_refs ?s') \<union> done_refs ?s'" for a
  proof (cases "stmt_ref a \<in> set new")
    case False
    then have "open_deps a ?F = 0" using a live' pend(3) by (intro live0) auto
    then show ?thesis using step [OF a(1)] open_deps_nonneg(1) [OF ok a(1), of "insert ?r ?F"] by simp
  qed (use new_iff a in simp)
  have all': "stmt_ref a \<in> set (live_refs ?s') \<union> done_refs ?s'"
    if a: "a \<in> set ?as" and z: "open_deps a (insert ?r ?F) = 0" and e: "st_task_exceptions s = []" for a
  proof (cases "open_deps a ?F = 0")
    case True
    then have "stmt_ref a \<in> set (live_refs s) \<union> done_refs s" using flat_invD(10) [OF inv e a] by blast
    then show ?thesis using live' by auto
  next
    case False
    then have "stmt_ref a \<in> set new" using new_iff [OF a] z open_deps_nonneg(1) [OF ok a, of ?F] by simp
    then show ?thesis using live' by simp
  qed
  have checks: "passed_checks (p_task p) a ?s'"
    if p: "p \<in> set (st_pending ?s')" "p_pc p \<noteq> P_start" and a: "a \<in> set ?as" "stmt_ref a = t_ref (p_task p)" for p a
  proof -
    have ps: "p \<in> set (st_pending s)" using live_stream_complete [OF inv i(1) _ p(1)] frame by simp
    have pr: "t_stream (p_task p) = ROOT_STREAM" using flat_invD(2) [OF inv ps] by simp
    have "stmt_ref a \<in> set (live_refs s)" using ps a(2) by (simp add: live_refs_def)
    then have z: "open_deps a ?F = 0" by (intro live0 [OF a(1)]) simp
    have "passed_checks (p_task p) a s" using flat_invD(11) [OF inv ps p(2) a] .
    moreover have "passed_checks (p_task p) a ?s' = passed_checks (p_task p) a s"
    proof (rule passed_checks_cong)
      fix c assume "c \<in> dep_comps a"
      then have "fst c \<in> ?F" by (rule open_deps_nonneg(2) [OF ok a(1) z])
      then have "fst c \<noteq> ?r" using pend(6) by metis
      then show "st_edges ?s' (mk_edge (fst c) (t_ref (p_task p)) (snd c) (t_stream (p_task p))) =
          st_edges s (mk_edge (fst c) (t_ref (p_task p)) (snd c) (t_stream (p_task p)))"
        using frame(6) by (simp add: complete_def queue_tasks_edges) (simp add: mk_edge_def)
    qed
    ultimately show ?thesis by simp
  qed
  have q': "\<forall>t\<in>set (st_queue ?s'). t_stream t = ROOT_STREAM \<and> t_delay t = 0"
    using flat_invD(1) [OF inv] new(1) frame(1) by (auto simp: complete_def)
  have p': "\<forall>p\<in>set (st_pending ?s'). t_stream (p_task p) = ROOT_STREAM \<and> t_delay (p_task p) = 0 \<and>
        p_delay p = 0 \<and> flat_pc (p_pc p)"
    using live_stream_complete [OF inv i(1), of ?s1] frame(2) flat_invD(2) [OF inv] by auto
  have c': "st_completed ?s' \<subseteq> set (action_refs d) \<times> {ROOT_STREAM}"
    using flat_invD(5) [OF inv] pend(1,5) frame(3) by (auto simp: complete_def tkey_def)
  have disj: "set (live_refs ?s') \<inter> done_refs ?s' = {}"
    using live'(2,3) fresh pend(3) flat_invD(6) [OF inv] by auto
  have sub: "set (live_refs ?s') \<subseteq> set (action_refs d)" using live'(2) newref flat_invD(4) [OF inv] by blast
  have ex: "st_task_exceptions ?s' = st_task_exceptions s" using frame(4) by (simp add: complete_def)
  have ex': "set (dkeys (st_task_exceptions s)) \<subseteq> done_refs ?s'" using flat_invD(7) [OF inv] live'(3) by blast
  show ?thesis
    unfolding flat_inv_def F' ex
    using live'(1) q' p' c' disj sub ex' ind' zero' all' checks by blast
qed

lemma flat_inv_complete_error:
  assumes inv: "flat_inv d sch s" and i: "i < length (st_pending s)" "t = p_task (st_pending s ! i)"
    and frame: "st_queue s0 = st_queue s" "st_pending s0 = st_pending s" "st_completed s0 = st_completed s"
      "st_task_exceptions s0 = dset (t_ref t) info (st_task_exceptions s)"
      "st_indegrees s0 = st_indegrees s" "st_edges s0 = st_edges s"
  shows "flat_inv d sch (complete i t s0)"
proof -
  let ?s' = "complete i t s0"
  note pend = flat_inv_pending [OF inv i]
  have live': "distinct (live_refs ?s')" "set (live_refs ?s') = set (live_refs s) - {t_ref t}"
    "done_refs ?s' = insert (t_ref t) (done_refs s)"
    using live_refs_complete [OF inv i, of s0 "[]"] frame by auto
  have F': "fired ?s' = fired s"
    using live'(3) pend(4) frame(4) dkeys_dset [of "t_ref t" info "st_task_exceptions s"]
    by (auto simp: fired_def complete_def)
  have e': "st_task_exceptions ?s' \<noteq> []"
    using frame(4) dkeys_dset [of "t_ref t" info "st_task_exceptions s"] by (auto simp: complete_def)
  have sub: "set (dkeys (st_task_exceptions ?s')) \<subseteq> done_refs ?s'"
    using frame(4) dkeys_dset [of "t_ref t" info "st_task_exceptions s"] live'(3) flat_invD(7) [OF inv]
    by (auto simp: complete_def)
  have checks: "passed_checks (p_task p) a ?s'"
    if p: "p \<in> set (st_pending ?s')" "p_pc p \<noteq> P_start" and a: "a \<in> set (dsl_actions d)" "stmt_ref a = t_ref (p_task p)" for p a
  proof -
    have "p \<in> set (st_pending s)" using live_stream_complete [OF inv i(1) _ p(1)] frame by simp
    then have "passed_checks (p_task p) a s" using flat_invD(11) [OF inv _ p(2) a] by blast
    moreover have "passed_checks (p_task p) a ?s' = passed_checks (p_task p) a s"
      using frame(6) by (intro passed_checks_cong) (simp add: complete_def)
    ultimately show ?thesis by simp
  qed
  have q': "\<forall>t\<in>set (st_queue ?s'). t_stream t = ROOT_STREAM \<and> t_delay t = 0"
    using flat_invD(1) [OF inv] frame(1) by (auto simp: complete_def)
  have p': "\<forall>p\<in>set (st_pending ?s'). t_stream (p_task p) = ROOT_STREAM \<and> t_delay (p_task p) = 0 \<and>
        p_delay p = 0 \<and> flat_pc (p_pc p)"
    using live_stream_complete [OF inv i(1), of s0] frame(2) flat_invD(2) [OF inv] by auto
  have c': "st_completed ?s' \<subseteq> set (action_refs d) \<times> {ROOT_STREAM}"
    using flat_invD(5) [OF inv] pend(1,5) frame(3) by (auto simp: complete_def tkey_def)
  have disj: "set (live_refs ?s') \<inter> done_refs ?s' = {}"
    using live'(2,3) flat_invD(6) [OF inv] by auto
  have lsub: "set (live_refs ?s') \<subseteq> set (action_refs d)" using live'(2) flat_invD(4) [OF inv] by blast
  have ind': "\<forall>a\<in>set (dsl_actions d). dget (st_indegrees ?s') (stmt_ref a, ROOT_STREAM) = Some (open_deps a (fired s))"
    using flat_invD(8) [OF inv] frame(5) by (simp add: complete_def)
  have zero': "open_deps a (fired s) = 0"
    if "a \<in> set (dsl_actions d)" "stmt_ref a \<in> set (live_refs ?s') \<union> done_refs ?s'" for a
    using flat_invD(9) [OF inv that(1)] that(2) live' pend(3) by auto
  show ?thesis
    unfolding flat_inv_def F' using live'(1) q' p' c' disj lsub sub ind' zero' e' checks by blast
qed

lemma flat_inv_advance:
  assumes inv: "flat_inv d sch s" and i: "i < length (st_pending s)" "p = st_pending s ! i"
    and frame: "st_queue s0 = st_queue s" "st_pending s0 = st_pending s" "st_completed s0 = st_completed s"
      "st_task_exceptions s0 = st_task_exceptions s" "st_indegrees s0 = st_indegrees s" "st_edges s0 = st_edges s"
    and pc': "flat_pc pc'" "\<And>a. a \<in> set (dsl_actions d) \<Longrightarrow> stmt_ref a = t_ref (p_task p) \<Longrightarrow> passed_checks (p_task p) a s"
  shows "flat_inv d sch (s0\<lparr>st_pending := (st_pending s0)[i := p\<lparr>p_pc := pc'\<rparr>]\<rparr>)"
proof -
  let ?s' = "s0\<lparr>st_pending := (st_pending s0)[i := p\<lparr>p_pc := pc'\<rparr>]\<rparr>"
  have mp: "map (t_ref \<circ> p_task) ((st_pending s)[i := p\<lparr>p_pc := pc'\<rparr>]) = map (t_ref \<circ> p_task) (st_pending s)"
    using i by (intro nth_equalityI) (auto simp: nth_list_update)
  have live: "live_refs ?s' = live_refs s" using mp frame by (simp add: live_refs_def)
  have dr: "done_refs ?s' = done_refs s" "fired ?s' = fired s"
    using frame by (simp_all add: done_refs_def fired_def)
  have mem: "q \<in> set (st_pending ?s') \<Longrightarrow> q \<in> set (st_pending s) \<or> q = p\<lparr>p_pc := pc'\<rparr>" for q
    using frame(2) set_update_subset_insert [of "st_pending s" i] by auto
  have ps: "p \<in> set (st_pending s)" using i by simp
  have checks: "passed_checks (p_task q) a ?s'"
    if q: "q \<in> set (st_pending ?s')" "p_pc q \<noteq> P_start" and a: "a \<in> set (dsl_actions d)" "stmt_ref a = t_ref (p_task q)" for q a
  proof -
    have "passed_checks (p_task q) a s"
      using mem [OF q(1)] flat_invD(11) [OF inv _ q(2) a] pc'(2) [OF a(1)] a(2) by auto
    moreover have "passed_checks (p_task q) a ?s' = passed_checks (p_task q) a s"
      using frame(6) by (intro passed_checks_cong) simp
    ultimately show ?thesis by simp
  qed
  have p': "\<forall>p\<in>set (st_pending ?s'). t_stream (p_task p) = ROOT_STREAM \<and> t_delay (p_task p) = 0 \<and>
        p_delay p = 0 \<and> flat_pc (p_pc p)"
    using mem flat_invD(2) [OF inv] ps pc'(1) by fastforce
  have q': "\<forall>t\<in>set (st_queue ?s'). t_stream t = ROOT_STREAM \<and> t_delay t = 0"
    using flat_invD(1) [OF inv] frame(1) by auto
  show ?thesis
    unfolding flat_inv_def live dr
    using q' p' checks frame flat_invD(3-10) [OF inv] by simp
qed

section \<open>What a segment does in a flat workflow\<close>

definition same_core :: "sstate \<Rightarrow> sstate \<Rightarrow> bool" where
  "same_core s0 s \<longleftrightarrow> st_queue s0 = st_queue s \<and> st_pending s0 = st_pending s \<and>
     st_completed s0 = st_completed s \<and> st_task_exceptions s0 = st_task_exceptions s \<and>
     st_indegrees s0 = st_indegrees s \<and> st_edges s0 = st_edges s"

lemma same_core_refl [simp]: "same_core s s"
  by (simp add: same_core_def)

lemma same_core_set_action [simp]: "same_core (set_action sid ref r s) s"
  by (simp add: same_core_def set_action_def split: option.splits)

lemma same_core_store [simp]: "same_core (store_executed sid ref r s) s"
  by (simp add: store_executed_def split: option.splits)

fun pc_rank :: "pc \<Rightarrow> nat" where
  "pc_rank P_start = 3"
| "pc_rank (P_run_if _ _) = 2"
| "pc_rank _ = 1"

lemma start_task_flat:
  assumes "\<not> is_scatter a" "\<not> is_gather a"
  shows "(\<exists>un. start_task sch t 0 a s = (queue_tasks sch t un s, Return)) \<or>
    (\<exists>e. start_task sch t 0 a s = (s, Raised e)) \<or>
    (\<exists>pc'. start_task sch t 0 a s = (s, Await pc') \<and> flat_pc pc' \<and> pc_rank pc' < 3 \<and> passed_checks t a s)"
  using assms
  by (auto simp: start_task_def handle_skip_path_def after_checks_def run_action_def passed_checks_def
      split: option.splits sum.splits)

lemma resume_seg_flat:
  assumes "\<not> is_scatter a" "\<not> is_gather a" "flat_pc pc"
    and "resume_seg sch t 0 a pc r s = Some (s0, seg)"
    and "pc \<noteq> P_start \<longrightarrow> passed_checks t a s"
  shows "(\<exists>un s1. s0 = queue_tasks sch t un s1 \<and> same_core s1 s \<and> seg = Return) \<or>
    (same_core s0 s \<and> (\<exists>e. seg = Raised e)) \<or>
    (same_core s0 s \<and> (\<exists>pc'. seg = Await pc' \<and> flat_pc pc' \<and> pc_rank pc' < pc_rank pc \<and> passed_checks t a s))"
proof (cases pc)
  case P_start
  then have "start_task sch t 0 a s = (s0, seg)"
    using assms(4) by (auto simp: resume_seg_def split: reply.splits)
  from start_task_flat [OF assms(1,2), of sch t s] show ?thesis
  proof (elim disjE exE conjE)
    fix un assume "start_task sch t 0 a s = (queue_tasks sch t un s, Return)"
    then have "s0 = queue_tasks sch t un s \<and> same_core s s \<and> seg = Return"
      using \<open>start_task sch t 0 a s = (s0, seg)\<close> by simp
    then show ?thesis by blast
  qed (use \<open>start_task sch t 0 a s = (s0, seg)\<close> P_start in auto)
next
  case (P_run_if e c)
  then show ?thesis
    using assms by (auto simp: resume_seg_def after_checks_def run_action_def handle_skip_path_def split: reply.splits if_splits)
      (metis same_core_refl)
next
  case P_execute
  then show ?thesis
    using assms by (auto simp: resume_seg_def Let_def handle_success_path_def split: reply.splits option.splits)
      (metis same_core_store)
qed (use assms(3) in simp_all)

text \<open>One resumption: the task advances to a later await, or completes with its successors told, or
  completes by failing the workflow.\<close>

lemma resume_flat:
  assumes sf: "sched_for d sch" and fl: "flat d" and inv: "flat_inv d sch s"
    and res: "resume sch i r s = Some s'"
  obtains
    (advance) s0 pc' a where "same_core s0 s" "flat_pc pc'" "pc_rank pc' < pc_rank (p_pc (st_pending s ! i))"
      "i < length (st_pending s)" "a \<in> set (dsl_actions d)" "stmt_ref a = t_ref (p_task (st_pending s ! i))"
      "passed_checks (p_task (st_pending s ! i)) a s"
      "s' = s0\<lparr>st_pending := (st_pending s0)[i := (st_pending s ! i)\<lparr>p_pc := pc'\<rparr>]\<rparr>"
  | (queue) s0 un where "same_core s0 s" "i < length (st_pending s)"
      "s' = complete i (p_task (st_pending s ! i)) (queue_tasks sch (p_task (st_pending s ! i)) un s0)"
  | (failed) s0 info where "same_core s0 s" "i < length (st_pending s)"
      "s' = complete i (p_task (st_pending s ! i))
         (s0\<lparr>st_task_exceptions := dset (t_ref (p_task (st_pending s ! i))) info (st_task_exceptions s0)\<rparr>)"
proof -
  define p where "p = st_pending s ! i"
  have i: "i < length (st_pending s)" using res by (simp add: resume_def split: if_splits)
  then have p: "p \<in> set (st_pending s)" by (simp add: p_def)
  note pf = flat_invD(2) [OF inv p]
  obtain a s0 seg where a: "dget (sch_tasks sch) (t_ref (p_task p)) = Some a"
    and sg: "resume_seg sch (p_task p) 0 a (p_pc p) r s = Some (s0, seg)" and s': "s' = finish sch i p (s0, seg)"
    using res i pf by (auto simp: resume_def p_def Let_def split: option.splits)
  have ad: "a \<in> set (dsl_actions d)" "stmt_ref a = t_ref (p_task p)" using a sched_for_task_iff [OF sf] by auto
  have nsg: "\<not> is_scatter a" "\<not> is_gather a" using fl ad(1) by (auto simp: flat_def)
  have pc: "flat_pc (p_pc p)" using pf by simp
  have "p_pc p \<noteq> P_start \<longrightarrow> passed_checks (p_task p) a s" using flat_invD(11) [OF inv p _ ad] by blast
  from resume_seg_flat [OF nsg pc sg this] show thesis
  proof (elim disjE exE conjE, goal_cases)
    case (1 un s1)
    then show ?case using queue [of s1 un] i s' by (simp add: finish_def complete_def p_def)
  next
    case (2 e)
    have e1: "s' = complete i (p_task p) (handle_error_path sch (p_task p) e s0)"
      using 2 s' by (simp add: finish_def complete_def Let_def)
    show ?case
    proof (cases "card (out_edges sch (t_ref (p_task p)) ROOT_STREAM (\<lambda>ty. ty \<noteq> Error)) < length (adj_of sch (t_ref (p_task p)))")
      case True
      then show ?thesis using queue [of s0] 2 e1 i pf by (simp add: handle_error_path_def Let_def p_def)
    next
      case False
      then show ?thesis using failed [of s0] 2 e1 i pf by (simp add: handle_error_path_def Let_def p_def)
    qed
  next
    case (3 pc')
    then show ?case using advance [of s0 pc' a] i s' ad by (simp add: finish_def p_def)
  qed
qed

text \<open>After a cancellation nothing more happens.\<close>

definition stopped :: "sstate \<Rightarrow> bool" where
  "stopped s \<longleftrightarrow> st_task_exceptions s \<noteq> [] \<and> st_pending s = []"

lemma stopped_no_step: "stopped s \<Longrightarrow> \<not> sched_step sch s s'"
  by (auto simp: stopped_def dispatch_def resume_def cancel_pending_def elim!: sched_stepE split: list.splits)

lemma dispatch_flat_inv:
  assumes inv: "flat_inv d sch s" and d: "dispatch s = Some s'"
  shows "flat_inv d sch s'"
proof -
  obtain t q where q: "st_queue s = t # q"
    and s': "s' = s\<lparr>st_queue := q, st_pending := st_pending s @ [\<lparr>p_task = t\<lparr>t_delay := 0\<rparr>, p_delay = t_delay t, p_pc = P_start\<rparr>]\<rparr>"
    using d by (auto simp: dispatch_def split: list.splits if_splits)
  have live: "set (live_refs s') = set (live_refs s)" "distinct (live_refs s')"
    using flat_invD(3) [OF inv] by (auto simp: live_refs_def q s')
  have dr: "done_refs s' = done_refs s" "fired s' = fired s" by (simp_all add: done_refs_def fired_def s')
  have t: "t_stream t = ROOT_STREAM" "t_delay t = 0" using flat_invD(1) [OF inv, of t] q by auto
  have checks: "passed_checks (p_task p) a s'"
    if p: "p \<in> set (st_pending s')" "p_pc p \<noteq> P_start" and a: "a \<in> set (dsl_actions d)" "stmt_ref a = t_ref (p_task p)" for p a
  proof -
    have "p \<in> set (st_pending s)" using p by (auto simp: s')
    then have "passed_checks (p_task p) a s" using flat_invD(11) [OF inv _ p(2) a] by blast
    moreover have "passed_checks (p_task p) a s' = passed_checks (p_task p) a s"
      by (intro passed_checks_cong) (simp add: s')
    ultimately show ?thesis by simp
  qed
  have p': "\<forall>p\<in>set (st_pending s'). t_stream (p_task p) = ROOT_STREAM \<and> t_delay (p_task p) = 0 \<and>
        p_delay p = 0 \<and> flat_pc (p_pc p)"
    using flat_invD(2) [OF inv] t by (auto simp: s')
  have q': "\<forall>t\<in>set (st_queue s'). t_stream t = ROOT_STREAM \<and> t_delay t = 0"
    using flat_invD(1) [OF inv] q by (auto simp: s')
  have rest: "st_completed s' = st_completed s" "st_task_exceptions s' = st_task_exceptions s"
    "st_indegrees s' = st_indegrees s" by (simp_all add: s')
  show ?thesis
    unfolding flat_inv_def live(1) dr rest
    using q' p' checks live(2) flat_invD(4-10) [OF inv] by simp
qed

lemma resume_flat_inv:
  assumes "sched_for d sch" "flat d" and inv: "flat_inv d sch s" and "resume sch i r s = Some s'"
  shows "flat_inv d sch s'"
  using assms
proof (cases rule: resume_flat)
  case (advance s0 pc' a)
  have uniq: "b = a" if "b \<in> set (dsl_actions d)" "stmt_ref b = t_ref (p_task (st_pending s ! i))" for b
    using that advance(5,6) sched_for_task [OF assms(1)] by (metis option.inject)
  show ?thesis
    unfolding advance(8)
    using advance(1,2,4,7) uniq by (intro flat_inv_advance [OF inv _ refl]) (auto simp: same_core_def)
next
  case (queue s0 un)
  then show ?thesis
    unfolding queue(3)
    by (intro flat_inv_complete_queue [OF assms(1) inv _ refl]) (auto simp: same_core_def)
next
  case (failed s0 info)
  then show ?thesis
    unfolding failed(3)
    by (intro flat_inv_complete_error [OF inv _ refl]) (auto simp: same_core_def)
qed

lemma step_flat_inv:
  assumes "sched_for d sch" "flat d" "flat_inv d sch s" "sched_step sch s s'"
  shows "flat_inv d sch s' \<or> stopped s'"
  using assms(4)
proof cases
  case step_dispatch
  then show ?thesis using dispatch_flat_inv [OF assms(3)] by blast
next
  case (step_resume i r)
  then show ?thesis using resume_flat_inv [OF assms(1-3)] by blast
next
  case step_cancel
  then show ?thesis by (auto simp: cancel_pending_def stopped_def split: if_splits)
qed

lemma reachable_flat_inv:
  assumes "sched_for d sch" "flat d" "reachable sch (init_state (dsl_actions d) ctx) s"
  shows "flat_inv d sch s \<or> stopped s"
  using assms(3)
proof (induction rule: reachable.induct)
  case reach_init
  then show ?case using init_flat_inv assms(1) by (simp add: sched_for_def)
next
  case (reach_step s s')
  then show ?case using step_flat_inv [OF assms(1,2)] stopped_no_step by blast
qed

lemma step_done_refs:
  assumes "sched_for d sch" "flat d" "flat_inv d sch s" "sched_step sch s s'" "\<not> stopped s'"
  shows "done_refs s' \<subseteq> set (live_refs s) \<union> done_refs s"
  using assms(4)
proof cases
  case step_dispatch
  then show ?thesis by (auto simp: dispatch_def done_refs_def split: list.splits if_splits)
next
  case (step_resume i r)
  have l: "i < length (st_pending s) \<Longrightarrow> t_ref (p_task (st_pending s ! i)) \<in> set (live_refs s)"
    using flat_inv_pending(3) [OF assms(3) _ refl] .
  from assms(1-3) step_resume show ?thesis
  proof (cases rule: resume_flat)
    case (advance s0 pc' a)
    then show ?thesis by (auto simp: same_core_def done_refs_def)
  next
    case (queue s0 un)
    then show ?thesis using l by (auto simp: same_core_def done_refs_def complete_def tkey_def)
  next
    case (failed s0 info)
    then show ?thesis using l by (auto simp: same_core_def done_refs_def complete_def tkey_def)
  qed
next
  case step_cancel
  then show ?thesis using assms(5) by (auto simp: cancel_pending_def stopped_def split: if_splits)
qed

lemma distinct_dep_comps:
  assumes "deps_ok d" "a \<in> set (dsl_actions d)"
  shows "distinct (dep_components a) \<longleftrightarrow> card (dep_comps a) = length (stmt_depends_on a)"
proof -
  have none: "x \<noteq> None" if mem: "x \<in> set (dep_components a)" for x
  proof -
    obtain dep where "dep \<in> set (stmt_depends_on a)" "x = edge_components_from_dep dep"
      using mem by (auto simp: dep_components_def)
    then obtain src ty where "x = Some (src, ty)" using deps_ok_parse [OF assms] by metis
    then show ?thesis by simp
  qed
  have "set (dep_components a) = Some ` dep_comps a"
  proof (intro equalityI subsetI)
    fix x assume x: "x \<in> set (dep_components a)"
    then obtain c where "x = Some c" using none by blast
    with x show "x \<in> Some ` dep_comps a" by (simp add: dep_comps_def)
  qed (auto simp: dep_comps_def)
  then have "card (set (dep_components a)) = card (dep_comps a)" by (simp add: card_image)
  moreover have "length (dep_components a) = length (stmt_depends_on a)" by (simp add: dep_components_def)
  ultimately show ?thesis by (metis card_distinct distinct_card)
qed

section \<open>Properties of every interleaving\<close>

text \<open>C1: In a workflow without scatter and gather, whenever a task is queued or running and the run is not stopped,
  all its dependencies have completed, and none of them failed the workflow; and a running task that has passed its
  checks is reachable under its join strategy and not due to be skipped, for as long as it runs.\<close>

theorem flat_execution_order:
  assumes "sched_for d sch" "flat d" "reachable sch (init_state (dsl_actions d) ctx) s" "\<not> stopped s"
    and "a \<in> set (dsl_actions d)" "stmt_ref a \<in> set (live_refs s)"
  shows "(\<forall>c\<in>dep_comps a. (fst c, ROOT_STREAM) \<in> st_completed s \<and> fst c \<notin> set (dkeys (st_task_exceptions s))) \<and>
    (\<forall>p\<in>set (st_pending s). t_ref (p_task p) = stmt_ref a \<and> p_pc p \<noteq> P_start \<longrightarrow>
       is_reachable (p_task p) a s \<and> \<not> skip_should_propagate (p_task p) a s)"
proof (intro conjI ballI impI)
  have inv: "flat_inv d sch s" using reachable_flat_inv [OF assms(1-3)] assms(4) by blast
  have ok: "deps_ok d" using assms(1) by (simp add: sched_for_def)
  have z: "open_deps a (fired s) = 0" using flat_invD(9) [OF inv assms(5)] assms(6) by blast
  have *: "fst c \<in> fired s" if "c \<in> dep_comps a" for c
    using open_deps_nonneg(2) [OF ok assms(5) z that] .
  then show "(fst c, ROOT_STREAM) \<in> st_completed s" "fst c \<notin> set (dkeys (st_task_exceptions s))" if "c \<in> dep_comps a" for c
    using that by (auto simp: fired_def done_refs_def)
  have "passed_checks (p_task p) a s"
    if "p \<in> set (st_pending s)" "t_ref (p_task p) = stmt_ref a \<and> p_pc p \<noteq> P_start" for p
    using flat_invD(11) [OF inv that(1)] that(2) assms(5) by simp
  then show "is_reachable (p_task p) a s" "\<not> skip_should_propagate (p_task p) a s"
    if "p \<in> set (st_pending s)" "t_ref (p_task p) = stmt_ref a \<and> p_pc p \<noteq> P_start" for p
    using that by (auto simp: passed_checks_def)
qed

text \<open>C18: No task of a workflow without scatter and gather is dispatched twice: in every reachable state that is not
  stopped by a failure, every task is queued at most once, running at most once, and not both, and none of these
  when it has completed.\<close>

theorem flat_at_most_once:
  assumes "sched_for d sch" "flat d" "reachable sch (init_state (dsl_actions d) ctx) s" "\<not> stopped s"
  shows "distinct (live_refs s) \<and> set (live_refs s) \<inter> done_refs s = {} \<and>
    set (live_refs s) \<union> done_refs s \<subseteq> set (action_refs d)"
proof -
  have inv: "flat_inv d sch s" using reachable_flat_inv [OF assms(1-3)] assms(4) by blast
  have "done_refs s \<subseteq> set (action_refs d)" using flat_invD(5) [OF inv] by (auto simp: done_refs_def)
  then show ?thesis using flat_invD(3,4,6) [OF inv] by blast
qed

text \<open>C2: Completeness: in a workflow without scatter and gather whose actions have a topological order and in which no
  action names an edge twice, every run of the scheduler that ends without a failed task has completed every
  action, however the tasks were interleaved and whatever they returned.\<close>

theorem flat_all_complete:
  assumes "sched_for d sch" "flat d" "reachable sch (init_state (dsl_actions d) ctx) s"
    and "halted s" "sched_result s = None"
    and "topo_order (dep_edges d) V" "set V = set (action_refs d)"
    and "\<forall>a\<in>set (dsl_actions d). distinct (dep_components a)"
  shows "st_completed s = set (action_refs d) \<times> {ROOT_STREAM}"
proof -
  have ok: "deps_ok d" using assms(1) by (simp add: sched_for_def)
  have ex: "st_task_exceptions s = []" using assms(5) by (simp add: sched_result_def split: if_splits)
  then have h: "live_refs s = []" using assms(4) by (simp add: halted_def live_refs_def)
  have inv: "flat_inv d sch s" using reachable_flat_inv [OF assms(1-3)] ex by (auto simp: stopped_def)
  have fd: "fired s = done_refs s" by (simp add: fired_def ex)
  have full: "stmt_ref a \<in> done_refs s" if a: "a \<in> set (dsl_actions d)" and deps: "\<forall>c\<in>dep_comps a. fst c \<in> done_refs s" for a
  proof -
    have "{c \<in> dep_comps a. fst c \<in> fired s} = dep_comps a" using deps fd by auto
    moreover have "card (dep_comps a) = length (stmt_depends_on a)"
      using distinct_dep_comps [OF ok a] assms(8) a by blast
    ultimately have "open_deps a (fired s) = 0" by (simp add: open_deps_def)
    then show ?thesis using flat_invD(10) [OF inv ex a] h by simp
  qed
  have "V ! i \<in> done_refs s" if "i < length V" for i
    using that
  proof (induction i rule: less_induct)
    case (less i)
    then obtain a where a: "a \<in> set (dsl_actions d)" "stmt_ref a = V ! i"
      using assms(7) nth_mem [OF less.prems] by auto
    have "\<forall>c\<in>dep_comps a. fst c \<in> done_refs s"
    proof
      fix c assume "c \<in> dep_comps a"
      then have "(fst c, V ! i) \<in> set (dep_edges d)"
        using a by (force simp: dep_edges_def dep_srcs_def dep_comps_def)
      then have "fst c \<in> set (take i V)" using assms(6) less.prems by (simp add: topo_order_def)
      then obtain j where "j < i" "fst c = V ! j" using less.prems by (auto simp: in_set_conv_nth)
      then show "fst c \<in> done_refs s" using less.IH less.prems by simp
    qed
    then show ?case using full [OF a(1)] a(2) by simp
  qed
  then have "set V \<subseteq> done_refs s" by (auto simp: in_set_conv_nth)
  then have "set (action_refs d) \<times> {ROOT_STREAM} \<subseteq> st_completed s" using assms(7) by (auto simp: done_refs_def)
  then show ?thesis using flat_invD(5) [OF inv] by blast
qed

text \<open>A set of actions each of which waits for another of the set is never started, in no
  interleaving; a run can end without reporting anything (see the cyclic definition that validation accepts).\<close>

lemma flat_cycle_never_runs:
  assumes "sched_for d sch" "flat d" "reachable sch (init_state (dsl_actions d) ctx) s" "\<not> stopped s"
    and "\<forall>a\<in>set (dsl_actions d). stmt_ref a \<in> S \<longrightarrow> (\<exists>c\<in>dep_comps a. fst c \<in> S)"
    and "S \<subseteq> set (action_refs d)"
  shows "S \<inter> (set (live_refs s) \<union> done_refs s) = {}"
proof -
  have ok: "deps_ok d" using assms(1) by (simp add: sched_for_def)
  have "flat_inv d sch s' \<Longrightarrow> S \<inter> fired s' = {} \<Longrightarrow> S \<inter> (set (live_refs s') \<union> done_refs s') = {}" for s'
  proof -
    assume inv: "flat_inv d sch s'" and f: "S \<inter> fired s' = {}"
    have "stmt_ref a \<notin> set (live_refs s') \<union> done_refs s'" if a: "a \<in> set (dsl_actions d)" "stmt_ref a \<in> S" for a
    proof
      assume "stmt_ref a \<in> set (live_refs s') \<union> done_refs s'"
      then have "open_deps a (fired s') = 0" by (rule flat_invD(9) [OF inv a(1)])
      moreover obtain c where "c \<in> dep_comps a" "fst c \<in> S" using assms(5) a by blast
      ultimately have "fst c \<in> fired s'" using open_deps_nonneg(2) [OF ok a(1)] by blast
      with f \<open>fst c \<in> S\<close> show False by blast
    qed
    then show ?thesis using assms(6) by auto
  qed
  note closed = this
  have "stopped s \<or> S \<inter> fired s = {}"
    using assms(3)
  proof (induction rule: reachable.induct)
    case reach_init
    then show ?case by (simp add: fired_def done_refs_def init_state_def Let_def)
  next
    case (reach_step s s')
    have inv: "flat_inv d sch s \<or> stopped s" using reachable_flat_inv [OF assms(1,2) reach_step(1)] .
    with stopped_no_step reach_step(2) have inv: "flat_inv d sch s" by blast
    have f: "S \<inter> (set (live_refs s) \<union> done_refs s) = {}"
      using closed [OF inv] reach_step stopped_no_step by blast
    show ?case
    proof (cases "stopped s'")
      case False
      have "fired s' \<subseteq> set (live_refs s) \<union> done_refs s"
        using step_done_refs [OF assms(1,2) inv reach_step(2) False] by (auto simp: fired_def)
      then show ?thesis using f by blast
    qed simp
  qed
  then show ?thesis using closed reachable_flat_inv [OF assms(1-3)] assms(4) by blast
qed

section \<open>Runs end\<close>

definition undispatched :: "dsl_input \<Rightarrow> sstate \<Rightarrow> string set" where
  "undispatched d s = set (action_refs d) - set (map (t_ref \<circ> p_task) (st_pending s)) - done_refs s"

definition run_measure :: "dsl_input \<Rightarrow> sstate \<Rightarrow> nat" where
  "run_measure d s = 4 * card (undispatched d s) + sum_list (map (\<lambda>p. pc_rank (p_pc p)) (st_pending s))"

lemma pc_rank_pos: "0 < pc_rank k"
  by (cases k) auto

lemma sum_list_remove:
  fixes f :: "'a \<Rightarrow> nat"
  assumes "i < length xs"
  shows "sum_list (map f (take i xs @ drop (Suc i) xs)) + f (xs ! i) = sum_list (map f xs)"
proof -
  have "sum_list (map f xs) = sum_list (map f (take i xs @ xs ! i # drop (Suc i) xs))"
    using id_take_nth_drop [OF assms] by metis
  then show ?thesis by simp
qed

lemma sum_list_update_less:
  fixes f :: "'a \<Rightarrow> nat"
  assumes "i < length xs" "f y < f (xs ! i)"
  shows "sum_list (map f (xs[i := y])) < sum_list (map f xs)"
proof -
  have "sum_list (map f (xs[i := y])) = sum_list (map f (take i xs @ drop (Suc i) xs)) + f y"
    using assms(1) by (simp add: upd_conv_take_nth_drop)
  then show ?thesis using sum_list_remove [OF assms(1), of f] assms(2) by linarith
qed

lemma complete_measure:
  assumes "flat_inv d sch s" "i < length (st_pending s)" "t = p_task (st_pending s ! i)"
    and "st_pending s0 = st_pending s" "st_completed s0 = st_completed s"
  shows "run_measure d (complete i t s0) < run_measure d s"
proof -
  have dp: "distinct (map (t_ref \<circ> p_task) (st_pending s))"
    using flat_invD(3) [OF assms(1)] by (simp add: live_refs_def)
  have pm: "set (map (t_ref \<circ> p_task) (st_pending (complete i t s0))) = set (map (t_ref \<circ> p_task) (st_pending s)) - {t_ref t}"
    using remove_nth(2) [OF assms(2) dp] assms(3,4) by (simp add: complete_def)
  have dr: "done_refs (complete i t s0) = insert (t_ref t) (done_refs s)"
    using flat_inv_pending(1) [OF assms(1-3)] assms(5) by (auto simp: done_refs_def complete_def tkey_def)
  have "t_ref t \<in> set (map (t_ref \<circ> p_task) (st_pending s))" using assms(2,3) by auto
  then have "undispatched d (complete i t s0) = undispatched d s"
    unfolding undispatched_def pm dr by blast
  moreover have "sum_list (map (\<lambda>p. pc_rank (p_pc p)) (st_pending (complete i t s0))) <
      sum_list (map (\<lambda>p. pc_rank (p_pc p)) (st_pending s))"
    using sum_list_remove [OF assms(2), of "\<lambda>p. pc_rank (p_pc p)"] pc_rank_pos [of "p_pc (st_pending s ! i)"] assms(4)
    by (simp add: complete_def)
  ultimately show ?thesis by (simp add: run_measure_def)
qed

lemma step_measure:
  assumes "sched_for d sch" "flat d" "flat_inv d sch s" "sched_step sch s s'"
  shows "run_measure d s' < run_measure d s \<or> (stopped s' \<and> 0 < run_measure d s)"
  using assms(4)
proof cases
  case step_dispatch
  then obtain t q where q: "st_queue s = t # q"
    and s': "s' = s\<lparr>st_queue := q, st_pending := st_pending s @ [\<lparr>p_task = t\<lparr>t_delay := 0\<rparr>, p_delay = t_delay t, p_pc = P_start\<rparr>]\<rparr>"
    by (auto simp: dispatch_def split: list.splits if_splits)
  have t: "t_ref t \<in> undispatched d s"
    using flat_invD(3,4,6) [OF assms(3)] q by (auto simp: undispatched_def live_refs_def)
  have "undispatched d s' = undispatched d s - {t_ref t}"
    by (auto simp: undispatched_def s' done_refs_def)
  moreover have "finite (undispatched d s)" by (simp add: undispatched_def)
  ultimately have "card (undispatched d s') < card (undispatched d s)" using t by (metis card_Diff1_less)
  then show ?thesis by (simp add: run_measure_def s')
next
  case (step_resume i r)
  from assms(1-3) step_resume have "run_measure d s' < run_measure d s"
  proof (cases rule: resume_flat)
    case (advance s0 pc' a)
    let ?p = "st_pending s ! i"
    have m: "map (t_ref \<circ> p_task) ((st_pending s)[i := ?p\<lparr>p_pc := pc'\<rparr>]) = map (t_ref \<circ> p_task) (st_pending s)"
      using advance(4) by (intro nth_equalityI) (auto simp: nth_list_update)
    have "undispatched d s' = undispatched d s"
      using advance(1) m unfolding undispatched_def advance(8) by (simp add: same_core_def done_refs_def del: set_map)
    moreover have "sum_list (map (\<lambda>p. pc_rank (p_pc p)) ((st_pending s)[i := ?p\<lparr>p_pc := pc'\<rparr>])) <
        sum_list (map (\<lambda>p. pc_rank (p_pc p)) (st_pending s))"
      using advance(3,4) by (intro sum_list_update_less) auto
    ultimately show ?thesis using advance(1,8) by (simp add: run_measure_def same_core_def)
  next
    case (queue s0 un)
    then show ?thesis unfolding queue(3)
      by (intro complete_measure [OF assms(3) _ refl]) (auto simp: same_core_def)
  next
    case (failed s0 info)
    then show ?thesis unfolding failed(3)
      by (intro complete_measure [OF assms(3) _ refl]) (auto simp: same_core_def)
  qed
  then show ?thesis by blast
next
  case step_cancel
  then have "st_pending s \<noteq> []" "stopped s'" by (auto simp: cancel_pending_def stopped_def split: if_splits)
  moreover have "0 < run_measure d s"
    using pc_rank_pos calculation(1) by (cases "st_pending s") (auto simp: run_measure_def)
  ultimately show ?thesis by blast
qed

lemma run_measure_bound:
  assumes "sched_for d sch" "flat d" "flat_inv d sch s" "run_events sch s es = Some s'"
  shows "length es \<le> run_measure d s"
  using assms(3,4)
proof (induction es arbitrary: s)
  case Nil
  then show ?case by simp
next
  case (Cons e es)
  then obtain s1 where s1: "exec_event sch s e = Some s1" "run_events sch s1 es = Some s'"
    by (auto split: option.splits)
  have st: "sched_step sch s s1" using s1(1) by (rule exec_event_step)
  show ?case
  proof (cases "stopped s1")
    case True
    have "es = []"
    proof (cases es)
      case (Cons e' es')
      then obtain s2 where "exec_event sch s1 e' = Some s2" using s1(2) by (auto split: option.splits)
      then have "sched_step sch s1 s2" by (rule exec_event_step)
      then show ?thesis using stopped_no_step [OF True] by blast
    qed simp
    then show ?thesis using step_measure [OF assms(1,2) Cons.prems(1) st] by auto
  next
    case False
    then have "flat_inv d sch s1" using step_flat_inv [OF assms(1,2) Cons.prems(1) st] by blast
    from Cons.IH [OF this s1(2)] step_measure [OF assms(1,2) Cons.prems(1) st] False show ?thesis by auto
  qed
qed

text \<open>C5: The scheduler of a workflow without scatter and gather terminates: whatever the order of events and the
  replies, a run has at most four events per action, and a state in which the loop has not ended always has a next event.\<close>

theorem flat_run_terminates:
  assumes "sched_for d sch" "flat d" "run_events sch (init_state (dsl_actions d) ctx) es = Some s"
  shows "length es \<le> 4 * length (dsl_actions d) \<and> (\<not> halted s \<longrightarrow> (\<exists>s'. sched_step sch s s'))"
proof
  have ok: "deps_ok d" using assms(1) by (simp add: sched_for_def)
  have "card (set (action_refs d)) = length (dsl_actions d)"
    using ok distinct_card [of "action_refs d"] by (simp add: deps_ok_def)
  then have "run_measure d (init_state (dsl_actions d) ctx) = 4 * length (dsl_actions d)"
    by (simp add: run_measure_def undispatched_def init_state_def Let_def done_refs_def)
  then show "length es \<le> 4 * length (dsl_actions d)"
    using run_measure_bound [OF assms(1,2) init_flat_inv [OF ok] assms(3)] by simp
  have reach: "reachable sch (init_state (dsl_actions d) ctx) s"
    by (rule run_events_reachable [OF assms(3) reach_init])
  show "\<not> halted s \<longrightarrow> (\<exists>s'. sched_step sch s s')"
  proof
    assume nh: "\<not> halted s"
    then have "\<not> stopped s" by (auto simp: halted_def stopped_def split: if_splits)
    then have inv: "flat_inv d sch s" using reachable_flat_inv [OF assms(1,2) reach] by blast
    show "\<exists>s'. sched_step sch s s'"
    proof (cases "st_pending s = []")
      case True
      then have "st_queue s \<noteq> []" "st_task_exceptions s = []" using nh by (auto simp: halted_def split: if_splits)
      then obtain s' where "dispatch s = Some s'" by (cases "st_queue s") (auto simp: dispatch_def)
      then show ?thesis by (blast intro: step_dispatch)
    next
      case False
      let ?p = "st_pending s ! 0"
      have p: "?p \<in> set (st_pending s)" using False by simp
      have "t_ref (p_task ?p) \<in> set (action_refs d)"
        using flat_inv_pending(5) [OF inv, of 0] False by simp
      then obtain a where a: "dget (sch_tasks sch) (t_ref (p_task ?p)) = Some a"
        using sched_for_task [OF assms(1)] by fastforce
      have "flat_pc (p_pc ?p)" using flat_invD(2) [OF inv p] by simp
      then have "resume_seg sch (p_task ?p) (p_delay ?p) a (p_pc ?p)
          (case p_pc ?p of P_start \<Rightarrow> R_woken | P_run_if _ _ \<Rightarrow> R_value JNull | _ \<Rightarrow> R_executed None None) s \<noteq> None"
        by (cases "p_pc ?p") (auto simp: resume_seg_def Let_def)
      then have "\<exists>r s'. resume sch 0 r s = Some s'" using a False by (auto simp: resume_def Let_def)
      then show ?thesis by (blast intro: step_resume)
    qed
  qed
qed

text \<open>An action that names one edge twice (such as a reference and the same reference with
  \<open>.success\<close>) counts it twice but is told of it once: it is never started, in no interleaving.\<close>

lemma flat_duplicate_edge_never_runs:
  assumes "sched_for d sch" "flat d" "reachable sch (init_state (dsl_actions d) ctx) s" "\<not> stopped s"
    and "a \<in> set (dsl_actions d)" "\<not> distinct (dep_components a)"
  shows "stmt_ref a \<notin> set (live_refs s) \<union> done_refs s"
proof
  have ok: "deps_ok d" using assms(1) by (simp add: sched_for_def)
  have inv: "flat_inv d sch s" using reachable_flat_inv [OF assms(1-3)] assms(4) by blast
  assume "stmt_ref a \<in> set (live_refs s) \<union> done_refs s"
  then have z: "open_deps a (fired s) = 0" by (rule flat_invD(9) [OF inv assms(5)])
  then have "{c \<in> dep_comps a. fst c \<in> fired s} = dep_comps a"
    using open_deps_nonneg(2) [OF ok assms(5)] by blast
  with z have "card (dep_comps a) = length (stmt_depends_on a)" by (simp add: open_deps_def)
  then show False using distinct_dep_comps [OF ok assms(5)] assms(6) by simp
qed

section \<open>Instances\<close>

definition sample_sched :: "dsl_input \<Rightarrow> sched" where
  "sample_sched d = init_sched (dsl_actions d) (\<lambda>_. Inr \<lparr>sa_collection = JArr [], sa_interval = None\<rparr>)
     (\<lambda>_. Inr \<lparr>ga_items = JNull, ga_drop_nulls = False, ga_error_strategy = Partition\<rparr>) (\<lambda>_. []) sample_parser"

definition sample_init :: "dsl_input \<Rightarrow> sstate" where
  "sample_init d = init_state (dsl_actions d) (stream_ctx [])"

definition sample_work :: "string list \<Rightarrow> action_stmt" where
  "sample_work deps = (default_stmt ''work'' ''core.noop'')\<lparr>stmt_depends_on := deps\<rparr>"

definition sample_pair :: "string list \<Rightarrow> dsl_input" where
  "sample_pair deps = \<lparr>dsl_actions = [default_stmt ''start'' ''core.noop'', sample_work deps]\<rparr>"

lemma sample_pair_work:
  "sample_work deps \<in> set (dsl_actions (sample_pair deps))" "stmt_ref (sample_work deps) = ''work''"
  "stmt_depends_on (sample_work deps) = deps"
  by (simp_all add: sample_pair_def sample_work_def default_stmt_def)

lemma sample_dup_edge: "\<not> distinct (dep_components (sample_work [''start'', ''start.success'']))"
  by code_simp

definition run_one :: "event list" where
  "run_one = [Ev_dispatch, Ev_resume 0 R_woken, Ev_resume 0 (R_executed None None)]"

lemma sample_pair_ok: "deps_ok (sample_pair [''start''])" "flat (sample_pair [''start''])"
  "deps_ok (sample_pair [''start'', ''start.success''])" "flat (sample_pair [''start'', ''start.success''])"
  unfolding deps_ok_def by code_simp+

lemma sample_cycle_ok: "deps_ok (sample_cycle ''core.noop'')" "flat (sample_cycle ''core.noop'')"
  unfolding deps_ok_def by code_simp+

lemma sample_sched_for: "deps_ok d \<Longrightarrow> sched_for d (sample_sched d)"
  unfolding sample_sched_def by (rule sched_for_init)

definition ends_well :: "dsl_input \<Rightarrow> event list \<Rightarrow> bool" where
  "ends_well d es = (case run_events (sample_sched d) (sample_init d) es of
     None \<Rightarrow> False | Some s \<Rightarrow> halted s \<and> sched_result s = None)"

lemma ends_wellE:
  assumes "ends_well d es"
  obtains s where "run_events (sample_sched d) (init_state (dsl_actions d) (stream_ctx [])) es = Some s"
    "reachable (sample_sched d) (init_state (dsl_actions d) (stream_ctx [])) s"
    "halted s" "sched_result s = None" "\<not> stopped s"
  using assms run_events_reachable [OF _ reach_init]
  by (auto simp: ends_well_def sample_init_def sched_result_def stopped_def split: option.splits if_splits)

lemma sample_runs:
  "ends_well (sample_pair [''start'']) (run_one @ run_one)"
  "ends_well (sample_pair [''start'', ''start.success'']) run_one"
  "ends_well (sample_cycle ''core.noop'') run_one"
  by code_simp+

lemma sample_mid:
  "(case run_events (sample_sched (sample_pair [''start''])) (sample_init (sample_pair [''start''])) (run_one @ [Ev_dispatch]) of
      None \<Rightarrow> False | Some s \<Rightarrow> live_refs s = [''work''] \<and> st_task_exceptions s = [])"
  by code_simp

lemma sample_mid_obtain:
  obtains s where "reachable (sample_sched (sample_pair [''start''])) (init_state (dsl_actions (sample_pair [''start''])) (stream_ctx [])) s"
    "live_refs s = [''work'']" "\<not> stopped s"
proof -
  obtain s where s: "run_events (sample_sched (sample_pair [''start''])) (sample_init (sample_pair [''start'']))
      (run_one @ [Ev_dispatch]) = Some s" "live_refs s = [''work'']" "st_task_exceptions s = []"
    using sample_mid by (auto split: option.splits)
  have "\<not> stopped s" using s(3) by (simp add: stopped_def)
  with s(2) run_events_reachable [OF s(1) reach_init] show ?thesis
    using that unfolding sample_init_def by blast
qed

theorem flat_execution_order_witness:
  "\<exists>s. live_refs s = [''work''] \<and> (''start'', ROOT_STREAM) \<in> st_completed s"
proof -
  obtain s where s: "reachable (sample_sched (sample_pair [''start''])) (init_state (dsl_actions (sample_pair [''start''])) (stream_ctx [])) s"
      "live_refs s = [''work'']" "\<not> stopped s"
    using sample_mid_obtain .
  have c: "(''start'', Success) \<in> dep_comps (sample_work [''start''])"
    using sample_pair_work(3) by (simp add: dep_comps_def dep_components_def edge_components_from_dep_def)
  have l: "stmt_ref (sample_work [''start'']) \<in> set (live_refs s)" using s(2) by (simp add: sample_pair_work(2))
  have "(fst (''start'', Success), ROOT_STREAM) \<in> st_completed s"
    using flat_execution_order [OF sample_sched_for [OF sample_pair_ok(1)] sample_pair_ok(2) s(1,3) sample_pair_work(1) l] c
    by blast
  with s(2) show ?thesis by auto
qed

theorem flat_at_most_once_witness:
  "\<exists>s. reachable (sample_sched (sample_pair [''start''])) (init_state (dsl_actions (sample_pair [''start''])) (stream_ctx [])) s
     \<and> live_refs s = [''work''] \<and> ''work'' \<notin> done_refs s"
proof -
  obtain s where s: "reachable (sample_sched (sample_pair [''start''])) (init_state (dsl_actions (sample_pair [''start''])) (stream_ctx [])) s"
      "live_refs s = [''work'']" "\<not> stopped s"
    using sample_mid_obtain .
  then show ?thesis
    using flat_at_most_once [OF sample_sched_for [OF sample_pair_ok(1)] sample_pair_ok(2) s(1,3)] by (intro exI [of _ s]) auto
qed

theorem flat_all_complete_witness:
  "\<exists>s::sstate. st_completed s = {''start'', ''work''} \<times> {ROOT_STREAM}"
proof -
  let ?d = "sample_pair [''start'']"
  obtain s where s: "reachable (sample_sched ?d) (init_state (dsl_actions ?d) (stream_ctx [])) s"
      "halted s" "sched_result s = None"
    using ends_wellE [OF sample_runs(1)] by metis
  have refs: "set (action_refs ?d) = {''start'', ''work''}"
    by (simp add: sample_pair_def sample_work_def default_stmt_def)
  have e: "dep_edges ?d = [(''start'', ''work'')]" by code_simp
  have t: "topo_order (dep_edges ?d) [''start'', ''work'']"
    unfolding e topo_order_def by (simp add: less_Suc_eq)
  have r: "set [''start'', ''work''] = set (action_refs ?d)" unfolding refs by simp
  have "\<forall>a\<in>set (dsl_actions ?d). distinct (dep_components a)"
    by (simp add: sample_pair_def sample_work_def default_stmt_def dep_components_def)
  from flat_all_complete [OF sample_sched_for [OF sample_pair_ok(1)] sample_pair_ok(2) s t r this]
  have "st_completed s = {''start'', ''work''} \<times> {ROOT_STREAM}" by (simp only: refs)
  then show ?thesis by (rule exI [of _ s])
qed

lemma flat_cycle_never_runs_witness:
  "\<exists>s. sched_result s = None \<and> halted s \<and> {''ping'', ''pong''} \<inter> done_refs s = {}"
proof -
  let ?d = "sample_cycle ''core.noop''"
  obtain s where s: "reachable (sample_sched ?d) (init_state (dsl_actions ?d) (stream_ctx [])) s"
      "halted s" "sched_result s = None" "\<not> stopped s"
    using ends_wellE [OF sample_runs(3)] by metis
  have c: "\<forall>a\<in>set (dsl_actions ?d). stmt_ref a \<in> {''ping'', ''pong''} \<longrightarrow> (\<exists>c\<in>dep_comps a. fst c \<in> {''ping'', ''pong''})"
    by (auto simp: sample_cycle_def default_stmt_def dep_comps_def dep_components_def edge_components_from_dep_def)
  have sub: "{''ping'', ''pong''} \<subseteq> set (action_refs ?d)" by (simp add: sample_cycle_def default_stmt_def)
  from flat_cycle_never_runs [OF sample_sched_for [OF sample_cycle_ok(1)] sample_cycle_ok(2) s(1,4) c sub] s(2,3)
  show ?thesis by blast
qed

theorem flat_run_terminates_witness:
  "length (run_one @ run_one) \<le> 4 * length (dsl_actions (sample_pair [''start'']))"
proof -
  obtain s where "run_events (sample_sched (sample_pair [''start'']))
      (init_state (dsl_actions (sample_pair [''start''])) (stream_ctx [])) (run_one @ run_one) = Some s"
    using ends_wellE [OF sample_runs(1)] by metis
  from flat_run_terminates [OF sample_sched_for [OF sample_pair_ok(1)] sample_pair_ok(2) this] show ?thesis by blast
qed

lemma flat_duplicate_edge_never_runs_witness:
  "\<exists>s. halted s \<and> sched_result s = None \<and> ''work'' \<notin> done_refs s"
proof -
  let ?d = "sample_pair [''start'', ''start.success'']"
  obtain s where s: "reachable (sample_sched ?d) (init_state (dsl_actions ?d) (stream_ctx [])) s"
      "halted s" "sched_result s = None" "\<not> stopped s"
    using ends_wellE [OF sample_runs(2)] by metis
  from flat_duplicate_edge_never_runs [OF sample_sched_for [OF sample_pair_ok(3)] sample_pair_ok(4) s(1,4)
      sample_pair_work(1) sample_dup_edge]
  have "''work'' \<notin> done_refs s" unfolding sample_pair_work(2) by blast
  with s(2,3) show ?thesis by blast
qed

end
