(* ===== verification/Scheduler_Streams.thy ===== *)
theory Scheduler_Streams
  imports Scheduler_Flat
begin

text \<open>
  Scatter and gather. The streams of a scatter form a tree whose identifiers grow downwards, which
  makes the lookup of results end; a scatter creates one stream per item; and a gather is a barrier
  whose result does not depend on the order in which the streams reach it.
\<close>

section \<open>The stream hierarchy\<close>

definition hier_shrinks :: "sstate \<Rightarrow> bool" where
  "hier_shrinks s \<longleftrightarrow> (\<forall>k p. dget (st_hierarchy s) k = Some (Some p) \<longrightarrow> length p < length k)"

lemma stream_new_longer: "length b < length (stream_new sc i (Some b))"
  by (simp add: stream_new_def Let_def)

lemma set_action_hier [simp]: "st_hierarchy (set_action sid ref r s) = st_hierarchy s"
  by (simp add: set_action_def split: option.splits)

lemma store_executed_hier [simp]: "st_hierarchy (store_executed sid ref r s) = st_hierarchy s"
  by (simp add: store_executed_def split: option.splits)

lemma handle_error_path_hier [simp]: "st_hierarchy (handle_error_path sch t e s) = st_hierarchy s"
  by (simp add: handle_error_path_def Let_def)

lemma handle_success_path_hier [simp]: "st_hierarchy (handle_success_path sch t s) = st_hierarchy s"
  by (simp add: handle_success_path_def)

lemma hier_shrinks_cong: "st_hierarchy s' = st_hierarchy s \<Longrightarrow> hier_shrinks s \<Longrightarrow> hier_shrinks s'"
  by (simp add: hier_shrinks_def)

lemma hier_shrinks_new:
  "st_hierarchy s' = dset (stream_new sc i (Some sid)) (Some sid) (st_hierarchy s) \<Longrightarrow> hier_shrinks s \<Longrightarrow> hier_shrinks s'"
  using stream_new_longer by (auto simp: hier_shrinks_def)

lemma hier_shrinks_skip_stream: "hier_shrinks s \<Longrightarrow> hier_shrinks (handle_scatter_skip_stream sch t sid s)"
  by (rule hier_shrinks_new [of _ "t_ref t" SkipToken sid s])
    (auto simp: handle_scatter_skip_stream_def stream_skip_def Let_def new_stream_def)

lemma hier_shrinks_scatter_round: "hier_shrinks s \<Longrightarrow> hier_shrinks (scatter_round sch t args coll i s)"
  by (rule hier_shrinks_new [of _ "t_ref t" "Idx (int i)" "t_stream t" s])
    (auto simp: scatter_round_def Let_def new_stream_def)

lemma set_slot_hier [simp]: "st_hierarchy (fst (set_slot parent g sc idx item s)) = st_hierarchy s"
  by (auto simp: set_slot_def Let_def split: option.splits stored.splits sum.splits)

lemma gather_result_hier [simp]: "st_hierarchy (fst (handle_gather_result t args parent s)) = st_hierarchy s"
  by (auto simp: handle_gather_result_def Let_def split: option.splits sum.splits)

lemma decr_open_hier [simp]: "st_hierarchy (fst (decr_open k s)) = st_hierarchy s"
  by (simp add: decr_open_def split: option.splits)

lemma close_check_hier [simp]: "st_hierarchy (fst (close_check t args p sc s)) = st_hierarchy s"
  by (simp add: close_check_def split: option.splits)

lemma set_slot_hierD: "set_slot parent g sc idx item s = (s', e) \<Longrightarrow> st_hierarchy s' = st_hierarchy s"
  by (metis fst_conv set_slot_hier)

lemma decr_open_hierD: "decr_open k s = (s', e) \<Longrightarrow> st_hierarchy s' = st_hierarchy s"
  by (metis fst_conv decr_open_hier)

lemma gather_skip_stream_hier [simp]: "st_hierarchy (fst (handle_gather_skip_stream sch t a sid s)) = st_hierarchy s"
  unfolding handle_gather_skip_stream_def Let_def
  by (auto split: sum.splits option.splits prod.splits dest: set_slot_hierD)

lemma handle_gather_hier [simp]: "st_hierarchy (fst (handle_gather sch t a b s)) = st_hierarchy s"
  unfolding handle_gather_def Let_def
  by (auto split: sum.splits option.splits prod.splits dest: decr_open_hierD)

lemma gather_item_hier [simp]: "st_hierarchy (fst (gather_item t args parent item s)) = st_hierarchy s"
  unfolding gather_item_def
  by (auto split: option.splits prod.splits dest!: decr_open_hierD set_slot_hierD)

lemma gather_final_hier [simp]: "st_hierarchy (fst (gather_final t args parent r res ty errs s)) = st_hierarchy s"
  by (simp add: gather_final_def Let_def)

lemma gather_empty_hier [simp]: "st_hierarchy (fst (gather_empty sch t parent res ty s)) = st_hierarchy s"
  by (simp add: gather_empty_def Let_def)

lemma hier_shrinks_seg:
  assumes "hier_shrinks s"
  shows "hier_shrinks (fst (handle_skip_path sch t a s))" "hier_shrinks (fst (run_action sch t a s))"
    "hier_shrinks (fst (scatter_collected sch t args coll s))" "hier_shrinks (fst (scatter_next sch t args coll i n s))"
proof -
  have g: "hier_shrinks (fst (handle_gather sch t a b s))" for b
    by (rule hier_shrinks_cong [OF handle_gather_hier assms])
  have sc: "hier_shrinks (fst (start_scatter sch t a s))"
    using assms by (simp add: start_scatter_def split: sum.splits option.splits)
  show "hier_shrinks (fst (handle_skip_path sch t a s))"
    using assms g hier_shrinks_skip_stream by (auto simp: handle_skip_path_def hier_shrinks_def)
  show "hier_shrinks (fst (run_action sch t a s))"
    using assms g sc by (simp add: run_action_def)
  have c: "hier_shrinks (s\<lparr>st_task_streams := x\<rparr>)" "hier_shrinks (s\<lparr>st_task_streams := x, st_open_streams := y\<rparr>)"
    "hier_shrinks (s\<lparr>st_open_streams := y\<rparr>)" for x y
    using assms by (simp_all add: hier_shrinks_def)
  show "hier_shrinks (fst (scatter_collected sch t args coll s))"
    using c hier_shrinks_skip_stream hier_shrinks_scatter_round
    by (simp add: scatter_collected_def Let_def split: option.splits)
  show "hier_shrinks (fst (scatter_next sch t args coll i n s))"
    using assms c hier_shrinks_scatter_round by (simp add: scatter_next_def)
qed

lemma hier_shrinks_resume_seg:
  assumes "hier_shrinks s" "resume_seg sch t delay a pc r s = Some x"
  shows "hier_shrinks (fst x)"
proof -
  have ac: "hier_shrinks (fst (after_checks sch t delay a s))"
    using assms(1) hier_shrinks_seg(2) by (simp add: after_checks_def)
  have st: "hier_shrinks (fst (start_task sch t delay a s))"
    using assms(1) ac hier_shrinks_seg(1) by (auto simp: start_task_def split: option.splits sum.splits)
  have g: "hier_shrinks (fst (gather_item t ga parent item s))"
    "hier_shrinks (fst (gather_final t ga parent tr res ty errs s))"
    "hier_shrinks (fst (gather_empty sch t parent res ty s))" for ga parent item tr res ty errs
    by (rule hier_shrinks_cong [OF _ assms(1)], simp)+
  have q: "hier_shrinks (queue_tasks sch t' un (store_executed sid ref tr s))"
    "hier_shrinks (handle_success_path sch t' (store_executed sid ref tr s))"
    "hier_shrinks (store_executed sid ref tr s)" for t' un sid ref tr
    by (rule hier_shrinks_cong [OF _ assms(1)], simp)+
  show ?thesis
    using assms ac st g q hier_shrinks_seg
    by (cases pc) (auto simp: resume_seg_def Let_def split: reply.splits option.splits if_splits)
qed

lemma hier_shrinks_finish: "hier_shrinks (fst x) \<Longrightarrow> hier_shrinks (finish sch i p x)"
  by (cases x; cases "snd x") (auto simp: finish_def Let_def hier_shrinks_def)

lemma hier_shrinks_event:
  assumes "hier_shrinks s" "exec_event sch s e = Some s'"
  shows "hier_shrinks s'"
proof (cases e)
  case Ev_dispatch
  then show ?thesis using assms by (auto simp: dispatch_def hier_shrinks_def split: list.splits if_splits)
next
  case (Ev_resume i r)
  then have "resume sch i r s = Some s'" using assms(2) by simp
  then obtain a x where x: "resume_seg sch (p_task (st_pending s ! i)) (p_delay (st_pending s ! i)) a (p_pc (st_pending s ! i)) r s = Some x"
      "s' = finish sch i (st_pending s ! i) x"
    by (auto simp: resume_def Let_def split: if_splits option.splits)
  show ?thesis unfolding x(2) by (rule hier_shrinks_finish [OF hier_shrinks_resume_seg [OF assms(1) x(1)]])
next
  case Ev_cancel
  then show ?thesis using assms by (auto simp: cancel_pending_def hier_shrinks_def split: if_splits)
qed

definition exec_total :: "sched \<Rightarrow> sstate \<Rightarrow> event \<Rightarrow> sstate" where
  "exec_total sch s e = (case exec_event sch s e of None \<Rightarrow> s | Some s' \<Rightarrow> s')"

interpretation sched_hier: total_machine "exec_total sch" hier_shrinks for sch
  by unfold_locales (auto simp: exec_total_def split: option.splits intro: hier_shrinks_event)

lemma run_events_foldl: "run_events sch s es = Some s' \<Longrightarrow> s' = foldl (exec_total sch) s es"
  by (induction es arbitrary: s) (auto simp: exec_total_def split: option.splits)

lemma hier_shrinks_init: "hier_shrinks (init_state as ctx)"
  by (simp add: hier_shrinks_def init_state_def Let_def)

lemma hier_shrinks_run: "run_events sch (init_state as ctx) es = Some s \<Longrightarrow> hier_shrinks s"
  using run_events_foldl sched_hier.run_inv [OF hier_shrinks_init] by metis

section \<open>Stream aware lookup\<close>

text \<open>The specification: the result in the nearest stream, going up, that has one.\<close>

inductive nearest :: "sstate \<Rightarrow> string \<Rightarrow> stream_id \<Rightarrow> task_result \<Rightarrow> bool" for s ref where
  nearest_here: "dget (st_streams s) sid = Some c \<Longrightarrow> dget (ctx_actions c) ref = Some r \<Longrightarrow> nearest s ref sid r"
| nearest_up: "(\<forall>c. dget (st_streams s) sid = Some c \<longrightarrow> dget (ctx_actions c) ref = None) \<Longrightarrow>
     dget (st_hierarchy s) sid = Some (Some p) \<Longrightarrow> nearest s ref p r \<Longrightarrow> nearest s ref sid r"

inductive_cases nearestE: "nearest s ref sid r"

lemma lookup_fuel_sound: "lookup_fuel n s ref (Some sid) = Some r \<Longrightarrow> nearest s ref sid r"
proof (induction n arbitrary: sid)
  case 0
  then show ?case by simp
next
  case (Suc n)
  show ?case
  proof (cases "case dget (st_streams s) sid of None \<Rightarrow> None | Some c \<Rightarrow> dget (ctx_actions c) ref")
    case None
    with Suc.prems obtain p where p: "dget (st_hierarchy s) sid = Some (Some p)" "lookup_fuel n s ref (Some p) = Some r"
      by (cases "dget (st_hierarchy s) sid"; cases "the (dget (st_hierarchy s) sid)") (auto split: option.splits)
    show ?thesis
      using None by (intro nearest_up [OF _ p(1) Suc.IH [OF p(2)]]) (auto split: option.splits)
  next
    case (Some r')
    then obtain c where "dget (st_streams s) sid = Some c" "dget (ctx_actions c) ref = Some r'"
      by (auto split: option.splits)
    then show ?thesis using Suc.prems Some by (auto intro: nearest_here)
  qed
qed

lemma lookup_fuel_complete:
  assumes "hier_shrinks s"
  shows "nearest s ref sid r \<Longrightarrow> length sid < n \<Longrightarrow> lookup_fuel n s ref (Some sid) = Some r"
proof (induction arbitrary: n rule: nearest.induct)
  case (nearest_here sid c r)
  then show ?case by (cases n) auto
next
  case (nearest_up sid p r)
  obtain m where n: "n = Suc m" using nearest_up.prems by (cases n) auto
  have "length p < length sid" using assms nearest_up.hyps(2) by (simp add: hier_shrinks_def)
  then have "lookup_fuel m s ref (Some p) = Some r" using nearest_up.IH nearest_up.prems n by simp
  then show ?case using nearest_up.hyps(1,2) n by (auto split: option.splits)
qed

text \<open>C25: In every state of every run, the lookup of an action's result from a stream returns exactly the
  result of the nearest stream on the way to the root that has one; in particular the walk ends, and a stream
  sees the results of the streams that enclose it and never those of a sibling.\<close>

theorem stream_aware_lookup:
  assumes "run_events sch (init_state as ctx) es = Some s"
  shows "stream_aware_result s ref sid = Some r \<longleftrightarrow> nearest s ref sid r"
  using lookup_fuel_sound lookup_fuel_complete [OF hier_shrinks_run [OF assms]]
  unfolding stream_aware_result_def by blast

section \<open>Scatter\<close>

text \<open>
  The loop of a scatter as its segments execute it when they follow each other, without the steps of other tasks
  that the code allows between two rounds. A scatter over nothing takes another branch of the code, a skipped stream.
\<close>

definition scatter_all :: "sched \<Rightarrow> task \<Rightarrow> scatter_args \<Rightarrow> stored \<Rightarrow> nat \<Rightarrow> sstate \<Rightarrow> sstate" where
  "scatter_all sch t args coll n s = fst (scatter_next sch t args coll n n
     (fold (scatter_round sch t args coll) [0..<n] (s\<lparr>st_task_streams := dset (tkey t) [] (st_task_streams s)\<rparr>)))"

definition scatter_stream :: "task \<Rightarrow> nat \<Rightarrow> stream_id" where
  "scatter_stream t i = stream_new (t_ref t) (Idx (int i)) (Some (t_stream t))"

lemma scatter_stream_inj:
  assumes "plain_scope (t_ref t)"
  shows "scatter_stream t i = scatter_stream t j \<longleftrightarrow> i = j"
  using stream_new_inj [OF assms assms, of "Idx (int i)" "t_stream t" "Idx (int j)" "t_stream t"]
  by (auto simp: scatter_stream_def)

lemma scatter_round_effect:
  "st_task_streams (scatter_round sch t args coll i s) =
     dset (tkey t) ((case dget (st_task_streams s) (tkey t) of None \<Rightarrow> [] | Some xs \<Rightarrow> xs) @ [scatter_stream t i]) (st_task_streams s)"
  "st_streams (scatter_round sch t args coll i s) = dset (scatter_stream t i)
     (stream_ctx [(t_ref t, from_collection_item coll i ''collection_item'')]) (st_streams s)"
  "st_hierarchy (scatter_round sch t args coll i s) = dset (scatter_stream t i) (Some (t_stream t)) (st_hierarchy s)"
  "st_open_streams (scatter_round sch t args coll i s) = st_open_streams s"
  by (simp_all add: scatter_round_def Let_def new_stream_def scatter_stream_def)

lemma scatter_fold:
  assumes "plain_scope (t_ref t)" "dget (st_task_streams s) (tkey t) = Some []"
  shows "dget (st_task_streams (fold (scatter_round sch t args coll) [0..<n] s)) (tkey t) = Some (map (scatter_stream t) [0..<n]) \<and>
    (\<forall>i<n. dget (st_streams (fold (scatter_round sch t args coll) [0..<n] s)) (scatter_stream t i) =
        Some (stream_ctx [(t_ref t, from_collection_item coll i ''collection_item'')]) \<and>
      dget (st_hierarchy (fold (scatter_round sch t args coll) [0..<n] s)) (scatter_stream t i) = Some (Some (t_stream t)))"
proof (induction n)
  case 0
  then show ?case using assms(2) by simp
next
  case (Suc n)
  then show ?case using scatter_stream_inj [OF assms(1)] by (auto simp: scatter_round_effect less_Suc_eq)
qed

text \<open>C38: The rounds of a scatter over \<open>n\<close> items, run back to back, create \<open>n\<close> distinct streams below the stream of
  the scatter, the \<open>i\<close>-th of which sees exactly the \<open>i\<close>-th item, and count \<open>n\<close> open streams.\<close>

theorem scatter_creates_streams:
  assumes "slug_ok (t_ref t)"
  shows "dget (st_task_streams (scatter_all sch t args coll n s)) (tkey t) = Some (map (scatter_stream t) [0..<n]) \<and>
    distinct (map (scatter_stream t) [0..<n]) \<and>
    dget (st_open_streams (scatter_all sch t args coll n s)) (tkey t) = Some (int n) \<and>
    (\<forall>i<n. dget (st_streams (scatter_all sch t args coll n s)) (scatter_stream t i) =
        Some (stream_ctx [(t_ref t, from_collection_item coll i ''collection_item'')]) \<and>
      dget (st_hierarchy (scatter_all sch t args coll n s)) (scatter_stream t i) = Some (Some (t_stream t)))"
proof -
  have pl: "plain_scope (t_ref t)" using slug_plain [OF assms] by blast
  have "inj_on (scatter_stream t) {0..<n}" using scatter_stream_inj [OF pl] by (auto intro: inj_onI)
  then have "distinct (map (scatter_stream t) [0..<n])" by (simp add: distinct_map)
  moreover have "dget (st_task_streams (s\<lparr>st_task_streams := dset (tkey t) [] (st_task_streams s)\<rparr>)) (tkey t) = Some []"
    by simp
  note sf = scatter_fold [OF pl this, of sch args coll n]
  ultimately show ?thesis using sf by (simp add: scatter_all_def scatter_next_def)
qed

text \<open>A successful scatter marks every edge that leaves it as visited, those for its failure included:
  in each new stream an action that waits for the error of the scatter is told that it may run.\<close>

lemma scatter_visits_error_edges:
  assumes "(n, ty) \<in> set (adj_of sch (t_ref t))"
  shows "st_edges (scatter_round sch t args coll i s) (mk_edge (t_ref t) n ty (scatter_stream t i)) = Visited"
  using assms by (simp add: scatter_round_def Let_def queue_tasks_edges scatter_stream_def) (simp add: mk_edge_def)

section \<open>Gather\<close>

definition child_stream :: "string \<Rightarrow> stream_id \<Rightarrow> nat \<Rightarrow> stream_id" where
  "child_stream sref parent i = stream_new sref (Idx (int i)) (Some parent)"

lemma child_stream_facts:
  assumes "plain_scope sref"
  shows "stream_leaf (child_stream sref parent i) = Some (sref, Idx (int i))"
    and "child_stream sref parent i \<noteq> ROOT_STREAM" and "child_stream sref parent i \<noteq> []"
    and "\<not> endswith (child_stream sref parent i) '':skip''"
proof -
  show "stream_leaf (child_stream sref parent i) = Some (sref, Idx (int i))"
    using assms by (simp add: child_stream_def)
  have "CHR ''/'' \<in> set (child_stream sref parent i)" by (simp add: child_stream_def stream_new_def Let_def)
  moreover have "CHR ''/'' \<notin> set ROOT_STREAM" by code_simp
  ultimately show "child_stream sref parent i \<noteq> ROOT_STREAM" by metis
  show "child_stream sref parent i \<noteq> []" by (simp add: child_stream_def stream_new_def Let_def)
  show "\<not> endswith (child_stream sref parent i) '':skip''"
    using endswith_skip [OF assms, of "Idx (int i)" "Some parent"] by (simp add: child_stream_def)
qed

text \<open>How a stream reaches the gather: with an item, or skipping (after a failure, or without one).\<close>

datatype arrival = Got stored | Gone

definition arrive ::
  "sched \<Rightarrow> action_stmt \<Rightarrow> gather_args \<Rightarrow> string \<Rightarrow> stream_id \<Rightarrow> nat \<Rightarrow> arrival \<Rightarrow> sstate \<Rightarrow> sstate \<times> seg" where
  "arrive sch a args sref parent i arr s =
     (let t = mk_task (stmt_ref a) (child_stream sref parent i) in
      case arr of Got item \<Rightarrow> gather_item t args parent item s | Gone \<Rightarrow> handle_gather sch t a True s)"

definition slot_of :: "sstate \<Rightarrow> string \<Rightarrow> stream_id \<Rightarrow> nat \<Rightarrow> arrival \<Rightarrow> stored option" where
  "slot_of s sref parent i arr =
     (case arr of Got item \<Rightarrow> Some item
      | Gone \<Rightarrow> map_option (\<lambda>info. Inline (dump_error (ei_details info)))
                  (dget (st_stream_exceptions s) (child_stream sref parent i)))"

definition slots_are :: "sstate \<Rightarrow> stream_id \<Rightarrow> string \<Rightarrow> nat \<Rightarrow> (nat \<Rightarrow> stored option) \<Rightarrow> bool" where
  "slots_are s parent gref n g \<longleftrightarrow>
     (\<exists>c. dget (st_streams s) parent = Some c \<and>
        (case dget (ctx_actions c) gref of
           None \<Rightarrow> (\<forall>i<n. g i = None)
         | Some r \<Rightarrow> tr_result r = Slots (map g [0..<n])))"

text \<open>The streams in \<open>D\<close> have arrived, and \<open>f\<close> says with what.\<close>

definition gather_state ::
  "string \<Rightarrow> stream_id \<Rightarrow> string \<Rightarrow> nat \<Rightarrow> (nat \<Rightarrow> stored option) \<Rightarrow> nat set \<Rightarrow> sstate \<Rightarrow> bool" where
  "gather_state sref parent gref n f D s \<longleftrightarrow>
     dget (st_open_streams s) (sref, parent) = Some (int n - int (card D)) \<and>
     (\<exists>xs. dget (st_task_streams s) (sref, parent) = Some xs \<and> length xs = n) \<and>
     slots_are s parent gref n (\<lambda>i. if i \<in> D then f i else None) \<and>
     (\<forall>i<n. dget (st_hierarchy s) (child_stream sref parent i) = Some (Some parent))"

lemma set_slot_ok:
  assumes "slots_are s parent gref n g" "i < n"
    and "dget (st_task_streams s) sc = Some xs" "length xs = n"
  shows "\<exists>str. set_slot parent gref sc (Idx (int i)) item s = (s\<lparr>st_streams := str\<rparr>, None) \<and>
    slots_are (s\<lparr>st_streams := str\<rparr>) parent gref n (g(i := Some item))"
proof -
  obtain c where c: "dget (st_streams s) parent = Some c"
    and g: "case dget (ctx_actions c) gref of None \<Rightarrow> (\<forall>i<n. g i = None) | Some r \<Rightarrow> tr_result r = Slots (map g [0..<n])"
    using assms(1) by (auto simp: slots_are_def)
  have upd: "(map g [0..<n])[i := Some item] = map (g(i := Some item)) [0..<n]"
    using assms(2) by (intro nth_equalityI) (auto simp: nth_list_update)
  show ?thesis
  proof (cases "dget (ctx_actions c) gref")
    case None
    then have k: "gref \<notin> set (dkeys (ctx_actions c))" by (simp add: dget_None_iff)
    have r: "replicate n None = map g [0..<n]"
      using g None by (intro nth_equalityI) auto
    let ?c = "c\<lparr>ctx_actions := dset gref ((from_slots (replicate n None))\<lparr>tr_result := Slots (map (g(i := Some item)) [0..<n])\<rparr>)
        (dset gref (from_slots (replicate n None)) (ctx_actions c))\<rparr>"
    have "set_slot parent gref sc (Idx (int i)) item s =
        (s\<lparr>st_streams := dset parent ?c (dset parent (c\<lparr>ctx_actions := dset gref (from_slots (replicate n None)) (ctx_actions c)\<rparr>) (st_streams s))\<rparr>, None)"
      using c k assms(2-4)
      by (simp add: set_slot_def action_ctx_def set_action_def Let_def from_slots_def from_stored_def list_assign_def r upd)
    then show ?thesis by (auto simp: slots_are_def)
  next
    case (Some r)
    then have k: "gref \<in> set (dkeys (ctx_actions c))" by (rule dget_Some_key)
    have r: "tr_result r = Slots (map g [0..<n])" using g Some by simp
    let ?c = "c\<lparr>ctx_actions := dset gref (r\<lparr>tr_result := Slots (map (g(i := Some item)) [0..<n])\<rparr>) (ctx_actions c)\<rparr>"
    have "set_slot parent gref sc (Idx (int i)) item s = (s\<lparr>st_streams := dset parent ?c (st_streams s)\<rparr>, None)"
      using c k assms(2) Some r
      by (simp add: set_slot_def action_ctx_def set_action_def Let_def list_assign_def upd)
    then show ?thesis by (auto simp: slots_are_def)
  qed
qed

lemma gather_result_items:
  assumes "slots_are s parent gref n g" "t_ref t = gref"
  shows "\<exists>s' r. handle_gather_result t args parent s =
    (s', Await (P_gather_final args parent (List.map_filter g [0..<n]) r))"
proof -
  obtain c where c: "dget (st_streams s) parent = Some c"
    and g: "case dget (ctx_actions c) gref of None \<Rightarrow> (\<forall>i<n. g i = None) | Some r \<Rightarrow> tr_result r = Slots (map g [0..<n])"
    using assms(1) by (auto simp: slots_are_def)
  have mf: "map the (filter (\<lambda>x. x \<noteq> None) (map g xs)) = List.map_filter g xs" for xs
    by (induction xs) (auto simp: List.map_filter_simps split: option.splits)
  show ?thesis
  proof (cases "dget (ctx_actions c) gref")
    case None
    then have "\<forall>i\<in>set [0..<n]. g i = None" using g by simp
    then have "List.map_filter g [0..<n] = []" by (simp add: map_filter_def filter_empty_conv)
    with None c assms(2) show ?thesis
      by (simp add: handle_gather_result_def action_ctx_def Let_def filled_slots_def from_slots_def from_stored_def)
  next
    case (Some r)
    then show ?thesis using g c assms(2) mf
      by (simp add: handle_gather_result_def action_ctx_def Let_def filled_slots_def)
  qed
qed

lemma slots_are_open [simp]: "slots_are (s\<lparr>st_open_streams := x\<rparr>) parent gref n g = slots_are s parent gref n g"
  by (simp add: slots_are_def)

lemma slots_are_cong: "(\<And>i. i < n \<Longrightarrow> g i = h i) \<Longrightarrow> slots_are s parent gref n g = slots_are s parent gref n h"
proof -
  assume e: "\<And>i. i < n \<Longrightarrow> g i = h i"
  then have "map g [0..<n] = map h [0..<n]" by simp
  with e show ?thesis unfolding slots_are_def by (auto split: option.splits)
qed

lemma slots_action_ctx: "slots_are s parent gref n g \<Longrightarrow> action_ctx s parent \<noteq> None"
  by (auto simp: slots_are_def action_ctx_def)

text \<open>One arrival: the slot of the stream is filled, and the last arrival finalises the gather.\<close>

lemma arrive_step:
  assumes pl: "plain_scope sref" and ga: "sch_gather_args sch a = Inr args"
    and st: "gather_state sref parent (stmt_ref a) n f D s"
    and i: "i < n" "i \<notin> D" "D \<subseteq> {..<n}" and f: "slot_of s sref parent i arr = f i"
    and res: "arrive sch a args sref parent i arr s = (s', seg)"
  shows "if card D + 1 = n
    then \<exists>r. seg = Await (P_gather_final args parent (List.map_filter (\<lambda>j. if j \<in> insert i D then f j else None) [0..<n]) r)
    else seg = Return \<and> gather_state sref parent (stmt_ref a) n f (insert i D) s' \<and>
      st_stream_exceptions s' = st_stream_exceptions s"
proof -
  let ?t = "mk_task (stmt_ref a) (child_stream sref parent i)" and ?g = "\<lambda>j. if j \<in> insert i D then f j else None"
  note cs = child_stream_facts [OF pl, of parent i]
  obtain xs where o: "dget (st_open_streams s) (sref, parent) = Some (int n - int (card D))"
    and xs: "dget (st_task_streams s) (sref, parent) = Some xs" "length xs = n"
    and sl: "slots_are s parent (stmt_ref a) n (\<lambda>i. if i \<in> D then f i else None)"
    and h: "\<forall>i<n. dget (st_hierarchy s) (child_stream sref parent i) = Some (Some parent)"
    using st by (auto simp: gather_state_def)
  have fin: "finite D" using i(3) finite_subset by blast
  have tt: "t_ref ?t = stmt_ref a" "t_stream ?t = child_stream sref parent i" by (simp_all add: mk_task_def)
  define s1 where "s1 = s\<lparr>st_open_streams := dset (sref, parent) (int n - int (card D) - 1) (st_open_streams s)\<rparr>"
  have dec: "decr_open (sref, parent) s = (s1, None)" by (simp add: decr_open_def o s1_def)
  have sl1: "slots_are s1 parent (stmt_ref a) n (\<lambda>i. if i \<in> D then f i else None)" using sl by (simp add: s1_def)
  have xs1: "dget (st_task_streams s1) (sref, parent) = Some xs" using xs(1) by (simp add: s1_def)
  have h1: "dget (st_hierarchy s1) (child_stream sref parent i) = Some (Some parent)" using h i(1) by (simp add: s1_def)
  obtain s2 where s2: "slots_are s2 parent (stmt_ref a) n ?g" "st_open_streams s2 = st_open_streams s1"
      "st_task_streams s2 = st_task_streams s1" "st_hierarchy s2 = st_hierarchy s1"
      "st_stream_exceptions s2 = st_stream_exceptions s1"
    and out: "arrive sch a args sref parent i arr s =
      (if int n - int (card D) - 1 = 0 then handle_gather_result ?t args parent s2 else (s2, Return))"
  proof (cases "f i")
    case (Some item)
    obtain str where ss: "set_slot parent (stmt_ref a) (sref, parent) (Idx (int i)) item s1 = (s1\<lparr>st_streams := str\<rparr>, None)"
        "slots_are (s1\<lparr>st_streams := str\<rparr>) parent (stmt_ref a) n ((\<lambda>i. if i \<in> D then f i else None)(i := Some item))"
      using set_slot_ok [OF sl1 i(1) xs1 xs(2)] by blast
    have "slots_are (s1\<lparr>st_streams := str\<rparr>) parent (stmt_ref a) n ?g"
      using ss(2) Some by (subst slots_are_cong [where h = "(\<lambda>i. if i \<in> D then f i else None)(i := Some item)"]) auto
    moreover have "arrive sch a args sref parent i arr s =
      (if int n - int (card D) - 1 = 0 then handle_gather_result ?t args parent (s1\<lparr>st_streams := str\<rparr>) else (s1\<lparr>st_streams := str\<rparr>, Return))"
    proof (cases arr)
      case (Got item')
      then have "item' = item" using f Some by (simp add: slot_of_def)
      with Got show ?thesis
        by (simp add: arrive_def Let_def gather_item_def tt cs dec ss close_check_def) (simp add: s1_def)
    next
      case Gone
      then obtain info where "dget (st_stream_exceptions s1) (child_stream sref parent i) = Some info"
          "item = Inline (dump_error (ei_details info))"
        using f Some by (auto simp: slot_of_def s1_def)
      with Gone h i(1) h1 ga ss show ?thesis
        using slots_action_ctx [OF sl1]
        by (auto simp: arrive_def Let_def handle_gather_def tt cs parent_stream_def dec handle_gather_skip_stream_def
            split: option.splits) (simp_all add: s1_def)
    qed
    ultimately show ?thesis using that [of "s1\<lparr>st_streams := str\<rparr>"] by simp
  next
    case None
    then have arr: "arr = Gone" and ne: "dget (st_stream_exceptions s1) (child_stream sref parent i) = None"
      using f by (cases arr; auto simp: slot_of_def s1_def)+
    have "slots_are s1 parent (stmt_ref a) n ?g"
      using sl1 None by (subst slots_are_cong [where h = "\<lambda>i. if i \<in> D then f i else None"]) auto
    moreover have "arrive sch a args sref parent i arr s =
      (if int n - int (card D) - 1 = 0 then handle_gather_result ?t args parent s1 else (s1, Return))"
      using arr ne h i(1) h1 ga slots_action_ctx [OF sl1]
      by (auto simp: arrive_def Let_def handle_gather_def tt cs parent_stream_def dec handle_gather_skip_stream_def
          split: option.splits) (simp_all add: s1_def)
    ultimately show ?thesis using that [of s1] by simp
  qed
  show ?thesis
  proof (cases "card D + 1 = n")
    case True
    then have "(s', seg) = handle_gather_result ?t args parent s2" using out res by auto
    then show ?thesis using gather_result_items [OF s2(1) tt(1), of args] True by auto
  next
    case False
    then have "int n - int (card D) - 1 \<noteq> 0" by linarith
    then have r: "s' = s2" "seg = Return" using out res by auto
    have "gather_state sref parent (stmt_ref a) n f (insert i D) s2"
      using s2 xs xs1 h i(2) fin by (auto simp: gather_state_def s1_def)
    then show ?thesis using False r s2(5) by (simp add: s1_def)
  qed
qed

lemma map_filter_eq: "(\<And>x. x \<in> set xs \<Longrightarrow> f x = g x) \<Longrightarrow> List.map_filter f xs = List.map_filter g xs"
  by (induction xs) (auto simp: List.map_filter_simps split: option.splits)

fun arrivals ::
  "sched \<Rightarrow> action_stmt \<Rightarrow> gather_args \<Rightarrow> string \<Rightarrow> stream_id \<Rightarrow> (nat \<times> arrival) list \<Rightarrow> sstate \<Rightarrow> sstate \<times> seg list" where
  "arrivals sch a args sref parent [] s = (s, [])"
| "arrivals sch a args sref parent ((i, arr) # xs) s =
     (case arrive sch a args sref parent i arr s of
        (s', sg) \<Rightarrow> (case arrivals sch a args sref parent xs s' of (s'', sgs) \<Rightarrow> (s'', sg # sgs)))"

lemma arrivals_from:
  assumes pl: "plain_scope sref" and ga: "sch_gather_args sch a = Inr args"
  shows "gather_state sref parent (stmt_ref a) n f D s \<Longrightarrow> D \<subseteq> {..<n} \<Longrightarrow> distinct (map fst xs) \<Longrightarrow>
    set (map fst xs) = {..<n} - D \<Longrightarrow> xs \<noteq> [] \<Longrightarrow> (\<forall>(i, arr)\<in>set xs. slot_of s sref parent i arr = f i) \<Longrightarrow>
    \<exists>s' r. arrivals sch a args sref parent xs s =
      (s', replicate (length xs - 1) Return @ [Await (P_gather_final args parent (List.map_filter f [0..<n]) r)])"
proof (induction xs arbitrary: s D)
  case Nil
  then show ?case by simp
next
  case (Cons x xs)
  obtain i arr where x: "x = (i, arr)" by fastforce
  obtain s' seg where res: "arrive sch a args sref parent i arr s = (s', seg)" by fastforce
  have i: "i < n" "i \<notin> D" using Cons.prems(4) x by auto
  have f: "slot_of s sref parent i arr = f i" using Cons.prems(6) x by simp
  have fin: "finite D" using Cons.prems(2) finite_subset by blast
  have rest: "set (map fst xs) = {..<n} - insert i D" using Cons.prems(3,4) x by auto
  note step = arrive_step [OF pl ga Cons.prems(1) i Cons.prems(2) f res]
  have "card ({..<n} - D) = length (x # xs)"
    using distinct_card [OF Cons.prems(3)] Cons.prems(4) by (metis length_map)
  then have len: "n - card D = Suc (length xs)" using card_Diff_subset [OF fin Cons.prems(2)] by simp
  show ?case
  proof (cases xs)
    case Nil
    then have c: "card D + 1 = n" using len by simp
    have "insert i D = {..<n}" using rest Nil Cons.prems(2) i(1) by auto
    then have "List.map_filter (\<lambda>j. if j \<in> insert i D then f j else None) [0..<n] = List.map_filter f [0..<n]"
      by (intro map_filter_eq) auto
    with step c res x Nil show ?thesis by auto
  next
    case (Cons y ys)
    then have "card D + 1 \<noteq> n" using len by auto
    then have st: "seg = Return" "gather_state sref parent (stmt_ref a) n f (insert i D) s'"
        "st_stream_exceptions s' = st_stream_exceptions s"
      using step by auto
    have "\<forall>(i, arr)\<in>set xs. slot_of s' sref parent i arr = f i"
      using Cons.prems(6) st(3) by (auto simp: slot_of_def split: arrival.splits)
    then obtain s'' r where "arrivals sch a args sref parent xs s' =
        (s'', replicate (length xs - 1) Return @ [Await (P_gather_final args parent (List.map_filter f [0..<n]) r)])"
      using Cons.IH [OF st(2)] Cons.prems(2,3) rest i(1) Cons by auto
    then show ?thesis using x res st(1) Cons by (simp add: replicate_append_same)
  qed
qed

text \<open>C12: The gather is a barrier and does not depend on the order of arrival: when all \<open>n\<close> streams of a
  scatter reach it, in any order, with an item, skipped or failed, exactly the last one finalises it, and the
  finalised items are those of the streams in the order of the scattered collection, a failed stream
  contributing its error and a skipped one nothing.\<close>

theorem gather_barrier:
  assumes "slug_ok sref" "sch_gather_args sch a = Inr args" "gather_state sref parent (stmt_ref a) n f {} s"
    and "distinct (map fst xs)" "set (map fst xs) = {..<n}" "0 < n"
    and "\<forall>(i, arr)\<in>set xs. slot_of s sref parent i arr = f i"
  shows "\<exists>s' r. arrivals sch a args sref parent xs s =
    (s', replicate (n - 1) Return @ [Await (P_gather_final args parent (List.map_filter f [0..<n]) r)])"
proof -
  have "length xs = n" using distinct_card [OF assms(4)] assms(5) by simp
  moreover have "xs \<noteq> []" using assms(5,6) by auto
  moreover have "plain_scope sref" using slug_plain [OF assms(1)] by blast
  ultimately show ?thesis using arrivals_from [OF _ assms(2,3), of xs] assms(4,5,7) by auto
qed

text \<open>A gather whose error strategy is to raise fails the workflow when a stream failed, and any other
  strategy stores the finalised result in the parent stream, with the errors attached when there are any.\<close>

lemma gather_final_outcome:
  assumes "dget (st_streams s) parent = Some c"
    and "gather_final t args parent r res ty errors s = (s', seg)"
  shows "if ga_error_strategy args = Raise \<and> errors \<noteq> []
    then (\<exists>x. seg = Raised x) \<and> t_ref t \<in> set (dkeys (st_task_exceptions s')) \<and> dispatch s' = None
    else seg = Await (P_gather_exec parent) \<and> st_task_exceptions s' = st_task_exceptions s \<and>
      (\<exists>c' r'. dget (st_streams s') parent = Some c' \<and> dget (ctx_actions c') (t_ref t) = Some r' \<and>
         tr_result r' = res \<and> (errors \<noteq> [] \<longrightarrow> tr_error r' = JArr errors) \<and> (errors = [] \<longrightarrow> tr_error r' = tr_error r))"
proof (cases "ga_error_strategy args = Raise \<and> errors \<noteq> []")
  case True
  then obtain info x where r: "s' = s\<lparr>st_task_exceptions := dset (t_ref t) info (st_task_exceptions s)\<rparr>" "seg = Raised x"
    using assms(2) by (simp add: gather_final_def Let_def) metis
  have "t_ref t \<in> set (dkeys (st_task_exceptions s'))"
    using dkeys_dset [of "t_ref t" info] by (simp add: r(1))
  moreover from this have "dispatch s' = None" by (auto simp: dispatch_def split: list.splits)
  ultimately show ?thesis using True r(2) by simp
next
  case False
  then show ?thesis using assms by (auto simp: gather_final_def Let_def set_action_def)
qed

section \<open>Instances\<close>

definition sample_parent :: "nat \<Rightarrow> sstate" where
  "sample_parent n = (init_state [] (stream_ctx []))
     \<lparr>st_open_streams := [((''split'', ROOT_STREAM), int n)],
      st_task_streams := [((''split'', ROOT_STREAM), map (child_stream ''split'' ROOT_STREAM) [0..<n])],
      st_hierarchy := (ROOT_STREAM, None) # map (\<lambda>i. (child_stream ''split'' ROOT_STREAM i, Some ROOT_STREAM)) [0..<n]\<rparr>"

lemma sample_parent_state: "gather_state ''split'' ROOT_STREAM gref n f {} (sample_parent n)"
proof -
  have pl: "plain_scope ''split''" by code_simp
  have inj: "child_stream ''split'' ROOT_STREAM i = child_stream ''split'' ROOT_STREAM j \<longleftrightarrow> i = j" for i j
    using stream_new_inj [OF pl pl, of "Idx (int i)" ROOT_STREAM "Idx (int j)" ROOT_STREAM]
    by (auto simp: child_stream_def)
  have "dget (map (\<lambda>i. (child_stream ''split'' ROOT_STREAM i, Some ROOT_STREAM)) [0..<n]) (child_stream ''split'' ROOT_STREAM i) = Some (Some ROOT_STREAM)"
    if "i < n" for i
  proof (rule map_of_map_key)
    show "distinct (map (child_stream ''split'' ROOT_STREAM) [0..<n])"
      using inj by (simp add: distinct_map inj_on_def)
  qed (use that in simp)
  then show ?thesis using child_stream_facts(2) [OF pl]
    by (simp add: gather_state_def sample_parent_def slots_are_def init_state_def Let_def stream_ctx_def)
qed

definition sample_gather :: action_stmt where
  "sample_gather = default_stmt ''join'' TRANSFORM_GATHER"

theorem stream_aware_lookup_witness:
  "nearest (sample_init sample_scatter) ''x'' ROOT_STREAM (from_slots []) \<longleftrightarrow>
   stream_aware_result (sample_init sample_scatter) ''x'' ROOT_STREAM = Some (from_slots [])"
  using stream_aware_lookup [of "sample_sched sample_scatter" "dsl_actions sample_scatter" "stream_ctx []" "[]"
      "sample_init sample_scatter" "''x''" ROOT_STREAM "from_slots []"]
  by (simp add: sample_init_def)

theorem scatter_creates_streams_witness:
  "dget (st_open_streams (scatter_all (sample_sched sample_scatter) (mk_task ''split'' ROOT_STREAM)
      \<lparr>sa_collection = JNull, sa_interval = None\<rparr> (Inline (JArr [JInt 1, JInt 2])) 2 (sample_init sample_scatter)))
    (''split'', ROOT_STREAM) = Some 2"
proof -
  have "slug_ok (t_ref (mk_task ''split'' ROOT_STREAM))" by code_simp
  from scatter_creates_streams [OF this, of "sample_sched sample_scatter" "\<lparr>sa_collection = JNull, sa_interval = None\<rparr>"
      "Inline (JArr [JInt 1, JInt 2])" 2 "sample_init sample_scatter"]
  show ?thesis by (simp add: tkey_def mk_task_def)
qed

lemma scatter_visits_error_edges_witness:
  "\<exists>ds. (''handler'', Error) \<in> set ds \<and>
     st_edges (scatter_round \<lparr>sch_tasks = [], sch_adj = [(''split'', ds)], sch_scatter_args = \<lambda>_. Inl (key_error []),
         sch_gather_args = \<lambda>_. Inl (key_error []), sch_to_json = \<lambda>_. [], sch_parse = \<lambda>_. None\<rparr>
       (mk_task ''split'' ROOT_STREAM) \<lparr>sa_collection = JNull, sa_interval = None\<rparr> (Inline (JArr [JNull])) 0
       (sample_init sample_scatter))
     (mk_edge ''split'' ''handler'' Error (scatter_stream (mk_task ''split'' ROOT_STREAM) 0)) = Visited"
proof -
  let ?sch = "\<lparr>sch_tasks = [], sch_adj = [(''split'', [(''handler'', Error)])], sch_scatter_args = \<lambda>_. Inl (key_error []),
         sch_gather_args = \<lambda>_. Inl (key_error []), sch_to_json = \<lambda>_. [], sch_parse = \<lambda>_. None\<rparr>"
  let ?t = "mk_task ''split'' ROOT_STREAM"
  have m: "(''handler'', Error) \<in> set (adj_of ?sch (t_ref ?t))" by (simp add: adj_of_def mk_task_def)
  have r: "t_ref ?t = ''split''" by (simp add: mk_task_def)
  from scatter_visits_error_edges [OF m, of "\<lparr>sa_collection = JNull, sa_interval = None\<rparr>" "Inline (JArr [JNull])" 0
      "sample_init sample_scatter"]
  show ?thesis unfolding r by (intro exI [of _ "[(''handler'', Error)]"]) simp
qed

theorem gather_barrier_witness:
  "\<exists>s' r. arrivals (sample_sched sample_scatter) sample_gather
      \<lparr>ga_items = JNull, ga_drop_nulls = False, ga_error_strategy = Partition\<rparr> ''split'' ROOT_STREAM
      [(1, Got (Inline (JInt 8))), (0, Got (Inline (JInt 7)))] (sample_parent 2) =
    (s', [Return, Await (P_gather_final \<lparr>ga_items = JNull, ga_drop_nulls = False, ga_error_strategy = Partition\<rparr>
            ROOT_STREAM [Inline (JInt 7), Inline (JInt 8)] r)])"
proof -
  let ?f = "\<lambda>i::nat. Some (Inline (JInt (7 + int i)))"
  have sl: "slug_ok ''split''" by code_simp
  have ga: "sch_gather_args (sample_sched sample_scatter) sample_gather =
      Inr \<lparr>ga_items = JNull, ga_drop_nulls = False, ga_error_strategy = Partition\<rparr>"
    by (simp add: sample_sched_def init_sched_def)
  have "List.map_filter ?f [0..<2] = [Inline (JInt 7), Inline (JInt 8)]"
    by (simp add: List.map_filter_simps upt_rec)
  moreover have "set (map fst [(1, Got (Inline (JInt 8))), (0, Got (Inline (JInt 7)))]) = {..<2::nat}" by auto
  ultimately show ?thesis
    using gather_barrier [OF sl ga sample_parent_state [of _ 2 ?f], of "[(1, Got (Inline (JInt 8))), (0, Got (Inline (JInt 7)))]"]
    by (simp add: slot_of_def)
qed

lemma gather_final_outcome_witness:
  "dispatch (fst (gather_final (mk_task ''join'' ROOT_STREAM)
     \<lparr>ga_items = JNull, ga_drop_nulls = False, ga_error_strategy = Raise\<rparr> ROOT_STREAM (from_slots []) (Inline JNull)
     None [JNull] (sample_parent 1))) = None"
proof -
  have "dget (st_streams (sample_parent 1)) ROOT_STREAM = Some (stream_ctx [])"
    by (simp add: sample_parent_def init_state_def Let_def)
  from gather_final_outcome [where t = "mk_task ''join'' ROOT_STREAM" and
      args = "\<lparr>ga_items = JNull, ga_drop_nulls = False, ga_error_strategy = Raise\<rparr>" and r = "from_slots []" and
      res = "Inline JNull" and ty = None and errors = "[JNull]", OF this prod.collapse [symmetric]]
  show ?thesis by simp
qed

section \<open>A failure that is lost\<close>

definition sample_loop :: dsl_input where
  "sample_loop = \<lparr>dsl_actions =
     [default_stmt ''split'' TRANSFORM_SCATTER,
      (default_stmt ''join'' TRANSFORM_GATHER)\<lparr>stmt_depends_on := [''split'']\<rparr>,
      (default_stmt ''after'' ''core.noop'')\<lparr>stmt_depends_on := [''join'']\<rparr>]\<rparr>"

definition lost_run :: "event list" where
  "lost_run =
     [Ev_dispatch, Ev_resume 0 R_woken, Ev_resume 0 (R_stored (Inline (JArr [JInt 1]))), Ev_resume 0 R_woken,
      Ev_dispatch, Ev_resume 0 R_woken, Ev_resume 0 (R_stored (Inline (JInt 1))),
      Ev_resume 0 (R_raise (Exn ''ActivityError'' False ''timeout'' [] None)),
      Ev_dispatch, Ev_resume 0 R_woken]"

text \<open>A failure while a gather is finalised (the activity times out) does not fail the workflow: it is
  recorded for the stream that arrived last, the action after the gather is skipped in that stream and never
  runs in the parent, and the scheduler reports success.\<close>

lemma gather_failure_is_lost:
  "validate_structure sample_parser sample_loop = None \<and>
   (case run_events (sample_sched sample_loop) (sample_init sample_loop) lost_run of
      None \<Rightarrow> False
    | Some s \<Rightarrow> halted s \<and> sched_result s = None \<and> (''after'', ROOT_STREAM) \<notin> st_completed s)"
  by code_simp

end
