(* ===== verification/Identifiers.thy ===== *)
theory Identifiers
  imports Schemas "HOL-Library.Word"
begin

text \<open>
  Identifiers: the base 62 codec (\<open>base62.py\<close>), prefixed short identifiers, legacy identifiers and
  plain UUIDs (\<open>identifiers/common.py\<close> with the classes of the other files of \<open>identifiers\<close>),
  and the execution identifiers of workflow runs (\<open>identifiers/workflow.py\<close>). A UUID is a word of
  128 bits.
\<close>

type_synonym uuid = "128 word"

datatype id_error = ValueErr string

section \<open>Positional numerals\<close>

text \<open>The last \<open>k\<close> digits of a number in base \<open>b\<close>, most significant first, and the value of digits.\<close>

fun digits_of :: "nat \<Rightarrow> nat \<Rightarrow> nat \<Rightarrow> nat list" where
  "digits_of b 0 n = []"
| "digits_of b (Suc k) n = digits_of b k (n div b) @ [n mod b]"

lemma length_digits_of [simp]: "length (digits_of b k n) = k"
  by (induction k arbitrary: n) auto

lemma digits_of_less: "0 < b \<Longrightarrow> d \<in> set (digits_of b k n) \<Longrightarrow> d < b"
  by (induction k arbitrary: n) auto

lemma foldl_digits_of: "foldl (\<lambda>a d. a * b + d) 0 (digits_of b k n) = n mod b ^ k"
  by (induction k arbitrary: n) (auto simp: mod_mult2_eq mult.commute)

section \<open>Base 62\<close>

definition b62_chars :: string where
  "b62_chars = ''0123456789abcdefghijklmnopqrstuvwxyzABCDEFGHIJKLMNOPQRSTUVWXYZ''"

definition b62_char_to_int :: "char \<Rightarrow> nat option" where
  "b62_char_to_int = map_of (zip b62_chars [0..<length b62_chars])"

function b62_loop :: "int \<Rightarrow> string \<Rightarrow> string" where
  "b62_loop num acc = (if num \<le> 0 then acc else b62_loop (num div 62) (b62_chars ! nat (num mod 62) # acc))"
  by pat_completeness auto
termination by (relation "measure (\<lambda>(num, _). nat num)") auto

declare b62_loop.simps [simp del]

definition b62encode :: "int \<Rightarrow> id_error + string" where
  "b62encode num =
     (if num < 0 then Inl (ValueErr ''Number must be non-negative'')
      else if num = 0 then Inr [b62_chars ! 0]
      else Inr (b62_loop num []))"

definition b62_step :: "char \<Rightarrow> int \<Rightarrow> id_error + int" where
  "b62_step c num =
     (case b62_char_to_int c of
        None \<Rightarrow> Inl (ValueErr (''Invalid base62 character: '' @ [c]))
      | Some v \<Rightarrow> Inr (num * 62 + int v))"

definition b62decode :: "string \<Rightarrow> id_error + int" where
  "b62decode encoded = rfold b62_step encoded 0"

lemma b62_table: "\<forall>d<62. b62_char_to_int (b62_chars ! d) = Some d"
  by code_simp

lemma b62_step_digit: "d < 62 \<Longrightarrow> b62_step (b62_chars ! d) n = Inr (n * 62 + int d)"
  using b62_table by (simp add: b62_step_def)

lemma b62_zero: "b62_chars ! 0 = CHR ''0''" "b62_step (CHR ''0'') n = Inr (n * 62)"
  using b62_step_digit [of 0 n] by (simp_all add: b62_chars_def)

lemma b62_decode_loop: "0 \<le> n \<Longrightarrow> rfold b62_step (b62_loop n acc) 0 = rfold b62_step acc n"
proof (induction n acc rule: b62_loop.induct)
  case (1 n acc)
  show ?case
  proof (cases "n = 0")
    case True
    then show ?thesis by (simp add: b62_loop.simps)
  next
    case False
    then have pos: "\<not> n \<le> 0" using 1(2) by simp
    have d: "nat (n mod 62) < 62" by simp
    have "rfold b62_step (b62_loop n acc) 0 = rfold b62_step (b62_chars ! nat (n mod 62) # acc) (n div 62)"
      using 1 pos by (subst b62_loop.simps) simp
    also have "\<dots> = rfold b62_step acc (n div 62 * 62 + n mod 62)"
      using b62_step_digit [OF d, of "n div 62"] by simp
    finally show ?thesis by simp
  qed
qed

lemma b62_loop_length: "n < 62 ^ k \<Longrightarrow> length (b62_loop n acc) \<le> length acc + k"
proof (induction n acc arbitrary: k rule: b62_loop.induct)
  case (1 n acc)
  show ?case
  proof (cases "n \<le> 0")
    case True
    then show ?thesis by (simp add: b62_loop.simps)
  next
    case False
    with 1(2) obtain k' where k: "k = Suc k'" by (cases k) auto
    have "n div 62 < 62 ^ k'" using 1(2) k by (simp add: div_less_iff_less_mult mult.commute)
    from 1(1) [OF False this] show ?thesis using False k by (subst b62_loop.simps) simp
  qed
qed

lemma b62_loop_chars: "set (b62_loop n acc) \<subseteq> set b62_chars \<union> set acc"
proof (induction n acc rule: b62_loop.induct)
  case (1 n acc)
  have "nat (n mod 62) < length b62_chars" by (simp add: b62_chars_def)
  then have "b62_chars ! nat (n mod 62) \<in> set b62_chars" by (rule nth_mem)
  with 1 show ?case by (subst b62_loop.simps) auto
qed

text \<open>The base 62 decoder inverts the encoder on every number the encoder accepts; the encoder rejects
  exactly the negative ones.\<close>

lemma b62_roundtrip:
  "(case b62encode n of Inl e \<Rightarrow> n < 0 | Inr s \<Rightarrow> 0 \<le> n \<and> b62decode s = Inr n)"
  using b62_decode_loop [of n "[]"] b62_zero by (auto simp: b62encode_def b62decode_def)

section \<open>UUIDs\<close>

text \<open>
  The constructor \<open>UUID(int=...)\<close>, \<open>uuid.hex\<close>, \<open>str(uuid)\<close> and \<open>UUID(text)\<close> of Python.
\<close>

definition uuid_of_int :: "int \<Rightarrow> id_error + uuid" where
  "uuid_of_int i =
     (if 0 \<le> i \<and> i < 2 ^ 128 then Inr (word_of_int i)
      else Inl (ValueErr ''int is out of range (need a 128-bit value)''))"

definition hex_chars :: string where
  "hex_chars = ''0123456789abcdef''"

definition uuid_hex :: "uuid \<Rightarrow> string" where
  "uuid_hex u = map ((!) hex_chars) (digits_of 16 32 (unat u))"

definition uuid_str :: "uuid \<Rightarrow> string" where
  "uuid_str u =
     (let h = uuid_hex u
      in join_with ''-'' [take 8 h, take 4 (drop 8 h), take 4 (drop 12 h), take 4 (drop 16 h), drop 20 h])"

text \<open>A hexadecimal digit as \<open>int(s, 16)\<close> reads it, of either case.\<close>

definition hex_value :: "char \<Rightarrow> nat option" where
  "hex_value = map_of (zip ''0123456789abcdefABCDEF'' ([0..<16] @ [10..<16]))"

fun hex_digits :: "nat \<Rightarrow> string \<Rightarrow> nat option" where
  "hex_digits acc [] = Some acc"
| "hex_digits acc (c # cs) =
     (case hex_value c of None \<Rightarrow> None | Some d \<Rightarrow> hex_digits (acc * 16 + d) cs)"

text \<open>Single underscores may stand between digits.\<close>

definition hex_groups :: "string \<Rightarrow> nat option" where
  "hex_groups s =
     (let ps = split_on (CHR ''_'') s
      in if list_all (\<lambda>p. p \<noteq> []) ps then hex_digits 0 (concat ps) else None)"

text \<open>After the sign: an optional prefix \<open>0x\<close>, itself optionally followed by an underscore.\<close>

definition hex_unsigned :: "string \<Rightarrow> nat option" where
  "hex_unsigned s =
     (if startswith s ''0x'' \<or> startswith s ''0X''
      then hex_groups (if startswith (drop 2 s) ''_'' then drop 3 s else drop 2 s)
      else hex_groups s)"

definition py_int16 :: "string \<Rightarrow> int option" where
  "py_int16 s =
     (case strip_ws s of
        [] \<Rightarrow> None
      | c # cs \<Rightarrow>
          if c = CHR ''-'' then map_option (\<lambda>n. - int n) (hex_unsigned cs)
          else if c = CHR ''+'' then map_option int (hex_unsigned cs)
          else map_option int (hex_unsigned (c # cs)))"

text \<open>\<open>s.replace(p, '')\<close> and \<open>s.strip('\{\}')\<close>.\<close>

function remove_all :: "string \<Rightarrow> string \<Rightarrow> string" where
  "remove_all p [] = []"
| "remove_all p (c # cs) =
     (if p \<noteq> [] \<and> startswith (c # cs) p then remove_all p (drop (length p) (c # cs)) else c # remove_all p cs)"
  by pat_completeness auto
termination by (relation "measure (\<lambda>(p, s). length s)") auto

definition strip_braces :: "string \<Rightarrow> string" where
  "strip_braces s =
     (let b = (\<lambda>c. c = CHR ''{'' \<or> c = CHR ''}'') in rev (dropWhile b (rev (dropWhile b s))))"

definition uuid_parse :: "string \<Rightarrow> id_error + uuid" where
  "uuid_parse s =
     (let h = filter (\<lambda>c. c \<noteq> CHR ''-'') (strip_braces (remove_all ''uuid:'' (remove_all ''urn:'' s)))
      in if length h \<noteq> 32 then Inl (ValueErr ''badly formed hexadecimal UUID string'')
         else case py_int16 h of
             None \<Rightarrow> Inl (ValueErr ''invalid literal for int() with base 16'')
           | Some i \<Rightarrow> uuid_of_int i)"

section \<open>Prefixed identifiers\<close>

text \<open>
  A class of identifiers: its prefix and, where it has one, the legacy prefix (\<open>AllamaUUID\<close> and its
  subclasses). An argument of \<open>new\<close> is a UUID, an instance of the class included, a string, or something else.
\<close>

record id_class =
  id_prefix :: string
  id_legacy :: "string option"

definition WorkflowUUID :: id_class where
  "WorkflowUUID = \<lparr>id_prefix = ''wf_'', id_legacy = Some ''wf-''\<rparr>"

definition ExecutionUUID :: id_class where
  "ExecutionUUID = \<lparr>id_prefix = ''exec_'', id_legacy = Some ''exec-''\<rparr>"

definition WorkspaceUUID :: id_class where
  "WorkspaceUUID = \<lparr>id_prefix = ''ws_'', id_legacy = None\<rparr>"

definition ActionUUID :: id_class where
  "ActionUUID = \<lparr>id_prefix = ''act_'', id_legacy = Some ''act-''\<rparr>"

definition ScheduleUUID :: id_class where
  "ScheduleUUID = \<lparr>id_prefix = ''sch_'', id_legacy = Some ''sch-''\<rparr>"

definition SecretUUID :: id_class where
  "SecretUUID = \<lparr>id_prefix = ''secret_'', id_legacy = Some ''secret-''\<rparr>"

definition id_classes :: "id_class list" where
  "id_classes = [WorkflowUUID, ExecutionUUID, WorkspaceUUID, ActionUUID, ScheduleUUID, SecretUUID]"

datatype any_id = IdUuid uuid | IdStr string | IdOther

definition zfill :: "nat \<Rightarrow> string \<Rightarrow> string" where
  "zfill w s = replicate (w - length s) (CHR ''0'') @ s"

definition id_to_short :: "uuid \<Rightarrow> string \<Rightarrow> id_error + string" where
  "id_to_short u prefix = rbind (b62encode (uint u)) (\<lambda>suffix. Inr (prefix @ zfill 22 suffix))"

definition id_from_short :: "string \<Rightarrow> string \<Rightarrow> id_error + uuid" where
  "id_from_short short_id prefix =
     (if \<not> startswith short_id prefix then Inl (ValueErr ''Invalid short ID string'')
      else rbind (b62decode (drop (length prefix) short_id)) uuid_of_int)"

definition short :: "id_class \<Rightarrow> uuid \<Rightarrow> id_error + string" where
  "short cls u = id_to_short u (id_prefix cls)"

definition from_short :: "id_class \<Rightarrow> string \<Rightarrow> id_error + uuid" where
  "from_short cls short_id =
     (if \<not> startswith short_id (id_prefix cls) then Inl (ValueErr (''Invalid prefix '' @ id_prefix cls))
      else id_from_short short_id (id_prefix cls))"

definition from_legacy :: "id_class \<Rightarrow> string \<Rightarrow> id_error + uuid" where
  "from_legacy cls s =
     (case id_legacy cls of
        None \<Rightarrow> Inl (ValueErr ''Legacy IDs are not supported'')
      | Some lp \<Rightarrow> uuid_parse (drop (length lp) s))"

definition to_legacy :: "id_class \<Rightarrow> uuid \<Rightarrow> id_error + string" where
  "to_legacy cls u =
     (case id_legacy cls of
        None \<Rightarrow> Inl (ValueErr ''Legacy IDs are not supported'')
      | Some lp \<Rightarrow> Inr (lp @ uuid_hex u))"

definition uuid_new :: "id_class \<Rightarrow> any_id \<Rightarrow> id_error + uuid" where
  "uuid_new cls i =
     (case i of
        IdUuid u \<Rightarrow> Inr u
      | IdStr s \<Rightarrow>
          if startswith s (id_prefix cls) then from_short cls s
          else (case id_legacy cls of
                  None \<Rightarrow> uuid_parse s
                | Some lp \<Rightarrow> if lp \<noteq> [] \<and> startswith s lp then from_legacy cls s else uuid_parse s)
      | IdOther \<Rightarrow> Inl (ValueErr ''Invalid ID''))"

definition schedule_id_to_temporal :: "any_id \<Rightarrow> id_error + string" where
  "schedule_id_to_temporal i = rbind (uuid_new ScheduleUUID i) (to_legacy ScheduleUUID)"

lemma b62_decode_zeros: "rfold b62_step (replicate k (CHR ''0'') @ s) 0 = rfold b62_step s 0"
  by (induction k) (auto simp: b62_zero)

lemma b62encode_uuid:
  obtains s where "b62encode (uint (u::uuid)) = Inr s" "rfold b62_step s 0 = Inr (uint u)" "length s \<le> 22"
    "set s \<subseteq> set b62_chars"
proof (cases "uint u = 0")
  case True
  have "CHR ''0'' \<in> set b62_chars" by (simp add: b62_chars_def)
  then show ?thesis using True that [of "[CHR ''0'']"] b62_zero(2) by (auto simp: b62encode_def b62_zero(1))
next
  case False
  have lt: "uint u < 2 ^ 128" using uint_lt2p [of u] by simp
  have "(2::int) ^ 128 \<le> 62 ^ 22" by simp
  with lt have "uint u < 62 ^ 22" by linarith
  then have "length (b62_loop (uint u) []) \<le> 22" using b62_loop_length [of "uint u" 22 "[]"] by simp
  moreover have "rfold b62_step (b62_loop (uint u) []) 0 = Inr (uint u)"
    using b62_decode_loop [of "uint u" "[]"] by simp
  ultimately show ?thesis using False that b62_loop_chars [of "uint u" "[]"] by (simp add: b62encode_def)
qed

lemma id_to_short_cases:
  obtains s where "id_to_short u prefix = Inr (prefix @ s)" "length s = 22" "rfold b62_step s 0 = Inr (uint u)"
    "set s \<subseteq> set b62_chars"
proof -
  obtain s where s: "b62encode (uint u) = Inr s" "rfold b62_step s 0 = Inr (uint u)" "length s \<le> 22"
    "set s \<subseteq> set b62_chars" using b62encode_uuid by blast
  have "set (zfill 22 s) \<subseteq> set b62_chars" using s(4) by (auto simp: zfill_def b62_chars_def)
  then show ?thesis
    by (rule that [of "zfill 22 s", rotated 3]) (auto simp: id_to_short_def s zfill_def b62_decode_zeros)
qed

lemma uuid_of_int_uint [simp]: "uuid_of_int (uint u) = Inr u"
  using uint_lt2p [of u] by (simp add: uuid_of_int_def)

lemma id_from_short_cases:
  "rfold b62_step s 0 = Inr (uint u) \<Longrightarrow> id_from_short (prefix @ s) prefix = Inr u"
  by (simp add: id_from_short_def b62decode_def)

lemma short_id_facts:
  "\<exists>s. short cls u = Inr s \<and> length s = length (id_prefix cls) + 22 \<and> startswith s (id_prefix cls) \<and>
     from_short cls s = Inr u \<and> uuid_new cls (IdStr s) = Inr u"
proof -
  obtain s where "id_to_short u (id_prefix cls) = Inr (id_prefix cls @ s)" "length s = 22"
    "rfold b62_step s 0 = Inr (uint u)" using id_to_short_cases by blast
  then show ?thesis by (simp add: short_def from_short_def uuid_new_def id_from_short_cases)
qed

text \<open>The short identifier of a UUID always exists, has the prefix and 22 further characters, and reads
  back as the same UUID, by its own class and by the coercion of any identifier.\<close>

lemma short_id_roundtrip:
  "\<exists>s. short cls u = Inr s \<and> length s = length (id_prefix cls) + 22 \<and> startswith s (id_prefix cls) \<and>
     from_short cls s = Inr u \<and> uuid_new cls (IdStr s) = Inr u"
  by (rule short_id_facts)

text \<open>Short identifiers of one class are an encoding of UUIDs: equal texts name the same UUID.\<close>

definition short_text :: "id_class \<Rightarrow> uuid \<Rightarrow> string" where
  "short_text cls u = (case short cls u of Inr s \<Rightarrow> s | Inl _ \<Rightarrow> [])"

interpretation short_codec: codec "short_text cls" "\<lambda>s. case from_short cls s of Inr u \<Rightarrow> Some u | Inl _ \<Rightarrow> None" "\<lambda>_. True"
  for cls
proof unfold_locales
  fix u
  obtain s where "short cls u = Inr s" "from_short cls s = Inr u" using short_id_facts by blast
  then show "(case from_short cls (short_text cls u) of Inr u \<Rightarrow> Some u | Inl _ \<Rightarrow> None) = Some u"
    by (simp add: short_text_def)
qed

section \<open>Reading UUIDs\<close>

abbreviation lower_hex :: "char \<Rightarrow> bool" where
  "lower_hex c \<equiv> c \<in> set hex_chars"

lemma hex_chars_safe:
  "lower_hex c \<Longrightarrow> c \<noteq> CHR ''-'' \<and> c \<noteq> CHR ''+'' \<and> c \<noteq> CHR ''_'' \<and> c \<noteq> CHR ''{'' \<and> c \<noteq> CHR ''}'' \<and>
   c \<noteq> CHR ''x'' \<and> c \<noteq> CHR ''X'' \<and> c \<noteq> CHR ''u'' \<and> \<not> is_ws c \<and> c \<noteq> CHR '':'' \<and> c \<noteq> CHR ''/''"
  by (auto simp: hex_chars_def is_ws_def Let_def)

lemma hex_table: "\<forall>d<16. hex_value (hex_chars ! d) = Some d"
  by code_simp

lemma hex_digits_map:
  "list_all (\<lambda>d. d < 16) ds \<Longrightarrow> hex_digits a (map ((!) hex_chars) ds) = Some (foldl (\<lambda>a d. a * 16 + d) a ds)"
  using hex_table by (induction ds arbitrary: a) auto

lemma uuid_hex_props: "length (uuid_hex u) = 32" "c \<in> set (uuid_hex u) \<Longrightarrow> lower_hex c"
  "hex_digits 0 (uuid_hex u) = Some (unat u)"
proof -
  show "length (uuid_hex u) = 32" by (simp add: uuid_hex_def)
  have l: "list_all (\<lambda>d. d < 16) (digits_of 16 32 (unat u))"
    using digits_of_less [of 16] by (auto simp: list_all_iff)
  have "length hex_chars = 16" by (simp add: hex_chars_def)
  with l show "c \<in> set (uuid_hex u) \<Longrightarrow> lower_hex c" by (auto simp: uuid_hex_def list_all_iff)
  have "int (unat u) < int (2 ^ 128)" using uint_lt2p [of u] by simp
  then have "unat u < 2 ^ 128" by (simp only: of_nat_less_iff)
  moreover have "(2::nat) ^ 128 = 16 ^ 32" by simp
  ultimately have "unat u < 16 ^ 32" by simp
  then show "hex_digits 0 (uuid_hex u) = Some (unat u)"
    by (simp only: uuid_hex_def hex_digits_map [OF l] foldl_digits_of mod_less)
qed

lemma remove_all_fresh: "hd p \<notin> set s \<Longrightarrow> p \<noteq> [] \<Longrightarrow> remove_all p s = s"
proof (induction p s rule: remove_all.induct)
  case (2 p c cs)
  then have "\<not> startswith (c # cs) p" by (cases p) (auto simp: startswith_def)
  then show ?case using 2 by simp
qed simp

lemma strip_braces_fresh:
  assumes "CHR ''{'' \<notin> set s" "CHR ''}'' \<notin> set s"
  shows "strip_braces s = s"
proof -
  have *: "dropWhile (\<lambda>c. c = CHR ''{'' \<or> c = CHR ''}'') t = t" if "set t \<subseteq> set s" for t
    using that assms by (cases t) auto
  show ?thesis by (simp add: strip_braces_def Let_def *)
qed

lemma hex_groups_plain:
  assumes "s \<noteq> []" "\<And>c. c \<in> set s \<Longrightarrow> lower_hex c"
  shows "hex_groups s = hex_digits 0 s" "hex_unsigned s = hex_digits 0 s" "py_int16 s = map_option int (hex_digits 0 s)"
proof -
  have "CHR ''_'' \<notin> set s" using assms(2) hex_chars_safe by blast
  then show g: "hex_groups s = hex_digits 0 s" using assms(1) by (simp add: hex_groups_def)
  have x: "CHR ''x'' \<notin> set s" "CHR ''X'' \<notin> set s" using assms(2) hex_chars_safe by blast+
  then have "\<not> startswith s ''0x''" "\<not> startswith s ''0X''" by (auto simp: startswith_iff)
  then show u: "hex_unsigned s = hex_digits 0 s" by (simp add: hex_unsigned_def g)
  have "\<not> is_ws (hd s)" "\<not> is_ws (last s)" using assms hex_chars_safe by (meson hd_in_set last_in_set)+
  then have st: "strip_ws s = s" using assms(1) by (intro strip_ws_id)
  obtain c cs where c: "s = c # cs" using assms(1) by (cases s) auto
  have "c \<noteq> CHR ''-''" "c \<noteq> CHR ''+''" using assms(2) [of c] c hex_chars_safe by auto
  then show "py_int16 s = map_option int (hex_digits 0 s)"
    unfolding py_int16_def st using c u by simp
qed

text \<open>A text that is the 32 digits with hyphens anywhere reads as the UUID.\<close>

lemma uuid_parse_hyphens:
  assumes "filter (\<lambda>c. c \<noteq> CHR ''-'') s = uuid_hex u" "\<And>c. c \<in> set s \<Longrightarrow> lower_hex c \<or> c = CHR ''-''"
  shows "uuid_parse s = Inr u"
proof -
  have f: "c \<notin> set s" if "\<not> lower_hex c" "c \<noteq> CHR ''-''" for c using assms(2) that by blast
  have n: "\<not> lower_hex (CHR ''u'')" "\<not> lower_hex (CHR ''{'')" "\<not> lower_hex (CHR ''}'')"
    by (simp_all add: hex_chars_def)
  have "CHR ''u'' \<notin> set s" "CHR ''{'' \<notin> set s" "CHR ''}'' \<notin> set s" using f n by simp_all
  then have strip: "strip_braces (remove_all ''uuid:'' (remove_all ''urn:'' s)) = s"
    by (simp add: remove_all_fresh strip_braces_fresh)
  have ne: "uuid_hex u \<noteq> []" using uuid_hex_props(1) [of u] by auto
  have "py_int16 (uuid_hex u) = map_option int (Some (unat u))"
    using hex_groups_plain(3) [OF ne] uuid_hex_props(2,3) by simp
  then have "py_int16 (uuid_hex u) = Some (uint u)" by simp
  then show ?thesis using assms(1) uuid_hex_props(1) [of u] strip by (simp add: uuid_parse_def)
qed

lemma uuid_parse_hex: "uuid_parse (uuid_hex u) = Inr u"
  using uuid_hex_props(2) hex_chars_safe by (intro uuid_parse_hyphens) (auto simp: filter_id_conv)

lemma uuid_str_alt:
  "uuid_str u = take 8 (uuid_hex u) @ ''-'' @ take 4 (drop 8 (uuid_hex u)) @ ''-'' @
     take 4 (drop 12 (uuid_hex u)) @ ''-'' @ take 4 (drop 16 (uuid_hex u)) @ ''-'' @ drop 20 (uuid_hex u)"
  by (simp add: uuid_str_def Let_def)

lemma take_drop_join: "take k xs @ take j (drop k xs) = take (k + j) xs"
  by (simp add: take_add)

lemma uuid_str_props: "c \<in> set (uuid_str u) \<Longrightarrow> lower_hex c \<or> c = CHR ''-''"
  "filter (\<lambda>c. c \<noteq> CHR ''-'') (uuid_str u) = uuid_hex u"
proof -
  let ?h = "uuid_hex u"
  have sub: "set (take n (drop k ?h)) \<subseteq> set ?h" for n k by (meson order.trans set_drop_subset set_take_subset)
  have *: "filter (\<lambda>c. c \<noteq> CHR ''-'') t = t" if "set t \<subseteq> set ?h" for t
    using that uuid_hex_props(2) hex_chars_safe by (auto simp: filter_id_conv)
  show "c \<in> set (uuid_str u) \<Longrightarrow> lower_hex c \<or> c = CHR ''-''"
    using uuid_hex_props(2) [of _ u] by (auto simp: uuid_str_alt dest!: in_set_takeD in_set_dropD)
  have "filter (\<lambda>c. c \<noteq> CHR ''-'') (uuid_str u) =
      take 8 ?h @ take 4 (drop 8 ?h) @ take 4 (drop 12 ?h) @ take 4 (drop 16 ?h) @ drop 20 ?h"
    using sub * by (simp add: uuid_str_alt set_take_subset set_drop_subset)
  also have "\<dots> = ?h"
    by (simp add: take_drop_join append_assoc [symmetric] del: append_assoc)
  finally show "filter (\<lambda>c. c \<noteq> CHR ''-'') (uuid_str u) = ?h" .
qed

lemma uuid_parse_str: "uuid_parse (uuid_str u) = Inr u"
  using uuid_str_props by (intro uuid_parse_hyphens) auto

definition odd_char :: "char \<Rightarrow> bool" where
  "odd_char c \<longleftrightarrow> \<not> lower_hex c \<and> c \<noteq> CHR ''-''"

lemma id_classes_table:
  "\<forall>cls\<in>set id_classes. list_ex odd_char (id_prefix cls) \<and>
     (case id_legacy cls of None \<Rightarrow> True
      | Some lp \<Rightarrow> list_ex odd_char lp \<and> take (length lp) (id_prefix cls) \<noteq> take (length (id_prefix cls)) lp)"
  by code_simp

lemma startswith_overlap: "startswith (q @ t) p \<Longrightarrow> take (length q) p = take (length p) q"
  by (cases "length p \<le> length q") (auto simp: startswith_def dest: arg_cong [of _ _ "take (length q)"])

lemma id_classes_prefix:
  assumes "cls \<in> set id_classes"
  shows "\<exists>c\<in>set (id_prefix cls). odd_char c"
    and "id_legacy cls = Some lp \<Longrightarrow> (\<exists>c\<in>set lp. odd_char c) \<and> lp \<noteq> [] \<and> \<not> startswith (lp @ t) (id_prefix cls)"
proof -
  show "\<exists>c\<in>set (id_prefix cls). odd_char c" using id_classes_table assms by (simp add: list_ex_iff)
  assume lp: "id_legacy cls = Some lp"
  have "list_ex odd_char lp" "take (length lp) (id_prefix cls) \<noteq> take (length (id_prefix cls)) lp"
    using bspec [OF id_classes_table assms] lp by simp_all
  then show "(\<exists>c\<in>set lp. odd_char c) \<and> lp \<noteq> [] \<and> \<not> startswith (lp @ t) (id_prefix cls)"
    using startswith_overlap by (auto simp: list_ex_iff)
qed

lemma no_prefix_of_hex:
  assumes "\<exists>c\<in>set p. odd_char c" "\<And>c. c \<in> set s \<Longrightarrow> lower_hex c \<or> c = CHR ''-''"
  shows "\<not> startswith s p"
proof
  assume "startswith s p"
  then obtain r where "s = p @ r" by (auto simp: startswith_iff)
  moreover obtain c where "c \<in> set p" "odd_char c" using assms(1) by blast
  ultimately show False using assms(2) [of c] by (simp add: odd_char_def)
qed

lemma uuid_new_plain:
  assumes "cls \<in> set id_classes" "\<And>c. c \<in> set s \<Longrightarrow> lower_hex c \<or> c = CHR ''-''"
  shows "uuid_new cls (IdStr s) = uuid_parse s"
  using id_classes_prefix [OF assms(1)] no_prefix_of_hex [OF _ assms(2)]
  by (auto simp: uuid_new_def split: option.splits)

lemma uuid_new_legacy:
  assumes "cls \<in> set id_classes" "to_legacy cls u = Inr s"
  shows "uuid_new cls (IdStr s) = Inr u"
proof -
  obtain lp where lp: "id_legacy cls = Some lp" "s = lp @ uuid_hex u"
    using assms(2) by (auto simp: to_legacy_def split: option.splits)
  then show ?thesis using id_classes_prefix(2) [OF assms(1) lp(1), of "uuid_hex u"]
    by (simp add: uuid_new_def from_legacy_def uuid_parse_hex)
qed

text \<open>Every class of identifiers coerces every form of an identifier to the UUID it stands for: the UUID
  itself, its canonical text, its hexadecimal digits, its short form and, where the class has one, its legacy form;
  for schedules the identifier given to Temporal is such a form.\<close>

lemma uuid_new_accepts_all_forms:
  assumes "cls \<in> set id_classes"
  shows "uuid_new cls (IdUuid u) = Inr u \<and> uuid_new cls (IdStr (uuid_str u)) = Inr u \<and>
    uuid_new cls (IdStr (uuid_hex u)) = Inr u \<and> (\<forall>s. short cls u = Inr s \<longrightarrow> uuid_new cls (IdStr s) = Inr u) \<and>
    (\<forall>s. to_legacy cls u = Inr s \<longrightarrow> uuid_new cls (IdStr s) = Inr u) \<and>
    rbind (schedule_id_to_temporal (IdUuid u)) (\<lambda>s. uuid_new ScheduleUUID (IdStr s)) = Inr u"
proof -
  have "\<forall>s. short cls u = Inr s \<longrightarrow> uuid_new cls (IdStr s) = Inr u" using short_id_facts [of cls u] by auto
  moreover have "uuid_new cls (IdStr (uuid_str u)) = Inr u" "uuid_new cls (IdStr (uuid_hex u)) = Inr u"
    using uuid_new_plain [OF assms] uuid_str_props(1) uuid_hex_props(2) by (simp_all add: uuid_parse_str uuid_parse_hex)
  moreover have sch: "ScheduleUUID \<in> set id_classes" by (simp add: id_classes_def)
  obtain s where "to_legacy ScheduleUUID u = Inr s" by (simp add: to_legacy_def ScheduleUUID_def)
  with uuid_new_legacy [OF sch] have "rbind (schedule_id_to_temporal (IdUuid u)) (\<lambda>s. uuid_new ScheduleUUID (IdStr s)) = Inr u"
    by (simp add: schedule_id_to_temporal_def uuid_new_def)
  ultimately show ?thesis using uuid_new_legacy [OF assms] by (simp add: uuid_new_def)
qed

lemma uuid_new_accepts_all_forms_witness:
  "uuid_new SecretUUID (IdStr (uuid_str 255)) = Inr 255 \<and> uuid_new SecretUUID (IdStr (uuid_hex 7)) = Inr 7"
proof -
  have "SecretUUID \<in> set id_classes" by (simp add: id_classes_def)
  from uuid_new_accepts_all_forms [OF this, of 255] uuid_new_accepts_all_forms [OF this, of 7] show ?thesis by blast
qed

section \<open>Execution identifiers\<close>

text \<open>
  \<open>WF_EXEC_ID_PATTERN\<close> as \<open>re.match\<close> applies it: anchored at the start only. Each alternative takes
  the longest run of its character class; the delimiter is in none of the classes, so there is nothing to give back.
\<close>

definition alnum :: "char \<Rightarrow> bool" where
  "alnum c \<longleftrightarrow> c \<in> set b62_chars"

text \<open>The class \<open>\\w\<close> on the characters up to 255.\<close>

definition word_char :: "char \<Rightarrow> bool" where
  "word_char c =
     (let n = (of_char c :: nat)
      in alnum c \<or> n = 95 \<or> n \<in> {170, 178, 179, 181, 185, 186, 188, 189, 190} \<or> (192 \<le> n \<and> n \<noteq> 215 \<and> n \<noteq> 247))"

definition match_class :: "(char \<Rightarrow> bool) \<Rightarrow> string \<Rightarrow> string \<Rightarrow> (string \<times> string) option" where
  "match_class P p s =
     (let r = drop (length p) s
      in if startswith s p \<and> takeWhile P r \<noteq> [] then Some (p @ takeWhile P r, dropWhile P r) else None)"

definition match_hex :: "nat \<Rightarrow> string \<Rightarrow> string \<Rightarrow> (string \<times> string) option" where
  "match_hex n p s =
     (let r = drop (length p) s
      in if startswith s p \<and> n \<le> length r \<and> list_all lower_hex (take n r) then Some (p @ take n r, drop n r) else None)"

definition match_then :: "(string \<times> string) option \<Rightarrow> (string \<Rightarrow> (string \<times> string) option) \<Rightarrow> (string \<times> string) option" where
  "match_then m f = (case m of None \<Rightarrow> None | Some (g, r) \<Rightarrow> map_option (\<lambda>(g', r'). (g @ g', r')) (f r))"

definition match_either :: "(string \<times> string) option \<Rightarrow> (string \<times> string) option \<Rightarrow> (string \<times> string) option" where
  "match_either m m' = (case m of None \<Rightarrow> m' | Some x \<Rightarrow> Some x)"

definition match_wf_id :: "string \<Rightarrow> (string \<times> string) option" where
  "match_wf_id s = match_either (match_hex 32 ''wf-'' s) (match_class alnum ''wf_'' s)"

definition match_uuid :: "string \<Rightarrow> (string \<times> string) option" where
  "match_uuid s =
     match_then (match_then (match_then (match_then (match_hex 8 [] s) (match_hex 4 ''-'')) (match_hex 4 ''-''))
       (match_hex 4 ''-'')) (match_hex 12 ''-'')"

definition match_rest :: "string \<Rightarrow> (string \<times> string) option" where
  "match_rest s =
     (let line = (\<lambda>c. c \<noteq> CHR 0x0A)
      in if startswith s ''-'' then Some (''-'' @ takeWhile line (drop 1 s), dropWhile line (drop 1 s)) else None)"

definition match_exec_suffix :: "string \<Rightarrow> (string \<times> string) option" where
  "match_exec_suffix s =
     match_either (match_class alnum ''exec_'' s)
       (match_either (match_class (\<lambda>c. word_char c \<or> c = CHR ''-'') ''exec-'' s)
         (match_then (match_either (match_hex 32 ''sch-'' s) (match_uuid s)) match_rest))"

definition generate_exec_id :: "any_id \<Rightarrow> uuid \<Rightarrow> string \<Rightarrow> id_error + string" where
  "generate_exec_id workflow_id fresh delimiter =
     rbind (uuid_new WorkflowUUID workflow_id) (\<lambda>w.
       rbind (short WorkflowUUID w) (\<lambda>a. rbind (short ExecutionUUID fresh) (\<lambda>b. Inr (join_with delimiter [a, b]))))"

definition exec_id_to_parts :: "string \<Rightarrow> id_error + uuid \<times> string" where
  "exec_id_to_parts s =
     (let bad = Inl (ValueErr (''Invalid workflow execution ID: '' @ s))
      in case match_wf_id s of
           None \<Rightarrow> bad
         | Some (w, r) \<Rightarrow>
             if startswith r '':'' \<or> startswith r ''/''
             then (case match_exec_suffix (drop 1 r) of
                     None \<Rightarrow> bad
                   | Some (e, _) \<Rightarrow> rbind (uuid_new WorkflowUUID (IdStr w)) (\<lambda>u. Inr (u, e)))
             else bad)"

definition exec_id_from_parts :: "uuid \<Rightarrow> string \<Rightarrow> string" where
  "exec_id_from_parts wid suffix = uuid_str wid @ '':'' @ suffix"

lemma short_cases:
  obtains t where "short cls u = Inr (id_prefix cls @ t)" "length t = 22" "\<And>c. c \<in> set t \<Longrightarrow> alnum c"
    "uuid_new cls (IdStr (id_prefix cls @ t)) = Inr u"
proof -
  obtain t where t: "id_to_short u (id_prefix cls) = Inr (id_prefix cls @ t)" "length t = 22"
    "rfold b62_step t 0 = Inr (uint u)" "set t \<subseteq> set b62_chars" using id_to_short_cases by blast
  then have "short cls u = Inr (id_prefix cls @ t)" by (simp add: short_def)
  moreover have "uuid_new cls (IdStr (id_prefix cls @ t)) = Inr u"
    using short_id_facts [of cls u] calculation by auto
  ultimately show ?thesis using that [of t] t(2,4) by (auto simp: alnum_def)
qed

lemma match_class_run:
  assumes "\<And>c. c \<in> set t \<Longrightarrow> P c" "t \<noteq> []" "r = [] \<or> \<not> P (hd r)"
  shows "match_class P p (p @ t @ r) = Some (p @ t, r)"
proof -
  have "takeWhile P (t @ r) = t" using assms(1,3) by (cases r) (auto simp: takeWhile_append)
  moreover have "dropWhile P (t @ r) = r" using assms(1,3) by (cases r) (auto simp: dropWhile_append)
  ultimately show ?thesis using assms(2) by (simp add: match_class_def)
qed

lemma match_hex_run:
  assumes "\<And>c. c \<in> set t \<Longrightarrow> lower_hex c" "length t = n"
  shows "match_hex n p (p @ t @ r) = Some (p @ t, r)"
  using assms by (auto simp: match_hex_def list_all_iff)

lemma match_wf_id_short:
  assumes "\<And>c. c \<in> set t \<Longrightarrow> alnum c" "t \<noteq> []" "\<not> alnum d"
  shows "match_wf_id (''wf_'' @ t @ d # r) = Some (''wf_'' @ t, d # r)"
proof -
  have "match_hex 32 ''wf-'' (''wf_'' @ t @ d # r) = None" by (simp add: match_hex_def startswith_def)
  moreover have "match_class alnum ''wf_'' (''wf_'' @ t @ d # r) = Some (''wf_'' @ t, d # r)"
    using assms by (intro match_class_run) auto
  ultimately show ?thesis by (simp add: match_wf_id_def match_either_def)
qed

lemma class_prefixes: "id_prefix WorkflowUUID = ''wf_''" "id_prefix ExecutionUUID = ''exec_''"
  by (simp_all add: WorkflowUUID_def ExecutionUUID_def)

lemma delimiters_not_alnum: "d = CHR '':'' \<or> d = CHR ''/'' \<Longrightarrow> \<not> alnum d"
  by (auto simp: alnum_def b62_chars_def)

text \<open>The execution identifier with any suffix the pattern accepts.\<close>

lemma exec_id_to_parts_short:
  assumes "short WorkflowUUID w = Inr a" "d = CHR '':'' \<or> d = CHR ''/''" "match_exec_suffix suffix = Some (e, r)"
  shows "exec_id_to_parts (a @ d # suffix) = Inr (w, e)"
proof -
  obtain t where t: "short WorkflowUUID w = Inr (''wf_'' @ t)" "length t = 22" "\<And>c. c \<in> set t \<Longrightarrow> alnum c"
    "uuid_new WorkflowUUID (IdStr (''wf_'' @ t)) = Inr w"
    by (rule short_cases [of WorkflowUUID w, unfolded class_prefixes]) blast
  have "t \<noteq> []" using t(2) by auto
  then have m: "match_wf_id (''wf_'' @ t @ d # suffix) = Some (''wf_'' @ t, d # suffix)"
    using t(3) delimiters_not_alnum [OF assms(2)] by (intro match_wf_id_short) auto
  have a: "a = ''wf_'' @ t" using assms(1) t(1) by simp
  have d: "startswith (d # suffix) '':'' \<or> startswith (d # suffix) ''/''" using assms(2) by (auto simp: startswith_def)
  show ?thesis unfolding a append_assoc exec_id_to_parts_def Let_def m using d assms(3) t(4) by simp
qed

lemma match_exec_suffix_short:
  assumes "short ExecutionUUID u = Inr b"
  shows "match_exec_suffix b = Some (b, [])"
proof -
  obtain t where t: "short ExecutionUUID u = Inr (''exec_'' @ t)" "length t = 22" "\<And>c. c \<in> set t \<Longrightarrow> alnum c"
    by (rule short_cases [of ExecutionUUID u, unfolded class_prefixes]) blast
  have "t \<noteq> []" using t(2) by auto
  then have "match_class alnum ''exec_'' (''exec_'' @ t @ []) = Some (''exec_'' @ t, [])"
    using t(3) by (intro match_class_run) auto
  then show ?thesis using t(1) assms by (simp add: match_exec_suffix_def match_either_def)
qed

lemma match_exec_suffix_schedule:
  assumes "to_legacy ScheduleUUID u = Inr b" "CHR 0x0A \<notin> set time"
  shows "match_exec_suffix (b @ CHR ''-'' # time) = Some (b @ CHR ''-'' # time, [])"
proof -
  have b: "b = ''sch-'' @ uuid_hex u" using assms(1) by (simp add: to_legacy_def ScheduleUUID_def)
  have "match_class P ''exec_'' (b @ CHR ''-'' # time) = None" "match_class P ''exec-'' (b @ CHR ''-'' # time) = None" for P
    by (simp_all add: b match_class_def startswith_def)
  moreover have "match_hex 32 ''sch-'' (''sch-'' @ uuid_hex u @ CHR ''-'' # time) = Some (''sch-'' @ uuid_hex u, CHR ''-'' # time)"
    using uuid_hex_props by (intro match_hex_run) auto
  moreover have "takeWhile (\<lambda>c. c \<noteq> CHR 0x0A) time = time" "dropWhile (\<lambda>c. c \<noteq> CHR 0x0A) time = []"
    using assms(2) by (auto simp: takeWhile_eq_all_conv)
  then have "match_rest (CHR ''-'' # time) = Some (CHR ''-'' # time, [])" by (simp add: match_rest_def startswith_def Let_def)
  ultimately show ?thesis by (simp add: match_exec_suffix_def match_either_def match_then_def b)
qed

text \<open>The identifier of an execution, generated from any form of a workflow identifier, and that of a
  scheduled execution (the schedule's Temporal identifier and a time), are taken apart again into the workflow and
  the suffix.\<close>

lemma exec_id_roundtrip:
  assumes "uuid_new WorkflowUUID i = Inr w" "delim = '':'' \<or> delim = ''/''" "CHR 0x0A \<notin> set time"
  shows "(\<exists>s e. generate_exec_id i u delim = Inr s \<and> short ExecutionUUID u = Inr e \<and> exec_id_to_parts s = Inr (w, e)) \<and>
    (\<exists>a b. short WorkflowUUID w = Inr a \<and> to_legacy ScheduleUUID u = Inr b \<and>
       exec_id_to_parts (a @ ''/'' @ b @ ''-'' @ time) = Inr (w, b @ ''-'' @ time))"
proof -
  obtain a where a: "short WorkflowUUID w = Inr a" using short_cases by blast
  obtain e where e: "short ExecutionUUID u = Inr e" using short_cases by blast
  obtain b where b: "to_legacy ScheduleUUID u = Inr b" by (simp add: to_legacy_def ScheduleUUID_def)
  obtain d where d: "delim = [d]" "d = CHR '':'' \<or> d = CHR ''/''" using assms(2) by blast
  have "exec_id_to_parts (a @ d # e) = Inr (w, e)"
    by (rule exec_id_to_parts_short [OF a d(2) match_exec_suffix_short [OF e]])
  then have "generate_exec_id i u delim = Inr (a @ d # e) \<and> exec_id_to_parts (a @ d # e) = Inr (w, e)"
    using assms(1) a e d(1) by (simp add: generate_exec_id_def)
  moreover have "exec_id_to_parts (a @ CHR ''/'' # b @ CHR ''-'' # time) = Inr (w, b @ CHR ''-'' # time)"
    by (rule exec_id_to_parts_short [OF a _ match_exec_suffix_schedule [OF b assms(3)]]) simp
  ultimately show ?thesis using a b e by auto
qed

lemma exec_id_roundtrip_witness:
  "\<exists>s e. generate_exec_id (IdUuid 5) 9 ''/'' = Inr s \<and> short ExecutionUUID 9 = Inr e \<and> exec_id_to_parts s = Inr (5, e)"
proof -
  have "uuid_new WorkflowUUID (IdUuid 5) = Inr 5" by (simp add: uuid_new_def)
  from exec_id_roundtrip [OF this, of "''/''" "''2021''" 9] show ?thesis by auto
qed

text \<open>An execution identifier put together by \<open>exec_id_from_parts\<close>, which renders the workflow as a
  plain UUID, is never accepted by \<open>exec_id_to_parts\<close>.\<close>

lemma exec_id_from_parts_rejected:
  "\<exists>e. exec_id_to_parts (exec_id_from_parts w suffix) = Inl e"
proof -
  have "uuid_str w \<noteq> []" by (simp add: uuid_str_alt)
  then obtain c cs where c: "uuid_str w = c # cs" by (cases "uuid_str w") auto
  then have "lower_hex c \<or> c = CHR ''-''" using uuid_str_props(1) [of c w] by simp
  then have "c \<noteq> CHR ''w''" by (auto simp: hex_chars_def)
  then have "match_wf_id (c # x) = None" for x
    by (simp add: match_wf_id_def match_hex_def match_class_def match_either_def startswith_def)
  then show ?thesis by (simp add: exec_id_to_parts_def exec_id_from_parts_def c)
qed

end
