(* ===== verification/GraphOps.thy ===== *)
theory GraphOps
  imports Identifiers
begin

text \<open>
  The graph of a workflow: the rows of the database it is projected from, its React Flow projection
  (\<open>dsl/view.py\<close>) and the operations of the graph service (\<open>workflow/graph/service.py\<close>). The
  database is a value; a request that raises leaves it as it was, because the session is not committed.
  How the database reads a text as a UUID is a parameter \<open>db_uuid\<close>.
\<close>

section \<open>Rows\<close>

datatype source_type = Trigger_source | Udf_source

record up_edge =
  ue_source_id :: string
  ue_source_type :: "source_type option"
  ue_handle :: "edge_type option"

record action_row =
  ar_id :: uuid
  ar_workspace :: uuid
  ar_workflow :: uuid
  ar_type :: string
  ar_title :: string
  ar_description :: string
  ar_status :: string
  ar_inputs :: string
  ar_control_flow :: json
  ar_is_interactive :: bool
  ar_interaction :: json
  ar_x :: rat
  ar_y :: rat
  ar_upstream :: "up_edge list"

record wf_row =
  wr_id :: uuid
  wr_workspace :: uuid
  wr_status :: string
  wr_alias :: "string option"
  wr_version :: int
  wr_trigger_x :: rat
  wr_trigger_y :: rat
  wr_viewport_x :: rat
  wr_viewport_y :: rat
  wr_viewport_zoom :: rat

record gdb =
  g_workflows :: "wf_row list"
  g_actions :: "action_row list"

definition trigger_id :: "uuid \<Rightarrow> string" where
  "trigger_id w = ''trigger-'' @ uuid_str w"

text \<open>The rows a statement of the service selects: by workspace, workflow and, for one action, its id.\<close>

definition in_scope :: "uuid \<Rightarrow> uuid \<Rightarrow> action_row \<Rightarrow> bool" where
  "in_scope ws w a \<longleftrightarrow> ar_workspace a = ws \<and> ar_workflow a = w"

definition find_action :: "uuid \<Rightarrow> uuid \<Rightarrow> uuid \<Rightarrow> gdb \<Rightarrow> action_row option" where
  "find_action ws w i db = List.find (\<lambda>a. in_scope ws w a \<and> ar_id a = i) (g_actions db)"

definition find_workflow :: "uuid \<Rightarrow> uuid \<Rightarrow> gdb \<Rightarrow> wf_row option" where
  "find_workflow ws w db = List.find (\<lambda>r. wr_workspace r = ws \<and> wr_id r = w) (g_workflows db)"

text \<open>The relationship \<open>workflow.actions\<close>.\<close>

definition workflow_actions :: "uuid \<Rightarrow> gdb \<Rightarrow> action_row list" where
  "workflow_actions w db = filter (\<lambda>a. ar_workflow a = w) (g_actions db)"

definition update_actions :: "(action_row \<Rightarrow> bool) \<Rightarrow> (action_row \<Rightarrow> action_row) \<Rightarrow> gdb \<Rightarrow> gdb" where
  "update_actions P f db = db\<lparr>g_actions := map (\<lambda>a. if P a then f a else a) (g_actions db)\<rparr>"

definition update_workflow :: "uuid \<Rightarrow> uuid \<Rightarrow> (wf_row \<Rightarrow> wf_row) \<Rightarrow> gdb \<Rightarrow> gdb" where
  "update_workflow ws w f db =
     db\<lparr>g_workflows := map (\<lambda>r. if wr_workspace r = ws \<and> wr_id r = w then f r else r) (g_workflows db)\<rparr>"

section \<open>The projected graph\<close>

text \<open>
  A node reference is a string or a UUID; the two never compare equal. The projection keeps of a node its
  identifier, kind, type and position.
\<close>

datatype node_ref = RText string | RUuid uuid

fun ref_str :: "node_ref \<Rightarrow> string" where
  "ref_str (RText s) = s"
| "ref_str (RUuid u) = uuid_str u"

datatype rf_node =
    TriggerNode (tn_id: string) (tn_x: rat) (tn_y: rat) (tn_status: string)
  | UDFNode (un_id: uuid) (un_x: rat) (un_y: rat) (un_type: string)

record rf_edge =
  re_source :: node_ref
  re_target :: node_ref
  re_label :: "string option"
  re_handle :: "edge_type option"

record rf_graph =
  rg_nodes :: "rf_node list"
  rg_edges :: "rf_edge list"

datatype graph_error =
    BadRequest string
  | Conflict int rf_graph
  | GraphInvalid string
  | NodeKeyError string
  | DbError

text \<open>The identifier an edge gets when it is validated.\<close>

definition rf_edge_id :: "rf_edge \<Rightarrow> string" where
  "rf_edge_id e = join_with ''-'' [''reactflow__edge'', ref_str (re_source e), ref_str (re_target e)]"

fun is_udf :: "rf_node \<Rightarrow> bool" where
  "is_udf (UDFNode _ _ _ _) = True"
| "is_udf (TriggerNode _ _ _ _) = False"

definition rg_trigger :: "rf_graph \<Rightarrow> graph_error + rf_node" where
  "rg_trigger g =
     (case filter (\<lambda>n. \<not> is_udf n) (rg_nodes g) of
        [t] \<Rightarrow> Inr t
      | ts \<Rightarrow> Inl (GraphInvalid (''Expected 1 trigger node, got '' @ show_nat (length ts))))"

definition touches :: "string \<Rightarrow> rf_edge \<Rightarrow> bool" where
  "touches tid e \<longleftrightarrow> RText tid \<in> {re_source e, re_target e}"

definition action_edges :: "rf_graph \<Rightarrow> graph_error + rf_edge list" where
  "action_edges g =
     (if rg_edges g = [] then Inr []
      else rbind (rg_trigger g) (\<lambda>t. Inr (filter (\<lambda>e. \<not> touches (tn_id t) e) (rg_edges g))))"

definition action_nodes :: "rf_graph \<Rightarrow> rf_node list" where
  "action_nodes g = filter is_udf (rg_nodes g)"

definition validate_graph :: "rf_graph \<Rightarrow> graph_error + rf_graph" where
  "validate_graph g =
     (if rg_nodes g = [] then Inl (GraphInvalid ''Graph must have at least one node'')
      else rbind (rg_trigger g) (\<lambda>t. rbind (action_edges g) (\<lambda>es.
        if list_all (\<lambda>e. \<not> touches (tn_id t) e) es then Inr g
        else Inl (GraphInvalid ''Trigger node should not have edges in the main graph''))))"

text \<open>The views of the graph: adjacency, dependencies, indegrees, entry points.\<close>

definition ref_uuid :: "node_ref \<Rightarrow> graph_error + uuid" where
  "ref_uuid r = (case uuid_parse (ref_str r) of Inl _ \<Rightarrow> Inl (BadRequest ''badly formed hexadecimal UUID string'') | Inr u \<Rightarrow> Inr u)"

definition adj_edge :: "rf_edge \<Rightarrow> (uuid, uuid list) dict \<Rightarrow> graph_error + (uuid, uuid list) dict" where
  "adj_edge e adj =
     rbind (ref_uuid (re_source e)) (\<lambda>s. rbind (ref_uuid (re_target e)) (\<lambda>t.
       case dget adj s of None \<Rightarrow> Inl (NodeKeyError (uuid_str s)) | Some ts \<Rightarrow> Inr (dset s (ts @ [t]) adj)))"

definition adj_list :: "rf_graph \<Rightarrow> graph_error + (uuid, uuid list) dict" where
  "adj_list g =
     rbind (action_edges g) (\<lambda>es. rfold adj_edge es (foldl (\<lambda>m n. dset (un_id n) [] m) [] (action_nodes g)))"

definition dep_edge :: "rf_edge \<Rightarrow> (uuid, uuid set) dict \<Rightarrow> graph_error + (uuid, uuid set) dict" where
  "dep_edge e deps =
     rbind (ref_uuid (re_source e)) (\<lambda>s. rbind (ref_uuid (re_target e)) (\<lambda>t.
       Inr (dset t (insert s (case dget deps t of None \<Rightarrow> {} | Some xs \<Rightarrow> xs)) deps)))"

definition dep_list :: "rf_graph \<Rightarrow> graph_error + (uuid, uuid set) dict" where
  "dep_list g = rbind (action_edges g) (\<lambda>es. rfold dep_edge es [])"

definition deg_edge :: "rf_edge \<Rightarrow> (uuid, nat) dict \<Rightarrow> graph_error + (uuid, nat) dict" where
  "deg_edge e deg =
     rbind (ref_uuid (re_target e)) (\<lambda>t. Inr (dset t ((case dget deg t of None \<Rightarrow> 0 | Some n \<Rightarrow> n) + 1) deg))"

definition indegree :: "rf_graph \<Rightarrow> graph_error + (uuid, nat) dict" where
  "indegree g = rbind (action_edges g) (\<lambda>es. rfold deg_edge es [])"

definition entrypoints :: "rf_graph \<Rightarrow> graph_error + rf_node list" where
  "entrypoints g =
     rbind (indegree g) (\<lambda>deg. Inr (filter (\<lambda>n. case dget deg (un_id n) of None \<Rightarrow> True | Some k \<Rightarrow> k = 0) (action_nodes g)))"

text \<open>The projection of the rows. An edge without a source type is one of an action, one without a handle is
  taken on success.\<close>

definition edge_of :: "action_row \<Rightarrow> up_edge \<Rightarrow> rf_edge" where
  "edge_of a e =
     (let ty = (case ue_source_type e of None \<Rightarrow> Udf_source | Some t \<Rightarrow> t)
      in \<lparr>re_source = RText (ue_source_id e), re_target = RUuid (ar_id a),
          re_label = (if ty = Trigger_source then Some ''Trigger'' else None),
          re_handle = (if ty = Udf_source then Some (case ue_handle e of None \<Rightarrow> Success | Some h \<Rightarrow> h) else None)\<rparr>)"

definition from_actions :: "wf_row \<Rightarrow> action_row list \<Rightarrow> graph_error + rf_graph" where
  "from_actions r acts =
     validate_graph \<lparr>rg_nodes =
         TriggerNode (trigger_id (wr_id r)) (wr_trigger_x r) (wr_trigger_y r)
           (if wr_status r = ''online'' then ''online'' else ''offline'')
         # map (\<lambda>a. UDFNode (ar_id a) (ar_x a) (ar_y a) (ar_type a)) acts,
       rg_edges = concat (map (\<lambda>a. map (edge_of a) (ar_upstream a)) acts)\<rparr>"

definition with_defaults :: "uuid \<Rightarrow> graph_error + rf_graph" where
  "with_defaults w = validate_graph \<lparr>rg_nodes = [TriggerNode (trigger_id w) 0 0 ''offline''], rg_edges = []\<rparr>"

text \<open>
  \<open>normalize_action_ids\<close>: the mapping of identifiers that are not canonical, and the graph with its nodes
  and edges renamed by it.
\<close>

definition id_mapping :: "rf_graph \<Rightarrow> (string, string) dict" where
  "id_mapping g =
     foldl (\<lambda>m n. if \<not> is_udf n then m
                  else case uuid_new ActionUUID (IdUuid (un_id n)) of
                         Inl _ \<Rightarrow> m
                       | Inr u \<Rightarrow> if uuid_str u \<noteq> uuid_str (un_id n) then dset (uuid_str (un_id n)) (uuid_str u) m else m)
       [] (rg_nodes g)"

definition rename_node :: "(string, string) dict \<Rightarrow> rf_node \<Rightarrow> graph_error + rf_node" where
  "rename_node m n =
     (case n of
        TriggerNode _ _ _ _ \<Rightarrow> Inr n
      | UDFNode u x y ty \<Rightarrow>
          (case dget m (uuid_str u) of
             None \<Rightarrow> Inr n
           | Some v \<Rightarrow> (case uuid_parse v of
                Inl _ \<Rightarrow> Inl (GraphInvalid ''Input should be a valid UUID'')
              | Inr u' \<Rightarrow> Inr (UDFNode u' x y ty))))"

definition rename_ref :: "(string, string) dict \<Rightarrow> node_ref \<Rightarrow> node_ref" where
  "rename_ref m r = (case dget m (ref_str r) of None \<Rightarrow> r | Some v \<Rightarrow> RText v)"

definition normalize_action_ids :: "rf_graph \<Rightarrow> graph_error + rf_graph" where
  "normalize_action_ids g =
     (let m = id_mapping g
      in if m = [] then Inr g
         else rbind (rmap (rename_node m) (rg_nodes g)) (\<lambda>ns.
           Inr \<lparr>rg_nodes = ns,
                rg_edges = map (\<lambda>e. e\<lparr>re_source := rename_ref m (re_source e), re_target := rename_ref m (re_target e)\<rparr>) (rg_edges g)\<rparr>))"

section \<open>Operations\<close>

record node_payload =
  np_type :: string
  np_title :: string
  np_description :: "string option"
  np_inputs :: "string option"
  np_control_flow :: "json option"
  np_x :: rat
  np_y :: rat

record edge_payload =
  ep_source_id :: string
  ep_source_type :: source_type
  ep_target_id :: uuid
  ep_handle :: "edge_type option"

record node_update =
  nu_title :: "string option"
  nu_description :: "string option"
  nu_inputs :: "string option"
  nu_control_flow :: "json option"

text \<open>An entry of a move: any of its keys may be missing; the identifier is a text the database reads.\<close>

record node_position =
  pos_action :: "string option"
  pos_x :: "rat option"
  pos_y :: "rat option"

text \<open>\<open>Add_node\<close> carries the identifier the database draws for the new row.\<close>

datatype graph_op =
    Add_node uuid node_payload
  | Update_node uuid node_update
  | Delete_node uuid
  | Add_edge edge_payload
  | Delete_edge edge_payload
  | Move_nodes "node_position list"
  | Update_trigger_position rat rat
  | Update_viewport rat rat rat

fun is_structural :: "graph_op \<Rightarrow> bool" where
  "is_structural (Add_node _ _) = True"
| "is_structural (Update_node _ _) = True"
| "is_structural (Delete_node _) = True"
| "is_structural (Add_edge _) = True"
| "is_structural (Delete_edge _) = True"
| "is_structural (Move_nodes _) = False"
| "is_structural (Update_trigger_position _ _) = False"
| "is_structural (Update_viewport _ _ _) = False"

text \<open>The identifier column is unique over all workflows.\<close>

definition add_node :: "uuid \<Rightarrow> uuid \<Rightarrow> uuid \<Rightarrow> node_payload \<Rightarrow> gdb \<Rightarrow> graph_error + gdb" where
  "add_node ws w fresh p db =
     (if fresh \<in> set (map ar_id (g_actions db)) then Inl DbError
      else Inr (db\<lparr>g_actions := g_actions db @
        [\<lparr>ar_id = fresh, ar_workspace = ws, ar_workflow = w, ar_type = np_type p, ar_title = np_title p,
          ar_description = (case np_description p of None \<Rightarrow> [] | Some s \<Rightarrow> s),
          ar_status = ''offline'', ar_inputs = (case np_inputs p of None \<Rightarrow> [] | Some s \<Rightarrow> s),
          ar_control_flow = (case np_control_flow p of None \<Rightarrow> JObj [] | Some c \<Rightarrow> c),
          ar_is_interactive = False, ar_interaction = JNull, ar_x = np_x p, ar_y = np_y p, ar_upstream = []\<rparr>]\<rparr>))"

definition set_fields :: "node_update \<Rightarrow> action_row \<Rightarrow> action_row" where
  "set_fields p a =
     a\<lparr>ar_title := (case nu_title p of None \<Rightarrow> ar_title a | Some s \<Rightarrow> s),
       ar_description := (case nu_description p of None \<Rightarrow> ar_description a | Some s \<Rightarrow> s),
       ar_inputs := (case nu_inputs p of None \<Rightarrow> ar_inputs a | Some s \<Rightarrow> s),
       ar_control_flow := (case nu_control_flow p of None \<Rightarrow> ar_control_flow a | Some c \<Rightarrow> c)\<rparr>"

definition update_node :: "uuid \<Rightarrow> uuid \<Rightarrow> uuid \<Rightarrow> node_update \<Rightarrow> gdb \<Rightarrow> graph_error + gdb" where
  "update_node ws w i p db = Inr (update_actions (\<lambda>a. in_scope ws w a \<and> ar_id a = i) (set_fields p) db)"

definition delete_node :: "uuid \<Rightarrow> uuid \<Rightarrow> uuid \<Rightarrow> gdb \<Rightarrow> graph_error + gdb" where
  "delete_node ws w i db =
     (let db1 = update_actions (in_scope ws w)
                  (\<lambda>a. a\<lparr>ar_upstream := filter (\<lambda>e. ue_source_id e \<noteq> uuid_str i) (ar_upstream a)\<rparr>) db
      in Inr (db1\<lparr>g_actions := filter (\<lambda>a. \<not> (in_scope ws w a \<and> ar_id a = i)) (g_actions db1)\<rparr>))"

text \<open>Edges of the same source: the stored source type is compared as it is, so an edge without one differs
  from every payload.\<close>

definition same_source :: "edge_payload \<Rightarrow> up_edge \<Rightarrow> bool" where
  "same_source p e \<longleftrightarrow> ue_source_id e = ep_source_id p \<and> ue_source_type e = Some (ep_source_type p)"

definition new_edge :: "edge_payload \<Rightarrow> up_edge" where
  "new_edge p =
     \<lparr>ue_source_id = ep_source_id p, ue_source_type = Some (ep_source_type p),
      ue_handle = (if ep_source_type p = Udf_source
                   then Some (case ep_handle p of None \<Rightarrow> Success | Some h \<Rightarrow> h) else None)\<rparr>"

definition check_source :: "(string \<Rightarrow> uuid option) \<Rightarrow> uuid \<Rightarrow> uuid \<Rightarrow> edge_payload \<Rightarrow> gdb \<Rightarrow> graph_error option" where
  "check_source db_uuid ws w p db =
     (case ep_source_type p of
        Udf_source \<Rightarrow>
          (case db_uuid (ep_source_id p) of
             None \<Rightarrow> Some DbError
           | Some i \<Rightarrow>
               if find_action ws w i db = None
               then Some (BadRequest (''Source action '' @ ep_source_id p @ '' not found'')) else None)
      | Trigger_source \<Rightarrow>
          if ep_source_id p \<noteq> trigger_id w
          then Some (BadRequest (''Invalid trigger ID: '' @ ep_source_id p @ '', expected '' @ trigger_id w)) else None)"

definition set_upstream :: "uuid \<Rightarrow> uuid \<Rightarrow> uuid \<Rightarrow> (up_edge list \<Rightarrow> up_edge list) \<Rightarrow> gdb \<Rightarrow> graph_error + gdb" where
  "set_upstream ws w i f db =
     (case find_action ws w i db of
        None \<Rightarrow> Inl (BadRequest (''Target action '' @ uuid_str i @ '' not found''))
      | Some _ \<Rightarrow> Inr (update_actions (\<lambda>a. in_scope ws w a \<and> ar_id a = i) (\<lambda>a. a\<lparr>ar_upstream := f (ar_upstream a)\<rparr>) db))"

definition add_edge :: "(string \<Rightarrow> uuid option) \<Rightarrow> uuid \<Rightarrow> uuid \<Rightarrow> edge_payload \<Rightarrow> gdb \<Rightarrow> graph_error + gdb" where
  "add_edge db_uuid ws w p db =
     (case check_source db_uuid ws w p db of
        Some e \<Rightarrow> Inl e
      | None \<Rightarrow> set_upstream ws w (ep_target_id p) (\<lambda>es. filter (\<lambda>e. \<not> same_source p e) es @ [new_edge p]) db)"

definition delete_edge :: "uuid \<Rightarrow> uuid \<Rightarrow> edge_payload \<Rightarrow> gdb \<Rightarrow> graph_error + gdb" where
  "delete_edge ws w p db = set_upstream ws w (ep_target_id p) (filter (\<lambda>e. \<not> same_source p e)) db"

definition move_node :: "(string \<Rightarrow> uuid option) \<Rightarrow> uuid \<Rightarrow> uuid \<Rightarrow> node_position \<Rightarrow> gdb \<Rightarrow> graph_error + gdb" where
  "move_node db_uuid ws w p db =
     (case (pos_action p, pos_x p, pos_y p) of
        (Some s, Some x, Some y) \<Rightarrow>
          (case db_uuid s of
             None \<Rightarrow> Inl DbError
           | Some i \<Rightarrow> Inr (update_actions (\<lambda>a. in_scope ws w a \<and> ar_id a = i) (\<lambda>a. a\<lparr>ar_x := x, ar_y := y\<rparr>) db))
      | _ \<Rightarrow> Inr db)"

fun apply_operation :: "(string \<Rightarrow> uuid option) \<Rightarrow> uuid \<Rightarrow> uuid \<Rightarrow> graph_op \<Rightarrow> gdb \<Rightarrow> graph_error + gdb" where
  "apply_operation db_uuid ws w (Add_node fresh p) db = add_node ws w fresh p db"
| "apply_operation db_uuid ws w (Update_node i p) db = update_node ws w i p db"
| "apply_operation db_uuid ws w (Delete_node i) db = delete_node ws w i db"
| "apply_operation db_uuid ws w (Add_edge p) db = add_edge db_uuid ws w p db"
| "apply_operation db_uuid ws w (Delete_edge p) db = delete_edge ws w p db"
| "apply_operation db_uuid ws w (Move_nodes ps) db = rfold (move_node db_uuid ws w) ps db"
| "apply_operation db_uuid ws w (Update_trigger_position x y) db =
     Inr (update_workflow ws w (\<lambda>r. r\<lparr>wr_trigger_x := x, wr_trigger_y := y\<rparr>) db)"
| "apply_operation db_uuid ws w (Update_viewport x y z) db =
     Inr (update_workflow ws w (\<lambda>r. r\<lparr>wr_viewport_x := x, wr_viewport_y := y, wr_viewport_zoom := z\<rparr>) db)"

record graph_response =
  gr_version :: int
  gr_graph :: rf_graph
  gr_viewport :: "rat \<times> rat \<times> rat"

definition graph_response_of :: "wf_row \<Rightarrow> gdb \<Rightarrow> graph_error + graph_response" where
  "graph_response_of r db =
     rbind (from_actions r (workflow_actions (wr_id r) db)) (\<lambda>g.
       Inr \<lparr>gr_version = wr_version r, gr_graph = g, gr_viewport = (wr_viewport_x r, wr_viewport_y r, wr_viewport_zoom r)\<rparr>)"

definition get_graph :: "uuid \<Rightarrow> uuid \<Rightarrow> gdb \<Rightarrow> graph_error + graph_response option" where
  "get_graph ws w db =
     (case find_workflow ws w db of
        None \<Rightarrow> Inr None
      | Some r \<Rightarrow> rbind (graph_response_of r db) (\<lambda>g. Inr (Some g)))"

text \<open>
  A request: the response, or the error, with the database after it. The commit comes before the
  response is built.
\<close>

definition apply_operations ::
  "(string \<Rightarrow> uuid option) \<Rightarrow> uuid \<Rightarrow> uuid \<Rightarrow> int \<Rightarrow> graph_op list \<Rightarrow> gdb \<Rightarrow> (graph_error + graph_response option) \<times> gdb" where
  "apply_operations db_uuid ws w base_version ops db =
     (case find_workflow ws w db of
        None \<Rightarrow> (Inr None, db)
      | Some r \<Rightarrow>
          if wr_version r \<noteq> base_version
          then (rbind (from_actions r (workflow_actions w db)) (\<lambda>g. Inl (Conflict (wr_version r) g)), db)
          else case rfold (apply_operation db_uuid ws w) ops db of
                 Inl e \<Rightarrow> (Inl e, db)
               | Inr db1 \<Rightarrow>
                   (let db2 = (if list_ex is_structural ops
                               then update_workflow ws w (\<lambda>r. r\<lparr>wr_version := wr_version r + 1\<rparr>) db1 else db1)
                    in (get_graph ws w db2, db2)))"

end
