(* ===== verification/Management.thy ===== *)
theory Management
  imports GraphOps Dsl
begin

text \<open>
  Workflow management on top of the rows: importing a definition as actions and exporting actions as
  statements (\<open>create_actions_from_dsl\<close> of \<open>workflow/management/management.py\<close>,
  \<open>build_action_statements_from_actions\<close> and \<open>to_graph\<close> of \<open>dsl/common.py\<close>), the repair of stale
  edges, the resolution of aliases and error handlers, and the action service
  (\<open>workflow/actions/service.py\<close>). Slugs, YAML and the control flow schema come from libraries and are parameters.
\<close>

section \<open>Definitions and rows\<close>

record control_flow =
  cf_run_if :: "string option"
  cf_for_each :: json
  cf_retry_policy :: json
  cf_start_delay :: rat
  cf_wait_until :: "string option"
  cf_join_strategy :: join_strategy
  cf_environment :: "string option"

record dsl_lib =
  lib_slugify :: "string \<Rightarrow> string"
  lib_yaml_dump :: "(string \<times> json) list \<Rightarrow> string"
  lib_yaml_load :: "string \<Rightarrow> json option"
  lib_cf_dump :: "control_flow \<Rightarrow> json option"
  lib_cf_validate :: "json \<Rightarrow> control_flow option"

datatype mgmt_error =
    YamlError
  | ControlFlowInvalid
  | ArgsInvalid
  | RefKeyError string
  | DepInvalid string
  | GraphError graph_error
  | HandlerMissing string
  | IdInvalid id_error

text \<open>\<open>str.capitalize\<close> and the title of a statement, on the characters of a reference.\<close>

definition upper_char :: "char \<Rightarrow> char" where
  "upper_char c = (let n = (of_char c :: nat) in if 97 \<le> n \<and> n \<le> 122 then char_of (n - 32) else c)"

definition lower_char :: "char \<Rightarrow> char" where
  "lower_char c = (let n = (of_char c :: nat) in if 65 \<le> n \<and> n \<le> 90 then char_of (n + 32) else c)"

fun capitalize :: "string \<Rightarrow> string" where
  "capitalize [] = []"
| "capitalize (c # cs) = upper_char c # map lower_char cs"

definition stmt_title :: "action_stmt \<Rightarrow> string" where
  "stmt_title a = map (\<lambda>c. if c = CHR ''_'' then CHR '' '' else c) (capitalize (stmt_ref a))"

definition row_ref :: "dsl_lib \<Rightarrow> action_row \<Rightarrow> string" where
  "row_ref lib a = lib_slugify lib (ar_title a)"

section \<open>Importing a definition\<close>

definition stmt_control_flow :: "action_stmt \<Rightarrow> control_flow" where
  "stmt_control_flow a =
     \<lparr>cf_run_if = stmt_run_if a, cf_for_each = stmt_for_each a, cf_retry_policy = stmt_retry_policy a,
      cf_start_delay = stmt_start_delay a, cf_wait_until = stmt_wait_until a,
      cf_join_strategy = stmt_join_strategy a, cf_environment = None\<rparr>"

definition new_action :: "dsl_lib \<Rightarrow> uuid \<Rightarrow> uuid \<Rightarrow> uuid \<times> action_stmt \<Rightarrow> mgmt_error + action_row" where
  "new_action lib ws w p =
     (let (fresh, a) = p
      in case lib_cf_dump lib (stmt_control_flow a) of
           None \<Rightarrow> Inl ControlFlowInvalid
         | Some cf \<Rightarrow>
             Inr \<lparr>ar_id = fresh, ar_workspace = ws, ar_workflow = w, ar_type = stmt_action a, ar_title = stmt_title a,
                  ar_description = stmt_description a, ar_status = ''offline'', ar_inputs = lib_yaml_dump lib (stmt_args a),
                  ar_control_flow = cf, ar_is_interactive = False, ar_interaction = JNull, ar_x = 0, ar_y = 0,
                  ar_upstream = []\<rparr>)"

definition ref_to_action :: "(uuid \<times> action_stmt) list \<Rightarrow> (string, uuid) dict" where
  "ref_to_action ps = foldl (\<lambda>m p. dset (stmt_ref (snd p)) (fst p) m) [] ps"

definition upstream_of :: "(string, uuid) dict \<Rightarrow> uuid \<Rightarrow> action_stmt \<Rightarrow> up_edge list" where
  "upstream_of refs w a =
     (if stmt_depends_on a = []
      then [\<lparr>ue_source_id = trigger_id w, ue_source_type = Some Trigger_source, ue_handle = None\<rparr>]
      else List.map_filter (\<lambda>dep. map_option (\<lambda>i.
             \<lparr>ue_source_id = uuid_str i, ue_source_type = Some Udf_source, ue_handle = Some Success\<rparr>) (dget refs dep))
             (stmt_depends_on a))"

definition set_edges :: "(string, uuid) dict \<Rightarrow> uuid \<Rightarrow> action_stmt \<Rightarrow> action_row list \<Rightarrow> action_row list" where
  "set_edges refs w a rows =
     (case dget refs (stmt_ref a) of
        None \<Rightarrow> rows
      | Some i \<Rightarrow> map (\<lambda>r. if ar_id r = i then r\<lparr>ar_upstream := upstream_of refs w a\<rparr> else r) rows)"

text \<open>The identifiers the rows get are drawn one per action.\<close>

definition create_actions_from_dsl ::
  "dsl_lib \<Rightarrow> uuid \<Rightarrow> uuid \<Rightarrow> uuid list \<Rightarrow> action_stmt list \<Rightarrow> mgmt_error + action_row list" where
  "create_actions_from_dsl lib ws w fresh as =
     (let ps = zip fresh as; refs = ref_to_action ps
      in rbind (rmap (new_action lib ws w) ps) (\<lambda>rows. Inr (foldl (\<lambda>rows a. set_edges refs w a rows) rows as)))"

section \<open>Exporting actions\<close>

definition dependency_of :: "dsl_lib \<Rightarrow> (uuid, action_row) dict \<Rightarrow> up_edge \<Rightarrow> string option" where
  "dependency_of lib id2action e =
     (if ue_source_id e = [] then None
      else case uuid_parse (ue_source_id e) of
             Inl _ \<Rightarrow> None
           | Inr i \<Rightarrow>
               (case dget id2action i of
                  None \<Rightarrow> None
                | Some b \<Rightarrow>
                    Some (if ue_handle e = Some Error then dep_from_edge_components (row_ref lib b) Error else row_ref lib b)))"

definition build_statement :: "dsl_lib \<Rightarrow> (uuid, action_row) dict \<Rightarrow> action_row \<Rightarrow> mgmt_error + action_stmt" where
  "build_statement lib id2action r =
     (case lib_cf_validate lib (ar_control_flow r) of
        None \<Rightarrow> Inl ControlFlowInvalid
      | Some cf \<Rightarrow>
          (case lib_yaml_load lib (ar_inputs r) of
             None \<Rightarrow> Inl YamlError
           | Some v \<Rightarrow>
               (case (if truthy v then v else JObj []) of
                  JObj args \<Rightarrow>
                    Inr \<lparr>stmt_ref = row_ref lib r, stmt_description = [], stmt_action = ar_type r, stmt_args = args,
                         stmt_depends_on = sort (List.map_filter (dependency_of lib id2action) (ar_upstream r)),
                         stmt_interaction = (if ar_is_interactive r \<and> truthy (ar_interaction r) then ar_interaction r else JNull),
                         stmt_run_if = cf_run_if cf, stmt_for_each = cf_for_each cf, stmt_retry_policy = cf_retry_policy cf,
                         stmt_start_delay = cf_start_delay cf, stmt_wait_until = cf_wait_until cf,
                         stmt_join_strategy = cf_join_strategy cf, stmt_environment = cf_environment cf\<rparr>
                | _ \<Rightarrow> Inl ArgsInvalid)))"

definition build_action_statements_from_actions :: "dsl_lib \<Rightarrow> action_row list \<Rightarrow> mgmt_error + action_stmt list" where
  "build_action_statements_from_actions lib rows =
     (let id2action = foldl (\<lambda>m r. dset (ar_id r) r m) [] rows in rmap (build_statement lib id2action) rows)"

text \<open>The graph of a definition. The label of a trigger edge starts with a lightning sign, here in UTF-8.\<close>

definition trigger_label :: string where
  "trigger_label = [CHR 0xE2, CHR 0x9A, CHR 0xA1] @ '' Trigger''"

definition dep_rf_edge :: "(string, uuid) dict \<Rightarrow> uuid \<Rightarrow> string \<Rightarrow> mgmt_error + rf_edge" where
  "dep_rf_edge ref2id dst dep =
     (case edge_components_from_dep dep of
        None \<Rightarrow> Inl (DepInvalid dep)
      | Some (src, ty) \<Rightarrow>
          (case dget ref2id src of
             None \<Rightarrow> Inl (RefKeyError src)
           | Some i \<Rightarrow> Inr \<lparr>re_source = RUuid i, re_target = RUuid dst, re_label = None, re_handle = Some ty\<rparr>))"

definition stmt_rf_edges :: "string \<Rightarrow> (string, uuid) dict \<Rightarrow> uuid \<Rightarrow> action_stmt \<Rightarrow> mgmt_error + rf_edge list" where
  "stmt_rf_edges tid ref2id dst a =
     (if stmt_depends_on a = []
      then Inr [\<lparr>re_source = RText tid, re_target = RUuid dst, re_label = Some trigger_label, re_handle = None\<rparr>]
      else rmap (dep_rf_edge ref2id dst) (stmt_depends_on a))"

definition to_graph_step :: "string \<Rightarrow> (string, uuid) dict \<Rightarrow> action_stmt \<Rightarrow> rf_graph \<Rightarrow> mgmt_error + rf_graph" where
  "to_graph_step tid ref2id a g =
     (case dget ref2id (stmt_ref a) of
        None \<Rightarrow> Inl (RefKeyError (stmt_ref a))
      | Some dst \<Rightarrow>
          rbind (stmt_rf_edges tid ref2id dst a) (\<lambda>es.
            Inr \<lparr>rg_nodes = rg_nodes g @ [UDFNode dst 0 0 (stmt_action a)], rg_edges = rg_edges g @ es\<rparr>))"

definition to_graph :: "rf_node \<Rightarrow> (string, uuid) dict \<Rightarrow> action_stmt list \<Rightarrow> mgmt_error + rf_graph" where
  "to_graph trigger ref2id as =
     rbind (rfold (to_graph_step (tn_id trigger) ref2id) as \<lparr>rg_nodes = [trigger], rg_edges = []\<rparr>) (\<lambda>g.
       case validate_graph g of Inl e \<Rightarrow> Inl (GraphError e) | Inr g' \<Rightarrow> Inr g')"

section \<open>Repairing stale edges\<close>

definition edge_valid :: "string \<Rightarrow> string set \<Rightarrow> up_edge \<Rightarrow> bool" where
  "edge_valid tid valid e =
     (case (case ue_source_type e of None \<Rightarrow> Udf_source | Some t \<Rightarrow> t) of
        Trigger_source \<Rightarrow> ue_source_id e = tid
      | Udf_source \<Rightarrow> ue_source_id e \<in> valid)"

definition reconcile :: "uuid \<Rightarrow> gdb \<Rightarrow> bool \<times> gdb" where
  "reconcile w db =
     (let acts = workflow_actions w db;
          valid = set (map (uuid_str \<circ> ar_id) acts);
          keep = edge_valid (trigger_id w) valid
      in if acts = [] then (False, db)
         else (list_ex (\<lambda>a. \<not> list_all keep (ar_upstream a)) acts,
               update_actions (\<lambda>a. ar_workflow a = w) (\<lambda>a. a\<lparr>ar_upstream := filter keep (ar_upstream a)\<rparr>) db))"

section \<open>Aliases and error handlers\<close>

text \<open>Committed definitions of workflows; of several with one version the database may return any, here the first.\<close>

record wf_defn =
  wd_workspace :: uuid
  wd_workflow :: uuid
  wd_version :: int
  wd_alias :: "string option"
  wd_error_handler :: "string option"

fun newest :: "wf_defn list \<Rightarrow> wf_defn option" where
  "newest [] = None"
| "newest (d # ds) = (case newest ds of None \<Rightarrow> Some d | Some e \<Rightarrow> Some (if wd_version e \<le> wd_version d then d else e))"

definition resolve_workflow_alias :: "uuid \<Rightarrow> wf_row list \<Rightarrow> wf_defn list \<Rightarrow> string \<Rightarrow> bool \<Rightarrow> uuid option" where
  "resolve_workflow_alias ws rows defns alias use_committed =
     (if use_committed
      then map_option wd_workflow (newest (filter (\<lambda>d. wd_workspace d = ws \<and> wd_alias d = Some alias) defns))
      else map_option wr_id (List.find (\<lambda>r. wr_workspace r = ws \<and> wr_alias r = Some alias) rows))"

text \<open>The handler named by a definition that is passed in (\<open>Some h\<close>), or by the committed one of a workflow.\<close>

definition handler_name :: "uuid \<Rightarrow> wf_defn list \<Rightarrow> string option option \<Rightarrow> uuid \<Rightarrow> string option" where
  "handler_name ws defns passed w =
     (case (case passed of
              Some h \<Rightarrow> h
            | None \<Rightarrow> (case newest (filter (\<lambda>d. wd_workspace d = ws \<and> wd_workflow d = w) defns) of
                         None \<Rightarrow> None | Some d \<Rightarrow> wd_error_handler d)) of
        None \<Rightarrow> None
      | Some s \<Rightarrow> if s = [] then None else Some s)"

definition error_handler_workflow_id ::
  "uuid \<Rightarrow> wf_row list \<Rightarrow> wf_defn list \<Rightarrow> string option option \<Rightarrow> uuid \<Rightarrow> bool \<Rightarrow> mgmt_error + uuid option" where
  "error_handler_workflow_id ws rows defns passed w published =
     (case handler_name ws defns passed w of
        None \<Rightarrow> Inr None
      | Some s \<Rightarrow>
          if match_hex 32 ''wf-'' s \<noteq> None
          then (case from_legacy WorkflowUUID s of Inl e \<Rightarrow> Inl (IdInvalid e) | Inr u \<Rightarrow> Inr (Some u))
          else if match_class alnum ''wf_'' s \<noteq> None
          then (case uuid_new WorkflowUUID (IdStr s) of Inl e \<Rightarrow> Inl (IdInvalid e) | Inr u \<Rightarrow> Inr (Some u))
          else (case resolve_workflow_alias ws rows defns s published of
                  None \<Rightarrow> Inl (HandlerMissing s)
                | Some u \<Rightarrow> Inr (Some u)))"

section \<open>The action service\<close>

text \<open>The fields of a new action; an update holds the fields that were set.\<close>

record action_create =
  ac_type :: string
  ac_title :: string
  ac_description :: string
  ac_inputs :: string
  ac_control_flow :: json
  ac_is_interactive :: bool
  ac_interaction :: json
  ac_x :: rat
  ac_y :: rat
  ac_upstream :: "up_edge list"

record action_update =
  au_title :: "string option"
  au_description :: "string option"
  au_status :: "string option"
  au_inputs :: "string option"
  au_control_flow :: "json option"
  au_is_interactive :: "bool option"
  au_interaction :: "json option"
  au_x :: "rat option"
  au_y :: "rat option"
  au_upstream :: "up_edge list option"

definition list_actions :: "uuid \<Rightarrow> uuid \<Rightarrow> gdb \<Rightarrow> action_row list" where
  "list_actions ws w db = filter (in_scope ws w) (g_actions db)"

definition create_action :: "uuid \<Rightarrow> any_id \<Rightarrow> uuid \<Rightarrow> action_create \<Rightarrow> gdb \<Rightarrow> mgmt_error + gdb" where
  "create_action ws workflow_id fresh p db =
     (case uuid_new WorkflowUUID workflow_id of
        Inl e \<Rightarrow> Inl (IdInvalid e)
      | Inr w \<Rightarrow>
          if fresh \<in> set (map ar_id (g_actions db)) then Inl (GraphError DbError)
          else Inr (db\<lparr>g_actions := g_actions db @
            [\<lparr>ar_id = fresh, ar_workspace = ws, ar_workflow = w, ar_type = ac_type p, ar_title = ac_title p,
              ar_description = ac_description p, ar_status = ''offline'', ar_inputs = ac_inputs p,
              ar_control_flow = ac_control_flow p, ar_is_interactive = ac_is_interactive p,
              ar_interaction = ac_interaction p, ar_x = ac_x p, ar_y = ac_y p, ar_upstream = ac_upstream p\<rparr>]\<rparr>))"

definition set_opt :: "'a option \<Rightarrow> 'a \<Rightarrow> 'a" where
  "set_opt v x = (case v of None \<Rightarrow> x | Some y \<Rightarrow> y)"

definition update_action :: "uuid \<Rightarrow> action_update \<Rightarrow> gdb \<Rightarrow> gdb" where
  "update_action i p db =
     update_actions (\<lambda>a. ar_id a = i)
       (\<lambda>a. a\<lparr>ar_title := set_opt (au_title p) (ar_title a), ar_description := set_opt (au_description p) (ar_description a),
          ar_status := set_opt (au_status p) (ar_status a), ar_inputs := set_opt (au_inputs p) (ar_inputs a),
          ar_control_flow := set_opt (au_control_flow p) (ar_control_flow a),
          ar_is_interactive := set_opt (au_is_interactive p) (ar_is_interactive a),
          ar_interaction := set_opt (au_interaction p) (ar_interaction a),
          ar_x := set_opt (au_x p) (ar_x a), ar_y := set_opt (au_y p) (ar_y a),
          ar_upstream := set_opt (au_upstream p) (ar_upstream a)\<rparr>) db"

definition delete_action :: "uuid \<Rightarrow> action_row \<Rightarrow> gdb \<Rightarrow> gdb" where
  "delete_action ws act db =
     (let w = ar_workflow act;
          db1 = update_actions (in_scope ws w)
                  (\<lambda>a. a\<lparr>ar_upstream := filter (\<lambda>e. ue_source_id e \<noteq> uuid_str (ar_id act)) (ar_upstream a)\<rparr>) db
      in db1\<lparr>g_actions := filter (\<lambda>a. \<not> (in_scope ws w a \<and> ar_id a = ar_id act)) (g_actions db1)\<rparr>)"

definition batch_update_positions ::
  "uuid \<Rightarrow> any_id \<Rightarrow> (uuid \<times> rat \<times> rat) list \<Rightarrow> (rat \<times> rat) option \<Rightarrow> gdb \<Rightarrow> mgmt_error + gdb" where
  "batch_update_positions ws workflow_id ps trigger db =
     (case uuid_new WorkflowUUID workflow_id of
        Inl e \<Rightarrow> Inl (IdInvalid e)
      | Inr w \<Rightarrow>
          (let db1 = foldl (\<lambda>d (i, x, y). update_actions (\<lambda>a. in_scope ws w a \<and> ar_id a = i) (\<lambda>a. a\<lparr>ar_x := x, ar_y := y\<rparr>) d) db ps
           in Inr (case trigger of
                None \<Rightarrow> db1
              | Some (x, y) \<Rightarrow> update_workflow ws w (\<lambda>r. r\<lparr>wr_trigger_x := x, wr_trigger_y := y\<rparr>) db1)))"

end
