(* ===== verification/Graph_Correct.thy ===== *)
theory Graph_Correct
  imports GraphOps
begin

text \<open>
  Correctness of the graph service: the consistency of the stored edges is an invariant of every sequence of
  requests, requests are isolated and versioned, and the projected graph and its views agree with the rows.
\<close>

section \<open>Consistent rows\<close>

definition action_key :: "action_row \<Rightarrow> uuid \<times> uuid \<times> uuid" where
  "action_key a = (ar_workspace a, ar_workflow a, ar_id a)"

definition action_keys :: "gdb \<Rightarrow> (uuid \<times> uuid \<times> uuid) set" where
  "action_keys db = set (map action_key (g_actions db))"

text \<open>An edge comes from the trigger of the workflow of its row or from an action of that workflow, in canonical
  form.\<close>

definition edge_ok :: "(uuid \<times> uuid \<times> uuid) set \<Rightarrow> uuid \<Rightarrow> uuid \<Rightarrow> up_edge \<Rightarrow> bool" where
  "edge_ok K ws w e \<longleftrightarrow>
     (if ue_source_type e = Some Trigger_source then ue_source_id e = trigger_id w
      else \<exists>i. (ws, w, i) \<in> K \<and> ue_source_id e = uuid_str i)"

definition edge_key :: "up_edge \<Rightarrow> string \<times> source_type option" where
  "edge_key e = (ue_source_id e, ue_source_type e)"

definition row_ok :: "(uuid \<times> uuid \<times> uuid) set \<Rightarrow> action_row \<Rightarrow> bool" where
  "row_ok K a \<longleftrightarrow> (\<forall>e\<in>set (ar_upstream a). edge_ok K (ar_workspace a) (ar_workflow a) e) \<and> distinct (map edge_key (ar_upstream a))"

definition consistent :: "gdb \<Rightarrow> bool" where
  "consistent db \<longleftrightarrow> distinct (map ar_id (g_actions db)) \<and> distinct (map wr_id (g_workflows db)) \<and>
     (\<forall>a\<in>set (g_actions db). row_ok (action_keys db) a) \<and>
     (\<forall>a\<in>set (g_actions db). \<forall>r\<in>set (g_workflows db). wr_id r = ar_workflow a \<longrightarrow> wr_workspace r = ar_workspace a)"

lemma edge_ok_mono: "edge_ok K ws w e \<Longrightarrow> K \<subseteq> K' \<Longrightarrow> edge_ok K' ws w e"
  by (cases "ue_source_type e = Some Trigger_source") (auto simp: edge_ok_def)

lemma edge_ok_source: "edge_ok K ws w e \<Longrightarrow> ue_source_type e \<noteq> Some Trigger_source \<Longrightarrow> \<exists>i. (ws, w, i) \<in> K \<and> ue_source_id e = uuid_str i"
  by (simp add: edge_ok_def)

lemma row_ok_edge: "row_ok K a \<Longrightarrow> e \<in> set (ar_upstream a) \<Longrightarrow> edge_ok K (ar_workspace a) (ar_workflow a) e"
  by (simp add: row_ok_def)

lemma uuid_str_inj: "uuid_str u = uuid_str v \<Longrightarrow> u = v"
  by (metis sum.inject(2) uuid_parse_str)

lemma uuid_str_not_trigger: "uuid_str u \<noteq> trigger_id w"
proof
  assume *: "uuid_str u = trigger_id w"
  have "CHR ''t'' \<in> set (trigger_id w)" by (simp add: trigger_id_def)
  then show False using uuid_str_props(1) [of "CHR ''t''" u] * by (simp add: hex_chars_def)
qed

lemma find_SomeD: "List.find P xs = Some x \<Longrightarrow> x \<in> set xs \<and> P x"
  by (induction xs) (auto split: if_splits)

lemma find_ex:
  assumes "x \<in> set xs" "P x"
  obtains y where "List.find P xs = Some y" "y \<in> set xs" "P y"
proof (cases "List.find P xs")
  case None
  then show ?thesis using assms by (auto simp: find_None_iff)
next
  case (Some y)
  then show ?thesis using that [OF Some] find_SomeD [OF Some] by simp
qed

lemma find_action_SomeD:
  "find_action ws w i db = Some a \<Longrightarrow> a \<in> set (g_actions db) \<and> ar_workspace a = ws \<and> ar_workflow a = w \<and> ar_id a = i"
  unfolding find_action_def in_scope_def by (drule find_SomeD) simp

lemma find_workflow_SomeD:
  "find_workflow ws w db = Some r \<Longrightarrow> r \<in> set (g_workflows db) \<and> wr_workspace r = ws \<and> wr_id r = w"
  unfolding find_workflow_def by (drule find_SomeD) simp

text \<open>Updates that keep the keys of the rows.\<close>

lemma update_actions_keys:
  assumes "\<And>a. action_key (f a) = action_key a"
  shows "action_keys (update_actions P f db) = action_keys db"
    and "map ar_id (g_actions (update_actions P f db)) = map ar_id (g_actions db)"
    and "g_workflows (update_actions P f db) = g_workflows db"
proof -
  have keys: "map action_key (g_actions (update_actions P f db)) = map action_key (g_actions db)"
    using assms by (simp add: update_actions_def)
  then show "action_keys (update_actions P f db) = action_keys db" by (simp only: action_keys_def)
  from arg_cong [OF keys, of "map (\<lambda>(_, _, i). i)"]
  show "map ar_id (g_actions (update_actions P f db)) = map ar_id (g_actions db)" by (simp add: action_key_def comp_def)
  show "g_workflows (update_actions P f db) = g_workflows db" by (simp add: update_actions_def)
qed

lemma update_actions_consistent:
  assumes "consistent db" and key: "\<And>a. action_key (f a) = action_key a"
    and row: "\<And>a. a \<in> set (g_actions db) \<Longrightarrow> P a \<Longrightarrow> row_ok (action_keys db) a \<Longrightarrow> row_ok (action_keys db) (f a)"
  shows "consistent (update_actions P f db)"
proof -
  have sc: "ar_workspace (f a) = ar_workspace a" "ar_workflow (f a) = ar_workflow a" for a
    using key [of a] by (simp_all add: action_key_def)
  have "\<forall>a\<in>set (g_actions (update_actions P f db)). row_ok (action_keys db) a"
    using assms(1) row by (auto simp: consistent_def update_actions_def)
  moreover have "\<forall>a\<in>set (g_actions (update_actions P f db)). \<forall>r\<in>set (g_workflows db). wr_id r = ar_workflow a \<longrightarrow> wr_workspace r = ar_workspace a"
    using assms(1) sc by (auto simp: consistent_def update_actions_def)
  ultimately show ?thesis using assms(1) update_actions_keys [OF key] by (simp add: consistent_def)
qed

lemma update_workflow_consistent:
  assumes "consistent db" "\<And>r. wr_id (f r) = wr_id r \<and> wr_workspace (f r) = wr_workspace r"
  shows "consistent (update_workflow ws w f db)"
proof -
  have "map wr_id (g_workflows (update_workflow ws w f db)) = map wr_id (g_workflows db)"
    using assms(2) by (auto simp: update_workflow_def)
  moreover have "g_actions (update_workflow ws w f db) = g_actions db" by (simp add: update_workflow_def)
  moreover have "\<forall>r\<in>set (g_workflows (update_workflow ws w f db)). \<exists>r0\<in>set (g_workflows db). wr_id r = wr_id r0 \<and> wr_workspace r = wr_workspace r0"
    using assms(2) by (auto simp: update_workflow_def)
  ultimately show ?thesis using assms(1) unfolding consistent_def action_keys_def by (metis (no_types, lifting))
qed

section \<open>The operations\<close>

lemma row_ok_filter: "row_ok K a \<Longrightarrow> row_ok K (a\<lparr>ar_upstream := filter P (ar_upstream a)\<rparr>)"
  by (auto simp: row_ok_def distinct_map_filter)

lemma same_source_key: "same_source p e \<longleftrightarrow> edge_key e = (ep_source_id p, Some (ep_source_type p))"
  by (auto simp: same_source_def edge_key_def)

lemma edge_key_new: "edge_key (new_edge p) = (ep_source_id p, Some (ep_source_type p))"
  by (simp add: edge_key_def new_edge_def)

lemma add_node_consistent:
  assumes "consistent db" "find_workflow ws w db = Some r" "add_node ws w u p db = Inr db'"
  shows "consistent db'"
proof -
  obtain a where a: "db' = db\<lparr>g_actions := g_actions db @ [a]\<rparr>" "ar_workspace a = ws" "ar_workflow a = w" "ar_id a = u"
    "ar_upstream a = []" "u \<notin> set (map ar_id (g_actions db))"
    using assms(3) by (fastforce simp: add_node_def split: if_splits)
  have K: "action_keys db \<subseteq> action_keys db'" by (auto simp: action_keys_def a(1))
  have mono: "row_ok (action_keys db') b" if "row_ok (action_keys db) b" for b
    using that edge_ok_mono [OF _ K] by (auto simp: row_ok_def)
  have "row_ok (action_keys db') a" using a(5) by (simp add: row_ok_def)
  moreover have "\<forall>x\<in>set (g_workflows db). wr_id x = w \<longrightarrow> wr_workspace x = ws"
  proof (intro ballI impI)
    fix x assume "x \<in> set (g_workflows db)" "wr_id x = w"
    moreover have "r \<in> set (g_workflows db)" "wr_id r = w" "wr_workspace r = ws" using find_workflow_SomeD [OF assms(2)] by simp_all
    moreover have "inj_on wr_id (set (g_workflows db))" using assms(1) by (simp add: consistent_def distinct_map)
    ultimately have "x = r" by (metis inj_onD)
    then show "wr_workspace x = ws" using \<open>wr_workspace r = ws\<close> by simp
  qed
  ultimately show ?thesis using assms(1) a mono by (auto simp: consistent_def)
qed

lemma delete_node_consistent:
  assumes "consistent db" "delete_node ws w i db = Inr db'"
  shows "consistent db'"
proof -
  define f where "f = (\<lambda>a::action_row. a\<lparr>ar_upstream := filter (\<lambda>e. ue_source_id e \<noteq> uuid_str i) (ar_upstream a)\<rparr>)"
  define db1 where "db1 = update_actions (in_scope ws w) f db"
  have db': "db' = db1\<lparr>g_actions := filter (\<lambda>a. \<not> (in_scope ws w a \<and> ar_id a = i)) (g_actions db1)\<rparr>"
    using assms(2) by (simp add: delete_node_def Let_def db1_def f_def)
  have c: "consistent db1" unfolding db1_def
    by (rule update_actions_consistent [OF assms(1)]) (auto simp: f_def action_key_def intro: row_ok_filter)
  have keys: "action_keys db1 - {(ws, w, i)} \<subseteq> action_keys db'"
    by (auto simp: action_keys_def db' action_key_def in_scope_def)
  have "row_ok (action_keys db') a" if a: "a \<in> set (g_actions db1)" for a
  proof -
    have ok: "row_ok (action_keys db1) a" using c a by (simp add: consistent_def)
    have "edge_ok (action_keys db') (ar_workspace a) (ar_workflow a) e" if e: "e \<in> set (ar_upstream a)" for e
    proof (cases "ue_source_type e = Some Trigger_source")
      case True
      then show ?thesis using ok e by (auto simp: row_ok_def edge_ok_def)
    next
      case False
      then obtain j where j: "(ar_workspace a, ar_workflow a, j) \<in> action_keys db1" "ue_source_id e = uuid_str j"
        using edge_ok_source [OF row_ok_edge [OF ok e] False] by blast
      have "(ar_workspace a, ar_workflow a, j) \<noteq> (ws, w, i)"
      proof
        assume eq: "(ar_workspace a, ar_workflow a, j) = (ws, w, i)"
        then have sc: "in_scope ws w a" by (simp add: in_scope_def)
        obtain b where b: "a = (if in_scope ws w b then f b else b)"
          by (rule imageE [of a "\<lambda>a. if in_scope ws w a then f a else a" "set (g_actions db)"])
            (use a in \<open>simp_all add: db1_def update_actions_def del: if_image_distrib\<close>)
        have "in_scope ws w (f b) = in_scope ws w b" by (simp add: f_def in_scope_def)
        then have "a = f b" using b sc by (cases "in_scope ws w b") auto
        then have "ue_source_id e \<noteq> uuid_str i" using e by (simp add: f_def)
        then show False using j(2) eq by simp
      qed
      then have "(ar_workspace a, ar_workflow a, j) \<in> action_keys db'" using j(1) keys by auto
      then show ?thesis using False j(2) by (auto simp: edge_ok_def)
    qed
    then show ?thesis using ok by (auto simp: row_ok_def)
  qed
  note rows = this
  have sub: "set (g_actions db') \<subseteq> set (g_actions db1)" and w': "g_workflows db' = g_workflows db1" by (auto simp: db')
  have "distinct (map ar_id (g_actions db'))" unfolding db' using c by (simp add: consistent_def distinct_map_filter)
  then show ?thesis using c rows sub w' unfolding consistent_def by (metis subsetD)
qed

lemma set_upstream_consistent:
  assumes "consistent db" "set_upstream ws w i f db = Inr db'"
    and "\<And>a. a \<in> set (g_actions db) \<Longrightarrow> in_scope ws w a \<Longrightarrow> row_ok (action_keys db) a \<Longrightarrow>
      row_ok (action_keys db) (a\<lparr>ar_upstream := f (ar_upstream a)\<rparr>)"
  shows "consistent db'"
proof -
  have "db' = update_actions (\<lambda>a. in_scope ws w a \<and> ar_id a = i) (\<lambda>a. a\<lparr>ar_upstream := f (ar_upstream a)\<rparr>) db"
    using assms(2) by (simp add: set_upstream_def split: option.splits)
  moreover have "consistent (update_actions (\<lambda>a. in_scope ws w a \<and> ar_id a = i) (\<lambda>a. a\<lparr>ar_upstream := f (ar_upstream a)\<rparr>) db)"
    using assms(3) by (intro update_actions_consistent [OF assms(1)]) (auto simp: action_key_def)
  ultimately show ?thesis by simp
qed

text \<open>Operations whose edges come from actions in canonical form.\<close>

fun canonical_op :: "(string \<Rightarrow> uuid option) \<Rightarrow> graph_op \<Rightarrow> bool" where
  "canonical_op db_uuid (Add_edge p) =
     (ep_source_type p = Udf_source \<longrightarrow>
        (case db_uuid (ep_source_id p) of None \<Rightarrow> True | Some i \<Rightarrow> ep_source_id p = uuid_str i))"
| "canonical_op db_uuid _ = True"

lemma check_source_edge_ok:
  assumes "check_source db_uuid ws w p db = None" "canonical_op db_uuid (Add_edge p)"
  shows "edge_ok (action_keys db) ws w (new_edge p)"
proof (cases "ep_source_type p")
  case Trigger_source
  then show ?thesis using assms(1) by (simp add: check_source_def edge_ok_def new_edge_def split: if_splits)
next
  case Udf_source
  then obtain i a where i: "db_uuid (ep_source_id p) = Some i" "find_action ws w i db = Some a"
    using assms(1) by (auto simp: check_source_def split: option.splits if_splits)
  have "(ws, w, i) \<in> action_keys db"
    using find_action_SomeD [OF i(2)] by (force simp: action_keys_def action_key_def)
  moreover have "ep_source_id p = uuid_str i" using assms(2) Udf_source i(1) by simp
  ultimately show ?thesis using Udf_source by (auto simp: edge_ok_def new_edge_def)
qed

lemma add_edge_consistent:
  assumes "consistent db" "canonical_op db_uuid (Add_edge p)" "add_edge db_uuid ws w p db = Inr db'"
  shows "consistent db'"
proof -
  have chk: "check_source db_uuid ws w p db = None"
    and st: "set_upstream ws w (ep_target_id p) (\<lambda>es. filter (\<lambda>e. \<not> same_source p e) es @ [new_edge p]) db = Inr db'"
    using assms(3) by (auto simp: add_edge_def split: option.splits)
  have e: "edge_ok (action_keys db) ws w (new_edge p)" by (rule check_source_edge_ok [OF chk assms(2)])
  show ?thesis
  proof (rule set_upstream_consistent [OF assms(1) st])
    fix a assume a: "in_scope ws w a" "row_ok (action_keys db) a"
    have "distinct (map edge_key (filter (\<lambda>e. \<not> same_source p e) (ar_upstream a) @ [new_edge p]))"
      using a(2) by (auto simp: row_ok_def distinct_map_filter same_source_key edge_key_new)
    then show "row_ok (action_keys db) (a\<lparr>ar_upstream := filter (\<lambda>e. \<not> same_source p e) (ar_upstream a) @ [new_edge p]\<rparr>)"
      using a e by (auto simp: row_ok_def in_scope_def)
  qed
qed

lemma move_node_consistent:
  assumes "consistent db" "move_node db_uuid ws w p db = Inr db'"
  shows "consistent db'"
proof -
  have "db' = db \<or> (\<exists>P x y. db' = update_actions P (\<lambda>a. a\<lparr>ar_x := x, ar_y := y\<rparr>) db)"
    using assms(2) by (auto simp: move_node_def split: option.splits)
  then show ?thesis using assms(1)
    by (auto intro!: update_actions_consistent simp: action_key_def row_ok_def)
qed

lemma apply_operation_consistent:
  assumes "consistent db" "canonical_op db_uuid op" "find_workflow ws w db = Some r" "apply_operation db_uuid ws w op db = Inr db'"
  shows "consistent db'"
proof (cases op)
  case (Add_node u p)
  then show ?thesis using add_node_consistent assms by simp
next
  case (Update_node i p)
  then have "db' = update_actions (\<lambda>a. in_scope ws w a \<and> ar_id a = i) (set_fields p) db"
    using assms(4) by (simp add: update_node_def)
  then show ?thesis using assms(1)
    by (auto intro!: update_actions_consistent simp: action_key_def row_ok_def set_fields_def)
next
  case (Delete_node i)
  then show ?thesis using delete_node_consistent assms by simp
next
  case (Add_edge p)
  then show ?thesis using add_edge_consistent assms by simp
next
  case (Delete_edge p)
  then show ?thesis using assms set_upstream_consistent [OF assms(1), of ws w _ "filter (\<lambda>e. \<not> same_source p e)"]
    by (auto simp: delete_edge_def intro: row_ok_filter)
next
  case (Move_nodes ps)
  then show ?thesis using assms rfold_invariant [of _ ps db db' consistent] move_node_consistent by fastforce
next
  case (Update_trigger_position x y)
  then show ?thesis using assms by (auto intro: update_workflow_consistent)
next
  case (Update_viewport x y z)
  then show ?thesis using assms by (auto intro: update_workflow_consistent)
qed

section \<open>Requests\<close>

text \<open>What an operation of one workflow leaves alone: the rows of all others, and which workflows there are.\<close>

definition other_rows :: "uuid \<Rightarrow> uuid \<Rightarrow> gdb \<Rightarrow> action_row list \<times> wf_row list" where
  "other_rows ws w db =
     (filter (\<lambda>a. \<not> in_scope ws w a) (g_actions db), filter (\<lambda>r. \<not> (wr_workspace r = ws \<and> wr_id r = w)) (g_workflows db))"

definition wf_keys :: "gdb \<Rightarrow> (uuid \<times> uuid \<times> int) list" where
  "wf_keys db = map (\<lambda>r. (wr_workspace r, wr_id r, wr_version r)) (g_workflows db)"

definition frame :: "uuid \<Rightarrow> uuid \<Rightarrow> gdb \<Rightarrow> gdb \<Rightarrow> bool" where
  "frame ws w db db' \<longleftrightarrow> other_rows ws w db' = other_rows ws w db \<and> wf_keys db' = wf_keys db"

lemma frame_refl [simp]: "frame ws w db db"
  by (simp add: frame_def)

lemma frame_trans: "frame ws w a b \<Longrightarrow> frame ws w b c \<Longrightarrow> frame ws w a c"
  by (simp add: frame_def)

lemma filter_map_same:
  assumes "\<And>x. x \<in> set xs \<Longrightarrow> Q (f x) = Q x" "\<And>x. x \<in> set xs \<Longrightarrow> Q x \<Longrightarrow> f x = x"
  shows "filter Q (map f xs) = filter Q xs"
  using assms by (induction xs) auto

lemma update_actions_frame:
  assumes "\<And>a. P a \<Longrightarrow> in_scope ws w a" "\<And>a. action_key (f a) = action_key a"
  shows "frame ws w db (update_actions P f db)"
proof -
  have "in_scope ws w (f a) = in_scope ws w a" for a using assms(2) [of a] by (simp add: in_scope_def action_key_def)
  then have "filter (\<lambda>a. \<not> in_scope ws w a) (map (\<lambda>a. if P a then f a else a) (g_actions db)) = filter (\<lambda>a. \<not> in_scope ws w a) (g_actions db)"
    using assms(1) by (intro filter_map_same) auto
  then show ?thesis by (simp add: frame_def other_rows_def wf_keys_def update_actions_def)
qed

lemma update_workflow_frame:
  assumes "\<And>r. wr_id (f r) = wr_id r \<and> wr_workspace (f r) = wr_workspace r \<and> wr_version (f r) = wr_version r"
  shows "frame ws w db (update_workflow ws w f db)"
proof -
  have "filter (\<lambda>r. \<not> (wr_workspace r = ws \<and> wr_id r = w)) (map (\<lambda>r. if wr_workspace r = ws \<and> wr_id r = w then f r else r) (g_workflows db))
      = filter (\<lambda>r. \<not> (wr_workspace r = ws \<and> wr_id r = w)) (g_workflows db)"
    using assms by (intro filter_map_same) auto
  then show ?thesis using assms by (simp add: frame_def other_rows_def wf_keys_def update_workflow_def)
qed

lemma delete_node_frame: "delete_node ws w i db = Inr db' \<Longrightarrow> frame ws w db db'"
proof -
  define f where "f = (\<lambda>a::action_row. a\<lparr>ar_upstream := filter (\<lambda>e. ue_source_id e \<noteq> uuid_str i) (ar_upstream a)\<rparr>)"
  define db1 where "db1 = update_actions (in_scope ws w) f db"
  assume "delete_node ws w i db = Inr db'"
  then have db': "db' = db1\<lparr>g_actions := filter (\<lambda>a. \<not> (in_scope ws w a \<and> ar_id a = i)) (g_actions db1)\<rparr>"
    by (simp add: delete_node_def Let_def db1_def f_def)
  have "frame ws w db db1" unfolding db1_def by (rule update_actions_frame) (auto simp: f_def action_key_def)
  moreover have "filter (\<lambda>a. \<not> in_scope ws w a) (filter (\<lambda>a. \<not> (in_scope ws w a \<and> ar_id a = i)) xs) = filter (\<lambda>a. \<not> in_scope ws w a) xs" for xs
    by (induction xs) auto
  ultimately show ?thesis by (simp add: frame_def other_rows_def wf_keys_def db')
qed

lemma set_upstream_frame: "set_upstream ws w i f db = Inr db' \<Longrightarrow> frame ws w db db'"
  by (auto simp: set_upstream_def action_key_def split: option.splits intro!: update_actions_frame)

lemma move_node_frame: "move_node db_uuid ws w p db = Inr db' \<Longrightarrow> frame ws w db db'"
  by (auto simp: move_node_def action_key_def split: option.splits intro!: update_actions_frame)

lemma apply_operation_frame:
  assumes "apply_operation db_uuid ws w op db = Inr db'"
  shows "frame ws w db db'"
proof (cases op)
  case (Add_node u p)
  then show ?thesis using assms
    by (auto simp: add_node_def frame_def other_rows_def wf_keys_def in_scope_def split: if_splits)
next
  case (Update_node i p)
  then show ?thesis using assms
    by (auto simp: update_node_def set_fields_def action_key_def intro!: update_actions_frame)
next
  case (Delete_node i)
  then show ?thesis using assms delete_node_frame by simp
next
  case (Add_edge p)
  then show ?thesis using assms set_upstream_frame by (auto simp: add_edge_def split: option.splits)
next
  case (Delete_edge p)
  then show ?thesis using assms set_upstream_frame by (auto simp: delete_edge_def)
next
  case (Move_nodes ps)
  then show ?thesis
    using assms rfold_invariant [of _ ps db db' "frame ws w db"] move_node_frame frame_trans frame_refl
    by (metis apply_operation.simps(6))
next
  case (Update_trigger_position x y)
  then show ?thesis using assms by (auto intro!: update_workflow_frame)
next
  case (Update_viewport x y z)
  then show ?thesis using assms by (auto intro!: update_workflow_frame)
qed

lemma find_map_iff:
  assumes "map g xs = map g ys" "\<And>x. P x = Q (g x)"
  shows "map_option g (List.find P xs) = map_option g (List.find P ys)"
proof -
  have "map_option g (List.find P zs) = List.find Q (map g zs)" for zs
    using assms(2) by (induction zs) auto
  then show ?thesis using assms(1) by simp
qed

lemma frame_find_workflow:
  assumes "frame ws w db db'" "find_workflow ws w db = Some r"
  shows "\<exists>r'. find_workflow ws w db' = Some r' \<and> wr_version r' = wr_version r"
proof -
  have "map_option (\<lambda>r. (wr_workspace r, wr_id r, wr_version r)) (find_workflow ws w db') =
      map_option (\<lambda>r. (wr_workspace r, wr_id r, wr_version r)) (find_workflow ws w db)"
    unfolding find_workflow_def using assms(1) [unfolded frame_def wf_keys_def]
    by (intro find_map_iff [where Q = "\<lambda>(a, b, _). a = ws \<and> b = w"]) auto
  then show ?thesis using assms(2) by (auto simp: map_option_case split: option.splits)
qed

lemma operations_frame:
  assumes "rfold (apply_operation db_uuid ws w) ops db = Inr db'"
  shows "frame ws w db db'"
  by (rule rfold_invariant [OF assms frame_refl]) (blast intro: frame_trans apply_operation_frame)

lemma operations_consistent:
  assumes "rfold (apply_operation db_uuid ws w) ops db = Inr db'" "consistent db" "find_workflow ws w db = Some r"
    and "list_all (canonical_op db_uuid) ops"
  shows "consistent db'"
proof -
  have "consistent db' \<and> frame ws w db db'"
  proof (rule rfold_invariant [OF assms(1)])
    fix op s t assume op: "op \<in> set ops" "consistent s \<and> frame ws w db s" "apply_operation db_uuid ws w op s = Inr t"
    obtain r' where "find_workflow ws w s = Some r'" using frame_find_workflow op(2) assms(3) by blast
    then have "consistent t" using apply_operation_consistent [OF _ _ _ op(3)] op(1,2) assms(4) by (auto simp: list_all_iff)
    then show "consistent t \<and> frame ws w db t" using op(2) frame_trans apply_operation_frame [OF op(3)] by blast
  qed (simp add: assms(2))
  then show ?thesis ..
qed

lemma bump_consistent: "consistent db \<Longrightarrow> consistent (update_workflow ws w (\<lambda>r. r\<lparr>wr_version := v r\<rparr>) db)"
  by (rule update_workflow_consistent) auto

record graph_request =
  rq_workspace :: uuid
  rq_workflow :: uuid
  rq_base_version :: int
  rq_operations :: "graph_op list"

definition serve :: "(string \<Rightarrow> uuid option) \<Rightarrow> gdb \<Rightarrow> graph_request \<Rightarrow> gdb" where
  "serve db_uuid db rq = snd (apply_operations db_uuid (rq_workspace rq) (rq_workflow rq) (rq_base_version rq) (rq_operations rq) db)"

interpretation graph_service: machine "serve db_uuid" consistent "\<lambda>_ rq :: graph_request. list_all (canonical_op db_uuid) (rq_operations rq)"
  for db_uuid
proof unfold_locales
  fix db and rq :: graph_request assume "consistent db" "list_all (canonical_op db_uuid) (rq_operations rq)"
  then show "consistent (serve db_uuid db rq)"
    using operations_consistent bump_consistent
    by (fastforce simp: serve_def apply_operations_def Let_def split: option.splits sum.splits)
qed

text \<open>C14: Whatever sequence of graph requests is served, for any workflows and whether they succeed or not, as long as
  an added edge spells the identifier of its source action in canonical form, stored edges that are consistent stay so: every
  edge comes from the trigger or from an existing action of the same workflow, no action has two edges of one source,
  and no identifier occurs twice; in particular a deleted action leaves no dangling edge.\<close>

theorem graph_stays_consistent:
  assumes "consistent db" "\<forall>rq\<in>set rqs. \<forall>op\<in>set (rq_operations rq). canonical_op db_uuid op"
  shows "consistent (foldl (serve db_uuid) db rqs)"
proof -
  have "legal (serve db_uuid) (\<lambda>_ rq :: graph_request. list_all (canonical_op db_uuid) (rq_operations rq)) db rqs"
    using assms(2) by (induction rqs arbitrary: db) (auto simp: list_all_iff)
  then show ?thesis by (rule graph_service.run_inv [OF assms(1)])
qed

text \<open>The projection of a workflow always exists: the check for edges of the trigger looks only at edges that do
  not touch the trigger.\<close>

lemma from_actions_graph:
  obtains g where "from_actions r acts = Inr g" "rg_edges g = concat (map (\<lambda>a. map (edge_of a) (ar_upstream a)) acts)"
    "action_nodes g = map (\<lambda>a. UDFNode (ar_id a) (ar_x a) (ar_y a) (ar_type a)) acts"
    "rg_trigger g = Inr (TriggerNode (trigger_id (wr_id r)) (wr_trigger_x r) (wr_trigger_y r)
       (if wr_status r = ''online'' then ''online'' else ''offline''))"
proof -
  let ?ns = "map (\<lambda>a. UDFNode (ar_id a) (ar_x a) (ar_y a) (ar_type a)) acts"
  let ?t = "TriggerNode (trigger_id (wr_id r)) (wr_trigger_x r) (wr_trigger_y r)
       (if wr_status r = ''online'' then ''online'' else ''offline'')"
  let ?g = "\<lparr>rg_nodes = ?t # ?ns, rg_edges = concat (map (\<lambda>a. map (edge_of a) (ar_upstream a)) acts)\<rparr>"
  have u: "filter (\<lambda>n. \<not> is_udf n) ?ns = []" "filter is_udf ?ns = ?ns" by (auto simp: filter_empty_conv filter_id_conv)
  then have t: "rg_trigger ?g = Inr ?t" by (simp add: rg_trigger_def)
  have "\<exists>es. action_edges ?g = Inr es \<and> list_all (\<lambda>e. \<not> touches (trigger_id (wr_id r)) e) es"
  proof (cases "rg_edges ?g = []")
    case True
    then show ?thesis by (simp add: action_edges_def)
  next
    case False
    then have "action_edges ?g = Inr (filter (\<lambda>e. \<not> touches (trigger_id (wr_id r)) e) (rg_edges ?g))"
      unfolding action_edges_def t by simp
    then show ?thesis by (simp add: list_all_iff)
  qed
  then have "validate_graph ?g = Inr ?g" unfolding validate_graph_def t by auto
  then have "from_actions r acts = Inr ?g" by (simp add: from_actions_def)
  moreover have "action_nodes ?g = ?ns" using u by (simp add: action_nodes_def)
  ultimately show ?thesis using that [of ?g] t by simp
qed

lemma get_graph_total:
  assumes "find_workflow ws w db = Some r"
  obtains g where "get_graph ws w db = Inr (Some g)" "gr_version g = wr_version r"
    "from_actions r (workflow_actions w db) = Inr (gr_graph g)"
proof -
  obtain gg where "from_actions r (workflow_actions w db) = Inr gg" by (rule from_actions_graph)
  moreover have "wr_id r = w" using find_workflow_SomeD [OF assms] by simp
  ultimately show ?thesis
    using that [of "\<lparr>gr_version = wr_version r, gr_graph = gg, gr_viewport = (wr_viewport_x r, wr_viewport_y r, wr_viewport_zoom r)\<rparr>"]
    by (simp add: get_graph_def assms graph_response_of_def)
qed

lemma find_workflow_bump:
  assumes "find_workflow ws w db = Some r"
  shows "find_workflow ws w (update_workflow ws w (\<lambda>r. r\<lparr>wr_version := wr_version r + 1\<rparr>) db) = Some (r\<lparr>wr_version := wr_version r + 1\<rparr>)"
proof -
  have "List.find P xs = Some r \<Longrightarrow> (\<And>x. P (f x) = P x) \<Longrightarrow> List.find P (map (\<lambda>x. if P x then f x else x) xs) = Some (f r)"
    for P and f :: "wf_row \<Rightarrow> wf_row" and xs by (induction xs) (auto split: if_splits)
  then show ?thesis using assms by (simp add: find_workflow_def update_workflow_def)
qed

lemma bump_other_rows:
  "other_rows ws w (update_workflow ws w (\<lambda>r. r\<lparr>wr_version := v r\<rparr>) db) = other_rows ws w db"
proof -
  have "filter (\<lambda>r. \<not> (wr_workspace r = ws \<and> wr_id r = w))
      (map (\<lambda>r. if wr_workspace r = ws \<and> wr_id r = w then r\<lparr>wr_version := v r\<rparr> else r) (g_workflows db))
    = filter (\<lambda>r. \<not> (wr_workspace r = ws \<and> wr_id r = w)) (g_workflows db)"
    by (intro filter_map_same) auto
  then show ?thesis by (simp add: other_rows_def update_workflow_def)
qed

lemma apply_operations_cases:
  assumes "apply_operations db_uuid ws w v ops db = (res, db')" "find_workflow ws w db = Some r"
  shows "(wr_version r \<noteq> v \<longrightarrow> db' = db \<and> (\<exists>g. get_graph ws w db = Inr (Some g) \<and> res = Inl (Conflict (wr_version r) (gr_graph g)))) \<and>
    (wr_version r = v \<longrightarrow> (\<exists>e. res = Inl e \<and> rfold (apply_operation db_uuid ws w) ops db = Inl e \<and> db' = db) \<or>
      (\<exists>db1 g. rfold (apply_operation db_uuid ws w) ops db = Inr db1 \<and> res = Inr (Some g) \<and> get_graph ws w db' = Inr (Some g) \<and>
        gr_version g = v + (if list_ex is_structural ops then 1 else 0) \<and> other_rows ws w db' = other_rows ws w db1 \<and>
        find_workflow ws w db' \<noteq> None))"
proof (intro conjI impI)
  assume v: "wr_version r \<noteq> v"
  obtain g where "get_graph ws w db = Inr (Some g)" "from_actions r (workflow_actions w db) = Inr (gr_graph g)"
    using get_graph_total [OF assms(2)] by blast
  then show "db' = db" "\<exists>g. get_graph ws w db = Inr (Some g) \<and> res = Inl (Conflict (wr_version r) (gr_graph g))"
    using assms v by (auto simp: apply_operations_def)
next
  assume v: "wr_version r = v"
  show "(\<exists>e. res = Inl e \<and> rfold (apply_operation db_uuid ws w) ops db = Inl e \<and> db' = db) \<or>
      (\<exists>db1 g. rfold (apply_operation db_uuid ws w) ops db = Inr db1 \<and> res = Inr (Some g) \<and> get_graph ws w db' = Inr (Some g) \<and>
        gr_version g = v + (if list_ex is_structural ops then 1 else 0) \<and> other_rows ws w db' = other_rows ws w db1 \<and>
        find_workflow ws w db' \<noteq> None)"
  proof (cases "rfold (apply_operation db_uuid ws w) ops db")
    case (Inl e)
    then show ?thesis using assms v by (simp add: apply_operations_def)
  next
    case (Inr db1)
    obtain r1 where r1: "find_workflow ws w db1 = Some r1" "wr_version r1 = v"
      using frame_find_workflow [OF operations_frame [OF Inr] assms(2)] v by auto
    obtain r2 where r2: "find_workflow ws w db' = Some r2" "wr_version r2 = v + (if list_ex is_structural ops then 1 else 0)"
      using assms v Inr r1 find_workflow_bump [OF r1(1)]
      by (cases "list_ex is_structural ops") (auto simp: apply_operations_def Let_def)
    obtain g where g: "get_graph ws w db' = Inr (Some g)" "gr_version g = wr_version r2"
      using get_graph_total [OF r2(1)] by blast
    have "other_rows ws w db' = other_rows ws w db1"
      using assms v Inr bump_other_rows by (auto simp: apply_operations_def Let_def)
    then show ?thesis using assms v Inr r2 g by (auto simp: apply_operations_def Let_def)
  qed
qed

text \<open>Optimistic concurrency and isolation: a request that succeeds was made against the current version, returns the
  graph now stored, raises the version by one exactly when it has a structural operation, and touches no other
  workflow; a request that fails changes nothing, and one made against another version fails with the current graph.\<close>

lemma graph_request_versioned:
  assumes "apply_operations db_uuid ws w v ops db = (res, db')" "find_workflow ws w db = Some r"
  shows "other_rows ws w db' = other_rows ws w db \<and>
    (case res of
       Inl e \<Rightarrow> db' = db \<and> (wr_version r \<noteq> v \<longrightarrow> (\<exists>g. get_graph ws w db = Inr (Some g) \<and> e = Conflict (wr_version r) (gr_graph g)))
     | Inr None \<Rightarrow> False
     | Inr (Some g) \<Rightarrow> wr_version r = v \<and> get_graph ws w db' = Inr (Some g) \<and>
         gr_version g = v + (if list_ex is_structural ops then 1 else 0))"
  using apply_operations_cases [OF assms] operations_frame [of db_uuid ws w ops db]
  by (cases "wr_version r = v") (auto simp: frame_def)

text \<open>C17: No lost update: of two requests made against one version, when the first has a structural operation and
  succeeds, the second changes nothing and is answered with the conflict and the graph the first one left.\<close>

theorem graph_no_lost_update:
  assumes "apply_operations db_uuid ws w v ops db = (Inr (Some g), db1)" "list_ex is_structural ops"
  shows "apply_operations db_uuid ws w v ops' db1 = (Inl (Conflict (v + 1) (gr_graph g)), db1)"
proof -
  obtain r where r: "find_workflow ws w db = Some r"
    using assms(1) by (auto simp: apply_operations_def split: option.splits)
  have v: "wr_version r = v" and g: "get_graph ws w db1 = Inr (Some g)" "gr_version g = v + 1" "find_workflow ws w db1 \<noteq> None"
    using apply_operations_cases [OF assms(1) r] assms(2) by (cases "wr_version r = v", auto)
  obtain r1 where r1: "find_workflow ws w db1 = Some r1" using g(3) by blast
  obtain g1 where g1: "get_graph ws w db1 = Inr (Some g1)" "gr_version g1 = wr_version r1" using get_graph_total [OF r1] by blast
  obtain res db2 where res: "apply_operations db_uuid ws w v ops' db1 = (res, db2)" by fastforce
  have "wr_version r1 = v + 1" using g g1 by simp
  then have "db2 = db1 \<and> (\<exists>g. get_graph ws w db1 = Inr (Some g) \<and> res = Inl (Conflict (v + 1) (gr_graph g)))"
    using apply_operations_cases [OF res r1] by simp
  then show ?thesis using res g(1) by auto
qed

section \<open>Edges\<close>

lemma find_action_update:
  assumes "\<And>a. action_key (f a) = action_key a"
  shows "find_action ws w t (update_actions (\<lambda>a. in_scope ws w a \<and> ar_id a = i) f db) =
    map_option (if t = i then f else (\<lambda>a. a)) (find_action ws w t db)"
proof -
  have k: "in_scope ws w (f a) = in_scope ws w a \<and> ar_id (f a) = ar_id a" for a
    using assms [of a] by (simp add: in_scope_def action_key_def)
  have "List.find (\<lambda>a. in_scope ws w a \<and> ar_id a = t) (map (\<lambda>a. if in_scope ws w a \<and> ar_id a = i then f a else a) xs) =
      map_option (if t = i then f else (\<lambda>a. a)) (List.find (\<lambda>a. in_scope ws w a \<and> ar_id a = t) xs)" for xs
    using k by (induction xs) auto
  then show ?thesis by (simp add: find_action_def update_actions_def)
qed

lemma set_upstream_find:
  assumes "set_upstream ws w i f db = Inr db'"
  shows "find_action ws w t db' = map_option (if t = i then (\<lambda>a. a\<lparr>ar_upstream := f (ar_upstream a)\<rparr>) else (\<lambda>a. a)) (find_action ws w t db)"
    and "find_action ws w i db \<noteq> None"
proof -
  have "db' = update_actions (\<lambda>a. in_scope ws w a \<and> ar_id a = i) (\<lambda>a. a\<lparr>ar_upstream := f (ar_upstream a)\<rparr>) db"
    and "find_action ws w i db \<noteq> None"
    using assms by (auto simp: set_upstream_def split: option.splits)
  then show "find_action ws w t db' = map_option (if t = i then (\<lambda>a. a\<lparr>ar_upstream := f (ar_upstream a)\<rparr>) else (\<lambda>a. a)) (find_action ws w t db)"
    and "find_action ws w i db \<noteq> None" by (simp_all add: find_action_update action_key_def)
qed

text \<open>Adding an edge leaves the target with exactly one edge from that source, the new one with its handle, and keeps
  all its other edges and every other action; so a success edge and an error edge from one source exclude each other.
  Deleting the edge afterwards removes it and nothing else.\<close>

lemma add_edge_replaces:
  assumes "add_edge db_uuid ws w p db = Inr db'" "find_action ws w t db = Some a"
  shows "\<exists>a' db'' a''. find_action ws w t db' = Some a' \<and> delete_edge ws w p db' = Inr db'' \<and> find_action ws w t db'' = Some a'' \<and>
    (if t = ep_target_id p
     then filter (same_source p) (ar_upstream a') = [new_edge p] \<and>
       filter (\<lambda>e. \<not> same_source p e) (ar_upstream a') = filter (\<lambda>e. \<not> same_source p e) (ar_upstream a) \<and>
       a'' = a\<lparr>ar_upstream := filter (\<lambda>e. \<not> same_source p e) (ar_upstream a)\<rparr>
     else a' = a \<and> a'' = a)"
proof -
  have st: "set_upstream ws w (ep_target_id p) (\<lambda>es. filter (\<lambda>e. \<not> same_source p e) es @ [new_edge p]) db = Inr db'"
    using assms(1) by (auto simp: add_edge_def split: option.splits)
  note f1 = set_upstream_find [OF st]
  have "find_action ws w (ep_target_id p) db' \<noteq> None" using f1 by auto
  then obtain db'' where del: "delete_edge ws w p db' = Inr db''" by (auto simp: delete_edge_def set_upstream_def)
  note f2 = set_upstream_find(1) [OF del [unfolded delete_edge_def]]
  have new: "same_source p (new_edge p)" by (simp add: same_source_def new_edge_def)
  show ?thesis
  proof (cases "t = ep_target_id p")
    case True
    then show ?thesis using f1(1) [of t] f2 [of t] del new assms(2) by simp
  next
    case False
    then show ?thesis using f1(1) [of t] f2 [of t] del assms(2) by simp
  qed
qed

section \<open>Views of the graph\<close>

lemma edge_of_refs [simp]: "re_source (edge_of a e) = RText (ue_source_id e)" "re_target (edge_of a e) = RUuid (ar_id a)"
  by (simp_all add: edge_of_def Let_def)

definition non_trigger :: "up_edge \<Rightarrow> bool" where
  "non_trigger e \<longleftrightarrow> ue_source_type e \<noteq> Some Trigger_source"

text \<open>The actions that have an edge from an action, one entry per edge, as the rows have them.\<close>

definition targets_of :: "action_row list \<Rightarrow> uuid \<Rightarrow> uuid list" where
  "targets_of acts i = concat (map (\<lambda>b. map (\<lambda>_. ar_id b)
     (filter (\<lambda>e. non_trigger e \<and> ue_source_id e = uuid_str i) (ar_upstream b))) acts)"

lemma adj_edges:
  assumes "distinct ids" "\<forall>e\<in>set es. \<exists>i\<in>set ids. \<exists>t. re_source e = RText (uuid_str i) \<and> re_target e = RUuid t"
  shows "rfold adj_edge es (map (\<lambda>i. (i, f i)) ids) =
    Inr (map (\<lambda>i. (i, f i @ map (\<lambda>e. case re_target e of RUuid t \<Rightarrow> t)
      (filter (\<lambda>e. re_source e = RText (uuid_str i)) es))) ids)"
  using assms(2)
proof (induction es arbitrary: f)
  case Nil
  then show ?case by simp
next
  case (Cons e es)
  then obtain i t where e: "i \<in> set ids" "re_source e = RText (uuid_str i)" "re_target e = RUuid t" by auto
  have up: "AList.update i v (map (\<lambda>i. (i, f i)) ids) = map (\<lambda>j. (j, if j = i then v else f j)) ids" for v
    using e(1) assms(1) by (induction ids) auto
  have "map_of (map (\<lambda>i. (i, f i)) ids) i = Some (f i)" using e(1) by (simp add: map_of_map_restrict)
  then have "adj_edge e (map (\<lambda>i. (i, f i)) ids) = Inr (map (\<lambda>j. (j, if j = i then f i @ [t] else f j)) ids)"
    by (simp add: adj_edge_def e(2,3) ref_uuid_def uuid_parse_str up)
  moreover have "re_source e = RText (uuid_str j) \<longleftrightarrow> j = i" for j using e(2) uuid_str_inj by auto
  ultimately show ?case using Cons.IH [of "\<lambda>j. if j = i then f i @ [t] else f j"] Cons.prems e(3) by auto
qed

lemma deg_edges:
  assumes "\<forall>e\<in>set es. \<exists>t. re_target e = RUuid t"
  shows "\<exists>deg. rfold deg_edge es d = Inr deg \<and>
    (\<forall>t. (case dget deg t of None \<Rightarrow> 0 | Some k \<Rightarrow> k) =
      (case dget d t of None \<Rightarrow> 0 | Some k \<Rightarrow> k) + length (filter (\<lambda>e. re_target e = RUuid t) es))"
  using assms
proof (induction es arbitrary: d)
  case Nil
  then show ?case by simp
next
  case (Cons e es)
  then obtain t where t: "re_target e = RUuid t" by auto
  define k where "k = (case dget d t of None \<Rightarrow> 0 | Some n \<Rightarrow> n) + 1"
  have st: "deg_edge e d = Inr (dset t k d)" by (simp add: deg_edge_def t ref_uuid_def uuid_parse_str k_def)
  obtain deg where deg: "rfold deg_edge es (dset t k d) = Inr deg"
    "\<forall>u. (case dget deg u of None \<Rightarrow> 0 | Some k \<Rightarrow> k) =
      (case dget (dset t k d) u of None \<Rightarrow> 0 | Some k \<Rightarrow> k) + length (filter (\<lambda>e. re_target e = RUuid u) es)"
    using Cons.IH [of "dset t k d"] Cons.prems by auto
  have "(case dget (dset t k d) u of None \<Rightarrow> 0 | Some k \<Rightarrow> k) =
      (case dget d u of None \<Rightarrow> 0 | Some k \<Rightarrow> k) + (if u = t then 1 else 0)" for u
    by (simp add: update_conv' k_def)
  then show ?case using st deg t by auto
qed

text \<open>The edges of the projection that are not the trigger's.\<close>

definition row_edges :: "action_row list \<Rightarrow> rf_edge list" where
  "row_edges acts = concat (map (\<lambda>a. map (edge_of a) (filter non_trigger (ar_upstream a))) acts)"

lemma projected_edges:
  assumes "consistent db" "from_actions r (workflow_actions w db) = Inr g" "wr_id r = w"
  shows "action_edges g = Inr (row_edges (workflow_actions w db))"
proof -
  let ?acts = "workflow_actions w db"
  obtain h where h: "from_actions r ?acts = Inr h" "rg_edges h = concat (map (\<lambda>a. map (edge_of a) (ar_upstream a)) ?acts)"
    "rg_trigger h = Inr (TriggerNode (trigger_id (wr_id r)) (wr_trigger_x r) (wr_trigger_y r)
       (if wr_status r = ''online'' then ''online'' else ''offline''))"
    by (rule from_actions_graph)
  then have gh: "g = h" using assms(2) by simp
  have "touches (trigger_id w) (edge_of a e) \<longleftrightarrow> \<not> non_trigger e" if a: "a \<in> set ?acts" "e \<in> set (ar_upstream a)" for a e
  proof -
    have "row_ok (action_keys db) a" "ar_workflow a = w" using assms(1) a(1) by (auto simp: consistent_def workflow_actions_def)
    then have "edge_ok (action_keys db) (ar_workspace a) w e" using row_ok_edge a(2) by metis
    then show ?thesis using uuid_str_not_trigger
      by (auto simp: edge_ok_def touches_def edge_of_def non_trigger_def Let_def split: if_splits) (metis)
  qed
  then have *: "filter (\<lambda>e. \<not> touches (trigger_id w) e) (map (edge_of a) (ar_upstream a)) = map (edge_of a) (filter non_trigger (ar_upstream a))"
    if "a \<in> set ?acts" for a using that by (auto simp: filter_map comp_def intro!: arg_cong [of _ _ "map (edge_of a)"] filter_cong)
  then have "filter (\<lambda>e. \<not> touches (trigger_id w) e) (rg_edges g) = row_edges ?acts"
    by (auto simp: gh h(2) row_edges_def filter_concat comp_def intro!: arg_cong [of _ _ concat])
  moreover have "rg_edges g = [] \<Longrightarrow> row_edges ?acts = []" using calculation by simp
  ultimately show ?thesis using h(3) assms(3) by (cases "rg_edges g = []") (simp_all add: action_edges_def gh)
qed

lemma row_edges_refs:
  assumes "consistent db" "e \<in> set (row_edges (workflow_actions w db))"
  shows "\<exists>i\<in>set (map ar_id (workflow_actions w db)). \<exists>t\<in>set (map ar_id (workflow_actions w db)).
    re_source e = RText (uuid_str i) \<and> re_target e = RUuid t"
proof -
  obtain a u where a: "a \<in> set (g_actions db)" "ar_workflow a = w" "u \<in> set (ar_upstream a)" "non_trigger u" "e = edge_of a u"
    using assms(2) by (auto simp: row_edges_def workflow_actions_def)
  have "row_ok (action_keys db) a" using assms(1) a(1) by (simp add: consistent_def)
  then obtain i where i: "(ar_workspace a, w, i) \<in> action_keys db" "ue_source_id u = uuid_str i"
    using edge_ok_source [OF row_ok_edge [OF _ a(3)]] a(2,4) by (auto simp: non_trigger_def)
  then obtain b where b: "b \<in> set (g_actions db)" "ar_workflow b = w" "ar_id b = i" by (auto simp: action_keys_def action_key_def)
  have "re_source e = RText (uuid_str i)" "re_target e = RUuid (ar_id a)" by (simp_all add: a(5) i(2))
  then show ?thesis using a(1,2) b by (auto simp: workflow_actions_def)
qed

lemma row_edges_targets:
  "map (\<lambda>e. case re_target e of RUuid t \<Rightarrow> t) (filter (\<lambda>e. re_source e = RText (uuid_str i)) (row_edges acts)) = targets_of acts i"
proof -
  have "map (\<lambda>e. case re_target e of RUuid t \<Rightarrow> t) (filter (\<lambda>e. re_source e = RText (uuid_str i)) (map (edge_of a) es)) =
      map (\<lambda>_. ar_id a) (filter (\<lambda>e. ue_source_id e = uuid_str i) es)" for a es
    by (induction es) auto
  note row = this
  show ?thesis
    by (induction acts) (simp_all add: row_edges_def targets_of_def row conj_commute del: map_map)
qed

lemma foldl_dset_fresh:
  "distinct (map f xs) \<Longrightarrow> set (map f xs) \<inter> set (dkeys m) = {} \<Longrightarrow> foldl (\<lambda>m x. dset (f x) v m) m xs = m @ map (\<lambda>x. (f x, v)) xs"
proof (induction xs arbitrary: m)
  case Nil
  then show ?case by simp
next
  case (Cons x xs)
  have "dset (f x) v m = m @ [(f x, v)]" using Cons.prems(2) by (induction m) auto
  then show ?case using Cons by simp
qed

text \<open>On consistent rows the graph read from the service has all its views: its adjacency lists are, for each
  action, the actions with an edge from it, in the order of the rows, and its entry points are the actions with no
  edge from an action.\<close>

lemma graph_views:
  assumes "consistent db" "find_workflow ws w db = Some r" "acts = workflow_actions w db"
  shows "\<exists>g. get_graph ws w db = Inr (Some g) \<and>
    adj_list (gr_graph g) = Inr (map (\<lambda>a. (ar_id a, targets_of acts (ar_id a))) acts) \<and>
    entrypoints (gr_graph g) = Inr (map (\<lambda>a. UDFNode (ar_id a) (ar_x a) (ar_y a) (ar_type a))
      (filter (\<lambda>a. \<not> list_ex non_trigger (ar_upstream a)) acts))"
proof -
  obtain g where g: "get_graph ws w db = Inr (Some g)" "from_actions r acts = Inr (gr_graph g)"
    using get_graph_total [OF assms(2)] assms(3) by metis
  have w: "wr_id r = w" using find_workflow_SomeD [OF assms(2)] by simp
  have nodes: "action_nodes (gr_graph g) = map (\<lambda>a. UDFNode (ar_id a) (ar_x a) (ar_y a) (ar_type a)) acts"
    using g(2) from_actions_graph [of r acts] by (metis sum.inject(2))
  have es: "action_edges (gr_graph g) = Inr (row_edges acts)"
    using projected_edges [OF assms(1) _ w] g(2) assms(3) by simp
  have d: "distinct (map ar_id acts)" using assms(1,3) by (simp add: consistent_def workflow_actions_def distinct_map_filter)
  note refs = row_edges_refs [OF assms(1), of _ w, folded assms(3)]
  have "foldl (\<lambda>m n. dset (un_id n) ([] :: uuid list) m) [] (action_nodes (gr_graph g)) = map (\<lambda>i. (i, [])) (map ar_id acts)"
    using foldl_dset_fresh [of "un_id" "action_nodes (gr_graph g)" "[]" "[] :: uuid list"] d by (simp add: nodes comp_def)
  moreover have "rfold adj_edge (row_edges acts) (map (\<lambda>i. (i, [])) (map ar_id acts)) =
      Inr (map (\<lambda>a. (ar_id a, targets_of acts (ar_id a))) acts)"
    using adj_edges [OF d, of "row_edges acts" "\<lambda>_. []"] refs by (fastforce simp: row_edges_targets comp_def)
  ultimately have adj: "adj_list (gr_graph g) = Inr (map (\<lambda>a. (ar_id a, targets_of acts (ar_id a))) acts)"
    by (simp add: adj_list_def es)
  obtain deg where deg: "rfold deg_edge (row_edges acts) [] = Inr deg"
    "\<And>t. (case dget deg t of None \<Rightarrow> 0 | Some k \<Rightarrow> k) = length (filter (\<lambda>e. re_target e = RUuid t) (row_edges acts))"
    using deg_edges [of "row_edges acts" "[]"] refs by fastforce
  have "(case dget deg (ar_id a) of None \<Rightarrow> True | Some k \<Rightarrow> k = 0) \<longleftrightarrow> \<not> list_ex non_trigger (ar_upstream a)"
    if a: "a \<in> set acts" for a
  proof -
    have "(case dget deg (ar_id a) of None \<Rightarrow> True | Some k \<Rightarrow> k = 0) \<longleftrightarrow> filter (\<lambda>e. re_target e = RUuid (ar_id a)) (row_edges acts) = []"
      using deg(2) [of "ar_id a"] by (auto split: option.splits)
    also have "\<dots> \<longleftrightarrow> (\<forall>b\<in>set acts. ar_id b = ar_id a \<longrightarrow> \<not> list_ex non_trigger (ar_upstream b))"
      by (auto simp: filter_empty_conv row_edges_def list_ex_iff)
    also have "\<dots> \<longleftrightarrow> \<not> list_ex non_trigger (ar_upstream a)"
      using a d by (metis distinct_map inj_onD)
    finally show ?thesis .
  qed
  then have "entrypoints (gr_graph g) = Inr (map (\<lambda>a. UDFNode (ar_id a) (ar_x a) (ar_y a) (ar_type a))
      (filter (\<lambda>a. \<not> list_ex non_trigger (ar_upstream a)) acts))"
    by (simp add: entrypoints_def indegree_def es deg(1) nodes filter_map comp_def cong: filter_cong)
  then show ?thesis using g(1) adj by blast
qed

text \<open>Normalising the action identifiers of a graph changes nothing: a node already holds a UUID, which renders
  canonically, so the mapping of identifiers is empty.\<close>

lemma normalize_action_ids_id: "normalize_action_ids g = Inr g"
proof -
  have "foldl (\<lambda>m n. if \<not> is_udf n then m
                  else case uuid_new ActionUUID (IdUuid (un_id n)) of
                         Inl _ \<Rightarrow> m
                       | Inr u \<Rightarrow> if uuid_str u \<noteq> uuid_str (un_id n) then dset (uuid_str (un_id n)) (uuid_str u) m else m) [] ns = []" for ns
    by (induction ns) (simp_all add: uuid_new_def)
  then show ?thesis by (simp add: normalize_action_ids_def id_mapping_def)
qed

section \<open>Identifiers that are not canonical\<close>

lemma uuid_hex_not_str: "uuid_hex i \<noteq> uuid_str j"
proof -
  have "CHR ''-'' \<in> set (uuid_str j)" by (simp add: uuid_str_alt)
  moreover have "CHR ''-'' \<notin> set (uuid_hex i)" using uuid_hex_props(2) [of "CHR ''-''" i] hex_chars_safe by blast
  ultimately show ?thesis by metis
qed

text \<open>The database reads an identifier also without hyphens. An edge added with such a text is accepted and stored
  as given, and survives the deletion of its source, because the deletion compares canonical texts: the edge dangles.\<close>

lemma noncanonical_edge_dangles:
  assumes "db_uuid (uuid_hex i) = Some i" "find_action ws w i db \<noteq> None" "find_action ws w t db \<noteq> None" "i \<noteq> t"
    and "p = \<lparr>ep_source_id = uuid_hex i, ep_source_type = Udf_source, ep_target_id = t, ep_handle = h\<rparr>"
  shows "\<exists>db1 db2 a. add_edge db_uuid ws w p db = Inr db1 \<and> delete_node ws w i db1 = Inr db2 \<and>
    find_action ws w t db2 = Some a \<and> new_edge p \<in> set (ar_upstream a) \<and> find_action ws w i db2 = None"
proof -
  define f where "f = (\<lambda>a::action_row. a\<lparr>ar_upstream := filter (\<lambda>e. ue_source_id e \<noteq> uuid_str i) (ar_upstream a)\<rparr>)"
  have "check_source db_uuid ws w p db = None" using assms(1,2,5) by (simp add: check_source_def)
  then obtain db1 where st: "set_upstream ws w t (\<lambda>es. filter (\<lambda>e. \<not> same_source p e) es @ [new_edge p]) db = Inr db1"
    and add: "add_edge db_uuid ws w p db = Inr db1"
    using assms(3,5) by (auto simp: add_edge_def set_upstream_def)
  obtain a1 where a1: "find_action ws w t db1 = Some a1" "new_edge p \<in> set (ar_upstream a1)"
    using set_upstream_find(1) [OF st, of t] assms(3) by auto
  define db2 where "db2 = (update_actions (in_scope ws w) f db1)\<lparr>g_actions :=
    filter (\<lambda>a. \<not> (in_scope ws w a \<and> ar_id a = i)) (g_actions (update_actions (in_scope ws w) f db1))\<rparr>"
  have del: "delete_node ws w i db1 = Inr db2" by (simp add: delete_node_def Let_def db2_def f_def)
  have sc: "in_scope ws w (f a) = in_scope ws w a" "ar_id (f a) = ar_id a" for a by (simp_all add: f_def in_scope_def)
  have "List.find (\<lambda>a. in_scope ws w a \<and> ar_id a = j)
      (filter (\<lambda>a. \<not> (in_scope ws w a \<and> ar_id a = i)) (map (\<lambda>a. if in_scope ws w a then f a else a) xs)) =
      (if j = i then None else map_option f (List.find (\<lambda>a. in_scope ws w a \<and> ar_id a = j) xs))" for j xs
    using sc by (induction xs) auto
  then have find2: "find_action ws w j db2 = (if j = i then None else map_option f (find_action ws w j db1))" for j
    by (simp add: find_action_def db2_def update_actions_def)
  have "ue_source_id (new_edge p) \<noteq> uuid_str i" using assms(5) uuid_hex_not_str by (simp add: new_edge_def)
  then have "new_edge p \<in> set (ar_upstream (f a1))" using a1(2) by (simp add: f_def)
  then show ?thesis using add del find2 a1(1) assms(4) by auto
qed

section \<open>Instances\<close>

definition sample_uuid :: "string \<Rightarrow> uuid option" where
  "sample_uuid s = (case uuid_parse s of Inl _ \<Rightarrow> None | Inr u \<Rightarrow> Some u)"

definition sample_wf :: wf_row where
  "sample_wf = \<lparr>wr_id = 1, wr_workspace = 2, wr_status = ''online'', wr_alias = None, wr_version = 0,
     wr_trigger_x = 0, wr_trigger_y = 0, wr_viewport_x = 0, wr_viewport_y = 0, wr_viewport_zoom = 1\<rparr>"

definition sample_node :: "uuid \<Rightarrow> up_edge list \<Rightarrow> action_row" where
  "sample_node i es = \<lparr>ar_id = i, ar_workspace = 2, ar_workflow = 1, ar_type = ''core.noop'', ar_title = ''Step'',
     ar_description = [], ar_status = ''offline'', ar_inputs = [], ar_control_flow = JObj [], ar_is_interactive = False, ar_interaction = JNull, ar_x = 0, ar_y = 0, ar_upstream = es\<rparr>"

definition sample_payload :: node_payload where
  "sample_payload = \<lparr>np_type = ''core.noop'', np_title = ''Step'', np_description = None, np_inputs = None,
     np_control_flow = None, np_x = 0, np_y = 0\<rparr>"

definition sample_link :: edge_payload where
  "sample_link = \<lparr>ep_source_id = uuid_str 10, ep_source_type = Udf_source, ep_target_id = 11, ep_handle = Some Error\<rparr>"

definition sample_db :: "action_row list \<Rightarrow> gdb" where
  "sample_db as = \<lparr>g_workflows = [sample_wf], g_actions = as\<rparr>"

lemma sample_uuid_str [simp]: "sample_uuid (uuid_str u) = Some u"
  by (simp add: sample_uuid_def uuid_parse_str)

lemma sample_find_workflow [simp]: "find_workflow 2 1 (sample_db as) = Some sample_wf"
  by (simp add: find_workflow_def sample_db_def sample_wf_def)

lemma sample_find_action [simp]:
  "find_action 2 1 i (sample_db (sample_node j es # as)) =
     (if i = j then Some (sample_node j es) else find_action 2 1 i (sample_db as))"
  "find_action 2 1 i (sample_db []) = None"
  by (simp_all add: find_action_def sample_db_def sample_node_def in_scope_def)

lemma sample_consistent: "consistent (sample_db [sample_node 10 [], sample_node 11 [new_edge sample_link]])"
  by (auto simp: consistent_def sample_db_def sample_node_def sample_wf_def row_ok_def action_keys_def action_key_def
      edge_ok_def new_edge_def sample_link_def)

theorem graph_stays_consistent_witness:
  "consistent (foldl (serve sample_uuid) (sample_db [])
     [\<lparr>rq_workspace = 2, rq_workflow = 1, rq_base_version = 0,
       rq_operations = [Add_node 10 sample_payload, Add_node 11 sample_payload, Add_edge sample_link]\<rparr>,
      \<lparr>rq_workspace = 2, rq_workflow = 1, rq_base_version = 1, rq_operations = [Delete_node 10]\<rparr>])"
  by (rule graph_stays_consistent) (auto simp: consistent_def sample_db_def action_keys_def sample_link_def)

lemma graph_request_versioned_witness:
  "other_rows 2 1 (snd (apply_operations sample_uuid 2 1 7 [Delete_node 10] (sample_db []))) = other_rows 2 1 (sample_db [])"
  using graph_request_versioned [of sample_uuid 2 1 7 "[Delete_node 10]" "sample_db []", OF prod.collapse [symmetric] sample_find_workflow]
  by blast

theorem graph_no_lost_update_witness:
  "\<exists>g db1. apply_operations sample_uuid 2 1 0 [Add_node 10 sample_payload] (sample_db []) = (Inr (Some g), db1) \<and>
     apply_operations sample_uuid 2 1 0 [Delete_node 10] db1 = (Inl (Conflict 1 (gr_graph g)), db1)"
proof -
  let ?p = "apply_operations sample_uuid 2 1 0 [Add_node 10 sample_payload] (sample_db [])"
  have v: "wr_version sample_wf = 0" by (simp add: sample_wf_def)
  have ok: "\<not> (\<exists>e. rfold (apply_operation sample_uuid 2 1) [Add_node 10 sample_payload] (sample_db []) = Inl e)"
    by (simp add: add_node_def sample_db_def)
  obtain g where g: "fst ?p = Inr (Some g)"
    using apply_operations_cases [of sample_uuid 2 1 0 "[Add_node 10 sample_payload]" "sample_db []", OF prod.collapse [symmetric] sample_find_workflow] v ok
    by auto
  then have p: "?p = (Inr (Some g), snd ?p)" by (metis prod.collapse)
  have "list_ex is_structural [Add_node 10 sample_payload]" by simp
  from graph_no_lost_update [OF p this, of "[Delete_node 10]"] p show ?thesis by (metis add_0)
qed

lemma add_edge_replaces_witness:
  "\<exists>db' a'. add_edge sample_uuid 2 1 sample_link (sample_db [sample_node 10 [], sample_node 11 []]) = Inr db' \<and>
     find_action 2 1 11 db' = Some a' \<and> filter (same_source sample_link) (ar_upstream a') = [new_edge sample_link]"
proof -
  let ?db = "sample_db [sample_node 10 [], sample_node 11 []]"
  obtain db' where "add_edge sample_uuid 2 1 sample_link ?db = Inr db'"
    by (simp add: add_edge_def check_source_def set_upstream_def sample_link_def)
  from add_edge_replaces [OF this, of 11 "sample_node 11 []"] this show ?thesis by (auto simp: sample_link_def)
qed

lemma graph_views_witness:
  "\<exists>g. get_graph 2 1 (sample_db [sample_node 10 [], sample_node 11 [new_edge sample_link]]) = Inr (Some g) \<and>
     adj_list (gr_graph g) = Inr [(10, [11]), (11, [])] \<and> entrypoints (gr_graph g) = Inr [UDFNode 10 0 0 ''core.noop'']"
proof -
  let ?as = "[sample_node 10 [], sample_node 11 [new_edge sample_link]]"
  have acts: "?as = workflow_actions 1 (sample_db ?as)" by (simp add: workflow_actions_def sample_db_def sample_node_def)
  have "(uuid_str 10 = uuid_str 11) = False" using uuid_str_inj [of 10 11] by auto
  then have "targets_of ?as 10 = [11]" "targets_of ?as 11 = []"
    by (simp_all add: targets_of_def sample_node_def new_edge_def sample_link_def non_trigger_def)
  with graph_views [OF sample_consistent sample_find_workflow acts] show ?thesis
    by (simp add: sample_node_def new_edge_def sample_link_def non_trigger_def)
qed

lemma noncanonical_edge_dangles_witness:
  "\<exists>db1 db2 a p. add_edge sample_uuid 2 1 p (sample_db [sample_node 10 [], sample_node 11 []]) = Inr db1 \<and>
     delete_node 2 1 10 db1 = Inr db2 \<and> find_action 2 1 11 db2 = Some a \<and> new_edge p \<in> set (ar_upstream a) \<and>
     find_action 2 1 10 db2 = None"
proof -
  have "sample_uuid (uuid_hex 10) = Some 10" by (simp add: sample_uuid_def uuid_parse_hex)
  from noncanonical_edge_dangles [where db_uuid = sample_uuid and i = 10 and t = 11 and ws = 2 and w = 1 and h = None
      and db = "sample_db [sample_node 10 [], sample_node 11 []]", OF this _ _ _ refl]
  show ?thesis by auto
qed

end
