(* ===== verification/Management_Correct.thy ===== *)
theory Management_Correct
  imports Management Graph_Correct
begin

text \<open>
  What survives an import followed by an export, the repair of stale edges, the agreement of the two graphs of
  a workflow, and the resolution of error handlers.
\<close>

section \<open>Import and export\<close>

lemma rmap_Inr_map: "(\<And>x. x \<in> set xs \<Longrightarrow> f x = Inr (g x)) \<Longrightarrow> rmap f xs = Inr (map g xs)"
  by (induction xs) auto

lemma rmap_map: "rmap f (map g xs) = rmap (\<lambda>x. f (g x)) xs"
  by (induction xs) auto

lemma map_of_foldl_dset:
  "distinct (map f xs) \<Longrightarrow> map_of (foldl (\<lambda>m x. dset (f x) (g x) m) m xs) k =
     (case List.find (\<lambda>x. f x = k) xs of None \<Rightarrow> map_of m k | Some x \<Rightarrow> Some (g x))"
proof (induction xs arbitrary: m)
  case Nil
  then show ?case by simp
next
  case (Cons x xs)
  have "List.find (\<lambda>y. f y = f x) xs = None" using Cons.prems by (auto simp: find_None_iff image_iff)
  then show ?case using Cons by (auto simp: update_conv' split: option.splits)
qed

text \<open>What is left of a statement: its description, environment and interaction are gone, and of its dependencies
  only the plain references remain, sorted.\<close>

definition imported :: "string set \<Rightarrow> action_stmt \<Rightarrow> action_stmt" where
  "imported refs a = a\<lparr>stmt_description := [], stmt_interaction := JNull, stmt_environment := None,
     stmt_depends_on := sort (filter (\<lambda>d. d \<in> refs) (stmt_depends_on a))\<rparr>"

lemma foldl_maps: "foldl (\<lambda>rows a. map (h a) rows) rows as = map (\<lambda>r. foldl (\<lambda>r a. h a r) r as) rows"
  by (induction as arbitrary: rows) (simp_all add: comp_def)

lemma foldl_once:
  assumes "\<And>a r. P a (f a r) = P a r" "distinct as" "a \<in> set as" "\<And>b r. b \<in> set as \<Longrightarrow> P b r \<longleftrightarrow> (b = a \<and> Q r)"
    and "Q r" "\<And>b r. Q r \<Longrightarrow> Q (f b r)"
  shows "foldl (\<lambda>r b. if P b r then f b r else r) r as = f a r"
proof -
  have id: "foldl (\<lambda>r b. if P b r then f b r else r) r bs = r" if "a \<notin> set bs" "set bs \<subseteq> set as" for bs r
    using that assms(4) by (induction bs arbitrary: r) auto
  obtain us vs where sp: "as = us @ a # vs" "a \<notin> set us" "a \<notin> set vs"
    using assms(2,3) by (metis distinct.simps(2) distinct_append in_set_conv_decomp not_distinct_conv_prefix split_list)
  have "P a r" using assms(3,4,5) by blast
  moreover have "set us \<subseteq> set as" "set vs \<subseteq> set as" using sp(1) by auto
  ultimately show ?thesis using id [OF sp(2), of r] id [OF sp(3), of "f a r"] by (simp add: sp(1))
qed

text \<open>What is assumed of an import: one fresh identifier per action, distinct references, and each reference the slug
  of its title.\<close>

definition importable :: "dsl_lib \<Rightarrow> uuid list \<Rightarrow> action_stmt list \<Rightarrow> bool" where
  "importable lib fresh as \<longleftrightarrow> length fresh = length as \<and> distinct fresh \<and> distinct (map stmt_ref as) \<and>
     (\<forall>a\<in>set as. lib_slugify lib (stmt_title a) = stmt_ref a \<and> lib_cf_dump lib (stmt_control_flow a) \<noteq> None)"

text \<open>The libraries read back what they wrote for these actions.\<close>

definition lib_laws :: "dsl_lib \<Rightarrow> action_stmt list \<Rightarrow> bool" where
  "lib_laws lib as \<longleftrightarrow> (\<forall>a\<in>set as. lib_yaml_load lib (lib_yaml_dump lib (stmt_args a)) = Some (JObj (stmt_args a)) \<and>
     (\<forall>j. lib_cf_dump lib (stmt_control_flow a) = Some j \<longrightarrow> lib_cf_validate lib j = Some (stmt_control_flow a)))"

definition import_row :: "dsl_lib \<Rightarrow> uuid \<Rightarrow> uuid \<Rightarrow> uuid \<times> action_stmt \<Rightarrow> action_row" where
  "import_row lib ws w p =
     \<lparr>ar_id = fst p, ar_workspace = ws, ar_workflow = w, ar_type = stmt_action (snd p), ar_title = stmt_title (snd p),
      ar_description = stmt_description (snd p), ar_status = ''offline'', ar_inputs = lib_yaml_dump lib (stmt_args (snd p)),
      ar_control_flow = the (lib_cf_dump lib (stmt_control_flow (snd p))), ar_is_interactive = False, ar_interaction = JNull,
      ar_x = 0, ar_y = 0, ar_upstream = []\<rparr>"

definition imported_row :: "dsl_lib \<Rightarrow> uuid \<Rightarrow> uuid \<Rightarrow> (uuid \<times> action_stmt) list \<Rightarrow> uuid \<times> action_stmt \<Rightarrow> action_row" where
  "imported_row lib ws w ps p = (import_row lib ws w p)\<lparr>ar_upstream := upstream_of (ref_to_action ps) w (snd p)\<rparr>"

lemma zip_facts:
  assumes "importable lib fresh as" "ps = zip fresh as"
  shows "map fst ps = fresh" "map snd ps = as" "distinct (map (stmt_ref \<circ> snd) ps)" "distinct ps"
    "\<And>p. p \<in> set ps \<Longrightarrow> dget (ref_to_action ps) (stmt_ref (snd p)) = Some (fst p)"
    "\<And>r u. dget (ref_to_action ps) r = Some u \<Longrightarrow> \<exists>p\<in>set ps. stmt_ref (snd p) = r \<and> fst p = u"
proof -
  show f: "map fst ps = fresh" "map snd ps = as" using assms by (simp_all add: importable_def)
  have "distinct (map stmt_ref (map snd ps))" using f assms(1) by (simp add: importable_def)
  then show d: "distinct (map (stmt_ref \<circ> snd) ps)" by simp
  show "distinct ps" using f(1) assms(1) by (metis distinct_map importable_def)
  have look: "dget (ref_to_action ps) r = map_option fst (List.find (\<lambda>p. stmt_ref (snd p) = r) ps)" for r
    using map_of_foldl_dset [of "stmt_ref \<circ> snd" ps fst "[]" r] d
    by (simp add: ref_to_action_def comp_def split: option.splits)
  show "dget (ref_to_action ps) (stmt_ref (snd p)) = Some (fst p)" if p: "p \<in> set ps" for p
  proof -
    obtain q where q: "List.find (\<lambda>q. stmt_ref (snd q) = stmt_ref (snd p)) ps = Some q" "q \<in> set ps" "stmt_ref (snd q) = stmt_ref (snd p)"
      by (rule find_ex [of p ps "\<lambda>q. stmt_ref (snd q) = stmt_ref (snd p)"]) (use p in auto)
    then have "q = p" using d p by (metis comp_apply distinct_map inj_onD)
    then show ?thesis using q(1) look by simp
  qed
  show "\<exists>p\<in>set ps. stmt_ref (snd p) = r \<and> fst p = u" if "dget (ref_to_action ps) r = Some u" for r u
    using that look [of r] by (auto dest!: find_SomeD)
qed

lemma create_actions_rows:
  assumes "importable lib fresh as" "ps = zip fresh as"
  shows "create_actions_from_dsl lib ws w fresh as = Inr (map (imported_row lib ws w ps) ps)"
proof -
  note z = zip_facts [OF assms]
  have "new_action lib ws w p = Inr (import_row lib ws w p)" if p: "p \<in> set ps" for p
  proof -
    have "snd p \<in> set as" using z(2) p by (metis in_set_conv_nth length_map nth_map nth_mem)
    then have "lib_cf_dump lib (stmt_control_flow (snd p)) \<noteq> None" using assms(1) by (simp add: importable_def)
    then show ?thesis by (auto simp: new_action_def import_row_def split: prod.splits)
  qed
  then have rows: "rmap (new_action lib ws w) ps = Inr (map (import_row lib ws w) ps)" by (rule rmap_Inr_map)
  let ?refs = "ref_to_action ps"
  define h where "h = (\<lambda>a r. if dget ?refs (stmt_ref a) = Some (ar_id r) then r\<lparr>ar_upstream := upstream_of ?refs w a\<rparr> else r :: action_row)"
  have step: "set_edges ?refs w a rs = map (h a) rs" for a rs
    by (auto simp: set_edges_def h_def split: option.splits intro: map_idI)
  have "foldl (\<lambda>r a. h a r) (import_row lib ws w p) as = imported_row lib ws w ps p" if p: "p \<in> set ps" for p
  proof -
    have match: "dget ?refs (stmt_ref b) = Some (ar_id r) \<longleftrightarrow> b = snd p \<and> ar_id r = fst p"
      if b: "b \<in> set as" "ar_id r = fst p" for b and r :: action_row
    proof
      assume "dget ?refs (stmt_ref b) = Some (ar_id r)"
      then obtain q where q: "q \<in> set ps" "stmt_ref (snd q) = stmt_ref b" "fst q = fst p" using z(6) b(2) by metis
      have "inj_on fst (set ps)" using z(1) assms(1) by (metis distinct_map importable_def)
      then have "q = p" using q(1,3) p by (meson inj_onD)
      moreover obtain q' where "q' \<in> set ps" "snd q' = b" using z(2) b(1) by (metis imageE set_map)
      ultimately show "b = snd p \<and> ar_id r = fst p" using q(2) p z(3) b(2)
        by (metis comp_apply distinct_map inj_onD)
    qed (use z(5) [OF p] in auto)
    have "foldl (\<lambda>r b. if dget ?refs (stmt_ref b) = Some (ar_id r) \<and> ar_id r = fst p then r\<lparr>ar_upstream := upstream_of ?refs w b\<rparr> else r)
        (import_row lib ws w p) as = (import_row lib ws w p)\<lparr>ar_upstream := upstream_of ?refs w (snd p)\<rparr>"
    proof (rule foldl_once [where Q = "\<lambda>r. ar_id r = fst p"])
      show "distinct as" using assms(1) by (simp add: importable_def distinct_map)
      show "snd p \<in> set as" using z(2) p by (metis image_eqI set_map)
      show "b \<in> set as \<Longrightarrow> (dget ?refs (stmt_ref b) = Some (ar_id r) \<and> ar_id r = fst p) \<longleftrightarrow> (b = snd p \<and> ar_id r = fst p)" for b and r :: action_row
        using match by blast
    qed (simp_all add: import_row_def)
    moreover have "foldl (\<lambda>r a. h a r) r as = foldl (\<lambda>r b. if dget ?refs (stmt_ref b) = Some (ar_id r) \<and> ar_id r = fst p
        then r\<lparr>ar_upstream := upstream_of ?refs w b\<rparr> else r) r as" if "ar_id r = fst p" for r as
      using that by (induction as arbitrary: r) (simp_all add: h_def)
    ultimately show ?thesis by (simp add: imported_row_def import_row_def)
  qed
  then show ?thesis
    by (simp add: create_actions_from_dsl_def Let_def assms(2) [symmetric] rows step foldl_maps)
qed

lemma trigger_not_uuid: "\<exists>e. uuid_parse (trigger_id w) = Inl e"
proof -
  have str: "c \<in> set (trigger_id w) \<Longrightarrow> c \<in> set ''trigger-'' \<or> lower_hex c" for c
    using uuid_str_props(1) [of c w] by (auto simp: trigger_id_def)
  have "CHR ''u'' \<notin> set (trigger_id w)" "CHR ''{'' \<notin> set (trigger_id w)" "CHR ''}'' \<notin> set (trigger_id w)"
    using str [of "CHR ''u''"] str [of "CHR ''{''"] str [of "CHR ''}''"] by (auto simp: hex_chars_def)
  then have "strip_braces (remove_all ''uuid:'' (remove_all ''urn:'' (trigger_id w))) = trigger_id w"
    by (simp add: remove_all_fresh strip_braces_fresh)
  moreover have "filter (\<lambda>c. c \<noteq> CHR ''-'') (trigger_id w) = ''trigger'' @ uuid_hex w"
    by (simp add: trigger_id_def uuid_str_props(2))
  ultimately show ?thesis using uuid_hex_props(1) [of w] by (simp add: uuid_parse_def)
qed

lemma map_filter_dependencies:
  assumes "\<And>i. i \<in> ran (dget refs) \<Longrightarrow> dget id2 i = Some (row i)" "\<And>d i. dget refs d = Some i \<Longrightarrow> row_ref lib (row i) = d"
  shows "List.map_filter (dependency_of lib id2) (List.map_filter (\<lambda>dep. map_option (\<lambda>i.
             \<lparr>ue_source_id = uuid_str i, ue_source_type = Some Udf_source, ue_handle = Some Success\<rparr>) (dget refs dep)) deps) =
         filter (\<lambda>d. dget refs d \<noteq> None) deps"
proof (induction deps)
  case Nil
  then show ?case by (simp add: List.map_filter_def)
next
  case (Cons d deps)
  show ?case
  proof (cases "dget refs d")
    case None
    then show ?thesis using Cons by (simp add: List.map_filter_simps)
  next
    case (Some i)
    then have "dget id2 i = Some (row i)" using assms(1) by (blast intro: ranI)
    moreover have "uuid_str i \<noteq> []" by (simp add: uuid_str_alt)
    ultimately have "dependency_of lib id2 \<lparr>ue_source_id = uuid_str i, ue_source_type = Some Udf_source, ue_handle = Some Success\<rparr> = Some d"
      using assms(2) [OF Some] by (simp add: dependency_of_def uuid_parse_str)
    then show ?thesis using Cons Some by (simp add: List.map_filter_simps)
  qed
qed

definition imported_index :: "dsl_lib \<Rightarrow> uuid \<Rightarrow> uuid \<Rightarrow> (uuid \<times> action_stmt) list \<Rightarrow> (uuid, action_row) dict" where
  "imported_index lib ws w ps = foldl (\<lambda>m r. dset (ar_id r) r m) [] (map (imported_row lib ws w ps) ps)"

lemma imported_index:
  assumes "importable lib fresh as" "ps = zip fresh as" "p \<in> set ps"
  shows "dget (imported_index lib ws w ps) (fst p) = Some (imported_row lib ws w ps p)"
proof -
  note z = zip_facts [OF assms(1,2)]
  let ?row = "imported_row lib ws w ps"
  have rid: "ar_id (?row q) = fst q" for q by (simp add: imported_row_def import_row_def)
  have "distinct (map ar_id (map ?row ps))" using z(1) assms(1) by (simp add: rid comp_def importable_def)
  then have look: "dget (imported_index lib ws w ps) i = List.find (\<lambda>r. ar_id r = i) (map ?row ps)" for i
    using map_of_foldl_dset [of ar_id "map ?row ps" "\<lambda>r. r" "[]" i] by (simp add: imported_index_def split: option.splits)
  have "inj_on fst (set ps)" using z(1) assms(1) by (metis distinct_map importable_def)
  then have inj: "q \<in> set ps \<Longrightarrow> fst q = fst p \<Longrightarrow> q = p" for q using assms(3) by (meson inj_onD)
  obtain r where r: "List.find (\<lambda>r. ar_id r = fst p) (map ?row ps) = Some r" "r \<in> set (map ?row ps)" "ar_id r = fst p"
    by (rule find_ex [of "?row p" "map ?row ps" "\<lambda>r. ar_id r = fst p"]) (use assms(3) rid in auto)
  then obtain q where q: "q \<in> set ps" "r = ?row q" by auto
  then have "fst q = fst p" using r(3) rid [of q] by simp
  with q have "r = ?row p" using inj by blast
  then show ?thesis using r(1) look by simp
qed

lemma imported_ref:
  assumes "importable lib fresh as" "ps = zip fresh as" "p \<in> set ps"
  shows "snd p \<in> set as" "row_ref lib (imported_row lib ws w ps p) = stmt_ref (snd p)"
proof -
  show "snd p \<in> set as" using zip_facts(2) [OF assms(1,2)] assms(3) by (metis image_eqI set_map)
  then show "row_ref lib (imported_row lib ws w ps p) = stmt_ref (snd p)"
    using assms(1) by (simp add: row_ref_def imported_row_def import_row_def importable_def)
qed

lemma imported_dependencies:
  assumes "importable lib fresh as" "ps = zip fresh as"
  shows "List.map_filter (dependency_of lib (imported_index lib ws w ps)) (ar_upstream (imported_row lib ws w ps p)) =
    filter (\<lambda>d. d \<in> set (map stmt_ref as)) (stmt_depends_on (snd p))"
proof (cases "stmt_depends_on (snd p) = []")
  case True
  obtain e where "uuid_parse (trigger_id w) = Inl e" using trigger_not_uuid by blast
  then show ?thesis using True by (simp add: imported_row_def upstream_of_def List.map_filter_simps dependency_of_def List.map_filter_def)
next
  case False
  note z = zip_facts [OF assms] and idx = imported_index [OF assms] and ref = imported_ref [OF assms]
  let ?refs = "ref_to_action ps"
  define rowof where "rowof = (\<lambda>i. the (dget (imported_index lib ws w ps) i))"
  have "dget (imported_index lib ws w ps) i = Some (rowof i)" if i: "i \<in> ran (dget ?refs)" for i
  proof -
    obtain d where "dget ?refs d = Some i" using i by (auto simp: ran_def)
    then obtain p where "p \<in> set ps" "fst p = i" using z(6) by blast
    then show ?thesis using idx [of p ws w] by (simp add: rowof_def)
  qed
  moreover have "row_ref lib (rowof i) = d" if d: "dget ?refs d = Some i" for d i
  proof -
    obtain p where "p \<in> set ps" "stmt_ref (snd p) = d" "fst p = i" using z(6) [OF d] by blast
    then show ?thesis using idx [of p ws w] ref(2) [of p ws w] by (simp add: rowof_def)
  qed
  ultimately have "List.map_filter (dependency_of lib (imported_index lib ws w ps)) (ar_upstream (imported_row lib ws w ps p)) =
      filter (\<lambda>d. dget ?refs d \<noteq> None) (stmt_depends_on (snd p))"
    using False map_filter_dependencies by (simp add: imported_row_def upstream_of_def)
  moreover have "dget ?refs d \<noteq> None \<longleftrightarrow> d \<in> set (map stmt_ref as)" for d
  proof
    show "dget ?refs d \<noteq> None \<Longrightarrow> d \<in> set (map stmt_ref as)" using z(6) ref(1) by fastforce
    assume "d \<in> set (map stmt_ref as)"
    then obtain p where "p \<in> set ps" "stmt_ref (snd p) = d" unfolding z(2) [symmetric] by auto
    then show "dget ?refs d \<noteq> None" using z(5) by fastforce
  qed
  ultimately show ?thesis by simp
qed

text \<open>Importing a definition and exporting the actions returns the statements with their arguments and control flow,
  in order, but loses every description, environment override and interaction, and every dependency that is not a plain
  reference: those on the failure of an action, and those that name success explicitly.\<close>

lemma import_export_roundtrip:
  assumes "importable lib fresh as" "lib_laws lib as"
  shows "rbind (create_actions_from_dsl lib ws w fresh as) (build_action_statements_from_actions lib) =
    Inr (map (imported (set (map stmt_ref as))) as)"
proof -
  define ps where "ps = zip fresh as"
  note ref = imported_ref [OF assms(1) ps_def] and deps = imported_dependencies [OF assms(1) ps_def, of ws w]
  let ?row = "imported_row lib ws w ps"
  have "build_statement lib (imported_index lib ws w ps) (?row p) = Inr (imported (set (map stmt_ref as)) (snd p))" if p: "p \<in> set ps" for p
  proof -
    obtain j where j: "lib_cf_dump lib (stmt_control_flow (snd p)) = Some j"
      using assms(1) ref(1) [OF p] by (auto simp: importable_def)
    have "lib_cf_validate lib j = Some (stmt_control_flow (snd p))" using assms(2) j ref(1) [OF p] by (simp add: lib_laws_def)
    moreover have "lib_yaml_load lib (lib_yaml_dump lib (stmt_args (snd p))) = Some (JObj (stmt_args (snd p)))"
      using assms(2) ref(1) [OF p] by (simp add: lib_laws_def)
    moreover have "(if truthy (JObj kvs) then JObj kvs else JObj []) = JObj kvs" for kvs by simp
    ultimately show ?thesis using deps [of p] ref(2) [OF p, of ws w] j
      by (simp add: build_statement_def imported_def imported_row_def import_row_def stmt_control_flow_def)
  qed
  then have "rmap (build_statement lib (imported_index lib ws w ps)) (map ?row ps) =
      Inr (map (\<lambda>p. imported (set (map stmt_ref as)) (snd p)) ps)"
    unfolding rmap_map by (rule rmap_Inr_map)
  also have "map (\<lambda>p. imported (set (map stmt_ref as)) (snd p)) ps = map (imported (set (map stmt_ref as))) as"
    by (simp add: zip_facts(2) [OF assms(1) ps_def, symmetric])
  finally show ?thesis
    by (simp only: create_actions_rows [OF assms(1) ps_def, of ws w] rbind.simps build_action_statements_from_actions_def
        Let_def imported_index_def)
qed

text \<open>An imported action whose dependencies are all on the failure of another action is stored without any edge: it
  becomes an entry point of the imported workflow.\<close>

lemma import_drops_error_edges:
  assumes "importable lib fresh as" "a \<in> set as" "stmt_depends_on a \<noteq> []"
    and "\<forall>d\<in>set (stmt_depends_on a). \<exists>src. d = dep_from_edge_components src Error"
    and "\<forall>b\<in>set as. slug_ok (stmt_ref b)"
  shows "\<exists>rows r. create_actions_from_dsl lib ws w fresh as = Inr rows \<and> r \<in> set rows \<and> ar_title r = stmt_title a \<and>
    \<not> list_ex non_trigger (ar_upstream r)"
proof -
  define ps where "ps = zip fresh as"
  note z = zip_facts [OF assms(1) ps_def]
  obtain p where p: "p \<in> set ps" "snd p = a" using z(2) assms(2) by (metis imageE set_map)
  have "dget (ref_to_action ps) d = None" if d: "d \<in> set (stmt_depends_on a)" for d
  proof (rule ccontr)
    assume "dget (ref_to_action ps) d \<noteq> None"
    then obtain q where q: "q \<in> set ps" "stmt_ref (snd q) = d" using z(6) by blast
    then have "snd q \<in> set as" using z(2) by (metis image_eqI set_map)
    then have "CHR ''.'' \<notin> set d" using assms(5) slug_plain q(2) by blast
    then show False using assms(4) d by (fastforce simp: dep_from_edge_components_def)
  qed
  then have "upstream_of (ref_to_action ps) w a = []"
    using assms(3) by (auto simp: upstream_of_def List.map_filter_def filter_empty_conv)
  then show ?thesis using create_actions_rows [OF assms(1) ps_def, of ws w] p
    by (force simp: imported_row_def import_row_def)
qed

section \<open>Repair of stale edges\<close>

text \<open>The edges of a workflow that have a source.\<close>

definition valid_edge :: "uuid \<Rightarrow> gdb \<Rightarrow> up_edge \<Rightarrow> bool" where
  "valid_edge w db = edge_valid (trigger_id w) (set (map (uuid_str \<circ> ar_id) (workflow_actions w db)))"

definition prune :: "(up_edge \<Rightarrow> bool) \<Rightarrow> action_row \<Rightarrow> action_row" where
  "prune P a = a\<lparr>ar_upstream := filter P (ar_upstream a)\<rparr>"

lemma prune_simps [simp]: "ar_workflow (prune P a) = ar_workflow a" "ar_id (prune P a) = ar_id a"
  "ar_upstream (prune P a) = filter P (ar_upstream a)"
  by (simp_all add: prune_def)

lemma filter_all_iff: "list_all P xs \<longleftrightarrow> filter P xs = xs"
  by (simp add: list_all_iff filter_id_conv)

lemma prune_id_iff: "prune P a = a \<longleftrightarrow> list_all P (ar_upstream a)"
  unfolding filter_all_iff
proof
  assume "prune P a = a"
  then have "ar_upstream (prune P a) = ar_upstream a" by simp
  then show "filter P (ar_upstream a) = ar_upstream a" by simp
qed (simp add: prune_def)

lemma reconcile_eq:
  "reconcile w db =
     (list_ex (\<lambda>a. \<not> list_all (valid_edge w db) (ar_upstream a)) (workflow_actions w db),
      update_actions (\<lambda>a. ar_workflow a = w) (prune (valid_edge w db)) db)"
proof (cases "workflow_actions w db = []")
  case True
  have "update_actions (\<lambda>a. ar_workflow a = w) f db = db" for f
  proof -
    have "map (\<lambda>a. if ar_workflow a = w then f a else a) (g_actions db) = g_actions db"
      using True by (intro map_idI) (auto simp: workflow_actions_def filter_empty_conv)
    then show ?thesis by (simp add: update_actions_def)
  qed
  then show ?thesis using True by (simp add: reconcile_def)
next
  case False
  then show ?thesis by (simp add: reconcile_def Let_def valid_edge_def prune_def [abs_def])
qed

lemma workflow_actions_pruned:
  "workflow_actions w (update_actions (\<lambda>a. ar_workflow a = w) (prune P) db) = map (prune P) (workflow_actions w db)"
proof -
  have "filter (\<lambda>a. ar_workflow a = w) (map (\<lambda>a. if ar_workflow a = w then prune P a else a) xs) =
      map (prune P) (filter (\<lambda>a. ar_workflow a = w) xs)" for xs
    by (induction xs) auto
  then show ?thesis by (simp add: workflow_actions_def update_actions_def)
qed

lemma prune_all_id:
  "update_actions (\<lambda>a. ar_workflow a = w) (prune P) db = db \<longleftrightarrow> list_all (\<lambda>a. list_all P (ar_upstream a)) (workflow_actions w db)"
proof -
  have "update_actions (\<lambda>a. ar_workflow a = w) (prune P) db = db \<longleftrightarrow>
      (\<forall>a\<in>set (g_actions db). (if ar_workflow a = w then prune P a else a) = a)"
  proof
    assume eq: "update_actions (\<lambda>a. ar_workflow a = w) (prune P) db = db"
    have "map (\<lambda>a. if ar_workflow a = w then prune P a else a) (g_actions db) = g_actions db"
      using arg_cong [OF eq, of g_actions] by (simp add: update_actions_def)
    then show "\<forall>a\<in>set (g_actions db). (if ar_workflow a = w then prune P a else a) = a"
      using map_eq_conv [of "\<lambda>a. if ar_workflow a = w then prune P a else a" "g_actions db" "\<lambda>a. a"] by simp
  qed (simp add: update_actions_def map_idI)
  also have "\<dots> \<longleftrightarrow> (\<forall>a\<in>set (g_actions db). ar_workflow a = w \<longrightarrow> list_all P (ar_upstream a))"
    by (simp add: prune_id_iff)
  finally show ?thesis by (auto simp: list_all_iff workflow_actions_def)
qed

lemma consistent_valid_edges:
  assumes "consistent db"
  shows "list_all (\<lambda>a. list_all (valid_edge w db) (ar_upstream a)) (workflow_actions w db)"
proof -
  have "valid_edge w db e" if a: "a \<in> set (workflow_actions w db)" "e \<in> set (ar_upstream a)" for a e
  proof -
    have "row_ok (action_keys db) a" "ar_workflow a = w"
      using assms a(1) by (auto simp: consistent_def workflow_actions_def)
    then have ok: "edge_ok (action_keys db) (ar_workspace a) w e" using row_ok_edge a(2) by metis
    show ?thesis
    proof (cases "ue_source_type e = Some Trigger_source")
      case True
      then show ?thesis using ok by (simp add: valid_edge_def edge_valid_def edge_ok_def)
    next
      case False
      then obtain i where "(ar_workspace a, w, i) \<in> action_keys db" "ue_source_id e = uuid_str i"
        using edge_ok_source [OF ok] by blast
      then have "ue_source_id e \<in> set (map (uuid_str \<circ> ar_id) (workflow_actions w db))"
        by (auto simp: action_keys_def action_key_def workflow_actions_def)
      then show ?thesis using False by (auto simp: valid_edge_def edge_valid_def split: option.splits source_type.splits)
    qed
  qed
  then show ?thesis by (simp add: list_all_iff)
qed

text \<open>Loading a workflow repairs its edges: exactly the edges without a source are removed, rows of other workflows stay
  as they are, the result says whether something was removed, a second repair removes nothing, and consistent rows are
  left alone.\<close>

lemma reconcile_repairs:
  assumes "reconcile w db = (changed, db')"
  shows "list_all2 (\<lambda>a a'. ar_id a' = ar_id a \<and> ar_upstream a' = filter (valid_edge w db) (ar_upstream a))
      (workflow_actions w db) (workflow_actions w db') \<and>
    filter (\<lambda>a. ar_workflow a \<noteq> w) (g_actions db') = filter (\<lambda>a. ar_workflow a \<noteq> w) (g_actions db) \<and>
    changed = (db' \<noteq> db) \<and> reconcile w db' = (False, db') \<and> (consistent db \<longrightarrow> db' = db)"
proof (intro conjI impI)
  have db': "db' = update_actions (\<lambda>a. ar_workflow a = w) (prune (valid_edge w db)) db"
    and ch: "changed = list_ex (\<lambda>a. \<not> list_all (valid_edge w db) (ar_upstream a)) (workflow_actions w db)"
    using assms by (simp_all add: reconcile_eq)
  have acts: "workflow_actions w db' = map (prune (valid_edge w db)) (workflow_actions w db)"
    by (simp add: db' workflow_actions_pruned)
  then show "list_all2 (\<lambda>a a'. ar_id a' = ar_id a \<and> ar_upstream a' = filter (valid_edge w db) (ar_upstream a))
      (workflow_actions w db) (workflow_actions w db')"
    by (simp add: list_all2_map2 list_all2_same)
  show "filter (\<lambda>a. ar_workflow a \<noteq> w) (g_actions db') = filter (\<lambda>a. ar_workflow a \<noteq> w) (g_actions db)"
    unfolding db' update_actions_def by (simp, intro filter_map_same) auto
  show "changed = (db' \<noteq> db)" by (auto simp: db' prune_all_id ch list_ex_iff list_all_iff)
  have valid': "valid_edge w db' = valid_edge w db" by (simp add: valid_edge_def acts image_image comp_def)
  have "list_all (\<lambda>a. list_all (valid_edge w db) (ar_upstream a)) (workflow_actions w db')"
    by (simp add: acts list_all_iff)
  then show "reconcile w db' = (False, db')"
    using prune_all_id [of w "valid_edge w db'" db'] by (auto simp: reconcile_eq valid' list_ex_iff list_all_iff)
  show "db' = db" if "consistent db" unfolding db' prune_all_id by (rule consistent_valid_edges [OF that])
qed

section \<open>The two graphs of a workflow\<close>

text \<open>What an edge says, whether its source is kept as a text or as a UUID.\<close>

definition edge_sig :: "rf_edge \<Rightarrow> string \<times> node_ref \<times> edge_type option" where
  "edge_sig e = (ref_str (re_source e), re_target e, re_handle e)"

lemma validate_one_trigger:
  assumes "filter (\<lambda>n. \<not> is_udf n) (rg_nodes g) = [t]"
  shows "validate_graph g = Inr g \<and> action_edges g = Inr (filter (\<lambda>e. \<not> touches (tn_id t) e) (rg_edges g))"
proof -
  have t: "rg_trigger g = Inr t" using assms by (simp add: rg_trigger_def)
  then have e: "action_edges g = Inr (filter (\<lambda>e. \<not> touches (tn_id t) e) (rg_edges g))"
    by (cases "rg_edges g = []") (simp_all add: action_edges_def)
  moreover have "rg_nodes g \<noteq> []" using assms by auto
  ultimately show ?thesis using t by (simp add: validate_graph_def list_all_iff)
qed

lemma to_graph_steps:
  assumes "\<forall>a\<in>set as. dget ref2id (stmt_ref a) = Some (idf a) \<and> stmt_rf_edges tid ref2id (idf a) a = Inr (ef a)"
  shows "rfold (to_graph_step tid ref2id) as g = Inr \<lparr>rg_nodes = rg_nodes g @ map (\<lambda>a. UDFNode (idf a) 0 0 (stmt_action a)) as,
    rg_edges = rg_edges g @ concat (map ef as)\<rparr>"
  using assms by (induction as arbitrary: g) (simp_all add: to_graph_step_def)

text \<open>The dependency an edge of a row becomes, and back.\<close>

lemma row_dependency:
  assumes "consistent db" "acts = workflow_actions w db" "a \<in> set acts" "e \<in> set (ar_upstream a)"
    and "distinct (map (row_ref lib) acts)" "\<forall>b\<in>set acts. slug_ok (row_ref lib b)"
  shows "if non_trigger e
    then \<exists>d. dependency_of lib (foldl (\<lambda>m r. dset (ar_id r) r m) [] acts) e = Some d \<and>
      (\<exists>e'. dep_rf_edge (map (\<lambda>b. (row_ref lib b, ar_id b)) acts) (ar_id a) d = Inr e' \<and>
        edge_sig e' = edge_sig (edge_of a e) \<and> re_source e' \<noteq> RText t)
    else dependency_of lib (foldl (\<lambda>m r. dset (ar_id r) r m) [] acts) e = None"
proof -
  have ok: "edge_ok (action_keys db) (ar_workspace a) w e"
    using assms(1-4) row_ok_edge [OF _ assms(4)] by (auto simp: consistent_def workflow_actions_def)
  show ?thesis
  proof (cases "non_trigger e")
    case False
    then have "ue_source_id e = trigger_id w" using ok by (simp add: edge_ok_def non_trigger_def)
    then show ?thesis using False trigger_not_uuid [of w] by (auto simp: dependency_of_def)
  next
    case True
    then obtain i where i: "(ar_workspace a, w, i) \<in> action_keys db" "ue_source_id e = uuid_str i"
      using edge_ok_source [OF ok] by (auto simp: non_trigger_def)
    then obtain b where b: "b \<in> set acts" "ar_id b = i"
      by (auto simp: action_keys_def action_key_def assms(2) workflow_actions_def)
    have "distinct (map ar_id acts)" using assms(1,2) by (simp add: consistent_def workflow_actions_def distinct_map_filter)
    then have "dget (foldl (\<lambda>m r. dset (ar_id r) r m) [] acts) i = List.find (\<lambda>r. ar_id r = i) acts"
      and uniq: "\<And>c. c \<in> set acts \<Longrightarrow> ar_id c = i \<Longrightarrow> c = b"
      using map_of_foldl_dset [of ar_id acts "\<lambda>r. r" "[]" i] b by (auto split: option.splits simp: distinct_map dest: inj_onD)
    moreover obtain c where "List.find (\<lambda>r. ar_id r = i) acts = Some c" "c \<in> set acts" "ar_id c = i"
      by (rule find_ex [of b acts "\<lambda>r. ar_id r = i"]) (use b in auto)
    ultimately have look: "dget (foldl (\<lambda>m r. dset (ar_id r) r m) [] acts) i = Some b" by simp
    have ref: "map_of (map (\<lambda>b. (row_ref lib b, ar_id b)) acts) (row_ref lib b) = Some i"
      using b assms(5) by (auto simp: map_of_eq_Some_iff comp_def)
    have dot: "CHR ''.'' \<notin> set (row_ref lib b)" using slug_plain assms(6) b(1) by blast
    define d where "d = (if ue_handle e = Some Error then dep_from_edge_components (row_ref lib b) Error else row_ref lib b)"
    have "uuid_str i \<noteq> []" by (simp add: uuid_str_alt)
    then have "dependency_of lib (foldl (\<lambda>m r. dset (ar_id r) r m) [] acts) e = Some d"
      using i(2) look by (simp add: dependency_of_def uuid_parse_str d_def)
    moreover define h where "h = (if ue_handle e = Some Error then Error else Success)"
    have "edge_components_from_dep d = Some (row_ref lib b, h)"
      using dot by (simp add: d_def h_def edge_components_roundtrip edge_components_plain)
    then have "dep_rf_edge (map (\<lambda>b. (row_ref lib b, ar_id b)) acts) (ar_id a) d =
        Inr \<lparr>re_source = RUuid i, re_target = RUuid (ar_id a), re_label = None, re_handle = Some h\<rparr>"
      by (simp add: dep_rf_edge_def ref)
    moreover have "re_handle (edge_of a e) = Some h"
      using True by (auto simp: edge_of_def Let_def h_def non_trigger_def split: option.splits source_type.splits)
        (metis edge_type.exhaust source_type.exhaust)+
    ultimately show ?thesis using True i(2) by (simp add: edge_sig_def)
  qed
qed

lemma rmap_total: "\<forall>d\<in>set ds. \<exists>e. f d = Inr e \<Longrightarrow> \<exists>es. rmap f ds = Inr es"
  by (induction ds) (auto simp: rbind_Inr_iff)

lemma rmap_Inr_mem: "rmap f xs = Inr ys \<Longrightarrow> y \<in> set ys \<longleftrightarrow> (\<exists>x\<in>set xs. f x = Inr y)"
  by (induction xs arbitrary: ys) (auto simp: rbind_Inr_iff)

lemma UN_list_all2: "list_all2 R xs ys \<Longrightarrow> (\<And>x y. R x y \<Longrightarrow> A y = B x) \<Longrightarrow> (\<Union>y\<in>set ys. A y) = (\<Union>x\<in>set xs. B x)"
  by (induction rule: list_all2_induct) auto

lemma build_statement_Inr:
  assumes "build_statement lib id2 a = Inr st"
  shows "stmt_ref st = row_ref lib a" "stmt_depends_on st = sort (List.map_filter (dependency_of lib id2) (ar_upstream a))"
    "stmt_action st = ar_type a"
  using assms by (auto simp: build_statement_def split: option.splits json.splits if_splits)

lemma rmap_Inr_rel: "rmap f xs = Inr ys \<Longrightarrow> list_all2 (\<lambda>x y. f x = Inr y) xs ys"
  by (induction xs arbitrary: ys) (auto simp: rbind_Inr_iff)

lemma set_map_filter_Some: "set (List.map_filter f xs) = {y. \<exists>x\<in>set xs. f x = Some y}"
  by (induction xs) (auto split: option.splits)

text \<open>The edges \<open>to_graph\<close> makes of one exported row: the trigger's, or those of the row.\<close>

lemma exported_edges:
  assumes "consistent db" "acts = workflow_actions w db" "a \<in> set acts"
    and "distinct (map (row_ref lib) acts)" "\<forall>b\<in>set acts. slug_ok (row_ref lib b)"
    and "build_statement lib (foldl (\<lambda>m r. dset (ar_id r) r m) [] acts) a = Inr st"
  shows "\<exists>es. stmt_rf_edges t (map (\<lambda>b. (row_ref lib b, ar_id b)) acts) (ar_id a) st = Inr es \<and>
    edge_sig ` {e \<in> set es. \<not> touches t e} = edge_sig ` edge_of a ` {e \<in> set (ar_upstream a). non_trigger e}"
proof -
  let ?dep = "dependency_of lib (foldl (\<lambda>m r. dset (ar_id r) r m) [] acts)"
  let ?edge = "dep_rf_edge (map (\<lambda>b. (row_ref lib b, ar_id b)) acts) (ar_id a)"
  note row = row_dependency [OF assms(1,2,3) _ assms(4,5), of _ t]
  have ds: "set (stmt_depends_on st) = {d. \<exists>e\<in>set (ar_upstream a). ?dep e = Some d}"
    unfolding build_statement_Inr(2) [OF assms(6)] by (simp add: set_map_filter_Some)
  have each: "\<exists>e'. ?edge d = Inr e' \<and> (\<exists>e\<in>set (ar_upstream a). non_trigger e \<and> ?dep e = Some d \<and> edge_sig e' = edge_sig (edge_of a e)) \<and> re_source e' \<noteq> RText t"
    if "d \<in> set (stmt_depends_on st)" for d
  proof -
    obtain e where e: "e \<in> set (ar_upstream a)" "?dep e = Some d" using \<open>d \<in> _\<close> ds by blast
    then show ?thesis using row [OF e(1)] by (cases "non_trigger e") auto
  qed
  show ?thesis
  proof (cases "stmt_depends_on st = []")
    case True
    have "\<not> non_trigger e" if "e \<in> set (ar_upstream a)" for e
      using row [OF that] ds True that by (cases "non_trigger e") auto
    then show ?thesis using True by (auto simp: stmt_rf_edges_def touches_def)
  next
    case False
    have "\<forall>d\<in>set (stmt_depends_on st). \<exists>e'. ?edge d = Inr e'" using each by blast
    then obtain es where es1: "rmap ?edge (stmt_depends_on st) = Inr es" using rmap_total by blast
    note es = es1 and mem = rmap_Inr_mem [OF es1]
    have "\<not> touches t e'" if e': "e' \<in> set es" for e'
    proof -
      obtain d where d: "d \<in> set (stmt_depends_on st)" "?edge d = Inr e'" using e' mem by blast
      have "\<exists>i. re_target e' = RUuid i" using d(2) by (auto simp: dep_rf_edge_def split: option.splits)
      then show ?thesis using each [OF d(1)] d(2) by (auto simp: touches_def)
    qed
    moreover have "edge_sig ` set es = edge_sig ` edge_of a ` {e \<in> set (ar_upstream a). non_trigger e}"
    proof (intro equalityI subsetI)
      fix x assume "x \<in> edge_sig ` set es"
      then obtain e' d where "x = edge_sig e'" "d \<in> set (stmt_depends_on st)" "?edge d = Inr e'" using mem by blast
      then show "x \<in> edge_sig ` edge_of a ` {e \<in> set (ar_upstream a). non_trigger e}" using each by fastforce
    next
      fix x assume "x \<in> edge_sig ` edge_of a ` {e \<in> set (ar_upstream a). non_trigger e}"
      then obtain e where e: "e \<in> set (ar_upstream a)" "non_trigger e" "x = edge_sig (edge_of a e)" by blast
      then obtain d e' where d: "?dep e = Some d" "?edge d = Inr e'" "edge_sig e' = edge_sig (edge_of a e)"
        using row [OF e(1)] by auto
      then have "e' \<in> set es" using mem ds e(1) by blast
      then show "x \<in> edge_sig ` set es" using d(3) e(3) by (metis image_eqI)
    qed
    moreover have "{e \<in> set es. \<not> touches t e} = set es" using calculation(1) by blast
    ultimately show ?thesis using es False by (simp add: stmt_rf_edges_def)
  qed
qed

text \<open>The graph built from the exported statements of a workflow and the graph projected from its rows have the same
  edges between actions, with the same handles.\<close>

lemma definition_graph_agrees:
  assumes "consistent db" "find_workflow ws w db = Some r" "acts = workflow_actions w db"
    and "distinct (map (row_ref lib) acts)" "\<forall>b\<in>set acts. slug_ok (row_ref lib b)"
    and "build_action_statements_from_actions lib acts = Inr stmts"
  shows "\<exists>g h es fs. get_graph ws w db = Inr (Some h) \<and> action_edges (gr_graph h) = Inr fs \<and>
    to_graph (TriggerNode (trigger_id w) x y s) (map (\<lambda>b. (row_ref lib b, ar_id b)) acts) stmts = Inr g \<and>
    action_edges g = Inr es \<and> edge_sig ` set es = edge_sig ` set fs"
proof -
  let ?t = "trigger_id w" and ?ref2id = "map (\<lambda>b. (row_ref lib b, ar_id b)) acts"
  let ?id2 = "foldl (\<lambda>m r. dset (ar_id r) r m) [] acts"
  have built: "list_all2 (\<lambda>a st. build_statement lib ?id2 a = Inr st) acts stmts"
    using assms(6) rmap_Inr_rel by (auto simp: build_action_statements_from_actions_def Let_def)
  let ?idf = "\<lambda>st. case dget ?ref2id (stmt_ref st) of Some i \<Rightarrow> i"
  let ?ef = "\<lambda>st. case stmt_rf_edges ?t ?ref2id (?idf st) st of Inr es \<Rightarrow> es"
  have f: "dget ?ref2id (stmt_ref st) = Some (?idf st) \<and> stmt_rf_edges ?t ?ref2id (?idf st) st = Inr (?ef st) \<and>
      edge_sig ` {e \<in> set (?ef st). \<not> touches ?t e} = edge_sig ` edge_of a ` {e \<in> set (ar_upstream a). non_trigger e}"
    if a: "a \<in> set acts" "build_statement lib ?id2 a = Inr st" for a st
  proof -
    have "dget ?ref2id (stmt_ref st) = Some (ar_id a)"
      using a(1) assms(4) by (auto simp: build_statement_Inr(1) [OF a(2)] map_of_eq_Some_iff comp_def)
    moreover obtain es where "stmt_rf_edges ?t ?ref2id (ar_id a) st = Inr es"
      "edge_sig ` {e \<in> set es. \<not> touches ?t e} = edge_sig ` edge_of a ` {e \<in> set (ar_upstream a). non_trigger e}"
      using exported_edges [OF assms(1,3) a(1) assms(4,5) a(2), of ?t] by blast
    ultimately show ?thesis by simp
  qed
  have built': "list_all2 (\<lambda>a st. a \<in> set acts \<and> build_statement lib ?id2 a = Inr st) acts stmts"
    using built by (auto simp: list_all2_conv_all_nth)
  have "\<forall>st\<in>set stmts. \<exists>a\<in>set acts. build_statement lib ?id2 a = Inr st"
    using rmap_Inr_mem [OF assms(6) [unfolded build_action_statements_from_actions_def Let_def]] by blast
  then have f': "\<forall>st\<in>set stmts. dget ?ref2id (stmt_ref st) = Some (?idf st) \<and> stmt_rf_edges ?t ?ref2id (?idf st) st = Inr (?ef st)"
    using f by blast
  let ?g = "\<lparr>rg_nodes = [TriggerNode ?t x y s] @ map (\<lambda>st. UDFNode (?idf st) 0 0 (stmt_action st)) stmts, rg_edges = [] @ concat (map ?ef stmts)\<rparr>"
  have steps: "rfold (to_graph_step ?t ?ref2id) stmts \<lparr>rg_nodes = [TriggerNode ?t x y s], rg_edges = []\<rparr> = Inr ?g"
    using to_graph_steps [OF f', of "\<lparr>rg_nodes = [TriggerNode ?t x y s], rg_edges = []\<rparr>"] by simp
  have "filter (\<lambda>n. \<not> is_udf n) (rg_nodes ?g) = [TriggerNode ?t x y s]" by (simp add: filter_empty_conv)
  note val = validate_one_trigger [OF this]
  define es where "es = filter (\<lambda>e. \<not> touches ?t e) (concat (map ?ef stmts))"
  have g: "to_graph (TriggerNode ?t x y s) ?ref2id stmts = Inr ?g" "action_edges ?g = Inr es"
    using val steps by (simp_all add: to_graph_def es_def)
  obtain h where h: "get_graph ws w db = Inr (Some h)" "from_actions r acts = Inr (gr_graph h)"
    using get_graph_total [OF assms(2)] assms(3) by metis
  have "wr_id r = w" using find_workflow_SomeD [OF assms(2)] by simp
  then have fs: "action_edges (gr_graph h) = Inr (row_edges acts)" using projected_edges [OF assms(1)] h(2) assms(3) by simp
  have "edge_sig ` set es = (\<Union>st\<in>set stmts. edge_sig ` {e \<in> set (?ef st). \<not> touches ?t e})" by (auto simp: es_def)
  also have "\<dots> = (\<Union>a\<in>set acts. edge_sig ` edge_of a ` {e \<in> set (ar_upstream a). non_trigger e})"
    by (rule UN_list_all2 [OF built']) (use f in blast)
  also have "\<dots> = edge_sig ` set (row_edges acts)" by (auto simp: row_edges_def)
  finally show ?thesis using h(1) fs g by blast
qed

section \<open>Error handlers\<close>

text \<open>A handler name that starts like a short workflow identifier (the prefix and one letter or digit, whatever
  follows) is never looked up as an alias: its resolution does not depend on which workflows and aliases there are,
  and fails when it does not decode, even if a workflow has that alias.\<close>

lemma handler_alias_shadowed:
  assumes "alnum c"
  shows "error_handler_workflow_id ws rows defns (Some (Some (''wf_'' @ c # cs))) w published =
    (case from_short WorkflowUUID (''wf_'' @ c # cs) of Inl e \<Rightarrow> Inl (IdInvalid e) | Inr u \<Rightarrow> Inr (Some u))"
proof -
  have "match_hex 32 ''wf-'' (''wf_'' @ c # cs) = None" by (simp add: match_hex_def startswith_def)
  moreover have "match_class alnum ''wf_'' (''wf_'' @ c # cs) \<noteq> None" using assms by (simp add: match_class_def Let_def startswith_def)
  moreover have "uuid_new WorkflowUUID (IdStr (''wf_'' @ c # cs)) = from_short WorkflowUUID (''wf_'' @ c # cs)"
    by (simp add: uuid_new_def class_prefixes startswith_def)
  ultimately show ?thesis by (simp add: error_handler_workflow_id_def handler_name_def)
qed

section \<open>Instances\<close>

definition sample_slugify :: "string \<Rightarrow> string" where
  "sample_slugify s = map (\<lambda>c. if c = CHR '' '' then CHR ''_'' else lower_char c) s"

definition sample_cf_dump :: "control_flow \<Rightarrow> json option" where
  "sample_cf_dump cf = Some (JArr [opt_str (cf_run_if cf), cf_for_each cf, cf_retry_policy cf, JFloat (cf_start_delay cf),
     opt_str (cf_wait_until cf), JStr (join_value (cf_join_strategy cf)), opt_str (cf_environment cf)])"

definition str_opt :: "json \<Rightarrow> string option" where
  "str_opt j = (case j of JStr s \<Rightarrow> Some s | _ \<Rightarrow> None)"

definition sample_cf_validate :: "json \<Rightarrow> control_flow option" where
  "sample_cf_validate j =
     (case j of JArr [a, b, c, JFloat d, e, JStr f, g] \<Rightarrow>
        Some \<lparr>cf_run_if = str_opt a, cf_for_each = b, cf_retry_policy = c, cf_start_delay = d, cf_wait_until = str_opt e,
           cf_join_strategy = (if f = ''any'' then JoinAny else JoinAll), cf_environment = str_opt g\<rparr>
      | _ \<Rightarrow> None)"

definition sample_lib :: dsl_lib where
  "sample_lib = \<lparr>lib_slugify = sample_slugify, lib_yaml_dump = (\<lambda>_. ''{}''), lib_yaml_load = (\<lambda>_. Some (JObj [])),
     lib_cf_dump = sample_cf_dump, lib_cf_validate = sample_cf_validate\<rparr>"

definition sample_steps :: "action_stmt list" where
  "sample_steps =
     [(default_stmt ''fetch'' ''core.http'')\<lparr>stmt_description := ''Get it''\<rparr>,
      (default_stmt ''use_it'' ''core.noop'')\<lparr>stmt_depends_on := [''fetch'']\<rparr>,
      (default_stmt ''on_error'' ''core.noop'')\<lparr>stmt_depends_on := [''fetch.error'']\<rparr>]"

lemma sample_cf: "sample_cf_validate (JArr [opt_str (cf_run_if cf), cf_for_each cf, cf_retry_policy cf, JFloat (cf_start_delay cf),
     opt_str (cf_wait_until cf), JStr (join_value (cf_join_strategy cf)), opt_str (cf_environment cf)]) = Some cf"
proof -
  have o: "str_opt (opt_str x) = x" for x by (cases x) (simp_all add: str_opt_def)
  show ?thesis by (cases "cf_join_strategy cf") (simp_all add: sample_cf_validate_def o)
qed

lemma sample_titles: "map (\<lambda>a. sample_slugify (stmt_title a)) sample_steps = map stmt_ref sample_steps"
  by code_simp

lemma sample_importable: "importable sample_lib [1, 2, 3] sample_steps"
proof -
  have "\<forall>a\<in>set sample_steps. sample_slugify (stmt_title a) = stmt_ref a" using sample_titles by (simp add: map_eq_conv)
  moreover have "distinct (map stmt_ref sample_steps)" "length sample_steps = 3"
    by (simp_all add: sample_steps_def default_stmt_def)
  ultimately show ?thesis by (simp add: importable_def sample_lib_def sample_cf_dump_def)
qed

lemma sample_laws: "lib_laws sample_lib sample_steps"
  by (simp add: lib_laws_def sample_steps_def default_stmt_def sample_lib_def sample_cf_dump_def sample_cf)

lemma import_export_roundtrip_witness:
  "rbind (create_actions_from_dsl sample_lib 9 8 [1, 2, 3] sample_steps) (build_action_statements_from_actions sample_lib) =
    Inr [default_stmt ''fetch'' ''core.http'', (default_stmt ''use_it'' ''core.noop'')\<lparr>stmt_depends_on := [''fetch'']\<rparr>,
      default_stmt ''on_error'' ''core.noop'']"
  using import_export_roundtrip [OF sample_importable sample_laws, of 9 8]
  by (simp add: sample_steps_def imported_def default_stmt_def)

lemma import_drops_error_edges_witness:
  "\<exists>rows r. create_actions_from_dsl sample_lib 9 8 [1, 2, 3] sample_steps = Inr rows \<and> r \<in> set rows \<and>
     ar_title r = stmt_title (sample_steps ! 2) \<and> \<not> list_ex non_trigger (ar_upstream r)"
proof -
  have "sample_steps ! 2 \<in> set sample_steps" by (simp add: sample_steps_def)
  moreover have "stmt_depends_on (sample_steps ! 2) = [dep_from_edge_components ''fetch'' Error]"
    by (simp add: sample_steps_def dep_from_edge_components_def)
  moreover have "\<forall>b\<in>set sample_steps. slug_ok (stmt_ref b)"
    by (simp add: sample_steps_def default_stmt_def slug_ok_def slug_char_def Let_def)
  ultimately show ?thesis
    by (intro import_drops_error_edges [OF sample_importable]) auto
qed

definition stale_edge :: up_edge where
  "stale_edge = \<lparr>ue_source_id = ''gone'', ue_source_type = Some Udf_source, ue_handle = Some Success\<rparr>"

lemma reconcile_repairs_witness:
  "filter (\<lambda>a. ar_workflow a \<noteq> 1) (g_actions (snd (reconcile 1 (sample_db [sample_node 10 [stale_edge]])))) = [] \<and>
   reconcile 1 (snd (reconcile 1 (sample_db [sample_node 10 [stale_edge]]))) = (False, snd (reconcile 1 (sample_db [sample_node 10 [stale_edge]])))"
  using reconcile_repairs [OF prod.collapse [symmetric], of 1 "sample_db [sample_node 10 [stale_edge]]"]
  by (simp add: sample_db_def sample_node_def)

definition sample_rows :: "action_row list" where
  "sample_rows = [(sample_node 10 [])\<lparr>ar_title := ''First''\<rparr>, (sample_node 11 [new_edge sample_link])\<lparr>ar_title := ''Second''\<rparr>]"

definition sample_row_lib :: dsl_lib where
  "sample_row_lib = sample_lib\<lparr>lib_cf_validate := (\<lambda>_. Some (stmt_control_flow (default_stmt [] [])))\<rparr>"

lemma definition_graph_agrees_witness:
  "\<exists>stmts g h es fs. build_action_statements_from_actions sample_row_lib sample_rows = Inr stmts \<and>
     get_graph 2 1 (sample_db sample_rows) = Inr (Some h) \<and> action_edges (gr_graph h) = Inr fs \<and>
     to_graph (TriggerNode (trigger_id 1) 0 0 ''online'') (map (\<lambda>b. (row_ref sample_row_lib b, ar_id b)) sample_rows) stmts = Inr g \<and>
     action_edges g = Inr es \<and> edge_sig ` set es = edge_sig ` set fs"
proof -
  have c: "consistent (sample_db sample_rows)"
    by (auto simp: sample_rows_def consistent_def sample_db_def sample_node_def sample_wf_def row_ok_def action_keys_def
        action_key_def edge_ok_def new_edge_def sample_link_def)
  have a: "sample_rows = workflow_actions 1 (sample_db sample_rows)"
    by (simp add: workflow_actions_def sample_db_def sample_rows_def sample_node_def)
  have r: "map (row_ref sample_row_lib) sample_rows = [''first'', ''second'']"
    by code_simp
  have d: "distinct (map (row_ref sample_row_lib) sample_rows)" by (simp only: r) simp
  have "slug_ok ''first''" "slug_ok ''second''" by (simp_all add: slug_ok_def slug_char_def Let_def)
  then have s: "\<forall>b\<in>set sample_rows. slug_ok (row_ref sample_row_lib b)" using r by (auto simp: sample_rows_def)
  have "\<exists>st. build_statement sample_row_lib id2 a = Inr st" for id2 a
    by (simp add: build_statement_def sample_row_lib_def sample_lib_def)
  then have "\<exists>stmts. build_action_statements_from_actions sample_row_lib sample_rows = Inr stmts"
    unfolding build_action_statements_from_actions_def Let_def by (intro rmap_total ballI)
  then obtain stmts where b: "build_action_statements_from_actions sample_row_lib sample_rows = Inr stmts" ..
  from definition_graph_agrees [where x = 0 and y = 0 and s = "''online''", OF c sample_find_workflow a d s b]
  show ?thesis by (elim exE, intro exI conjI) (rule b | blast)+
qed

lemma handler_alias_shadowed_witness:
  "error_handler_workflow_id 2 [sample_wf\<lparr>wr_alias := Some ''wf_triage!''\<rparr>] [] (Some (Some ''wf_triage!'')) 1 False =
     Inl (IdInvalid (ValueErr ''Invalid base62 character: !''))"
proof -
  have "from_short WorkflowUUID ''wf_triage!'' = Inl (ValueErr ''Invalid base62 character: !'')" by code_simp
  moreover have "alnum (CHR ''t'')" by code_simp
  ultimately show ?thesis
    using handler_alias_shadowed [of "CHR ''t''" 2 "[sample_wf\<lparr>wr_alias := Some ''wf_triage!''\<rparr>]" "[]" "''riage!''" 1 False] by simp
qed

end
