(* ===== verification/WorkerPool.thy ===== *)
theory WorkerPool
  imports Prelude
begin

text \<open>
  The warm worker pool of the executor (executor/backends/pool/pool.py).

  The pool is one Python object used by many concurrent \<open>execute\<close> calls on one event loop.
  A segment of code between two awaits runs alone, and the pool's lock is never held across an
  await, so an event of the model is one such segment: the call named by the event is resumed and
  runs up to its next suspension point. Worker objects are shared between the list of the pool
  and the calls that use them, so they live in a store (\<open>heap\<close>) and are named by their
  address; an object is never freed. Clock readings are integers (milliseconds) carried by the
  events, together with the time the segment waited for the lock. An event that does not concern
  the suspension point its call is at leaves the state alone.

  Processes, sockets and the file system are the environment: what a worker replies, when its
  process exits and whether a new one starts are parts of the events. Logging is left out.
\<close>

section \<open>State\<close>

record worker =
  worker_id :: nat
  worker_pid :: int
  returncode :: "int option"  \<comment> \<open>\<open>process.returncode\<close>, None while the process runs\<close>
  active_tasks :: nat
  tasks_completed :: nat
  recycling :: bool
  last_task_completed_at :: int
  oldest_task_started_at :: int

datatype pool_error = PoolNotStarted | NoAvailableWorker | TaskTimedOut | TaskCancelled
  | TaskFailed string | ProcessGone

type_synonym outcome = "pool_error + json"

text \<open>What \<open>_execute_on_worker\<close> does: return a result or raise one of three kinds.\<close>

datatype task_reply = Replied json | RaisedTimeout | RaisedCancelled | RaisedError string

text \<open>
  Where a call of \<open>execute\<close> is suspended: in the sleep of \<open>_get_available_worker\<close> (with its
  \<open>start_time\<close>), in \<open>_execute_on_worker\<close>, in \<open>_recycle_worker\<close> waiting for the old process to
  exit or for the new one to start (with the outcome that is pending in the \<open>finally\<close> block), or
  nowhere, being over. \<open>Entering\<close> is a call in its first segment.
\<close>

datatype call = Entering | Polling int | Running nat int | Terminating nat outcome | Spawning nat outcome | Over outcome

record pool_stats =
  lock_acquisitions :: nat
  lock_contentions :: nat
  lock_wait_total :: int
  lock_max_wait :: int
  st_completed :: nat
  st_failed :: nat
  st_timed_out :: nat
  st_cancelled :: nat
  st_recycles :: nat
  st_kills :: nat
  st_crashes :: nat
  st_spawn_failures :: nat
  st_queued :: nat
  st_peak_waiting :: nat
  st_total_time :: int
  st_max_time :: int
  st_min_time :: "int option"  \<comment> \<open>None is \<open>float("inf")\<close>\<close>
  per_worker_completed :: "nat \<Rightarrow> nat"  \<comment> \<open>a missing key counts 0, as \<open>get(k, 0)\<close> does\<close>
  per_worker_recycles :: "nat \<Rightarrow> nat"

record pool =
  pool_size :: nat
  max_tasks :: nat
  max_concurrent :: nat
  workers :: "nat list"
  heap :: "worker list"
  started :: bool
  tasks_waiting :: nat
  next_worker_index :: nat
  last_metrics_time :: int
  last_total_completed :: int
  stats :: pool_stats
  calls :: "call list"
  closing :: "nat option"  \<comment> \<open>the position of \<open>shutdown\<close> in its loop\<close>

definition no_stats :: pool_stats where
  "no_stats = \<lparr>lock_acquisitions = 0, lock_contentions = 0, lock_wait_total = 0, lock_max_wait = 0,
     st_completed = 0, st_failed = 0, st_timed_out = 0, st_cancelled = 0, st_recycles = 0, st_kills = 0,
     st_crashes = 0, st_spawn_failures = 0, st_queued = 0, st_peak_waiting = 0, st_total_time = 0,
     st_max_time = 0, st_min_time = None, per_worker_completed = (\<lambda>_. 0), per_worker_recycles = (\<lambda>_. 0)\<rparr>"

definition new_pool :: "nat \<Rightarrow> nat \<Rightarrow> nat \<Rightarrow> pool" where
  "new_pool size_p mt mc = \<lparr>pool_size = size_p, max_tasks = mt, max_concurrent = mc, workers = [], heap = [],
     started = False, tasks_waiting = 0, next_worker_index = 0, last_metrics_time = 0,
     last_total_completed = 0, stats = no_stats, calls = [], closing = None\<rparr>"

definition new_worker :: "nat \<Rightarrow> int \<Rightarrow> worker" where
  "new_worker i p = \<lparr>worker_id = i, worker_pid = p, returncode = None, active_tasks = 0, tasks_completed = 0,
     recycling = False, last_task_completed_at = 0, oldest_task_started_at = 0\<rparr>"

abbreviation obj :: "pool \<Rightarrow> nat \<Rightarrow> worker" where
  "obj s a \<equiv> heap s ! a"

definition put_obj :: "nat \<Rightarrow> worker \<Rightarrow> pool \<Rightarrow> pool" where
  "put_obj a w s = s\<lparr>heap := (heap s)[a := w]\<rparr>"

definition set_call :: "nat \<Rightarrow> call \<Rightarrow> pool \<Rightarrow> pool" where
  "set_call t c s = s\<lparr>calls := (calls s)[t := c]\<rparr>"

definition upd_stats :: "(pool_stats \<Rightarrow> pool_stats) \<Rightarrow> pool \<Rightarrow> pool" where
  "upd_stats f s = s\<lparr>stats := f (stats s)\<rparr>"

section \<open>Acquiring a worker\<close>

text \<open>
  \<open>_timed_lock\<close>: the lock is free whenever a segment asks for it, since no segment awaits while it
  holds it; the time spent is still measured.
\<close>

definition timed_lock :: "int \<Rightarrow> pool \<Rightarrow> pool" where
  "timed_lock wait = upd_stats (\<lambda>m. m\<lparr>lock_acquisitions := lock_acquisitions m + 1,
     lock_wait_total := lock_wait_total m + wait,
     lock_max_wait := if wait > lock_max_wait m then wait else lock_max_wait m,
     lock_contentions := if wait > 1 then lock_contentions m + 1 else lock_contentions m\<rparr>)"

text \<open>The loop over the workers; \<open>min_load\<close> starts as infinity, here None.\<close>

fun scan_workers :: "pool \<Rightarrow> nat list \<Rightarrow> nat list \<times> nat option \<Rightarrow> nat list \<times> nat option" where
  "scan_workers s [] (found, min_load) = (found, min_load)"
| "scan_workers s (a # as) (found, min_load) =
    (let w = obj s a in
     if returncode w \<noteq> None then scan_workers s as (found, min_load)
     else if recycling w then scan_workers s as (found, min_load)
     else if active_tasks w \<ge> max_concurrent s then scan_workers s as (found, min_load)
     else scan_workers s as (found @ [a],
       case min_load of None \<Rightarrow> Some (active_tasks w)
       | Some m \<Rightarrow> if active_tasks w < m then Some (active_tasks w) else Some m))"

definition acquire :: "int \<Rightarrow> pool \<Rightarrow> (nat \<times> pool) option" where
  "acquire now s =
    (case scan_workers s (workers s) ([], None) of (found, min_load) \<Rightarrow>
      if found = [] then None else
      let candidates = filter (\<lambda>a. Some (active_tasks (obj s a)) = min_load) found;
          a = candidates ! (next_worker_index s mod length candidates);
          s1 = s\<lparr>next_worker_index := (next_worker_index s + 1) mod length (workers s)\<rparr>;
          w = obj s a; n = active_tasks w + 1
      in Some (a, put_obj a (w\<lparr>active_tasks := n,
           oldest_task_started_at := if n = 1 then now else oldest_task_started_at w\<rparr>) s1))"

definition stop_waiting :: "pool \<Rightarrow> pool" where
  "stop_waiting s = s\<lparr>tasks_waiting := tasks_waiting s - 1\<rparr>"

definition begin_waiting :: "pool \<Rightarrow> pool" where
  "begin_waiting s =
    (let n = tasks_waiting s + 1
     in upd_stats (\<lambda>m. m\<lparr>st_queued := st_queued m + 1,
          st_peak_waiting := if n > st_peak_waiting m then n else st_peak_waiting m\<rparr>) (s\<lparr>tasks_waiting := n\<rparr>))"

definition acquire_timeout :: int where
  "acquire_timeout = 30000"

text \<open>
  One iteration of the loop of \<open>_get_available_worker\<close> for call \<open>t\<close>: \<open>is_waiting\<close> tells whether the
  call has been counted in \<open>_tasks_waiting\<close>, which from the second iteration on it has. The
  \<open>finally\<close> block runs when the timeout is raised.
\<close>

definition get_available_worker :: "nat \<Rightarrow> bool \<Rightarrow> int \<Rightarrow> int \<Rightarrow> int \<Rightarrow> pool \<Rightarrow> pool" where
  "get_available_worker t is_waiting start now wait s =
    (let s1 = timed_lock wait s in
     case acquire now s1 of
       Some (a, s2) \<Rightarrow> set_call t (Running a now) (if is_waiting then stop_waiting s2 else s2)
     | None \<Rightarrow>
         let s2 = if is_waiting then s1 else begin_waiting s1 in
         if now - start > acquire_timeout
         then set_call t (Over (Inl NoAvailableWorker)) (stop_waiting (timed_lock 0 s2))
         else set_call t (Polling start) s2)"

section \<open>Releasing and recycling\<close>

definition due_for_recycle :: "nat \<Rightarrow> worker \<Rightarrow> bool" where
  "due_for_recycle limit w \<longleftrightarrow> tasks_completed w + 1 \<ge> limit \<and> active_tasks w - 1 = 0 \<and> \<not> recycling w"

definition released :: "nat \<Rightarrow> int \<Rightarrow> worker \<Rightarrow> worker" where
  "released limit now w = w\<lparr>active_tasks := active_tasks w - 1, tasks_completed := tasks_completed w + 1,
     last_task_completed_at := now,
     oldest_task_started_at := if active_tasks w - 1 = 0 then 0 else oldest_task_started_at w,
     recycling := recycling w \<or> due_for_recycle limit w\<rparr>"

definition count_completed :: "nat \<Rightarrow> pool_stats \<Rightarrow> pool_stats" where
  "count_completed i m = m\<lparr>st_completed := st_completed m + 1,
     per_worker_completed := (per_worker_completed m)(i := per_worker_completed m i + 1)\<rparr>"

definition release_worker :: "nat \<Rightarrow> int \<Rightarrow> int \<Rightarrow> pool \<Rightarrow> bool \<times> pool" where
  "release_worker a now wait s =
    (let s1 = timed_lock wait s; w = obj s1 a
     in (due_for_recycle (max_tasks s1) w,
         upd_stats (count_completed (worker_id w)) (put_obj a (released (max_tasks s1) now w) s1)))"

text \<open>The part of \<open>_recycle_worker\<close> before its first await; \<open>terminate\<close> is called there.\<close>

definition recycle_begin :: "nat \<Rightarrow> pool \<Rightarrow> pool" where
  "recycle_begin a s = upd_stats (\<lambda>m. m\<lparr>st_recycles := st_recycles m + 1,
     per_worker_recycles := (per_worker_recycles m)(worker_id (obj s a) := per_worker_recycles m (worker_id (obj s a)) + 1)\<rparr>) s"

definition process_exits :: "nat \<Rightarrow> int \<Rightarrow> pool \<Rightarrow> pool" where
  "process_exits a code s = put_obj a ((obj s a)\<lparr>returncode :=
     case returncode (obj s a) of None \<Rightarrow> Some code | r \<Rightarrow> r\<rparr>) s"

text \<open>The last part of \<open>_recycle_worker\<close>: the result of \<open>_spawn_worker\<close> enters the list of workers.\<close>

fun index_of :: "'a \<Rightarrow> 'a list \<Rightarrow> nat option" where
  "index_of x [] = None"
| "index_of x (y # ys) = (if x = y then Some 0 else map_option Suc (index_of x ys))"

definition recycle_end :: "nat \<Rightarrow> string + int \<Rightarrow> int \<Rightarrow> pool \<Rightarrow> pool" where
  "recycle_end a spawned wait s =
    (case spawned of
      Inr p \<Rightarrow>
        let s1 = timed_lock wait s; s2 = s1\<lparr>heap := heap s1 @ [new_worker (worker_id (obj s a)) p]\<rparr> in
        (case index_of a (workers s1) of
          Some i \<Rightarrow> s2\<lparr>workers := (workers s1)[i := length (heap s1)]\<rparr>
        | None \<Rightarrow> s2)
    | Inl e \<Rightarrow>
        let s1 = timed_lock wait (upd_stats (\<lambda>m. m\<lparr>st_spawn_failures := st_spawn_failures m + 1\<rparr>) s) in
        (case index_of a (workers s1) of
          Some i \<Rightarrow> s1\<lparr>workers := take i (workers s1) @ drop (Suc i) (workers s1)\<rparr>
        | None \<Rightarrow> s1))"

text \<open>The branch of \<open>execute\<close> for a cancellation during the release.\<close>

definition forced_release :: "nat \<Rightarrow> pool \<Rightarrow> pool" where
  "forced_release a s =
    (let w = obj s a; n = active_tasks w - 1
     in put_obj a (w\<lparr>active_tasks := n, tasks_completed := tasks_completed w + 1,
          oldest_task_started_at := if n = 0 then 0 else oldest_task_started_at w\<rparr>) s)"

section \<open>Execute\<close>

fun outcome_of :: "task_reply \<Rightarrow> outcome" where
  "outcome_of (Replied r) = Inr r"
| "outcome_of RaisedTimeout = Inl TaskTimedOut"
| "outcome_of RaisedCancelled = Inl TaskCancelled"
| "outcome_of (RaisedError e) = Inl (TaskFailed e)"

fun count_reply :: "task_reply \<Rightarrow> int \<Rightarrow> pool_stats \<Rightarrow> pool_stats" where
  "count_reply (Replied _) ms m = m\<lparr>st_total_time := st_total_time m + ms,
     st_max_time := if ms > st_max_time m then ms else st_max_time m,
     st_min_time := case st_min_time m of None \<Rightarrow> Some ms | Some l \<Rightarrow> if ms < l then Some ms else Some l\<rparr>"
| "count_reply RaisedTimeout _ m = m\<lparr>st_timed_out := st_timed_out m + 1\<rparr>"
| "count_reply RaisedCancelled _ m = m\<lparr>st_cancelled := st_cancelled m + 1\<rparr>"
| "count_reply (RaisedError _) _ m = m\<lparr>st_failed := st_failed m + 1\<rparr>"

text \<open>
  The call \<open>t\<close> gets the reply of its worker. When the worker is due for recycling and the event
  loop has already forgotten its dead process, \<open>terminate\<close> raises ProcessLookupError (\<open>gone\<close>),
  which leaves \<open>execute\<close> in place of the reply.
\<close>

definition finish_task :: "nat \<Rightarrow> nat \<Rightarrow> int \<Rightarrow> task_reply \<Rightarrow> bool \<Rightarrow> int \<Rightarrow> int \<Rightarrow> pool \<Rightarrow> pool" where
  "finish_task t a start reply gone now wait s =
    (case release_worker a now wait (upd_stats (count_reply reply (now - start)) s) of (due, s1) \<Rightarrow>
      if \<not> due then set_call t (Over (outcome_of reply)) s1
      else if gone \<and> returncode (obj s1 a) \<noteq> None
      then set_call t (Over (Inl ProcessGone)) (recycle_begin a s1)
      else set_call t (Terminating a (outcome_of reply)) (recycle_begin a s1))"

datatype pool_event =
    EvStart "(string + int) list"
  | EvSubmit int int
  | EvPoll nat int int
  | EvCancel nat int
  | EvReply nat task_reply bool int int
  | EvExited nat int bool
  | EvSpawned nat "string + int" int
  | EvCrash nat int
  | EvMetrics int int
  | EvShutdown
  | EvShutdownNext int

definition submit :: "int \<Rightarrow> int \<Rightarrow> pool \<Rightarrow> pool" where
  "submit now wait s =
    (if \<not> started s then s\<lparr>calls := calls s @ [Over (Inl PoolNotStarted)]\<rparr>
     else get_available_worker (length (calls s)) False now now wait (s\<lparr>calls := calls s @ [Entering]\<rparr>))"

text \<open>\<open>start\<close>: worker \<open>i\<close> is spawned by the i-th attempt; failed attempts are dropped.\<close>

fun add_workers :: "nat \<Rightarrow> (string + int) list \<Rightarrow> pool \<Rightarrow> pool" where
  "add_workers i [] s = s"
| "add_workers i (Inl e # rs) s = add_workers (Suc i) rs s"
| "add_workers i (Inr p # rs) s = add_workers (Suc i) rs
    (s\<lparr>workers := workers s @ [length (heap s)], heap := heap s @ [new_worker i p]\<rparr>)"

definition start_pool :: "(string + int) list \<Rightarrow> pool \<Rightarrow> pool" where
  "start_pool results s =
    (if started s \<or> length results \<noteq> pool_size s then s
     else let s1 = add_workers 0 results s
          in if workers s1 = [] then s1 else s1\<lparr>started := True\<rparr>)"

definition emit_metrics :: "int \<Rightarrow> int \<Rightarrow> pool \<Rightarrow> pool" where
  "emit_metrics now wait s =
    (let s1 = timed_lock wait s
     in s1\<lparr>last_metrics_time := now,
           last_total_completed := int (sum_list (map (\<lambda>a. tasks_completed (obj s1 a)) (workers s1)))\<rparr>)"

text \<open>\<open>shutdown\<close>, with the await for one process between two rounds of its loop.\<close>

definition shutdown_next :: "int \<Rightarrow> pool \<Rightarrow> pool" where
  "shutdown_next code s =
    (case closing s of
      None \<Rightarrow> s
    | Some i \<Rightarrow>
        if i < length (workers s) then (process_exits (workers s ! i) code s)\<lparr>closing := Some (i + 1)\<rparr>
        else s\<lparr>workers := [], started := False, closing := None\<rparr>)"

section \<open>The pool as a state machine\<close>

definition call_at :: "pool \<Rightarrow> nat \<Rightarrow> call option" where
  "call_at s t = (if t < length (calls s) then Some (calls s ! t) else None)"

definition poll :: "nat \<Rightarrow> int \<Rightarrow> int \<Rightarrow> pool \<Rightarrow> pool" where
  "poll t now wait s =
    (case call_at s t of Some (Polling start) \<Rightarrow> get_available_worker t True start now wait s | _ \<Rightarrow> s)"

definition cancel :: "nat \<Rightarrow> int \<Rightarrow> pool \<Rightarrow> pool" where
  "cancel t wait s =
    (case call_at s t of
      Some (Polling _) \<Rightarrow> set_call t (Over (Inl TaskCancelled)) (stop_waiting (timed_lock wait s))
    | Some (Terminating a _) \<Rightarrow> set_call t (Over (Inl TaskCancelled)) (forced_release a s)
    | Some (Spawning a _) \<Rightarrow> set_call t (Over (Inl TaskCancelled)) (forced_release a s)
    | _ \<Rightarrow> s)"

definition receive_reply :: "nat \<Rightarrow> task_reply \<Rightarrow> bool \<Rightarrow> int \<Rightarrow> int \<Rightarrow> pool \<Rightarrow> pool" where
  "receive_reply t reply gone now wait s =
    (case call_at s t of Some (Running a start) \<Rightarrow> finish_task t a start reply gone now wait s | _ \<Rightarrow> s)"

definition old_process_exits :: "nat \<Rightarrow> int \<Rightarrow> bool \<Rightarrow> pool \<Rightarrow> pool" where
  "old_process_exits t code killed s =
    (case call_at s t of
      Some (Terminating a out) \<Rightarrow> set_call t (Spawning a out)
        (upd_stats (\<lambda>m. if killed then m\<lparr>st_kills := st_kills m + 1\<rparr> else m) (process_exits a code s))
    | _ \<Rightarrow> s)"

definition new_process :: "nat \<Rightarrow> string + int \<Rightarrow> int \<Rightarrow> pool \<Rightarrow> pool" where
  "new_process t spawned wait s =
    (case call_at s t of
      Some (Spawning a out) \<Rightarrow> set_call t (Over out) (recycle_end a spawned wait s)
    | _ \<Rightarrow> s)"

fun pool_step :: "pool \<Rightarrow> pool_event \<Rightarrow> pool" where
  "pool_step s (EvStart results) = start_pool results s"
| "pool_step s (EvSubmit now wait) = submit now wait s"
| "pool_step s (EvPoll t now wait) = poll t now wait s"
| "pool_step s (EvCancel t wait) = cancel t wait s"
| "pool_step s (EvReply t reply gone now wait) = receive_reply t reply gone now wait s"
| "pool_step s (EvExited t code killed) = old_process_exits t code killed s"
| "pool_step s (EvSpawned t spawned wait) = new_process t spawned wait s"
| "pool_step s (EvCrash a code) = (if a < length (heap s) then process_exits a code s else s)"
| "pool_step s (EvMetrics now wait) = emit_metrics now wait s"
| "pool_step s EvShutdown = s\<lparr>closing := Some 0\<rparr>"
| "pool_step s (EvShutdownNext code) = shutdown_next code s"

end
