(* ===== verification/WorkerPool_Correct.thy ===== *)
theory WorkerPool_Correct
  imports WorkerPool
begin

text \<open>
  The worker pool keeps its books: the invariant \<open>accounted\<close> ties the counters of the pool and of
  its worker objects to the calls that are in progress, for every interleaving of their segments.
\<close>

section \<open>Selection\<close>

definition available :: "pool \<Rightarrow> nat \<Rightarrow> bool" where
  "available s a \<longleftrightarrow> returncode (obj s a) = None \<and> \<not> recycling (obj s a)
     \<and> active_tasks (obj s a) < max_concurrent s"

abbreviation load :: "pool \<Rightarrow> nat \<Rightarrow> nat" where
  "load s a \<equiv> active_tasks (obj s a)"

definition least_load :: "pool \<Rightarrow> nat list \<Rightarrow> nat option" where
  "least_load s as = (if as = [] then None else Some (Min (load s ` set as)))"

lemma least_load_snoc:
  "least_load s (as @ [a]) = (case least_load s as of None \<Rightarrow> Some (load s a)
     | Some m \<Rightarrow> if load s a < m then Some (load s a) else Some m)"
proof (cases "as = []")
  case False
  define m where "m = Min (load s ` set as)"
  have "least_load s as = Some m" using False by (simp add: least_load_def m_def)
  moreover have "least_load s (as @ [a]) = Some (min (load s a) m)"
    using False by (simp add: least_load_def m_def)
  ultimately show ?thesis by (simp add: min_def)
qed (simp add: least_load_def)

lemma scan_workers_filter:
  assumes "m = least_load s f"
  shows "scan_workers s as (f, m) = (f @ filter (available s) as, least_load s (f @ filter (available s) as))"
  using assms
proof (induction as arbitrary: f m)
  case (Cons a as)
  have "scan_workers s (a # as) (f, m) = (if available s a
      then scan_workers s as (f @ [a], least_load s (f @ [a])) else scan_workers s as (f, m))"
    by (simp add: available_def least_load_snoc Cons.prems Let_def)
  then show ?case using Cons.IH[OF refl, of "f @ [a]"] Cons.IH[OF Cons.prems] by simp
qed (simp add: least_load_def)

lemma scan_all:
  "scan_workers s (workers s) ([], None) = (filter (available s) (workers s), least_load s (filter (available s) (workers s)))"
  using scan_workers_filter[of None s "[]"] by (simp add: least_load_def)

definition take_slot :: "int \<Rightarrow> nat \<Rightarrow> pool \<Rightarrow> pool" where
  "take_slot now a s = put_obj a ((obj s a)\<lparr>active_tasks := load s a + 1,
     oldest_task_started_at := if load s a = 0 then now else oldest_task_started_at (obj s a)\<rparr>)
     (s\<lparr>next_worker_index := (next_worker_index s + 1) mod length (workers s)\<rparr>)"

lemma acquire_None: "acquire now s = None \<longleftrightarrow> (\<forall>a\<in>set (workers s). \<not> available s a)"
  by (simp add: acquire_def scan_all Let_def filter_empty_conv)

lemma acquire_Some:
  assumes "acquire now s = Some (a, s')"
  shows "a \<in> set (workers s)" "available s a" "s' = take_slot now a s"
    "\<And>b. b \<in> set (workers s) \<Longrightarrow> available s b \<Longrightarrow> load s a \<le> load s b"
proof -
  define f where "f = filter (available s) (workers s)"
  define cs where "cs = filter (\<lambda>b. load s b = Min (load s ` set f)) f"
  have f: "f \<noteq> []" and a: "a = cs ! (next_worker_index s mod length cs)" and s': "s' = take_slot now a s"
    using assms
    by (auto simp: acquire_def scan_all f_def[symmetric] cs_def least_load_def Let_def take_slot_def put_obj_def
        split: if_splits)
  have "Min (load s ` set f) \<in> load s ` set f" using f by (intro Min_in) auto
  then have "cs \<noteq> []" by (auto simp: cs_def filter_empty_conv)
  then have "a \<in> set cs" unfolding a by (intro nth_mem) simp
  then have m: "a \<in> set f" "load s a = Min (load s ` set f)" by (auto simp: cs_def)
  show "a \<in> set (workers s)" "available s a" using m(1) by (auto simp: f_def)
  show "s' = take_slot now a s" by (rule s')
  show "load s a \<le> load s b" if "b \<in> set (workers s)" "available s b" for b
    unfolding m(2) using that by (intro Min_le) (auto simp: f_def)
qed

section \<open>The books of the pool\<close>

fun is_running :: "nat \<Rightarrow> call \<Rightarrow> bool" where
  "is_running a (Running b _) = (b = a)"
| "is_running a _ = False"

fun is_recycler :: "nat \<Rightarrow> call \<Rightarrow> bool" where
  "is_recycler a (Terminating b _) = (b = a)"
| "is_recycler a (Spawning b _) = (b = a)"
| "is_recycler a _ = False"

fun is_polling :: "call \<Rightarrow> bool" where
  "is_polling (Polling _) = True"
| "is_polling _ = False"

fun address_of :: "call \<Rightarrow> nat option" where
  "address_of (Running a _) = Some a"
| "address_of (Terminating a _) = Some a"
| "address_of (Spawning a _) = Some a"
| "address_of _ = None"

definition tally :: "(call \<Rightarrow> bool) \<Rightarrow> pool \<Rightarrow> nat" where
  "tally P s = length (filter P (calls s))"

lemma tally_update:
  assumes "call_at s t = Some c" "calls s' = (calls s)[t := c']"
  shows "tally P s' + (if P c then 1 else 0) = tally P s + (if P c' then 1 else 0)"
proof -
  have t: "t < length (calls s)" "calls s ! t = c" using assms(1) by (auto simp: call_at_def split: if_splits)
  let ?l = "take t (calls s)" and ?r = "drop (Suc t) (calls s)"
  have "calls s = ?l @ c # ?r" "calls s' = ?l @ c' # ?r"
    using id_take_nth_drop[OF t(1)] t by (simp_all add: assms(2) upd_conv_take_nth_drop)
  then have "filter P (calls s) = filter P ?l @ filter P [c] @ filter P ?r"
    "filter P (calls s') = filter P ?l @ filter P [c'] @ filter P ?r"
    by (metis append_Cons append_Nil filter_append)+
  then show ?thesis by (simp add: tally_def)
qed

text \<open>
  The books of one worker object: its number of active tasks is the number of calls running on it
  and never exceeds the limit, a worker marked for recycling has none, and at most one call is
  recycling it.
\<close>

definition worker_ok :: "pool \<Rightarrow> nat \<Rightarrow> bool" where
  "worker_ok s a \<longleftrightarrow> load s a = tally (is_running a) s \<and> load s a \<le> max_concurrent s
     \<and> (recycling (obj s a) \<longrightarrow> load s a = 0)
     \<and> tally (is_recycler a) s \<le> (if recycling (obj s a) then 1 else 0)"

definition addressed :: "pool \<Rightarrow> bool" where
  "addressed s \<longleftrightarrow> distinct (workers s) \<and> set (workers s) \<subseteq> {..<length (heap s)}
     \<and> (\<forall>c\<in>set (calls s). \<forall>a. address_of c = Some a \<longrightarrow> a < length (heap s))"

definition accounted :: "pool \<Rightarrow> bool" where
  "accounted s \<longleftrightarrow> (\<forall>a<length (heap s). worker_ok s a) \<and> addressed s
     \<and> tasks_waiting s = tally is_polling s \<and> tasks_waiting s \<le> st_peak_waiting (stats s)
     \<and> st_crashes (stats s) = 0"

text \<open>The fields on which the books depend; every other field may change freely.\<close>

definition books :: "pool \<Rightarrow> nat list \<times> worker list \<times> nat \<times> nat \<times> call list \<times> nat \<times> nat" where
  "books s = (workers s, heap s, max_concurrent s, tasks_waiting s, calls s, st_peak_waiting (stats s), st_crashes (stats s))"

lemma accounted_cong:
  assumes "books s = books s'"
  shows "accounted s = accounted s'"
  using assms by (simp add: books_def accounted_def worker_ok_def addressed_def tally_def)

lemma call_address: "accounted s \<Longrightarrow> call_at s t = Some c \<Longrightarrow> address_of c = Some a \<Longrightarrow> a < length (heap s)"
  by (metis accounted_def addressed_def call_at_def nth_mem option.distinct(1) option.inject)

text \<open>
  One call moves on and touches at most the worker object \<open>a\<close>.
\<close>

lemma accounted_move:
  assumes "accounted s" and c: "call_at s t = Some c" and calls: "calls s' = (calls s)[t := c']"
    and heap: "heap s' = (heap s)[a := w]" and a: "a < length (heap s)"
    and addr: "address_of c \<in> {None, Some a}" "address_of c' \<in> {None, Some a}"
    and same: "workers s' = workers s" "max_concurrent s' = max_concurrent s" "st_crashes (stats s') = st_crashes (stats s)"
    and act: "active_tasks w + (if is_running a c then 1 else 0) = load s a + (if is_running a c' then 1 else 0)"
      "active_tasks w \<le> max_concurrent s" "recycling w \<longrightarrow> active_tasks w = 0"
    and rec: "tally (is_recycler a) s + (if is_recycler a c' then 1 else 0)
      \<le> (if recycling w then 1 else 0) + (if is_recycler a c then 1 else 0)"
    and wait: "tasks_waiting s' + (if is_polling c then 1 else 0) = tasks_waiting s + (if is_polling c' then 1 else 0)"
      "tasks_waiting s' \<le> st_peak_waiting (stats s')"
  shows "accounted s'"
proof -
  have ok: "worker_ok s b" if "b < length (heap s)" for b using assms(1) that by (simp add: accounted_def)
  note upd = tally_update[OF c calls]
  have "worker_ok s' b" if b: "b < length (heap s')" for b
  proof (cases "b = a")
    case True
    then show ?thesis using ok[OF a] act rec upd[of "is_running a"] upd[of "is_recycler a"] a
      by (simp add: worker_ok_def heap same(2) split: if_splits)
  next
    case False
    then have "\<not> is_running b c" "\<not> is_running b c'" "\<not> is_recycler b c" "\<not> is_recycler b c'"
      using addr by (cases c; cases c'; simp)+
    then have "tally (is_running b) s' = tally (is_running b) s" "tally (is_recycler b) s' = tally (is_recycler b) s"
      using upd[of "is_running b"] upd[of "is_recycler b"] by simp_all
    moreover have "obj s' b = obj s b" using False by (simp add: heap)
    ultimately show ?thesis using ok[of b] b unfolding worker_ok_def same(2) by (auto simp: heap)
  qed
  moreover have "addressed s'"
  proof -
    have "set (calls s') \<subseteq> insert c' (set (calls s))" unfolding calls by (rule set_update_subset_insert)
    then show ?thesis using assms(1) addr(2) a by (auto simp: accounted_def addressed_def same heap)
  qed
  ultimately show ?thesis using assms(1) wait upd[of is_polling] same(3)
    by (simp add: accounted_def)
qed

section \<open>Every event keeps the books\<close>

lemma timed_lock_simps [simp]:
  "workers (timed_lock i s) = workers s" "heap (timed_lock i s) = heap s" "calls (timed_lock i s) = calls s"
  "max_concurrent (timed_lock i s) = max_concurrent s" "tasks_waiting (timed_lock i s) = tasks_waiting s"
  "st_peak_waiting (stats (timed_lock i s)) = st_peak_waiting (stats s)"
  "st_crashes (stats (timed_lock i s)) = st_crashes (stats s)" "started (timed_lock i s) = started s"
  "max_tasks (timed_lock i s) = max_tasks s" "call_at (timed_lock i s) t = call_at s t"
  "available (timed_lock i s) a = available s a" "books (timed_lock i s) = books s"
  "next_worker_index (timed_lock i s) = next_worker_index s"
  by (simp_all add: timed_lock_def upd_stats_def call_at_def available_def books_def)

lemma tally_pos: "call_at s t = Some c \<Longrightarrow> P c \<Longrightarrow> 0 < tally P s"
  by (auto simp: tally_def call_at_def filter_empty_conv split: if_splits intro: nth_mem)

lemma accounted_waits: "accounted s \<Longrightarrow> call_at s t = Some c \<Longrightarrow> is_polling c \<Longrightarrow> 0 < tasks_waiting s"
  by (simp add: accounted_def tally_pos)

lemma count_reply_stats: "st_peak_waiting (count_reply r d m) = st_peak_waiting m" "st_crashes (count_reply r d m) = st_crashes m"
  by (cases r; simp)+

lemma accounted_calls:
  assumes "accounted s" "call_at s t = Some c" and calls: "calls s' = (calls s)[t := c']"
    and addr: "address_of c = None" "address_of c' = None"
    and same: "heap s' = heap s" "workers s' = workers s" "max_concurrent s' = max_concurrent s"
      "st_crashes (stats s') = st_crashes (stats s)"
    and wait: "tasks_waiting s' + (if is_polling c then 1 else 0) = tasks_waiting s + (if is_polling c' then 1 else 0)"
      "tasks_waiting s' \<le> st_peak_waiting (stats s')"
  shows "accounted s'"
proof -
  note upd = tally_update[OF assms(2) calls]
  have "\<not> is_running b c" "\<not> is_running b c'" "\<not> is_recycler b c" "\<not> is_recycler b c'" for b
    using addr by (cases c; cases c'; simp)+
  then have "tally (is_running b) s' = tally (is_running b) s" "tally (is_recycler b) s' = tally (is_recycler b) s" for b
    using upd[of "is_running b"] upd[of "is_recycler b"] by simp_all
  then have "worker_ok s' b = worker_ok s b" for b by (simp add: worker_ok_def same)
  then have "\<forall>b<length (heap s'). worker_ok s' b" using assms(1) by (simp add: accounted_def same)
  moreover have "addressed s'"
  proof -
    have "set (calls s') \<subseteq> insert c' (set (calls s))" unfolding calls by (rule set_update_subset_insert)
    then show ?thesis using assms(1) addr(2) by (auto simp: accounted_def addressed_def same)
  qed
  ultimately show ?thesis using assms(1) wait upd[of is_polling] same(4) by (simp add: accounted_def)
qed

text \<open>A round of \<open>_get_available_worker\<close>, the first (\<open>Entering\<close>) or a later one (\<open>Polling\<close>).\<close>

lemma get_available_accounted:
  assumes "accounted s" "call_at s t = Some c" "address_of c = None" "is_polling c = waiting"
  shows "accounted (get_available_worker t waiting start now wait s)"
proof (cases "acquire now (timed_lock wait s)")
  case (Some p)
  then obtain a s2 where p: "acquire now (timed_lock wait s) = Some (a, s2)" by (cases p) auto
  note acq = acquire_Some[OF p]
  have a: "a < length (heap s)" using assms(1) acq(1) by (auto simp: accounted_def addressed_def)
  have w: "0 < tasks_waiting s" if waiting using accounted_waits[OF assms(1,2)] that assms(4) by simp
  have c: "\<not> is_running a c" "\<not> is_recycler a c" using assms(3) by (cases c; simp)+
  have ok: "worker_ok s a" using assms(1) a by (simp add: accounted_def)
  have "accounted (set_call t (Running a now) (if waiting then stop_waiting s2 else s2))"
    using assms(1,2) _ _ a _ _ _ _ _ _ _ _ _ _
    by (rule accounted_move) (use acq(2) ok c w assms in \<open>auto simp: acq(3) take_slot_def put_obj_def set_call_def
      stop_waiting_def worker_ok_def available_def accounted_def\<close>)
  then show ?thesis by (simp add: get_available_worker_def p)
next
  case None
  let ?s1 = "timed_lock wait s"
  let ?s2 = "if waiting then ?s1 else begin_waiting ?s1"
  have w: "0 < tasks_waiting s" if waiting using accounted_waits[OF assms(1,2)] that assms(4) by simp
  have peak: "tasks_waiting s \<le> st_peak_waiting (stats s)" using assms(1) by (simp add: accounted_def)
  have "accounted (set_call t (Over (Inl NoAvailableWorker)) (stop_waiting (timed_lock 0 ?s2)))"
    by (rule accounted_calls[OF assms(1,2), where c' = "Over (Inl NoAvailableWorker)"]) (use w peak assms(3,4) in
      \<open>auto simp: set_call_def stop_waiting_def begin_waiting_def Let_def upd_stats_def\<close>)
  moreover have "accounted (set_call t (Polling start) ?s2)"
    by (rule accounted_calls[OF assms(1,2), where c' = "Polling start"]) (use w peak assms(3,4) in
      \<open>auto simp: set_call_def begin_waiting_def Let_def upd_stats_def\<close>)
  ultimately show ?thesis by (simp add: get_available_worker_def None Let_def)
qed

lemma submit_accounted:
  assumes "accounted s"
  shows "accounted (submit now wait s)"
proof -
  have new: "accounted (s\<lparr>calls := calls s @ [c]\<rparr>)" if "address_of c = None" "\<not> is_polling c" for c
  proof -
    have "\<not> is_running a c" "\<not> is_recycler a c" for a using that by (cases c; simp)+
    then show ?thesis using assms that
      by (auto simp: accounted_def worker_ok_def addressed_def tally_def)
  qed
  have "accounted (get_available_worker (length (calls s)) False now now wait (s\<lparr>calls := calls s @ [Entering]\<rparr>))"
    by (rule get_available_accounted[OF new, where c = Entering]) (simp_all add: call_at_def)
  then show ?thesis by (simp add: submit_def new)
qed

lemma poll_accounted: "accounted s \<Longrightarrow> accounted (poll t now wait s)"
  by (auto simp: poll_def get_available_accounted split: option.split call.split)

lemma finish_task_accounted:
  assumes "accounted s" "call_at s t = Some (Running a start)"
  shows "accounted (finish_task t a start reply gone now wait s)"
proof -
  have a: "a < length (heap s)" using call_address[OF assms] by simp
  have ok: "worker_ok s a" using assms(1) a by (simp add: accounted_def)
  have pos: "0 < load s a" using tally_pos[OF assms(2), of "is_running a"] ok by (simp add: worker_ok_def)
  have peak: "tasks_waiting s \<le> st_peak_waiting (stats s)" using assms(1) by (simp add: accounted_def)
  define s0 where "s0 = upd_stats (count_reply reply (now - start)) s"
  define s1 where "s1 = snd (release_worker a now wait s0)"
  define w where "w = released (max_tasks s) now (obj s a)"
  have s1: "workers s1 = workers s" "max_concurrent s1 = max_concurrent s" "tasks_waiting s1 = tasks_waiting s"
    "calls s1 = calls s" "st_peak_waiting (stats s1) = st_peak_waiting (stats s)" "st_crashes (stats s1) = st_crashes (stats s)"
    "heap s1 = (heap s)[a := w]" and due: "fst (release_worker a now wait s0) = due_for_recycle (max_tasks s) (obj s a)"
    by (simp_all add: s1_def s0_def w_def release_worker_def Let_def upd_stats_def put_obj_def count_reply_stats count_completed_def)
  have next_call: "accounted (set_call t c' s2)" if b: "books s2 = books s1"
    and c': "(\<exists>out. c' = Over out) \<or> due_for_recycle (max_tasks s) (obj s a) \<and> (\<exists>out. c' = Terminating a out)" for s2 c'
  proof (rule accounted_move[OF assms _ _ a, where c' = c' and w = w])
    show "active_tasks w + (if is_running a (Running a start) then 1 else 0) = load s a + (if is_running a c' then 1 else 0)"
      using c' pos by (auto simp: w_def released_def)
    show "recycling w \<longrightarrow> active_tasks w = 0"
      using ok by (auto simp: w_def released_def due_for_recycle_def worker_ok_def)
    show "tally (is_recycler a) s + (if is_recycler a c' then 1 else 0)
      \<le> (if recycling w then 1 else 0) + (if is_recycler a (Running a start) then 1 else 0)"
      using c' ok by (auto simp: w_def released_def due_for_recycle_def worker_ok_def split: if_splits)
  qed (use b c' s1 peak ok in \<open>auto simp: books_def set_call_def w_def released_def worker_ok_def\<close>)
  have "books (recycle_begin a s1) = books s1" by (simp add: recycle_begin_def upd_stats_def books_def)
  then show ?thesis
    using next_call[of s1] next_call[of "recycle_begin a s1"] due
    by (simp add: finish_task_def s0_def s1_def split_beta)
qed

lemma cancel_accounted:
  assumes "accounted s"
  shows "accounted (cancel t wait s)"
proof -
  have peak: "tasks_waiting s \<le> st_peak_waiting (stats s)" using assms by (simp add: accounted_def)
  have poll: "accounted (set_call t (Over (Inl TaskCancelled)) (stop_waiting (timed_lock wait s)))"
    if "call_at s t = Some (Polling i)" for i
    using accounted_waits[OF assms that] peak
    by (intro accounted_calls[OF assms that, where c' = "Over (Inl TaskCancelled)"]) (simp_all add: set_call_def stop_waiting_def)
  have rec: "accounted (set_call t (Over (Inl TaskCancelled)) (forced_release a s))"
    if c: "call_at s t = Some c" and r: "is_recycler a c" for a c
  proof -
    have a: "a < length (heap s)" using call_address[OF assms c] r by (cases c) auto
    have ok: "worker_ok s a" using assms a by (simp add: accounted_def)
    have "0 < tally (is_recycler a) s" using tally_pos[OF c, of "is_recycler a"] r by simp
    then have idle: "load s a = 0" "recycling (obj s a)" using ok by (auto simp: worker_ok_def split: if_splits)
    let ?w = "obj (forced_release a s) a"
    show ?thesis
      by (rule accounted_move[OF assms c _ _ a, where c' = "Over (Inl TaskCancelled)" and w = ?w])
        (use r idle ok peak a in \<open>cases c; auto simp: set_call_def forced_release_def Let_def put_obj_def worker_ok_def\<close>)+
  qed
  show ?thesis using poll rec assms by (auto simp: cancel_def split: option.split call.split)
qed

lemma process_exits_accounted:
  assumes "accounted s" "a < length (heap s)"
  shows "accounted (process_exits a code s)"
proof -
  have "worker_ok (process_exits a code s) b = worker_ok s b" if "b < length (heap s)" for b
    using that assms(2) by (cases "b = a") (simp_all add: process_exits_def put_obj_def worker_ok_def tally_def)
  then show ?thesis using assms(1)
    by (auto simp: accounted_def addressed_def process_exits_def put_obj_def tally_def)
qed

lemma old_process_exits_accounted:
  assumes "accounted s"
  shows "accounted (old_process_exits t code killed s)"
proof (cases "\<exists>a out. call_at s t = Some (Terminating a out)")
  case True
  then obtain a out where c: "call_at s t = Some (Terminating a out)" by blast
  have a: "a < length (heap s)" using call_address[OF assms c] by simp
  define s1 where "s1 = process_exits a code s"
  have "call_at s1 t = call_at s t" by (simp add: s1_def process_exits_def put_obj_def call_at_def)
  then have s1: "accounted s1" "call_at s1 t = Some (Terminating a out)" "a < length (heap s1)"
    using process_exits_accounted[OF assms a] c a by (simp_all add: s1_def process_exits_def put_obj_def)
  have ok: "worker_ok s1 a" and peak: "tasks_waiting s1 \<le> st_peak_waiting (stats s1)"
    using s1(1,3) by (simp_all add: accounted_def)
  define s2 where "s2 = upd_stats (\<lambda>m. if killed then m\<lparr>st_kills := st_kills m + 1\<rparr> else m) s1"
  have "books s2 = books s1" by (simp add: s2_def upd_stats_def books_def)
  then have "accounted (set_call t (Spawning a out) s2)"
    by (intro accounted_move[OF s1(1,2) _ _ s1(3), where c' = "Spawning a out" and w = "obj s1 a"])
      (use ok peak in \<open>auto simp: books_def set_call_def worker_ok_def\<close>)
  then show ?thesis by (simp add: old_process_exits_def c s2_def s1_def)
qed (use assms in \<open>auto simp: old_process_exits_def split: option.split call.split\<close>)

lemma index_of_Some: "index_of x xs = Some i \<Longrightarrow> i < length xs \<and> xs ! i = x"
  by (induction xs arbitrary: i) (auto split: if_splits)

lemma alloc_accounted:
  assumes "accounted s" "heap s' = heap s @ [w]" "active_tasks w = 0" "\<not> recycling w"
    and "distinct (workers s')" "set (workers s') \<subseteq> insert (length (heap s)) (set (workers s))"
    and "books (s'\<lparr>workers := workers s, heap := heap s\<rparr>) = books s"
  shows "accounted s'"
proof -
  have same: "calls s' = calls s" "max_concurrent s' = max_concurrent s" "tasks_waiting s' = tasks_waiting s"
    "st_peak_waiting (stats s') = st_peak_waiting (stats s)" "st_crashes (stats s') = st_crashes (stats s)"
    using assms(7) by (simp_all add: books_def)
  have addr: "address_of c = Some a \<Longrightarrow> a < length (heap s)" if "c \<in> set (calls s)" for c a
    using assms(1) that by (simp add: accounted_def addressed_def)
  have "\<not> is_running (length (heap s)) c \<and> \<not> is_recycler (length (heap s)) c" if "c \<in> set (calls s)" for c
    using addr[OF that] by (cases c) auto
  then have none: "tally (is_running (length (heap s))) s = 0" "tally (is_recycler (length (heap s))) s = 0"
    by (simp_all add: tally_def filter_empty_conv)
  have "worker_ok s' b" if "b < length (heap s')" for b
  proof (cases "b = length (heap s)")
    case True
    then show ?thesis using none assms(3,4) by (simp add: worker_ok_def assms(2) tally_def same)
  next
    case False
    then have "worker_ok s b" using that assms(1) by (simp add: accounted_def assms(2))
    moreover have "obj s' b = obj s b" using False that by (simp add: assms(2) nth_append)
    ultimately show ?thesis by (auto simp: worker_ok_def tally_def same)
  qed
  moreover have "addressed s'"
    using assms(1,5,6) by (fastforce simp: accounted_def addressed_def assms(2) same)
  ultimately show ?thesis using assms(1) by (simp add: accounted_def same tally_def)
qed

lemma remove_worker_accounted:
  "accounted s \<Longrightarrow> accounted (s\<lparr>workers := take i (workers s) @ drop (Suc i) (workers s)\<rparr>)"
proof -
  assume s: "accounted s"
  then have d: "distinct (take i (workers s) @ drop (Suc i) (workers s))"
    using set_take_disj_set_drop_if_distinct[of "workers s" i "Suc i"] by (simp add: accounted_def addressed_def)
  have "set (take i (workers s) @ drop (Suc i) (workers s)) \<subseteq> set (workers s)"
    using set_take_subset set_drop_subset by fastforce
  then show ?thesis using s d by (auto simp: accounted_def addressed_def worker_ok_def tally_def)
qed

lemma recycle_end_accounted:
  assumes "accounted s"
  shows "accounted (recycle_end a spawned wait s)"
proof (cases spawned)
  case (Inl e)
  let ?s = "timed_lock wait (upd_stats (\<lambda>m. m\<lparr>st_spawn_failures := st_spawn_failures m + 1\<rparr>) s)"
  have "books ?s = books s" by (simp add: upd_stats_def books_def)
  then have "accounted ?s" using assms accounted_cong by blast
  then have "accounted (?s\<lparr>workers := take i (workers ?s) @ drop (Suc i) (workers ?s)\<rparr>)" for i
    by (rule remove_worker_accounted)
  with \<open>accounted ?s\<close> show ?thesis unfolding recycle_end_def Inl Let_def sum.case
    by (auto split: option.split simp del: timed_lock_simps)
next
  case (Inr p)
  let ?s = "timed_lock wait s" and ?w = "new_worker (worker_id (obj s a)) p"
  have s: "accounted ?s" using assms accounted_cong[of ?s s] by simp
  have d: "distinct (workers s)" "set (workers s) \<subseteq> {..<length (heap s)}"
    using assms by (auto simp: accounted_def addressed_def)
  have w: "active_tasks ?w = 0" "\<not> recycling ?w" by (simp_all add: new_worker_def)
  have "accounted (?s\<lparr>heap := heap s @ [?w], workers := ws\<rparr>)"
    if "distinct ws" "set ws \<subseteq> insert (length (heap s)) (set (workers s))" for ws
    by (rule alloc_accounted[OF s _ w]) (use that in \<open>simp_all add: books_def\<close>)
  moreover have "accounted (?s\<lparr>heap := heap s @ [?w]\<rparr>)"
    by (rule alloc_accounted[OF s _ w]) (use d in \<open>auto simp: books_def\<close>)
  moreover have "distinct ((workers s)[i := length (heap s)])" for i
    using d by (intro distinct_list_update) auto
  ultimately show ?thesis using d(1)
    by (auto simp: recycle_end_def Inr Let_def set_update_subset_insert subset_insertI split: option.split)
qed

lemma recycle_end_calls: "calls (recycle_end a spawned wait s) = calls s"
  by (simp add: recycle_end_def Let_def upd_stats_def split: sum.split option.split)

lemma new_process_accounted:
  assumes "accounted s"
  shows "accounted (new_process t spawned wait s)"
proof (cases "\<exists>a out. call_at s t = Some (Spawning a out)")
  case True
  then obtain a out where c: "call_at s t = Some (Spawning a out)" by blast
  define s1 where "s1 = recycle_end a spawned wait s"
  have s1: "accounted s1" "call_at s1 t = Some (Spawning a out)"
    using recycle_end_accounted[OF assms] c unfolding s1_def call_at_def recycle_end_calls by simp_all
  have a: "a < length (heap s1)" using call_address[OF s1] by simp
  then have ok: "worker_ok s1 a" and peak: "tasks_waiting s1 \<le> st_peak_waiting (stats s1)"
    using s1(1) by (simp_all add: accounted_def)
  have "accounted (set_call t (Over out) s1)"
    by (rule accounted_move[OF s1 _ _ a, where c' = "Over out" and w = "obj s1 a"])
      (use ok peak in \<open>auto simp: set_call_def worker_ok_def split: if_splits\<close>)
  then show ?thesis by (simp add: new_process_def c s1_def)
qed (use assms in \<open>auto simp: new_process_def split: option.split call.split\<close>)

lemma add_workers_accounted: "accounted s \<Longrightarrow> accounted (add_workers i rs s)"
proof (induction i rs s rule: add_workers.induct)
  case (3 i p rs s)
  have "accounted (s\<lparr>workers := workers s @ [length (heap s)], heap := heap s @ [new_worker i p]\<rparr>)"
    by (rule alloc_accounted[OF 3(2)]) (use 3(2) in \<open>auto simp: books_def new_worker_def accounted_def addressed_def\<close>)
  then show ?case using 3(1) by simp
qed auto

lemma shutdown_accounted:
  assumes "accounted s"
  shows "accounted (shutdown_next code s)"
proof -
  have "accounted ((process_exits (workers s ! i) code s)\<lparr>closing := Some j\<rparr>)" if "i < length (workers s)" for i j
  proof -
    have "workers s ! i < length (heap s)" using assms that nth_mem by (fastforce simp: accounted_def addressed_def)
    from process_exits_accounted[OF assms this] show ?thesis
      using accounted_cong[of "(process_exits (workers s ! i) code s)\<lparr>closing := Some j\<rparr>" "process_exits (workers s ! i) code s"]
      by (simp add: books_def)
  qed
  moreover have "accounted (s\<lparr>workers := [], started := False, closing := None\<rparr>)"
    using assms by (auto simp: accounted_def addressed_def worker_ok_def tally_def)
  ultimately show ?thesis using assms by (simp add: shutdown_next_def split: option.split)
qed

lemma step_accounted: "accounted s \<Longrightarrow> accounted (pool_step s e)"
proof (cases e)
  case (EvStart rs)
  assume s: "accounted s"
  have "accounted ((add_workers 0 rs s)\<lparr>started := True\<rparr>)"
    using add_workers_accounted[OF s] accounted_cong[of "(add_workers 0 rs s)\<lparr>started := True\<rparr>" "add_workers 0 rs s"]
    by (simp add: books_def)
  then show ?thesis using s add_workers_accounted[OF s] unfolding EvStart pool_step.simps start_pool_def Let_def
    by presburger
next
  case (EvReply t reply gone now wait)
  assume "accounted s"
  then show ?thesis unfolding EvReply pool_step.simps receive_reply_def
    by (auto simp: finish_task_accounted split: option.split call.split)
next
  case (EvMetrics now wait)
  assume s: "accounted s"
  have "books (emit_metrics now wait s) = books s" by (simp add: emit_metrics_def Let_def books_def)
  from accounted_cong[OF this] show ?thesis using s by (simp only: EvMetrics pool_step.simps)
next
  case EvShutdown
  assume s: "accounted s"
  have "books (s\<lparr>closing := Some 0\<rparr>) = books s" by (simp add: books_def)
  from accounted_cong[OF this] show ?thesis using s by (simp only: EvShutdown pool_step.simps)
qed (simp_all add: submit_accounted poll_accounted cancel_accounted old_process_exits_accounted
    new_process_accounted process_exits_accounted shutdown_accounted)

interpretation worker_pool: total_machine pool_step accounted
  by unfold_locales (rule step_accounted)


section \<open>The limits of a pool are constant\<close>

definition limits :: "pool \<Rightarrow> nat \<times> nat option" where
  "limits s = (max_concurrent s, closing s)"

lemma limits_simps:
  "limits (put_obj a w s) = limits s" "limits (set_call t c s) = limits s"
  "limits (upd_stats f s) = limits s" "limits (stop_waiting s) = limits s" "limits (timed_lock i s) = limits s"
  "limits (begin_waiting s) = limits s" "limits (forced_release a s) = limits s"
  "limits (process_exits a code s) = limits s" "limits (recycle_begin a s) = limits s"
  "limits (take_slot now a s) = limits s" "limits (s\<lparr>calls := cs\<rparr>) = limits s"
  "limits (s\<lparr>workers := ws\<rparr>) = limits s" "limits (s\<lparr>heap := h\<rparr>) = limits s" "limits (s\<lparr>started := b\<rparr>) = limits s"
  by (simp_all add: limits_def put_obj_def set_call_def upd_stats_def stop_waiting_def begin_waiting_def Let_def
      forced_release_def process_exits_def recycle_begin_def take_slot_def timed_lock_def)

lemma get_available_limit: "limits (get_available_worker t waiting start now wait s) = limits s"
  by (auto simp: get_available_worker_def Let_def limits_simps dest!: acquire_Some(3) split: option.split)

lemma recycle_end_limit: "limits (recycle_end a sp wait s) = limits s"
  by (simp add: recycle_end_def Let_def limits_simps split: sum.split option.split)

lemma add_workers_limit: "limits (add_workers i rs s) = limits s"
  by (induction i rs s rule: add_workers.induct) (simp_all add: limits_simps)

lemma emit_metrics_limit: "limits (emit_metrics now wait s) = limits s"
  by (simp add: emit_metrics_def Let_def limits_def timed_lock_def upd_stats_def)

lemma step_limits:
  assumes "e \<noteq> EvShutdown" "closing s = None \<or> (\<forall>code. e \<noteq> EvShutdownNext code)"
  shows "limits (pool_step s e) = limits s"
  using assms
  by (cases e) (auto simp: limits_simps get_available_limit recycle_end_limit add_workers_limit start_pool_def
      submit_def poll_def cancel_def receive_reply_def finish_task_def release_worker_def old_process_exits_def
      new_process_def emit_metrics_limit shutdown_next_def Let_def split: option.split call.split)

lemma step_limit: "max_concurrent (pool_step s e) = max_concurrent s"
proof (cases "e = EvShutdown \<or> (\<exists>code. e = EvShutdownNext code)")
  case True
  then show ?thesis by (auto simp: shutdown_next_def process_exits_def put_obj_def split: option.split)
next
  case False
  then show ?thesis using step_limits[of e s] by (auto simp: limits_def)
qed

lemma run_limit: "max_concurrent (foldl pool_step s es) = max_concurrent s"
  by (induction es arbitrary: s) (simp_all add: step_limit)

lemma run_accounted: "accounted (foldl pool_step (new_pool n mt mc) es)"
proof (rule worker_pool.run_inv)
  show "accounted (new_pool n mt mc)"
    by (simp add: accounted_def addressed_def new_pool_def no_stats_def tally_def)
qed

section \<open>What the books give\<close>

lemma tally_two:
  assumes "call_at s t = Some c" "call_at s u = Some d" "P c" "P d" "t \<noteq> u"
  shows "2 \<le> tally P s"
proof -
  have i: "t < length (calls s)" "u < length (calls s)" "calls s ! t = c" "calls s ! u = d"
    using assms(1,2) by (auto simp: call_at_def split: if_splits)
  have "card {t, u} \<le> card {i. i < length (calls s) \<and> P (calls s ! i)}"
    by (rule card_mono) (use i assms(3,4) in auto)
  then show ?thesis using assms(5) by (simp add: tally_def length_filter_conv_card)
qed

lemma recycled_alone:
  assumes "accounted s" "call_at s t = Some c" "is_recycler a c"
  shows "recycling (obj s a)" "call_at s u = Some d \<Longrightarrow> \<not> is_running a d" "call_at s u = Some d \<Longrightarrow> is_recycler a d \<Longrightarrow> u = t"
proof -
  have "address_of c = Some a" using assms(3) by (cases c) auto
  then have ok: "worker_ok s a" using call_address[OF assms(1,2)] assms(1) by (simp add: accounted_def)
  have pos: "0 < tally (is_recycler a) s" by (rule tally_pos[OF assms(2), of "is_recycler a"]) (rule assms(3))
  then show r: "recycling (obj s a)" using ok by (auto simp: worker_ok_def split: if_splits)
  show "\<not> is_running a d" if "call_at s u = Some d"
    using tally_pos[OF that, of "is_running a"] ok r by (auto simp: worker_ok_def)
  show "u = t" if "call_at s u = Some d" "is_recycler a d"
    using tally_two[OF assms(2) that(1), of "is_recycler a"] assms(3) that(2) ok r by (auto simp: worker_ok_def)
qed

text \<open>C19: whatever the interleaving of calls, process deaths, recycles and shutdowns, the number of
  active tasks of every worker object is exactly the number of calls running on it and stays
  within \<open>max_concurrent_per_worker\<close>, \<open>_tasks_waiting\<close> is exactly the number of calls that sleep in
  \<open>_get_available_worker\<close>, and the pool never lists a worker twice.
\<close>

theorem pool_accounting:
  assumes "s = foldl pool_step (new_pool n mt mc) es"
  shows "(\<forall>a<length (heap s). active_tasks (obj s a) = tally (is_running a) s \<and> active_tasks (obj s a) \<le> mc)
    \<and> tasks_waiting s = tally is_polling s \<and> tasks_waiting s \<le> st_peak_waiting (stats s)
    \<and> distinct (workers s) \<and> set (workers s) \<subseteq> {..<length (heap s)}"
proof -
  have s: "accounted s" and "max_concurrent s = mc"
    unfolding assms by (rule run_accounted) (simp add: run_limit new_pool_def)
  then have "\<forall>a<length (heap s). active_tasks (obj s a) = tally (is_running a) s \<and> active_tasks (obj s a) \<le> mc"
    by (metis accounted_def worker_ok_def)
  moreover have "tasks_waiting s = tally is_polling s \<and> tasks_waiting s \<le> st_peak_waiting (stats s)
    \<and> distinct (workers s) \<and> set (workers s) \<subseteq> {..<length (heap s)}"
    using s by (simp add: accounted_def addressed_def)
  ultimately show ?thesis by (rule conjI)
qed

text \<open>C20: a worker whose process is being replaced runs no task, and only one call replaces it: no
  task ever loses its worker to a recycle, and no worker is recycled twice at a time.
\<close>

theorem recycled_worker_is_idle:
  assumes "s = foldl pool_step (new_pool n mt mc) es"
    and "call_at s t = Some (Terminating a out) \<or> call_at s t = Some (Spawning a out)"
  shows "recycling (obj s a) \<and> (\<forall>u i. call_at s u \<noteq> Some (Running a i))
    \<and> (\<forall>u. u \<noteq> t \<longrightarrow> (\<forall>out'. call_at s u \<noteq> Some (Terminating a out') \<and> call_at s u \<noteq> Some (Spawning a out')))"
proof -
  have s: "accounted s" unfolding assms(1) by (rule run_accounted)
  obtain c where c: "call_at s t = Some c" "is_recycler a c" using assms(2) by fastforce
  note alone = recycled_alone[OF s c]
  have "call_at s u \<noteq> Some (Running a i)" for u i using alone(2)[of u "Running a i"] by auto
  moreover have "call_at s u \<noteq> Some (Terminating a out') \<and> call_at s u \<noteq> Some (Spawning a out')" if "u \<noteq> t" for u out'
    using alone(3)[of u "Terminating a out'"] alone(3)[of u "Spawning a out'"] that by auto
  ultimately show ?thesis using alone(1) by blast
qed

text \<open>A call gets no worker only if every listed worker is dead, being recycled or full; the
  worker it gets is a listed live one with free capacity whose load is least, its load grows by
  one and every other worker object is left as it was.
\<close>

lemma acquire_least_loaded:
  "(acquire now s = None \<longleftrightarrow> (\<forall>a\<in>set (workers s). \<not> available s a))
   \<and> (\<forall>a s'. acquire now s = Some (a, s') \<longrightarrow>
        a \<in> set (workers s) \<and> available s a
        \<and> (\<forall>b\<in>set (workers s). available s b \<longrightarrow> active_tasks (obj s a) \<le> active_tasks (obj s b))
        \<and> workers s' = workers s \<and> (\<forall>b. b \<noteq> a \<longrightarrow> obj s' b = obj s b)
        \<and> (a < length (heap s) \<longrightarrow> active_tasks (obj s' a) = active_tasks (obj s a) + 1))"
proof (intro conjI[OF acquire_None] allI impI)
  fix a s' assume acq: "acquire now s = Some (a, s')"
  note facts = acquire_Some[OF acq]
  from facts(1,2,4) show "a \<in> set (workers s) \<and> available s a
        \<and> (\<forall>b\<in>set (workers s). available s b \<longrightarrow> active_tasks (obj s a) \<le> active_tasks (obj s b))
        \<and> workers s' = workers s \<and> (\<forall>b. b \<noteq> a \<longrightarrow> obj s' b = obj s b)
        \<and> (a < length (heap s) \<longrightarrow> active_tasks (obj s' a) = active_tasks (obj s a) + 1)"
    by (simp add: facts(3) take_slot_def put_obj_def)
qed

section \<open>Lost capacity\<close>

text \<open>
  A listed worker is stranded when it runs nothing, no call is replacing it, and it is dead or
  marked for recycling.
\<close>

definition stranded :: "nat \<Rightarrow> pool \<Rightarrow> bool" where
  "stranded a s \<longleftrightarrow> a \<in> set (workers s) \<and> tally (is_running a) s = 0 \<and> tally (is_recycler a) s = 0
     \<and> (recycling (obj s a) \<or> returncode (obj s a) \<noteq> None)"

lemma stranded_cong:
  assumes "stranded a s" "workers s' = workers s" "calls s' = calls s" "obj s' a = obj s a"
  shows "stranded a s'"
  using assms by (simp add: stranded_def tally_def)

lemma stranded_calls: "stranded a s \<Longrightarrow> call_at s t = Some c \<Longrightarrow> \<not> is_running a c \<and> \<not> is_recycler a c"
  using tally_pos[of s t c "is_running a"] tally_pos[of s t c "is_recycler a"] by (auto simp: stranded_def)

lemma stranded_set_call:
  assumes "stranded a s" "call_at s0 t = Some c" "calls s = calls s0" "\<not> is_running a c'" "\<not> is_recycler a c'"
  shows "stranded a (set_call t c' s)"
proof -
  have c: "call_at s t = Some c" using assms(2,3) by (metis call_at_def)
  have "tally (is_running a) (set_call t c' s) = 0" "tally (is_recycler a) (set_call t c' s) = 0"
    using tally_update[OF c, of "set_call t c' s" c' "is_running a"] assms
      tally_update[OF c, of "set_call t c' s" c' "is_recycler a"]
    by (simp_all add: set_call_def stranded_def split: if_splits)
  then show ?thesis using assms(1) by (simp add: stranded_def set_call_def)
qed

lemma stranded_simps [simp]:
  "stranded a (timed_lock i s) = stranded a s" "stranded a (upd_stats f s) = stranded a s"
  "stranded a (stop_waiting s) = stranded a s" "stranded a (begin_waiting s) = stranded a s"
  "stranded a (recycle_begin b s) = stranded a s"
  by (simp_all add: stranded_def tally_def timed_lock_def upd_stats_def stop_waiting_def begin_waiting_def
      recycle_begin_def Let_def)

lemma stop_waiting_calls [simp]: "calls (stop_waiting s) = calls s"
  by (simp add: stop_waiting_def)

lemma stranded_put_obj: "b \<noteq> a \<Longrightarrow> stranded a (put_obj b w s) = stranded a s"
  by (simp add: stranded_def tally_def put_obj_def)

lemma stranded_get_available:
  assumes "stranded a s" "call_at s t = Some c"
  shows "stranded a (get_available_worker t waiting start now wait s)"
proof (cases "acquire now (timed_lock wait s)")
  case (Some p)
  then obtain b s2 where p: "acquire now (timed_lock wait s) = Some (b, s2)" by (cases p) auto
  have b: "b \<noteq> a" using acquire_Some(2)[OF p] assms(1) by (auto simp: stranded_def available_def)
  have "stranded a (s\<lparr>next_worker_index := k\<rparr>)" for k using assms(1) by (simp add: stranded_def tally_def)
  then have "stranded a s2" using assms(1) b
    by (simp add: acquire_Some(3)[OF p] take_slot_def stranded_put_obj) (simp add: stranded_def tally_def)
  moreover have "calls s2 = calls s" by (simp add: acquire_Some(3)[OF p] take_slot_def put_obj_def)
  ultimately have "stranded a (set_call t (Running b now) (if waiting then stop_waiting s2 else s2))"
    using b by (intro stranded_set_call[OF _ assms(2)]) simp_all
  then show ?thesis by (simp add: get_available_worker_def p)
next
  case None
  define s2 where "s2 = (if waiting then timed_lock wait s else begin_waiting (timed_lock wait s))"
  have "stranded a s2" "calls s2 = calls s"
    using assms(1) by (simp_all add: s2_def begin_waiting_def Let_def upd_stats_def)
      (simp_all add: stranded_def tally_def timed_lock_def upd_stats_def)
  then have "stranded a (set_call t (Over (Inl NoAvailableWorker)) (stop_waiting (timed_lock 0 s2)))"
    "stranded a (set_call t (Polling start) s2)"
    by (auto intro!: stranded_set_call[OF _ assms(2)])
  then show ?thesis by (simp add: get_available_worker_def None Let_def s2_def)
qed

lemma stranded_finish:
  assumes "stranded a s" "call_at s t = Some (Running b start)"
  shows "stranded a (finish_task t b start reply gone now wait s)"
proof -
  have b: "b \<noteq> a" using stranded_calls[OF assms] by simp
  define s0 where "s0 = upd_stats (count_reply reply (now - start)) s"
  define s1 where "s1 = snd (release_worker b now wait s0)"
  have "stranded a s1" "calls s1 = calls s"
    using assms(1) b by (simp_all add: s1_def release_worker_def Let_def stranded_put_obj s0_def)
      (simp add: upd_stats_def put_obj_def)
  then have "stranded a (set_call t c' s1)" "stranded a (set_call t c' (recycle_begin b s1))"
    if "\<not> is_running a c'" "\<not> is_recycler a c'" for c'
    using that by (auto intro!: stranded_set_call[OF _ assms(2)] simp: recycle_begin_def upd_stats_def)
      (simp add: stranded_def tally_def)
  then show ?thesis using b by (simp add: finish_task_def s0_def s1_def split_beta)
qed

lemma stranded_recycle_end:
  assumes "stranded a s" "b \<noteq> a" "accounted s"
  shows "stranded a (recycle_end b sp wait s)"
proof -
  have a: "a \<in> set (workers s)" "a < length (heap s)" and d: "distinct (workers s)"
    using assms(1,3) by (auto simp: stranded_def accounted_def addressed_def)
  have keep: "a \<in> set ((workers s)[i := k])" "a \<in> set (take i (workers s) @ drop (Suc i) (workers s))"
    if "index_of b (workers s) = Some i" for i k
  proof -
    have i: "i < length (workers s)" "workers s ! i = b" using index_of_Some[OF that] by auto
    obtain j where j: "j < length (workers s)" "workers s ! j = a" using a(1) by (auto simp: in_set_conv_nth)
    have "j \<noteq> i" using i j assms(2) by auto
    then show "a \<in> set ((workers s)[i := k])" using j by (metis length_list_update nth_list_update_neq nth_mem)
    have "a \<in> set (take i (workers s) @ b # drop (Suc i) (workers s))"
      using a(1) id_take_nth_drop[OF i(1)] i(2) by simp
    then show "a \<in> set (take i (workers s) @ drop (Suc i) (workers s))" using assms(2) by auto
  qed
  have "(heap s @ [w]) ! a = obj s a" for w using a(2) by (simp add: nth_append)
  then show ?thesis using assms(1) keep
    by (auto simp: recycle_end_def Let_def stranded_def tally_def upd_stats_def split: sum.split option.split)
qed

lemma stranded_submit:
  assumes "stranded a s"
  shows "stranded a (submit now wait s)"
proof -
  have new: "stranded a (s\<lparr>calls := calls s @ [c]\<rparr>)" if "\<not> is_running a c" "\<not> is_recycler a c" for c
    using assms that by (simp add: stranded_def tally_def)
  have "stranded a (get_available_worker (length (calls s)) False now now wait (s\<lparr>calls := calls s @ [Entering]\<rparr>))"
    by (rule stranded_get_available[OF new, where c = Entering]) (simp_all add: call_at_def)
  then show ?thesis by (simp add: submit_def new)
qed

lemma stranded_cancel:
  assumes "stranded a s"
  shows "stranded a (cancel t wait s)"
proof -
  have poll: "stranded a (set_call t (Over r) (stop_waiting (timed_lock wait s)))" if "call_at s t = Some c" for c r
    by (rule stranded_set_call[OF _ that]) (simp_all add: assms)
  have "stranded a (set_call t (Over r) (forced_release b s))" if c: "call_at s t = Some c" "is_recycler b c" for b c r
  proof -
    have "b \<noteq> a" using stranded_calls[OF assms c(1)] c(2) by auto
    then show ?thesis using assms
      by (intro stranded_set_call[OF _ c(1)]) (simp_all add: forced_release_def Let_def stranded_put_obj, simp add: put_obj_def)
  qed
  then show ?thesis using poll assms by (auto simp: cancel_def split: option.split call.split)
qed

lemma stranded_exits:
  assumes "stranded a s"
  shows "stranded a (process_exits b code s)"
proof (cases "b = a")
  case True
  then show ?thesis using assms
    by (cases "a < length (heap s)") (auto simp: not_less list_update_beyond stranded_def tally_def process_exits_def put_obj_def split: option.split)
qed (simp add: process_exits_def stranded_put_obj assms)

lemma stranded_old_exits:
  assumes "stranded a s"
  shows "stranded a (old_process_exits t code killed s)"
proof (cases "\<exists>b out. call_at s t = Some (Terminating b out)")
  case True
  then obtain b out where c: "call_at s t = Some (Terminating b out)" by blast
  have "b \<noteq> a" using stranded_calls[OF assms c] by simp
  then have "stranded a (set_call t (Spawning b out)
      (upd_stats (\<lambda>m. if killed then m\<lparr>st_kills := st_kills m + 1\<rparr> else m) (process_exits b code s)))"
    by (intro stranded_set_call[OF _ c]) (simp_all add: stranded_exits assms, simp add: upd_stats_def process_exits_def put_obj_def)
  then show ?thesis by (simp add: old_process_exits_def c)
qed (use assms in \<open>auto simp: old_process_exits_def split: option.split call.split\<close>)

lemma stranded_new_process:
  assumes "stranded a s" "accounted s"
  shows "stranded a (new_process t sp wait s)"
proof (cases "\<exists>b out. call_at s t = Some (Spawning b out)")
  case True
  then obtain b out where c: "call_at s t = Some (Spawning b out)" by blast
  have "b \<noteq> a" using stranded_calls[OF assms(1) c] by simp
  then have "stranded a (recycle_end b sp wait s)" using stranded_recycle_end assms by blast
  then have "stranded a (set_call t (Over out) (recycle_end b sp wait s))"
    by (rule stranded_set_call[OF _ c]) (simp_all add: recycle_end_calls)
  then show ?thesis by (simp add: new_process_def c)
qed (use assms in \<open>auto simp: new_process_def split: option.split call.split\<close>)

lemma stranded_add_workers: "stranded a s \<Longrightarrow> a < length (heap s) \<Longrightarrow> stranded a (add_workers i rs s)"
proof (induction i rs s rule: add_workers.induct)
  case (3 i p rs s)
  then show ?case by (simp add: stranded_def tally_def nth_append)
qed simp_all

lemma stranded_step:
  assumes "accounted s" "stranded a s" "closing s = None" "e \<noteq> EvShutdown"
  shows "stranded a (pool_step s e)"
proof (cases e)
  case (EvStart rs)
  have "a < length (heap s)" using assms(1,2) by (auto simp: accounted_def addressed_def stranded_def)
  from stranded_add_workers[OF assms(2) this, of 0 rs] have "stranded a (add_workers 0 rs s)" .
  then have "stranded a ((add_workers 0 rs s)\<lparr>started := True\<rparr>)" by (simp add: stranded_def tally_def)
  then show ?thesis using assms(2) stranded_add_workers[OF assms(2) \<open>a < length (heap s)\<close>, of 0 rs]
    unfolding EvStart pool_step.simps start_pool_def Let_def by presburger
next
  case (EvPoll t now wait)
  then show ?thesis using stranded_get_available[OF assms(2)] assms(2) unfolding EvPoll pool_step.simps poll_def
    by (simp split: option.split call.split)
next
  case (EvReply t reply gone now wait)
  then show ?thesis using stranded_finish[OF assms(2)] assms(2) unfolding EvReply pool_step.simps receive_reply_def
    by (simp split: option.split call.split)
next
  case (EvMetrics now wait)
  have "stranded a (emit_metrics now wait s)"
    by (rule stranded_cong[OF assms(2)]) (simp_all add: emit_metrics_def Let_def)
  then show ?thesis by (simp add: EvMetrics)
qed (use assms in \<open>simp_all add: stranded_submit stranded_cancel stranded_old_exits stranded_new_process
  stranded_exits shutdown_next_def\<close>)

interpretation stranded_pool: machine pool_step "\<lambda>s. accounted s \<and> closing s = None \<and> stranded a s"
    "\<lambda>s e. e \<noteq> EvShutdown" for a
  by unfold_locales (metis step_accounted stranded_step step_limits limits_def prod.inject)

lemma no_shutdown_legal: "EvShutdown \<notin> set es \<Longrightarrow> legal pool_step (\<lambda>s e. e \<noteq> EvShutdown) s es"
  by (induction es arbitrary: s) auto

lemma no_shutdown_closing: "EvShutdown \<notin> set es \<Longrightarrow> closing s = None \<Longrightarrow> closing (foldl pool_step s es) = None"
proof (induction es arbitrary: s)
  case (Cons e es)
  then have "e \<noteq> EvShutdown" by auto
  then have "closing (pool_step s e) = None" using step_limits[of e s] Cons.prems(2) by (simp add: limits_def)
  then show ?case using Cons by simp
qed simp

text \<open>Until the pool is shut down, a stranded worker stays in the list, is never chosen again and
  is never replaced, and the crash counter never moves: its share of the capacity is lost. A
  worker that dies while idle is stranded, and so is one whose replacement was cancelled.
\<close>

lemma stranded_worker_is_lost:
  assumes "s = foldl pool_step (new_pool n mt mc) es" and "stranded a s" and "EvShutdown \<notin> set (es @ fs)"
  shows "a \<in> set (workers (foldl pool_step s fs)) \<and> \<not> available (foldl pool_step s fs) a
    \<and> st_crashes (stats (foldl pool_step s fs)) = 0"
proof -
  have "closing s = None" unfolding assms(1)
    by (rule no_shutdown_closing) (use assms(3) in \<open>simp_all add: new_pool_def\<close>)
  then have s: "accounted s \<and> closing s = None \<and> stranded a s" using run_accounted assms(1,2) by simp
  have "EvShutdown \<notin> set fs" using assms(3) by simp
  from stranded_pool.run_inv[OF s no_shutdown_legal[OF this]]
  show ?thesis by (auto simp: stranded_def available_def accounted_def)
qed

section \<open>What execute returns\<close>

lemma call_at_set: "call_at s t = Some c \<Longrightarrow> calls s' = calls s \<Longrightarrow> call_at (set_call t c' s') t = Some c'"
  by (simp add: call_at_def set_call_def split: if_splits)

lemma process_exits_calls: "calls (process_exits a code s) = calls s"
  by (simp add: process_exits_def put_obj_def)

lemma release_calls: "calls (snd (release_worker a now wait s)) = calls s"
  by (simp add: release_worker_def Let_def upd_stats_def put_obj_def)

lemma release_due: "fst (release_worker a now wait (upd_stats f s)) = due_for_recycle (max_tasks s) (obj s a)"
  by (simp add: release_worker_def Let_def upd_stats_def)

lemma release_returncode: "returncode (obj (snd (release_worker a now wait (upd_stats f s))) b) = returncode (obj s b)"
  by (cases "b < length (heap s)"; cases "b = a")
    (simp_all add: release_worker_def Let_def upd_stats_def put_obj_def released_def not_less list_update_beyond)

lemma recycle_begin_calls: "calls (recycle_begin a s) = calls s"
  by (simp add: recycle_begin_def upd_stats_def)

lemma reply_call:
  assumes "call_at s t = Some (Running a start)"
  shows "call_at (receive_reply t r gone now wait s) t = Some (
    if \<not> due_for_recycle (max_tasks s) (obj s a) then Over (outcome_of r)
    else if gone \<and> returncode (obj s a) \<noteq> None then Over (Inl ProcessGone)
    else Terminating a (outcome_of r))"
proof -
  let ?s0 = "upd_stats (count_reply r (now - start)) s"
  have "calls ?s0 = calls s" by (simp add: upd_stats_def)
  then show ?thesis
    by (auto simp: receive_reply_def assms finish_task_def split_beta release_due release_returncode
        intro!: call_at_set[OF assms] simp: release_calls recycle_begin_calls)
qed

text \<open>A call returns what its worker replied, when its worker is not due for recycling at once;
  when it is, after the old process exited and the attempt to start a new one ended, whether or
  not it failed. A reply already received is lost, though, if the call is cancelled while it
  replaces the worker, or if the process of the worker has vanished: ProcessLookupError leaves
  \<open>execute\<close> instead.
\<close>

lemma execute_outcome:
  assumes "call_at s t = Some (Running a start)"
  shows "(\<not> due_for_recycle (max_tasks s) (obj s a) \<longrightarrow>
      call_at (pool_step s (EvReply t r gone now wait)) t = Some (Over (outcome_of r)))
    \<and> (due_for_recycle (max_tasks s) (obj s a) \<longrightarrow>
      call_at (foldl pool_step s [EvReply t r False now wait, EvExited t code k, EvSpawned t sp wait']) t = Some (Over (outcome_of r))
      \<and> call_at (foldl pool_step s [EvReply t r False now wait, EvCancel t wait']) t = Some (Over (Inl TaskCancelled))
      \<and> (returncode (obj s a) \<noteq> None \<longrightarrow>
          call_at (pool_step s (EvReply t r True now wait)) t = Some (Over (Inl ProcessGone))))"
proof -
  define s1 where "s1 = receive_reply t r False now wait s"
  define s2 where "s2 = old_process_exits t code k s1"
  have "call_at s2 t = Some (Spawning a (outcome_of r))" if s1: "call_at s1 t = Some (Terminating a (outcome_of r))"
    unfolding s2_def by (simp add: old_process_exits_def s1, rule call_at_set[OF s1]) (simp add: upd_stats_def process_exits_calls)
  then have spawned: "call_at (new_process t sp wait' s2) t = Some (Over (outcome_of r))"
    if "call_at s1 t = Some (Terminating a (outcome_of r))"
    using that by (simp add: new_process_def) (metis call_at_set recycle_end_calls)
  have cancelled: "call_at (cancel t wait' s1) t = Some (Over (Inl TaskCancelled))"
    if s1: "call_at s1 t = Some (Terminating a (outcome_of r))"
    by (simp add: cancel_def s1, rule call_at_set[OF s1]) (simp add: forced_release_def Let_def put_obj_def)
  show ?thesis using reply_call[OF assms, of r gone now wait] reply_call[OF assms, of r False now wait]
      reply_call[OF assms, of r True now wait] spawned cancelled
    by (simp add: s1_def s2_def)
qed

section \<open>Witnesses\<close>

text \<open>
  A pool of two workers with one slot each and a limit of one task per worker, three calls; then
  the first call gets its reply, starts to recycle its worker and is cancelled.
\<close>

definition busy_run :: "pool_event list" where
  "busy_run = [EvStart [Inr 7, Inr 8], EvSubmit 0 0, EvSubmit 1 0, EvSubmit 2 0]"

definition recycle_run :: "pool_event list" where
  "recycle_run = busy_run @ [EvReply 0 (Replied JNull) False 5 0]"

abbreviation busy_pool :: "pool_event list \<Rightarrow> pool" where
  "busy_pool \<equiv> foldl pool_step (new_pool 2 1 1)"

lemma busy_state: "tasks_waiting (busy_pool busy_run) = 1" "length (heap (busy_pool busy_run)) = 2"
    "acquire 3 (busy_pool busy_run) = None"
    "map_option fst (acquire 3 (busy_pool [EvStart [Inr 7, Inr 8], EvSubmit 0 0])) = Some 1"
  by code_simp+

lemma recycle_state: "call_at (busy_pool recycle_run) 0 = Some (Terminating 0 (Inr JNull))"
    "call_at (busy_pool busy_run) 0 = Some (Running 0 0)"
    "due_for_recycle (max_tasks (busy_pool busy_run)) (obj (busy_pool busy_run) 0)"
  by code_simp+

lemma stranded_state: "stranded 0 (busy_pool (recycle_run @ [EvCancel 0 0]))"
  by code_simp

theorem pool_accounting_witness:
  "active_tasks (obj (busy_pool busy_run) 0) = tally (is_running 0) (busy_pool busy_run)
    \<and> active_tasks (obj (busy_pool busy_run) 0) \<le> 1
    \<and> length (heap (busy_pool busy_run)) = 2 \<and> tasks_waiting (busy_pool busy_run) = 1"
proof -
  have "\<forall>a<length (heap (busy_pool busy_run)). active_tasks (obj (busy_pool busy_run) a) = tally (is_running a) (busy_pool busy_run)
      \<and> active_tasks (obj (busy_pool busy_run) a) \<le> 1"
    by (rule conjunct1[OF pool_accounting[OF refl]])
  moreover have "0 < length (heap (busy_pool busy_run))" unfolding busy_state(2) by (rule zero_less_numeral)
  ultimately have "active_tasks (obj (busy_pool busy_run) 0) = tally (is_running 0) (busy_pool busy_run)
      \<and> active_tasks (obj (busy_pool busy_run) 0) \<le> 1"
    by blast
  then show ?thesis using busy_state(1,2) by blast
qed

theorem recycled_worker_is_idle_witness:
  "call_at (busy_pool recycle_run) 0 = Some (Terminating 0 (Inr JNull))
    \<and> (\<forall>u i. call_at (busy_pool recycle_run) u \<noteq> Some (Running 0 i))"
  using recycled_worker_is_idle[OF refl disjI1[OF recycle_state(1)]] recycle_state(1) by blast

lemma acquire_least_loaded_witness:
  "(\<exists>s'. acquire 3 (busy_pool [EvStart [Inr 7, Inr 8], EvSubmit 0 0]) = Some (1, s')
      \<and> available (busy_pool [EvStart [Inr 7, Inr 8], EvSubmit 0 0]) 1)
    \<and> (\<forall>a\<in>set (workers (busy_pool busy_run)). \<not> available (busy_pool busy_run) a)"
proof (rule conjI)
  obtain s' where s': "acquire 3 (busy_pool [EvStart [Inr 7, Inr 8], EvSubmit 0 0]) = Some (1, s')"
    using busy_state(4) by fastforce
  have "available (busy_pool [EvStart [Inr 7, Inr 8], EvSubmit 0 0]) 1"
    using s' conjunct2[OF acquire_least_loaded, rule_format, OF s'] by blast
  with s' show "\<exists>s'. acquire 3 (busy_pool [EvStart [Inr 7, Inr 8], EvSubmit 0 0]) = Some (1, s')
      \<and> available (busy_pool [EvStart [Inr 7, Inr 8], EvSubmit 0 0]) 1" by blast
  show "\<forall>a\<in>set (workers (busy_pool busy_run)). \<not> available (busy_pool busy_run) a"
    using conjunct1[OF acquire_least_loaded] busy_state(3) by blast
qed

lemma stranded_worker_is_lost_witness:
  "\<not> available (foldl pool_step (busy_pool (recycle_run @ [EvCancel 0 0])) [EvPoll 2 20000 0, EvSubmit 20001 0]) 0"
  using stranded_worker_is_lost[OF refl stranded_state, of "[EvPoll 2 20000 0, EvSubmit 20001 0]"]
  by (simp add: recycle_run_def busy_run_def)

lemma execute_outcome_witness:
  "call_at (foldl pool_step (busy_pool busy_run) [EvReply 0 (Replied JNull) False 5 0, EvExited 0 15 False, EvSpawned 0 (Inl ''x'') 0]) 0
      = Some (Over (Inr JNull))
    \<and> call_at (foldl pool_step (busy_pool busy_run) [EvReply 0 (Replied JNull) False 5 0, EvCancel 0 0]) 0 = Some (Over (Inl TaskCancelled))"
  using execute_outcome[OF recycle_state(2), of "Replied JNull" False 5 0 15 False "Inl ''x''" 0] recycle_state(3) by simp

end
