(* ===== verification/Execution.thy ===== *)
theory Execution
  imports Scheduler
begin

text \<open>
  The executor of the workflow engine (\<open>DSLWorkflow\<close> in \<open>allama/dsl/workflow.py\<close>): what happens when
  the scheduler runs a task (\<open>execute_task\<close>), the loops over child workflows, and what surrounds the
  scheduler (\<open>run\<close>, error handlers, the consolidated configuration).

  Activities, child workflows and the evaluation of expressions are replies of the environment. A
  reply that raises is on the left. The cancellation of the workflow itself is not modelled.
\<close>

section \<open>Results and exceptions\<close>

text \<open>\<open>type(data).__name__\<close>, and the same for a stored result, which may carry a name of its own.\<close>

fun json_typename :: "json \<Rightarrow> string" where
  "json_typename JNull = ''NoneType''"
| "json_typename (JBool _) = ''bool''"
| "json_typename (JInt _) = ''int''"
| "json_typename (JFloat _) = ''float''"
| "json_typename (JStr _) = ''str''"
| "json_typename (JArr _) = ''list''"
| "json_typename (JObj _) = ''dict''"

fun result_typename :: "stored \<Rightarrow> string option \<Rightarrow> string" where
  "result_typename (Inline v) ty = (case ty of Some n \<Rightarrow> if n = [] then json_typename v else n | None \<Rightarrow> json_typename v)"
| "result_typename (Slots _) ty = (case ty of Some n \<Rightarrow> if n = [] then ''list'' else n | None \<Rightarrow> ''list'')"
| "result_typename (External _) ty = (case ty of Some n \<Rightarrow> if n = [] then ''external'' else n | None \<Rightarrow> ''external'')"
| "result_typename (Collected _ _) ty = (case ty of Some n \<Rightarrow> if n = [] then ''list'' else n | None \<Rightarrow> ''list'')"

definition from_result :: "json \<Rightarrow> task_result" where
  "from_result v = from_stored (Inline v) (json_typename v)"

definition with_result :: "json \<Rightarrow> task_result \<Rightarrow> task_result" where
  "with_result v r = r\<lparr>tr_result := Inline v, tr_typename := json_typename v\<rparr>"

definition with_error :: "json \<Rightarrow> string \<Rightarrow> task_result \<Rightarrow> task_result" where
  "with_error e ty r = r\<lparr>tr_error := e, tr_error_typename := Some (if ty = [] then json_typename e else ty)\<rparr>"

text \<open>
  What the Temporal SDK says of an exception: whether it is a \<open>FailureError\<close> (the base class of
  \<open>ActivityError\<close>, \<open>ChildWorkflowError\<close> and \<open>ApplicationError\<close>), and the \<open>type\<close> of an application
  error; and the \<open>detail\<close> of an expression error.
\<close>

record sdk =
  is_failure :: "exn \<Rightarrow> bool"
  app_type :: "exn \<Rightarrow> string option"
  expr_detail :: "exn \<Rightarrow> string option"

definition ERROR_TYPE_TO_MESSAGE :: "(string, string) dict" where
  "ERROR_TYPE_TO_MESSAGE =
     [(''ActivityError'', ''Activity execution failed''),
      (''ChildWorkflowError'', ''Child workflow execution failed''),
      (''FailureError'', ''Workflow execution failed''),
      (''ValidationError'', ''Runtime validation error'')]"

text \<open>
  The handlers of \<open>_execute_task\<close>: the result stored by the \<open>finally\<close> block and the exception that
  leaves. The table of messages is consulted with the class of the failure, so a failure of any
  other class raises \<open>KeyError\<close> there.
\<close>

definition handle_exception :: "sdk \<Rightarrow> exn \<Rightarrow> task_result \<Rightarrow> task_result \<times> exn" where
  "handle_exception sdk e r =
     (if is_failure sdk e then
        (if dget ERROR_TYPE_TO_MESSAGE (exn_class e) = None then (r, key_error (quoted (exn_class e)))
         else
           (case exn_cause e of
              Some c \<Rightarrow>
                if exn_app c \<and> exn_details c \<noteq> []
                then (with_error (hd (exn_details c))
                        (case app_type sdk c of Some t \<Rightarrow> if t = [] then exn_class e else t | None \<Rightarrow> exn_class e) r, c)
                else (with_error (JStr (exn_str e)) (exn_class e) r,
                      Exn ''ApplicationError'' True (exn_str e) [] (Some c))
            | None \<Rightarrow> (with_error (JStr (exn_str e)) (exn_class e) r,
                      Exn ''ApplicationError'' True (exn_str e) [] None)))
      else if exn_class e = ''AllamaExpressionError'' then
        (r, Exn ''ApplicationError'' True
              (case expr_detail sdk e of Some d \<Rightarrow> if d = [] then ''Error occurred when handling an expression'' else d
               | None \<Rightarrow> ''Error occurred when handling an expression'') [] (Some e))
      else if exn_class e = ''ValidationError'' then
        (with_error (JArr (exn_details e)) ''ValidationError'' r, e)
      else
        (let msg = ''Task execution failed with unexpected error: '' @ exn_str e
         in (with_error (JStr msg) (exn_class e) r, Exn ''ApplicationError'' True msg [] (Some e))))"

section \<open>Timers\<close>

text \<open>
  \<open>_handle_timers\<close>: the seconds slept before the action. \<open>parse_wait\<close> is the activity that parses the
  date, \<open>now\<close> the clock; both in seconds. The \<open>wait_until\<close> of a task takes precedence.
\<close>

definition handle_timers :: "(string \<Rightarrow> exn + rat option) \<Rightarrow> rat \<Rightarrow> action_stmt \<Rightarrow> exn + rat" where
  "handle_timers parse_wait now a =
     (case stmt_wait_until a of
        Some w \<Rightarrow>
          if w \<noteq> [] then
            (case parse_wait w of
               Inl e \<Rightarrow> Inl e
             | Inr None \<Rightarrow> Inl (app_error ''Invalid wait until date'' [])
             | Inr (Some t) \<Rightarrow> Inr (if t > now then t - now else 0))
          else Inr (if stmt_start_delay a > 0 then stmt_start_delay a else 0)
      | None \<Rightarrow> Inr (if stmt_start_delay a > 0 then stmt_start_delay a else 0))"

section \<open>Loops over child workflows\<close>

datatype loop_strategy = LoopParallel | LoopBatch | LoopSequential
datatype fail_strategy = FailIsolated | FailAll

fun loop_strategy_of :: "string \<Rightarrow> loop_strategy option" where
  "loop_strategy_of s = (if s = ''parallel'' then Some LoopParallel else if s = ''batch'' then Some LoopBatch
     else if s = ''sequential'' then Some LoopSequential else None)"

fun fail_strategy_of :: "string \<Rightarrow> fail_strategy option" where
  "fail_strategy_of s = (if s = ''isolated'' then Some FailIsolated else if s = ''all'' then Some FailAll else None)"

text \<open>The configuration of a run, \<open>DSLConfig\<close>; the kind of scheduler is not read by this code.\<close>

record dsl_config =
  dc_environment :: string
  dc_timeout :: rat

text \<open>The trigger inputs of one child: a value, or an item of a stored collection.\<close>

datatype trigger = TriggerValue json | TriggerItem nat json nat

datatype run_configs = OneConfig dsl_config | ManyConfigs "dsl_config list"

record prepared =
  pr_config :: dsl_config                \<comment> \<open>the configuration in the definition of the child\<close>
  pr_trigger_inputs :: "stored option"
  pr_runtime_configs :: "run_configs option"

definition prepared_count :: "prepared \<Rightarrow> exn + nat" where
  "prepared_count p =
     (case pr_trigger_inputs p of
        None \<Rightarrow> Inr 1
      | Some (Collected n _) \<Rightarrow> Inr n
      | Some (Inline (JArr xs)) \<Rightarrow> Inr (length xs)
      | Some _ \<Rightarrow> Inl (Exn ''TypeError'' False ''Expected CollectionObject or InlineObject with list'' [] None))"

definition index_error :: exn where
  "index_error = Exn ''IndexError'' False ''list index out of range'' [] None"

definition get_trigger_input_at :: "prepared \<Rightarrow> nat \<Rightarrow> exn + trigger option" where
  "get_trigger_input_at p i =
     (case pr_trigger_inputs p of
        None \<Rightarrow> Inr None
      | Some (Collected n h) \<Rightarrow> Inr (Some (TriggerItem n h i))
      | Some (Inline (JArr xs)) \<Rightarrow> if i < length xs then Inr (Some (TriggerValue (xs ! i))) else Inl index_error
      | Some _ \<Rightarrow> Inl (Exn ''TypeError'' False ''Expected CollectionObject or InlineObject with list'' [] None))"

definition get_config :: "prepared \<Rightarrow> nat \<Rightarrow> exn + dsl_config" where
  "get_config p i =
     (case pr_runtime_configs p of
        None \<Rightarrow> Inr (pr_config p)
      | Some (ManyConfigs cs) \<Rightarrow> if i < length cs then Inr (cs ! i) else Inl index_error
      | Some (OneConfig c) \<Rightarrow> Inr c)"

text \<open>The arguments a child workflow is run with, as far as they differ between children.\<close>

record run_args =
  ra_loop_index :: "nat option"
  ra_trigger :: "trigger option"
  ra_config :: dsl_config
  ra_time_anchor :: rat

definition child_run_args :: "prepared \<Rightarrow> rat \<Rightarrow> nat \<Rightarrow> exn + run_args" where
  "child_run_args p anchor i =
     rbind (get_config p i) (\<lambda>c. rbind (get_trigger_input_at p i) (\<lambda>t.
       Inr \<lparr>ra_loop_index = Some i, ra_trigger = t, ra_config = c, ra_time_anchor = anchor\<rparr>))"

definition dsl_execution_error :: "exn \<Rightarrow> json" where
  "dsl_execution_error e =
     JObj [(''is_error'', JBool True), (''type'', JStr (exn_class e)), (''message'', JStr (exn_str e))]"

definition isolate :: "exn + stored \<Rightarrow> stored" where
  "isolate r = (case r of Inl e \<Rightarrow> Inline (dsl_execution_error e) | Inr s \<Rightarrow> s)"

text \<open>
  One batch: the arguments of all its children are built first, then all children run at once and
  their outcomes are gathered in order. The first component lists the children that were started.
\<close>

definition child_workflow_batch ::
  "(run_args \<Rightarrow> exn + stored) \<Rightarrow> prepared \<Rightarrow> rat \<Rightarrow> fail_strategy \<Rightarrow> nat \<Rightarrow> nat \<Rightarrow> nat list \<times> (exn + stored list)" where
  "child_workflow_batch run_child p anchor fs start n =
     (case rmap (child_run_args p anchor) [start..<start + n] of
        Inl e \<Rightarrow> ([], Inl e)
      | Inr args \<Rightarrow>
          let outcomes = map run_child args in
          ([start..<start + n],
           if fs = FailAll \<and> list_ex isl outcomes
           then Inl (runtime_error ''One or more child workflows failed'')
           else Inr (map isolate outcomes)))"

text \<open>
  The \<open>while\<close> loop over the batches. The batch size is any integer the user wrote: below one, the
  loop makes no progress and never ends, which is the value None.
\<close>

partial_function (option) batch_loop ::
  "(nat \<Rightarrow> nat \<Rightarrow> nat list \<times> (exn + stored list)) \<Rightarrow> int \<Rightarrow> int \<Rightarrow> int \<Rightarrow> nat list \<Rightarrow> stored list \<Rightarrow>
   (nat list \<times> (exn + stored list)) option" where
  "batch_loop run_batch bs n_all start started acc =
     (if start < n_all then
        let current = min bs (n_all - start) in
        (case run_batch (nat start) (nat current) of
           (js, Inl e) \<Rightarrow> Some (started @ js, Inl e)
         | (js, Inr rs) \<Rightarrow> batch_loop run_batch bs n_all (start + current) (started @ js) (acc @ rs))
      else Some (started, Inr acc))"

fun int_of_json :: "json \<Rightarrow> exn + int" where
  "int_of_json (JInt i) = Inr i"
| "int_of_json (JBool b) = Inr (if b then 1 else 0)"
| "int_of_json (JFloat r) = Inr (if r < 0 then - floor (- r) else floor r)"
| "int_of_json (JStr s) = (case py_int s of Some i \<Rightarrow> Inr i | None \<Rightarrow> Inl (Exn ''ValueError'' False (''invalid literal for int() with base 10: '' @ quoted s) [] None))"
| "int_of_json _ = Inl (Exn ''TypeError'' False ''int() argument must be a string, a bytes-like object or a real number'' [] None)"

definition enum_arg :: "(string \<Rightarrow> 'a option) \<Rightarrow> 'a \<Rightarrow> json option \<Rightarrow> exn + 'a" where
  "enum_arg of_string d v =
     (case v of
        None \<Rightarrow> Inr d
      | Some (JStr s) \<Rightarrow> (case of_string s of Some x \<Rightarrow> Inr x
          | None \<Rightarrow> Inl (Exn ''ValueError'' False (quoted s @ '' is not a valid strategy'') [] None))
      | Some _ \<Rightarrow> Inl (Exn ''ValueError'' False ''not a valid strategy'' [] None))"

text \<open>
  \<open>_execute_child_workflow_loop_prepared\<close>: the fail strategy, the number of iterations and the batch
  size. The dictionary of batch sizes is built before it is consulted, so the \<open>batch_size\<close> argument
  is converted for every strategy; the arguments are read as they were written, before the
  evaluation of expressions.
\<close>

definition loop_settings :: "action_stmt \<Rightarrow> prepared \<Rightarrow> exn + fail_strategy \<times> nat \<times> int" where
  "loop_settings a p =
     rbind (enum_arg loop_strategy_of LoopBatch (dget (stmt_args a) ''loop_strategy'')) (\<lambda>ls.
     rbind (enum_arg fail_strategy_of FailIsolated (dget (stmt_args a) ''fail_strategy'')) (\<lambda>fs.
     rbind (prepared_count p) (\<lambda>n.
     rbind (case dget (stmt_args a) ''batch_size'' of None \<Rightarrow> Inr 32 | Some v \<Rightarrow> int_of_json v) (\<lambda>b.
     Inr (fs, n, case ls of LoopSequential \<Rightarrow> 1 | LoopBatch \<Rightarrow> b | LoopParallel \<Rightarrow> int n)))))"

definition child_workflow_loop ::
  "(run_args \<Rightarrow> exn + stored) \<Rightarrow> (stored list \<Rightarrow> exn + stored) \<Rightarrow> action_stmt \<Rightarrow> prepared \<Rightarrow> rat \<Rightarrow>
   (nat list \<times> (exn + stored)) option" where
  "child_workflow_loop run_child synchronize a p anchor =
     (case loop_settings a p of
        Inl e \<Rightarrow> Some ([], Inl e)
      | Inr (fs, n, bs) \<Rightarrow>
          (case batch_loop (child_workflow_batch run_child p anchor fs) bs (int n) 0 [] [] of
             None \<Rightarrow> None
           | Some (started, Inl e) \<Rightarrow> Some (started, Inl e)
           | Some (started, Inr rs) \<Rightarrow> Some (started, synchronize rs)))"

text \<open>\<open>_execute_child_workflow_prepared\<close>: a single child evaluates its own trigger inputs.\<close>

definition child_workflow_prepared ::
  "(run_args \<Rightarrow> exn + stored) \<Rightarrow> (stored list \<Rightarrow> exn + stored) \<Rightarrow> (json \<Rightarrow> exn + trigger) \<Rightarrow> action_stmt \<Rightarrow>
   prepared \<Rightarrow> rat \<Rightarrow> (nat list \<times> (exn + stored)) option" where
  "child_workflow_prepared run_child synchronize evaluate a p anchor =
     (if pr_trigger_inputs p = None then
        (case rbind (evaluate (case dget (stmt_args a) ''trigger_inputs'' of None \<Rightarrow> JNull | Some v \<Rightarrow> v)) (\<lambda>t.
              rbind (get_config p 0) (\<lambda>c.
              Inr \<lparr>ra_loop_index = None, ra_trigger = Some t, ra_config = c, ra_time_anchor = anchor\<rparr>)) of
           Inl e \<Rightarrow> Some ([], Inl e)
         | Inr args \<Rightarrow> Some ([0], run_child args))
      else child_workflow_loop run_child synchronize a p anchor)"

section \<open>One execution of a task\<close>

text \<open>\<open>is_template_only\<close> of the expression evaluator.\<close>

definition is_template_only :: "string \<Rightarrow> bool" where
  "is_template_only s \<longleftrightarrow> startswith s ([CHR ''$''] @ ''{{'') \<and> endswith s ''}}''"

text \<open>
  What the environment answers while a task is executed: the parser of dates and the clock, the
  context built from the streams, the activity that prepares a child workflow and the child
  workflows, the agent workflow, the evaluation of the environment of the action, and the action
  itself, whose stored result may carry a type name.
\<close>

record attempt =
  at_parse_wait :: "string \<Rightarrow> exn + rat option"
  at_now :: rat
  at_context :: "exn + exec_ctx"
  at_prepare :: "exn + prepared"
  at_run_child :: "run_args \<Rightarrow> exn + stored"
  at_synchronize :: "stored list \<Rightarrow> exn + stored"
  at_evaluate :: "json \<Rightarrow> exn + trigger"
  at_anchor :: rat
  at_agent :: "exn + json"
  at_expression :: "string \<Rightarrow> exn + json"
  at_action :: "json option \<Rightarrow> exec_ctx \<Rightarrow> exn + stored \<times> string option"

text \<open>The environment an action runs in, when it overrides that of the workflow (\<open>_run_action\<close>).\<close>

definition environment_override :: "(string \<Rightarrow> exn + json) \<Rightarrow> action_stmt \<Rightarrow> exn + json option" where
  "environment_override evaluate a =
     (case stmt_environment a of
        None \<Rightarrow> Inr None
      | Some e \<Rightarrow> if is_template_only (strip_ws e) then rbind (evaluate e) (\<lambda>v. Inr (Some v))
                  else Inr (Some (JStr (strip_ws e))))"

definition CHILD_WORKFLOW_EXECUTE :: string where "CHILD_WORKFLOW_EXECUTE = ''core.workflow.execute''"
definition AI_AGENT :: string where "AI_AGENT = ''ai.agent''"
definition AI_PRESET_AGENT :: string where "AI_PRESET_AGENT = ''ai.preset_agent''"

text \<open>
  The body of \<open>_execute_task\<close>; None when a loop over child workflows does not end.
\<close>

definition task_body :: "attempt \<Rightarrow> action_stmt \<Rightarrow> (exn + task_result) option" where
  "task_body e a =
     (case handle_timers (at_parse_wait e) (at_now e) a of
        Inl x \<Rightarrow> Some (Inl x)
      | Inr _ \<Rightarrow>
          if stmt_action a = CHILD_WORKFLOW_EXECUTE then
            (case at_prepare e of
               Inl x \<Rightarrow> Some (Inl x)
             | Inr p \<Rightarrow> map_option (\<lambda>(_, r). rbind r (\<lambda>st. Inr (from_stored st (result_typename st None))))
                 (child_workflow_prepared (at_run_child e) (at_synchronize e) (at_evaluate e) a p (at_anchor e)))
          else if stmt_action a = AI_AGENT \<or> stmt_action a = AI_PRESET_AGENT then
            Some (rbind (at_context e) (\<lambda>_. rbind (at_agent e) (\<lambda>v.
              Inr (if v = JNull then from_result JNull else with_result v (from_result JNull)))))
          else
            Some (rbind (at_context e) (\<lambda>c. rbind (environment_override (at_expression e) a) (\<lambda>env.
              rbind (at_action e env c) (\<lambda>(st, ty). Inr (from_stored st (result_typename st ty)))))))"

text \<open>
  \<open>_execute_task\<close>: the first component is the result the \<open>finally\<close> block stores in the context of the
  stream, the second what is returned or raised.
\<close>

definition execute_once :: "sdk \<Rightarrow> attempt \<Rightarrow> action_stmt \<Rightarrow> (task_result \<times> (exn + task_result)) option" where
  "execute_once sdk e a = map_option (\<lambda>r. case r of
       Inr tr \<Rightarrow> (tr, Inr tr)
     | Inl x \<Rightarrow> (case handle_exception sdk x (from_result JNull) of (tr, y) \<Rightarrow> (tr, Inl y)))
     (task_body e a)"

text \<open>The reply the scheduler gets from its executor.\<close>

definition executor_reply :: "task_result \<times> (exn + task_result) \<Rightarrow> reply" where
  "executor_reply r = R_executed (Some (fst r)) (case snd r of Inl x \<Rightarrow> Some x | Inr _ \<Rightarrow> None)"

section \<open>Retrying until a condition holds\<close>

type_synonym streams = "(stream_id, exec_ctx) dict"

definition put_action :: "stream_id \<Rightarrow> string \<Rightarrow> task_result \<Rightarrow> streams \<Rightarrow> streams" where
  "put_action sid ref r st =
     (case dget st sid of None \<Rightarrow> st | Some c \<Rightarrow> dset sid (c\<lparr>ctx_actions := dset ref r (ctx_actions c)\<rparr>) st)"

text \<open>
  \<open>_execute_task_until_condition\<close>. The context \<open>ctx\<close> is a shallow copy of the root context, so its
  \<open>ACTIONS\<close> are the dictionary of the root stream: writing the result there writes it to the root
  stream, and the condition is evaluated on the root context, whichever stream the task runs in.
  The condition is evaluated outside the handlers of \<open>_execute_task\<close>. \<open>att i\<close> and \<open>cond i\<close> answer in
  the i-th round.
\<close>

partial_function (option) execute_until ::
  "sdk \<Rightarrow> (nat \<Rightarrow> attempt) \<Rightarrow> (nat \<Rightarrow> exec_ctx option \<Rightarrow> exn + json) \<Rightarrow> action_stmt \<Rightarrow> stream_id \<Rightarrow> nat \<Rightarrow>
   streams \<Rightarrow> (streams \<times> (exn + task_result)) option" where
  "execute_until sdk att cond a sid i st =
     (case execute_once sdk (att i) a of
        None \<Rightarrow> None
      | Some (tr, Inl x) \<Rightarrow> Some (put_action sid (stmt_ref a) tr st, Inl x)
      | Some (tr, Inr res) \<Rightarrow>
          let st2 = put_action ROOT_STREAM (stmt_ref a) res (put_action sid (stmt_ref a) tr st) in
          (case cond i (dget st2 ROOT_STREAM) of
             Inl x \<Rightarrow> Some (st2, Inl x)
           | Inr v \<Rightarrow> if truthy v then Some (st2, Inr res) else execute_until sdk att cond a sid (Suc i) st2))"

definition retry_until :: "action_stmt \<Rightarrow> bool" where
  "retry_until a = (case stmt_retry_policy a of JObj d \<Rightarrow> (case dget d ''retry_until'' of Some v \<Rightarrow> truthy v | None \<Rightarrow> False) | _ \<Rightarrow> False)"

text \<open>\<open>execute_task\<close>; a gather only reads its own result back (\<open>noop\<close>).\<close>

definition execute_task ::
  "sdk \<Rightarrow> (nat \<Rightarrow> attempt) \<Rightarrow> (nat \<Rightarrow> exec_ctx option \<Rightarrow> exn + json) \<Rightarrow> (exn + task_result) \<Rightarrow> action_stmt \<Rightarrow>
   stream_id \<Rightarrow> streams \<Rightarrow> (streams \<times> (exn + task_result)) option" where
  "execute_task sdk att cond noop a sid st =
     (if stmt_action a = TRANSFORM_GATHER then Some (st, noop)
      else if retry_until a then execute_until sdk att cond a sid 0 st
      else map_option (\<lambda>(tr, r). (put_action sid (stmt_ref a) tr st, r)) (execute_once sdk (att 0) a))"

section \<open>A run of a workflow\<close>

record config_override =
  co_environment :: "string option"
  co_timeout :: "rat option"

text \<open>The caller's runtime configuration, only the fields that were set, over that of the definition.\<close>

definition consolidate_config :: "dsl_config \<Rightarrow> config_override option \<Rightarrow> dsl_config" where
  "consolidate_config c ov =
     (case ov of
        None \<Rightarrow> c
      | Some o' \<Rightarrow> \<lparr>dc_environment = (case co_environment o' of None \<Rightarrow> dc_environment c | Some e \<Rightarrow> e),
                  dc_timeout = (case co_timeout o' of None \<Rightarrow> dc_timeout c | Some t \<Rightarrow> t)\<rparr>)"

datatype return_strategy = ReturnContext | ReturnMinimal | ReturnOther

text \<open>
  The environment of a run: the trigger inputs of the schedule when there is one, else those given;
  the normalisation against the input schema when there is one; the time anchor; the scheduler, run
  with the configuration, the trigger and the anchor; and the return value.
\<close>

record run_env =
  re_schedule :: "(exn + stored option) option"
  re_trigger :: "exn + stored option"
  re_expects :: bool
  re_normalize :: "stored option \<Rightarrow> exn + stored"
  re_format_validation :: "json \<Rightarrow> exn + string"
  re_anchor :: "exn + rat"
  re_scheduler :: "dsl_config \<Rightarrow> stored option \<Rightarrow> rat \<Rightarrow> exn + (string, exc_info) dict option"
  re_returns :: bool
  re_strategy :: return_strategy
  re_context :: stored
  re_run_context :: stored
  re_return :: "exn + stored"

definition trigger_inputs_of :: "run_env \<Rightarrow> exn + stored option" where
  "trigger_inputs_of e =
     (case re_schedule e of
        None \<Rightarrow> re_trigger e
      | Some (Inr t) \<Rightarrow> Inr t
      | Some (Inl x) \<Rightarrow>
          if exn_class x = ''AllamaNotFoundError''
          then Inl (Exn ''ApplicationError'' True ''Failed to fetch trigger inputs as the schedule was not found'' [] (Some x))
          else Inl x)"

definition normalized_inputs :: "sdk \<Rightarrow> run_env \<Rightarrow> stored option \<Rightarrow> exn + stored option" where
  "normalized_inputs sdk e t =
     (if \<not> re_expects e then Inr t
      else case re_normalize e t of
          Inr s \<Rightarrow> Inr (Some s)
        | Inl x \<Rightarrow>
            if exn_class x = ''ActivityError'' then
              (case exn_cause x of
                 Some c \<Rightarrow>
                   if exn_app c \<and> app_type sdk c = Some ''ValidationError''
                   then (case exn_details c of
                       [d] \<Rightarrow> rbind (re_format_validation e d) (\<lambda>msg. Inl (Exn ''ApplicationError'' True msg [JArr [d]] (Some c)))
                     | _ \<Rightarrow> Inl (Exn ''ValueError'' False ''wrong number of values to unpack'' [] None))
                   else Inl (Exn ''ApplicationError'' True ''Failed to normalize trigger inputs'' [] (Some c))
               | None \<Rightarrow> Inl (Exn ''ApplicationError'' True ''Failed to normalize trigger inputs'' [] None))
            else Inl x)"

definition handle_return :: "run_env \<Rightarrow> exn + stored" where
  "handle_return e =
     (if \<not> re_returns e \<and> re_strategy e = ReturnContext then Inr (re_context e)
      else if \<not> re_returns e \<and> re_strategy e = ReturnMinimal then Inr (re_run_context e)
      else re_return e)"

definition ten_marks :: string where "ten_marks = replicate_char 10 (CHR ''='')"

fun failure_lines :: "nat \<Rightarrow> nat \<Rightarrow> (json \<Rightarrow> string) \<Rightarrow> (string, exc_info) dict \<Rightarrow> string list" where
  "failure_lines i n to_str [] = []"
| "failure_lines i n to_str ((ref, info) # xs) =
     (ten_marks @ '' ('' @ show_nat (i + 1) @ ''/'' @ show_nat n @ '') '' @ to_str (ae_expr_context (ei_details info)) @ ''.'' @ ref
      @ '' '' @ ten_marks @ nl @ nl @ exn_str (ei_exception info)) # failure_lines (i + 1) n to_str xs"

definition workflow_failed :: "(json \<Rightarrow> string) \<Rightarrow> (string, exc_info) dict \<Rightarrow> exn" where
  "workflow_failed to_str excs =
     Exn ''ApplicationError'' True
       (''Workflow failed with '' @ show_nat (length excs) @ '' error(s)'' @ nl @ nl
        @ join_with nl (failure_lines 0 (length excs) to_str excs))
       [JObj (map (\<lambda>(ref, info). (ref, dump_error (ei_details info))) excs)] None"

definition run_workflow ::
  "sdk \<Rightarrow> (json \<Rightarrow> string) \<Rightarrow> dsl_config \<Rightarrow> config_override option \<Rightarrow> run_env \<Rightarrow> exn + stored" where
  "run_workflow sdk to_str c ov e =
     rbind (trigger_inputs_of e) (\<lambda>t0. rbind (normalized_inputs sdk e t0) (\<lambda>t. rbind (re_anchor e) (\<lambda>anchor.
       case re_scheduler e (consolidate_config c ov) t anchor of
         Inl x \<Rightarrow> Inl (Exn ''ApplicationError'' True (''DSL scheduler failed with unexpected error: '' @ exn_str x) [] (Some x))
       | Inr (Some (p # ps)) \<Rightarrow> Inl (workflow_failed to_str (p # ps))
       | Inr _ \<Rightarrow>
           (case handle_return e of
              Inr s \<Rightarrow> Inr s
            | Inl x \<Rightarrow>
                if exn_class x = ''AllamaExpressionError''
                then Inl (Exn ''ApplicationError'' True (''Couldn'' @ [char_of (39::nat)] @ ''t parse return value expression: '' @ exn_str x) [] (Some x))
                else Inl (Exn ''ApplicationError'' True (''Unexpected error handling return value: '' @ exn_str x) [] (Some x))))))"

section \<open>Error handlers\<close>

record handler_input =
  hi_message :: string
  hi_handler :: string
  hi_errors :: "action_error list option"

text \<open>
  The errors a handler is told of, from the first detail of the exception. Other details than a
  dictionary become one sentinel; each value of a dictionary is validated (\<open>validate\<close>).
\<close>

definition handler_errors ::
  "(json \<Rightarrow> exn + action_error) \<Rightarrow> (json \<Rightarrow> string) \<Rightarrow> exn \<Rightarrow> exn + action_error list option" where
  "handler_errors validate to_str x =
     (case exn_details x of
        [] \<Rightarrow> Inr None
      | JObj d # _ \<Rightarrow> rbind (rmap (validate \<circ> snd) d) (\<lambda>es. Inr (Some es))
      | v # _ \<Rightarrow> Inr (Some [new_error ''N/A''
           (''Unexpected error info object of type '' @ json_typename v @ '': '' @ to_str v) (json_typename v) ROOT_STREAM]))"

text \<open>
  \<open>run\<close> around \<open>_run_workflow\<close>: the handlers that were started with their inputs, and what \<open>run\<close>
  returns or raises. \<open>handler_id\<close> is the activity that finds the handler, \<open>run_handler\<close> the fetch
  of its definition followed by the child workflow.
\<close>

definition run_with_error_handler ::
  "(json \<Rightarrow> exn + action_error) \<Rightarrow> (json \<Rightarrow> string) \<Rightarrow> (exn + string option) \<Rightarrow> (handler_input \<Rightarrow> exn + unit) \<Rightarrow>
   exn + stored \<Rightarrow> handler_input list \<times> (exn + stored)" where
  "run_with_error_handler validate to_str handler_id run_handler res =
     (case res of
        Inr s \<Rightarrow> ([], Inr s)
      | Inl x \<Rightarrow>
          if \<not> exn_app x then ([], Inl x)
          else (case handler_id of
              Inl y \<Rightarrow> ([], Inl y)
            | Inr None \<Rightarrow> ([], Inl x)
            | Inr (Some h) \<Rightarrow>
                (case handler_errors validate to_str x of
                   Inl y \<Rightarrow> ([], Inl y)
                 | Inr errs \<Rightarrow>
                     let inp = \<lparr>hi_message = exn_str x, hi_handler = h, hi_errors = errs\<rparr> in
                     (case run_handler inp of Inl y \<Rightarrow> ([inp], Inl y) | Inr _ \<Rightarrow> ([inp], Inl x)))))"

end
