(* ===== verification/Storage.thy ===== *)
theory Storage
  imports Execution
begin

text \<open>
  The storage of results (\<open>allama/storage\<close>): the object storage that keeps small values inline and
  uploads large ones, collections stored as chunks behind a manifest, and the cache in front of the
  downloads. The state is the blobs of the bucket store and the cache of the process.

  The JSON codec (orjson), SHA-256 (hashlib), the length of a byte string and the bucket store (S3) are
  the record \<open>storage_env\<close>, over an arbitrary type of byte strings. The constant and unread fields of
  the references (backend, content type, encoding, time of creation) are left out.
\<close>

section \<open>State and environment\<close>

text \<open>
  \<open>SizedMemoryCache\<close>: the values of the underlying cache, the sizes in the order of use, the sum of
  the sizes and the limit.
\<close>

record 'b sized_cache =
  sc_values :: "string \<Rightarrow> 'b option"
  sc_sizes :: "(string, nat) dict"
  sc_bytes :: int
  sc_max :: int

record 'b blob_store =
  bs_blobs :: "string \<times> string \<Rightarrow> 'b option"
  bs_cache :: "'b sized_cache"

text \<open>
  The \<open>select\<close> of the bucket store answers a query for one item of a chunk. An upload or a download
  fails when the environment says so.
\<close>

record 'b storage_env =
  ev_serialize :: "json \<Rightarrow> exn + 'b"
  ev_deserialize :: "'b \<Rightarrow> exn + json"
  ev_length :: "'b \<Rightarrow> nat"
  ev_sha256 :: "'b \<Rightarrow> string"
  ev_select :: "'b \<Rightarrow> nat \<Rightarrow> exn + 'b"
  ev_upload :: "string \<times> string \<Rightarrow> exn option"
  ev_download :: "string \<times> string \<Rightarrow> exn option"

text \<open>Operations on the store that may raise: the changes made before an exception stay.\<close>

type_synonym ('b, 'a) sact = "'b blob_store \<Rightarrow> 'b blob_store \<times> (exn + 'a)"

definition sret :: "'a \<Rightarrow> ('b, 'a) sact" where
  "sret x st = (st, Inr x)"

definition slift :: "exn + 'a \<Rightarrow> ('b, 'a) sact" where
  "slift r st = (st, r)"

definition sbind :: "('b, 'a) sact \<Rightarrow> ('a \<Rightarrow> ('b, 'c) sact) \<Rightarrow> ('b, 'c) sact" where
  "sbind m f st = (case m st of (st', Inl e) \<Rightarrow> (st', Inl e) | (st', Inr x) \<Rightarrow> f x st')"

fun smap :: "('a \<Rightarrow> ('b, 'c) sact) \<Rightarrow> 'a list \<Rightarrow> ('b, 'c list) sact" where
  "smap f [] = sret []"
| "smap f (x # xs) = sbind (f x) (\<lambda>y. sbind (smap f xs) (\<lambda>ys. sret (y # ys)))"

definition value_error :: "string \<Rightarrow> exn" where
  "value_error msg = Exn ''ValueError'' False msg [] None"

definition pydantic_error :: exn where
  "pydantic_error = Exn ''ValidationError'' False ''validation error'' [] None"

section \<open>The cache\<close>

definition MAX_CACHEABLE_BLOB_SIZE :: nat where "MAX_CACHEABLE_BLOB_SIZE = 50 * 1024 * 1024"
definition BLOB_CACHE_MAX_BYTES :: int where "BLOB_CACHE_MAX_BYTES = 500 * 1024 * 1024"

definition new_cache :: "int \<Rightarrow> 'b sized_cache" where
  "new_cache limit = \<lparr>sc_values = (\<lambda>_. None), sc_sizes = [], sc_bytes = 0, sc_max = limit\<rparr>"

definition blob_cache :: "'b sized_cache" where
  "blob_cache = new_cache BLOB_CACHE_MAX_BYTES"

definition dpop :: "'k \<Rightarrow> ('k, 'v) dict \<Rightarrow> ('k, 'v) dict" where
  "dpop k d = filter (\<lambda>(k', _). k' \<noteq> k) d"

text \<open>Forgetting the size of a key, when there is one (\<open>self._total_bytes -= self._sizes.pop(key)\<close>).\<close>

definition forget_size :: "string \<Rightarrow> 'b sized_cache \<Rightarrow> 'b sized_cache" where
  "forget_size key c =
     (case dget (sc_sizes c) key of
        None \<Rightarrow> c
      | Some n \<Rightarrow> c\<lparr>sc_sizes := dpop key (sc_sizes c), sc_bytes := sc_bytes c - int n\<rparr>)"

text \<open>
  \<open>get\<close> reads the value before it takes the lock, and then adjusts the sizes: two segments, between
  which other tasks run.
\<close>

definition cache_sync :: "string \<Rightarrow> 'b option \<Rightarrow> 'b sized_cache \<Rightarrow> 'b sized_cache" where
  "cache_sync key v c =
     (case v of
        None \<Rightarrow> forget_size key c
      | Some _ \<Rightarrow>
          (case dget (sc_sizes c) key of
             None \<Rightarrow> c
           | Some n \<Rightarrow> c\<lparr>sc_sizes := dpop key (sc_sizes c) @ [(key, n)]\<rparr>))"

definition cache_get :: "string \<Rightarrow> 'b sized_cache \<Rightarrow> 'b sized_cache \<times> 'b option" where
  "cache_get key c = (cache_sync key (sc_values c key) c, sc_values c key)"

text \<open>The eviction loop of \<open>set\<close>: the least recently used entries go until the new one fits.\<close>

fun evict :: "int \<Rightarrow> int \<Rightarrow> (string, nat) dict \<Rightarrow> int \<Rightarrow> (string \<Rightarrow> 'b option) \<Rightarrow> (string, nat) dict \<times> int \<times> (string \<Rightarrow> 'b option)" where
  "evict need limit [] bytes vals = ([], bytes, vals)"
| "evict need limit ((k, n) # ds) bytes vals =
     (if bytes + need > limit then evict need limit ds (bytes - int n) (vals(k := None))
      else ((k, n) # ds, bytes, vals))"

definition cache_set :: "('b \<Rightarrow> nat) \<Rightarrow> string \<Rightarrow> 'b \<Rightarrow> 'b sized_cache \<Rightarrow> 'b sized_cache" where
  "cache_set len key v c =
     (let need = int (len v) in
      if need > sc_max c then c
      else (case (let c1 = forget_size key c in evict need (sc_max c) (sc_sizes c1) (sc_bytes c1) (sc_values c1)) of
          (ds, bytes, vals) \<Rightarrow>
            c\<lparr>sc_values := vals(key := Some v), sc_sizes := dset key (len v) ds, sc_bytes := bytes + need\<rparr>))"

text \<open>The time to live: the underlying cache forgets values on its own.\<close>

definition cache_expire :: "(string \<Rightarrow> bool) \<Rightarrow> 'b sized_cache \<Rightarrow> 'b sized_cache" where
  "cache_expire gone c = c\<lparr>sc_values := (\<lambda>k. if gone k then None else sc_values c k)\<rparr>"

text \<open>
  The cache under interleaving: \<open>CacheRead\<close> starts a \<open>get\<close>, \<open>CacheSync i\<close> lets the i-th pending
  one take the lock. A \<open>set\<close> holds the lock throughout; a read inside it sees what a read before or
  after it sees.
\<close>

datatype 'b cache_event =
    CacheRead string
  | CacheSync nat
  | CacheSet string 'b
  | CacheExpire "string \<Rightarrow> bool"

type_synonym 'b cache_state = "'b sized_cache \<times> (string \<times> 'b option) list"

fun cache_step :: "('b \<Rightarrow> nat) \<Rightarrow> 'b cache_state \<Rightarrow> 'b cache_event \<Rightarrow> 'b cache_state" where
  "cache_step len (c, ps) (CacheRead k) = (c, ps @ [(k, sc_values c k)])"
| "cache_step len (c, ps) (CacheSync i) =
     (if i < length ps then (cache_sync (fst (ps ! i)) (snd (ps ! i)) c, take i ps @ drop (Suc i) ps) else (c, ps))"
| "cache_step len (c, ps) (CacheSet k v) = (cache_set len k v c, ps)"
| "cache_step len (c, ps) (CacheExpire gone) = (cache_expire gone c, ps)"

section \<open>Blobs\<close>

definition upload_file :: "'b storage_env \<Rightarrow> string \<Rightarrow> string \<Rightarrow> 'b \<Rightarrow> ('b, unit) sact" where
  "upload_file env bucket key content st =
     (case ev_upload env (bucket, key) of
        Some e \<Rightarrow> (st, Inl e)
      | None \<Rightarrow> (st\<lparr>bs_blobs := (bs_blobs st)((bucket, key) := Some content)\<rparr>, Inr ()))"

definition not_found :: exn where
  "not_found = Exn ''FileNotFoundError'' False ''file not found'' [] None"

definition download_file :: "'b storage_env \<Rightarrow> string \<Rightarrow> string \<Rightarrow> ('b, 'b) sact" where
  "download_file env bucket key st =
     (case ev_download env (bucket, key) of
        Some e \<Rightarrow> (st, Inl e)
      | None \<Rightarrow> (st, case bs_blobs st (bucket, key) of None \<Rightarrow> Inl not_found | Some b \<Rightarrow> Inr b))"

definition read_cache :: "string \<Rightarrow> ('b, 'b option) sact" where
  "read_cache key st = (case cache_get key (bs_cache st) of (c, v) \<Rightarrow> (st\<lparr>bs_cache := c\<rparr>, Inr v))"

definition write_cache :: "'b storage_env \<Rightarrow> string \<Rightarrow> 'b \<Rightarrow> ('b, unit) sact" where
  "write_cache env key v st =
     (if ev_length env v \<le> MAX_CACHEABLE_BLOB_SIZE then st\<lparr>bs_cache := cache_set (ev_length env) key v (bs_cache st)\<rparr> else st, Inr ())"

definition cached_blob_download :: "'b storage_env \<Rightarrow> string \<Rightarrow> string \<Rightarrow> string \<Rightarrow> ('b, 'b) sact" where
  "cached_blob_download env sha bucket key =
     sbind (read_cache sha) (\<lambda>cached. case cached of
         Some v \<Rightarrow> sret v
       | None \<Rightarrow> sbind (download_file env bucket key) (\<lambda>content.
           sbind (write_cache env sha content) (\<lambda>_. sret content)))"

definition select_key :: "string \<Rightarrow> nat \<Rightarrow> string" where
  "select_key sha i = ''select:'' @ sha @ '':'' @ show_nat i"

definition json_field :: "string \<Rightarrow> json \<Rightarrow> json option" where
  "json_field k v = (case v of JObj d \<Rightarrow> dget d k | _ \<Rightarrow> None)"

definition select_object_content :: "'b storage_env \<Rightarrow> string \<Rightarrow> string \<Rightarrow> nat \<Rightarrow> ('b, 'b) sact" where
  "select_object_content env bucket key i =
     sbind (download_file env bucket key) (\<lambda>content. slift (ev_select env content i))"

definition cached_select_item :: "'b storage_env \<Rightarrow> string \<Rightarrow> string \<Rightarrow> string \<Rightarrow> nat \<Rightarrow> ('b, json) sact" where
  "cached_select_item env sha bucket key i =
     sbind (read_cache (select_key sha i)) (\<lambda>cached. case cached of
         Some v \<Rightarrow> slift (ev_deserialize env v)
       | None \<Rightarrow>
           sbind (select_object_content env bucket key i) (\<lambda>res.
           sbind (slift (ev_deserialize env res)) (\<lambda>data.
           let item = (case json_field ''_1'' data of None \<Rightarrow> JNull | Some v \<Rightarrow> v) in
           sbind (slift (ev_serialize env item)) (\<lambda>bytes.
           sbind (write_cache env (select_key sha i) bytes) (\<lambda>_. sret item)))))"

section \<open>References and stored objects\<close>

record object_ref =
  or_bucket :: string
  or_key :: string
  or_size :: nat
  or_sha :: string

datatype element_kind = ValueKind | StoredKind

fun kind_str :: "element_kind \<Rightarrow> string" where
  "kind_str ValueKind = ''value''"
| "kind_str StoredKind = ''stored_object''"

record collection =
  co_manifest :: object_ref
  co_count :: nat
  co_chunk_size :: nat
  co_kind :: element_kind
  co_index :: "int option"

datatype sobj = SInline json | SExternal object_ref string | SCollection collection

definition collection_at :: "collection \<Rightarrow> int \<Rightarrow> collection" where
  "collection_at c i = c\<lparr>co_index := Some i\<rparr>"

definition ref_json :: "object_ref \<Rightarrow> json" where
  "ref_json r = JObj [(''bucket'', JStr (or_bucket r)), (''key'', JStr (or_key r)), (''size_bytes'', JInt (int (or_size r))), (''sha256'', JStr (or_sha r))]"

definition need_str :: "string \<Rightarrow> json \<Rightarrow> exn + string" where
  "need_str k v = (case json_field k v of Some (JStr s) \<Rightarrow> Inr s | _ \<Rightarrow> Inl pydantic_error)"

definition need_nat :: "string \<Rightarrow> json \<Rightarrow> exn + nat" where
  "need_nat k v = (case json_field k v of Some (JInt i) \<Rightarrow> if i \<ge> 0 then Inr (nat i) else Inl pydantic_error | _ \<Rightarrow> Inl pydantic_error)"

definition need_list :: "string \<Rightarrow> json \<Rightarrow> exn + json list" where
  "need_list k v = (case json_field k v of Some (JArr xs) \<Rightarrow> Inr xs | _ \<Rightarrow> Inl pydantic_error)"

definition parse_ref :: "json \<Rightarrow> exn + object_ref" where
  "parse_ref v =
     rbind (need_str ''bucket'' v) (\<lambda>b. rbind (need_str ''key'' v) (\<lambda>k. rbind (need_nat ''size_bytes'' v) (\<lambda>n.
     rbind (need_str ''sha256'' v) (\<lambda>s. Inr \<lparr>or_bucket = b, or_key = k, or_size = n, or_sha = s\<rparr>))))"

definition parse_kind :: "json \<Rightarrow> exn + element_kind" where
  "parse_kind v =
     rbind (need_str ''element_kind'' v) (\<lambda>s. if s = ''value'' then Inr ValueKind
       else if s = ''stored_object'' then Inr StoredKind else Inl pydantic_error)"

text \<open>The manifest and the chunks, as they are dumped and validated.\<close>

record manifest =
  mf_count :: nat
  mf_chunk_size :: nat
  mf_kind :: element_kind
  mf_chunks :: "object_ref list"

definition manifest_json :: "manifest \<Rightarrow> json" where
  "manifest_json m =
     JObj [(''kind'', JStr ''allama.collection_manifest''), (''version'', JInt 1), (''count'', JInt (int (mf_count m))),
           (''chunk_size'', JInt (int (mf_chunk_size m))), (''element_kind'', JStr (kind_str (mf_kind m))),
           (''chunks'', JArr (map ref_json (mf_chunks m)))]"

definition parse_manifest :: "json \<Rightarrow> exn + manifest" where
  "parse_manifest v =
     (if json_field ''kind'' v \<noteq> None \<and> json_field ''kind'' v \<noteq> Some (JStr ''allama.collection_manifest'') then Inl pydantic_error
      else rbind (need_nat ''count'' v) (\<lambda>n. rbind (need_nat ''chunk_size'' v) (\<lambda>cs. rbind (parse_kind v) (\<lambda>k.
        rbind (need_list ''chunks'' v) (\<lambda>xs. rbind (rmap parse_ref xs) (\<lambda>rs.
        Inr \<lparr>mf_count = n, mf_chunk_size = cs, mf_kind = k, mf_chunks = rs\<rparr>))))))"

definition chunk_json :: "nat \<Rightarrow> json list \<Rightarrow> json" where
  "chunk_json start items =
     JObj [(''kind'', JStr ''allama.collection_chunk''), (''version'', JInt 1), (''start'', JInt (int start)), (''items'', JArr items)]"

definition parse_chunk :: "json \<Rightarrow> exn + json list" where
  "parse_chunk v =
     (if json_field ''kind'' v \<noteq> None \<and> json_field ''kind'' v \<noteq> Some (JStr ''allama.collection_chunk'') then Inl pydantic_error
      else rbind (need_nat ''start'' v) (\<lambda>_. need_list ''items'' v))"

text \<open>The discriminated union of stored objects, as far as items of a collection are concerned.\<close>

definition parse_stored :: "json \<Rightarrow> exn + sobj" where
  "parse_stored v =
     rbind (need_str ''type'' v) (\<lambda>t.
       if t = ''inline'' then (case json_field ''data'' v of Some d \<Rightarrow> Inr (SInline d) | None \<Rightarrow> Inl pydantic_error)
       else if t = ''external'' then
         (case json_field ''ref'' v of Some r \<Rightarrow> rbind (parse_ref r) (\<lambda>x. Inr (SExternal x [])) | None \<Rightarrow> Inl pydantic_error)
       else if t = ''collection'' then
         (case json_field ''manifest_ref'' v of
            None \<Rightarrow> Inl pydantic_error
          | Some r \<Rightarrow> rbind (parse_ref r) (\<lambda>x. rbind (need_nat ''count'' v) (\<lambda>n. rbind (need_nat ''chunk_size'' v) (\<lambda>cs.
              rbind (parse_kind v) (\<lambda>k. Inr (SCollection \<lparr>co_manifest = x, co_count = n, co_chunk_size = cs, co_kind = k,
                co_index = (case json_field ''index'' v of Some (JInt i) \<Rightarrow> Some i | _ \<Rightarrow> None)\<rparr>))))))
       else Inl pydantic_error)"

text \<open>A handle, as it is dumped into the history of the workflow.\<close>

definition collection_json :: "collection \<Rightarrow> json" where
  "collection_json c =
     JObj [(''type'', JStr ''collection''), (''manifest_ref'', ref_json (co_manifest c)), (''count'', JInt (int (co_count c))),
           (''chunk_size'', JInt (int (co_chunk_size c))), (''element_kind'', JStr (kind_str (co_kind c))),
           (''index'', (case co_index c of None \<Rightarrow> JNull | Some i \<Rightarrow> JInt i))]"

section \<open>Collections\<close>

definition store_blob :: "'b storage_env \<Rightarrow> string \<Rightarrow> string \<Rightarrow> json \<Rightarrow> ('b, object_ref) sact" where
  "store_blob env bucket key v =
     sbind (slift (ev_serialize env v)) (\<lambda>bytes.
     sbind (upload_file env bucket key bytes) (\<lambda>_.
     sret \<lparr>or_bucket = bucket, or_key = key, or_size = ev_length env bytes, or_sha = ev_sha256 env bytes\<rparr>))"

definition num_chunks :: "nat \<Rightarrow> nat \<Rightarrow> nat" where
  "num_chunks count cs = (if count > 0 then (count + cs - 1) div cs else 1)"

definition chunk_items :: "json list \<Rightarrow> nat \<Rightarrow> nat \<Rightarrow> json list" where
  "chunk_items items cs i = take (min (i * cs + cs) (length items) - i * cs) (drop (i * cs) items)"

definition chunk_key :: "string \<Rightarrow> nat \<Rightarrow> string" where
  "chunk_key prefix i = prefix @ ''/chunks/'' @ show_nat i @ ''.json''"

definition manifest_key :: "string \<Rightarrow> string" where
  "manifest_key prefix = prefix @ ''/manifest.json''"

text \<open>
  A chunk size or bucket that is not given (or zero, or empty) is that of the configuration, which is
  positive (256 unless configured otherwise); a negative chunk size is not considered.
\<close>

definition store_collection ::
  "'b storage_env \<Rightarrow> nat \<Rightarrow> string \<Rightarrow> string \<Rightarrow> json list \<Rightarrow> element_kind \<Rightarrow> nat option \<Rightarrow> string option \<Rightarrow> ('b, collection) sact" where
  "store_collection env default_size default_bucket prefix items kind chunk_size bucket_arg =
     (let cs = (case chunk_size of Some n \<Rightarrow> if n = 0 then default_size else n | None \<Rightarrow> default_size);
          bucket = (case bucket_arg of Some b \<Rightarrow> if b = [] then default_bucket else b | None \<Rightarrow> default_bucket);
          count = length items in
      sbind (smap (\<lambda>i. store_blob env bucket (chunk_key prefix i) (chunk_json (i * cs) (chunk_items items cs i)))
               [0..<num_chunks count cs]) (\<lambda>refs.
      sbind (store_blob env bucket (manifest_key prefix)
               (manifest_json \<lparr>mf_count = count, mf_chunk_size = cs, mf_kind = kind, mf_chunks = refs\<rparr>)) (\<lambda>r.
      sret \<lparr>co_manifest = r, co_count = count, co_chunk_size = cs, co_kind = kind, co_index = None\<rparr>)))"

definition fetch_verified :: "'b storage_env \<Rightarrow> string \<Rightarrow> object_ref \<Rightarrow> ('b, json) sact" where
  "fetch_verified env what r =
     sbind (cached_blob_download env (or_sha r) (or_bucket r) (or_key r)) (\<lambda>content.
       if ev_sha256 env content \<noteq> or_sha r
       then slift (Inl (value_error (what @ '' integrity check failed'')))
       else slift (ev_deserialize env content))"

definition fetch_manifest :: "'b storage_env \<Rightarrow> collection \<Rightarrow> ('b, manifest) sact" where
  "fetch_manifest env c = sbind (fetch_verified env ''Manifest'' (co_manifest c)) (\<lambda>v. slift (parse_manifest v))"

definition fetch_chunk :: "'b storage_env \<Rightarrow> object_ref \<Rightarrow> ('b, json list) sact" where
  "fetch_chunk env r = sbind (fetch_verified env ''Chunk'' r) (\<lambda>v. slift (parse_chunk v))"

text \<open>\<open>xs[a:b]\<close> for bounds that are not negative.\<close>

definition py_slice :: "'a list \<Rightarrow> int \<Rightarrow> int \<Rightarrow> 'a list" where
  "py_slice xs a b = drop (nat a) (take (nat b) xs)"

definition page_chunk :: "'b storage_env \<Rightarrow> collection \<Rightarrow> manifest \<Rightarrow> int \<Rightarrow> int \<Rightarrow> nat \<Rightarrow> ('b, json list) sact" where
  "page_chunk env c m offset stop i =
     (if i < length (mf_chunks m) then
        sbind (fetch_chunk env (mf_chunks m ! i)) (\<lambda>xs.
          let chunk_start = int i * int (co_chunk_size c) in
          sret (py_slice xs (max 0 (offset - chunk_start)) (min (int (length xs)) (stop - chunk_start))))
      else slift (Inl index_error))"

definition get_collection_page :: "'b storage_env \<Rightarrow> collection \<Rightarrow> int \<Rightarrow> int option \<Rightarrow> ('b, json list) sact" where
  "get_collection_page env c offset limit =
     (if offset < 0 then slift (Inl (value_error ''offset must be >= 0''))
      else if offset \<ge> int (co_count c) then sret []
      else if limit = Some 0 then sret []
      else
        let n = (case limit of None \<Rightarrow> int (co_count c) - offset | Some n \<Rightarrow> n);
            stop = min (offset + n) (int (co_count c)) in
        sbind (fetch_manifest env c) (\<lambda>m.
          if co_chunk_size c = 0 then slift (Inl (Exn ''ZeroDivisionError'' False ''integer division or modulo by zero'' [] None))
          else
            let first = nat (offset div int (co_chunk_size c));
                last_chunk = (stop - 1) div int (co_chunk_size c) in
            sbind (smap (page_chunk env c m offset stop) [first..<nat (last_chunk + 1)]) (\<lambda>parts. sret (concat parts))))"

definition get_collection_item :: "'b storage_env \<Rightarrow> collection \<Rightarrow> int \<Rightarrow> ('b, json) sact" where
  "get_collection_item env c index =
     (let i = (if index < 0 then int (co_count c) + index else index) in
      if i < 0 \<or> i \<ge> int (co_count c) then slift (Inl (Exn ''IndexError'' False ''Collection index out of range'' [] None))
      else sbind (fetch_manifest env c) (\<lambda>m.
        if co_chunk_size c = 0 then slift (Inl (Exn ''ZeroDivisionError'' False ''integer division or modulo by zero'' [] None))
        else
          let j = nat i div co_chunk_size c in
          if j < length (mf_chunks m) then
            cached_select_item env (or_sha (mf_chunks m ! j)) (or_bucket (mf_chunks m ! j)) (or_key (mf_chunks m ! j)) (nat i mod co_chunk_size c)
          else slift (Inl index_error)))"

section \<open>The storage backends\<close>

definition s3_store :: "'b storage_env \<Rightarrow> string \<Rightarrow> nat \<Rightarrow> string \<Rightarrow> json \<Rightarrow> ('b, sobj) sact" where
  "s3_store env bucket threshold key v =
     sbind (slift (ev_serialize env v)) (\<lambda>bytes.
       if ev_length env bytes \<le> threshold then sret (SInline v)
       else sbind (upload_file env bucket key bytes) (\<lambda>_.
         sret (SExternal \<lparr>or_bucket = bucket, or_key = key, or_size = ev_length env bytes, or_sha = ev_sha256 env bytes\<rparr> (json_typename v))))"

definition s3_retrieve :: "'b storage_env \<Rightarrow> sobj \<Rightarrow> ('b, json) sact" where
  "s3_retrieve env s =
     (case s of
        SInline v \<Rightarrow> sret v
      | SExternal r _ \<Rightarrow> fetch_verified env ''Object'' r
      | SCollection c \<Rightarrow>
          (case co_index c of
             Some i \<Rightarrow> get_collection_item env c i
           | None \<Rightarrow> sbind (get_collection_page env c 0 None) (\<lambda>xs. sret (JArr xs))))"

definition inline_store :: "string \<Rightarrow> json \<Rightarrow> ('b, sobj) sact" where
  "inline_store key v = sret (SInline v)"

definition inline_retrieve :: "sobj \<Rightarrow> ('b, json) sact" where
  "inline_retrieve s =
     (case s of SInline v \<Rightarrow> sret v
      | _ \<Rightarrow> slift (Inl (Exn ''NotImplementedError'' False ''InlineObjectStorage does not support these references'' [] None)))"

definition materialize_collection_values :: "'b storage_env \<Rightarrow> collection \<Rightarrow> int \<Rightarrow> int option \<Rightarrow> ('b, json list) sact" where
  "materialize_collection_values env c offset limit =
     sbind (get_collection_page env c offset limit) (\<lambda>items.
       case co_kind c of
         ValueKind \<Rightarrow> sret items
       | StoredKind \<Rightarrow> smap (\<lambda>v. sbind (slift (parse_stored v)) (s3_retrieve env)) items)"

text \<open>
  The trigger inputs of a child workflow, when it materialises its context: the value itself, or the item
  of the stored collection at its index (\<open>col.at(index)\<close> followed by \<open>retrieve\<close>).
\<close>

definition retrieve_trigger :: "'b storage_env \<Rightarrow> trigger \<Rightarrow> ('b, json) sact" where
  "retrieve_trigger env t =
     (case t of
        TriggerValue v \<Rightarrow> sret v
      | TriggerItem _ h i \<Rightarrow> sbind (slift (parse_stored h)) (\<lambda>s. case s of
            SCollection c \<Rightarrow> s3_retrieve env (SCollection (collection_at c (int i)))
          | _ \<Rightarrow> slift (Inl pydantic_error)))"

text \<open>
  \<open>_materialize_task_result\<close>: the value of a task result; an index into the value is followed when the
  value is a list, whatever the index of the stored handle.
\<close>

definition materialize_result :: "'b storage_env \<Rightarrow> sobj \<Rightarrow> nat option \<Rightarrow> ('b, json) sact" where
  "materialize_result env s index =
     sbind (case s of
         SInline v \<Rightarrow> sret v
       | SExternal _ _ \<Rightarrow> s3_retrieve env s
       | SCollection c \<Rightarrow> sbind (materialize_collection_values env c 0 None) (\<lambda>xs. sret (JArr xs)))
     (\<lambda>v. case index of
         None \<Rightarrow> sret v
       | Some i \<Rightarrow> (case v of
           JArr xs \<Rightarrow> if i < length xs then sret (xs ! i) else slift (Inl index_error)
         | _ \<Rightarrow> sret v))"

text \<open>The keys under which the engine stores its data.\<close>

definition trigger_key :: "string \<Rightarrow> string \<Rightarrow> string" where
  "trigger_key ws ex = ws @ ''/'' @ ex @ ''/trigger.json''"

definition return_key :: "string \<Rightarrow> string \<Rightarrow> string" where
  "return_key ws ex = ws @ ''/'' @ ex @ ''/return.json''"

definition action_key :: "string \<Rightarrow> string \<Rightarrow> string \<Rightarrow> string \<Rightarrow> string" where
  "action_key ws ex stream ref = ws @ ''/'' @ ex @ ''/actions/'' @ stream @ ''/'' @ ref @ ''.json''"

definition action_collection_prefix :: "string \<Rightarrow> string \<Rightarrow> string \<Rightarrow> string \<Rightarrow> string" where
  "action_collection_prefix ws ex stream ref = ws @ ''/'' @ ex @ ''/actions/'' @ stream @ ''/'' @ ref"

end
