(* ===== verification/Storage_Correct.thy ===== *)
theory Storage_Correct
  imports Storage
begin

text \<open>
  What the storage guarantees: the cache accounts for its bytes in every interleaving; what is stored
  is what is retrieved, inline or uploaded, as long as the blobs are not overwritten; a page or an item
  of a stored collection is the page or the item of the list. It also shows what a stale reference
  does to the cache.
\<close>

section \<open>The cache\<close>

definition held_bytes :: "(string, nat) dict \<Rightarrow> int" where
  "held_bytes d = (\<Sum>(k, n)\<leftarrow>d. int n)"

lemma held_bytes_simps [simp]:
  "held_bytes [] = 0" "held_bytes ((k, n) # d) = int n + held_bytes d" "held_bytes (d @ d') = held_bytes d + held_bytes d'"
  by (simp_all add: held_bytes_def)

lemma held_bytes_nonneg: "0 \<le> held_bytes d"
  by (induction d) (auto simp: held_bytes_def)

lemma dpop_keys: "dkeys (dpop k d) = filter (\<lambda>x. x \<noteq> k) (dkeys d)"
  by (induction d) (auto simp: dpop_def)

lemma dpop_notin: "k \<notin> set (dkeys d) \<Longrightarrow> dpop k d = d"
  by (auto simp: dpop_def filter_id_conv image_iff)

lemma dget_dpop: "dget (dpop k d) k' = (if k' = k then None else dget d k')"
  by (induction d) (auto simp: dpop_def)

lemma held_bytes_dpop: "distinct (dkeys d) \<Longrightarrow> dget d k = Some n \<Longrightarrow> held_bytes (dpop k d) = held_bytes d - int n"
proof (induction d)
  case (Cons p d)
  obtain k' n' where p: "p = (k', n')" by (cases p)
  show ?case
  proof (cases "k' = k")
    case True
    then have "dpop k d = d" using Cons.prems(1) p by (intro dpop_notin) auto
    then show ?thesis using Cons.prems(2) True p by (simp add: dpop_def)
  next
    case False
    then have "dget d k = Some n" "distinct (dkeys d)" using Cons.prems p by auto
    then show ?thesis using Cons.IH False p by (simp add: dpop_def)
  qed
qed simp

text \<open>The accounting invariant: the keys are distinct, the counter is the sum of the sizes and is within the limit.\<close>

definition accounted_cache :: "'b sized_cache \<Rightarrow> bool" where
  "accounted_cache c \<longleftrightarrow> distinct (dkeys (sc_sizes c)) \<and> sc_bytes c = held_bytes (sc_sizes c) \<and> sc_bytes c \<le> sc_max c"

lemma forget_size_accounted:
  assumes "accounted_cache c"
  shows "accounted_cache (forget_size k c)" "k \<notin> set (dkeys (sc_sizes (forget_size k c)))"
    "sc_values (forget_size k c) = sc_values c" "sc_max (forget_size k c) = sc_max c"
proof -
  show "sc_values (forget_size k c) = sc_values c" "sc_max (forget_size k c) = sc_max c"
    by (auto simp: forget_size_def split: option.splits)
  show "k \<notin> set (dkeys (sc_sizes (forget_size k c)))"
  proof (cases "dget (sc_sizes c) k")
    case None
    then have "forget_size k c = c" by (simp add: forget_size_def)
    then show ?thesis using None by (simp add: map_of_eq_None_iff)
  next
    case (Some n)
    then have "sc_sizes (forget_size k c) = dpop k (sc_sizes c)" by (simp add: forget_size_def)
    then show ?thesis by (simp only: dpop_keys) simp
  qed
  show "accounted_cache (forget_size k c)"
  proof (cases "dget (sc_sizes c) k")
    case None
    then show ?thesis using assms by (simp add: forget_size_def)
  next
    case (Some n)
    then have "held_bytes (dpop k (sc_sizes c)) = held_bytes (sc_sizes c) - int n"
      using assms by (intro held_bytes_dpop) (auto simp: accounted_cache_def)
    then show ?thesis using assms Some by (simp add: accounted_cache_def forget_size_def dpop_keys)
  qed
qed

lemma cache_sync_accounted:
  assumes "accounted_cache c"
  shows "accounted_cache (cache_sync k v c)"
proof (cases "v = None \<or> dget (sc_sizes c) k = None")
  case True
  then show ?thesis using assms forget_size_accounted(1)[OF assms] by (auto simp: cache_sync_def split: option.splits)
next
  case False
  then obtain x n where v: "v = Some x" "dget (sc_sizes c) k = Some n" by auto
  have "held_bytes (dpop k (sc_sizes c)) = held_bytes (sc_sizes c) - int n"
    using assms v(2) by (intro held_bytes_dpop) (auto simp: accounted_cache_def)
  then show ?thesis using assms v by (auto simp: cache_sync_def accounted_cache_def dpop_keys)
qed

lemma evict_facts:
  assumes "evict need limit ds bytes vals = (ds', bytes', vals')" "distinct (dkeys ds)" "bytes = held_bytes ds" "need \<le> limit"
  shows "distinct (dkeys ds') \<and> bytes' = held_bytes ds' \<and> bytes' + need \<le> limit \<and> set ds' \<subseteq> set ds \<and>
    vals' = (\<lambda>k. if k \<in> set (dkeys ds) - set (dkeys ds') then None else vals k)"
  using assms
proof (induction ds arbitrary: bytes vals)
  case Nil
  then show ?case by auto
next
  case (Cons p ds)
  obtain k n where p: "p = (k, n)" by (cases p)
  show ?case
  proof (cases "bytes + need > limit")
    case True
    then have "evict need limit ds (bytes - int n) (vals(k := None)) = (ds', bytes', vals')" using Cons.prems(1) p by simp
    from Cons.IH[OF this] Cons.prems(2-4) p
    have *: "distinct (dkeys ds') \<and> bytes' = held_bytes ds' \<and> bytes' + need \<le> limit \<and> set ds' \<subseteq> set ds \<and>
      vals' = (\<lambda>x. if x \<in> set (dkeys ds) - set (dkeys ds') then None else (vals(k := None)) x)" by auto
    moreover have "k \<notin> set (dkeys ds')" using * Cons.prems(2) p by auto
    ultimately show ?thesis using p by auto
  next
    case False
    then show ?thesis using Cons.prems p by auto
  qed
qed

lemma dset_fresh_append: "k \<notin> set (dkeys d) \<Longrightarrow> dset k v d = d @ [(k, v)]"
  by (induction d) auto

lemma cache_set_accounted:
  assumes "accounted_cache c"
  shows "accounted_cache (cache_set len k v c)"
proof (cases "int (len v) > sc_max c")
  case True
  then show ?thesis using assms by (simp add: cache_set_def)
next
  case False
  note f = forget_size_accounted[OF assms, of k]
  obtain ds bytes vals where e: "evict (int (len v)) (sc_max c) (sc_sizes (forget_size k c)) (sc_bytes (forget_size k c))
      (sc_values (forget_size k c)) = (ds, bytes, vals)" by (metis prod_cases3)
  have "distinct (dkeys ds) \<and> bytes = held_bytes ds \<and> bytes + int (len v) \<le> sc_max c \<and> set ds \<subseteq> set (sc_sizes (forget_size k c))"
    using evict_facts[OF e] f(1) False by (auto simp: accounted_cache_def)
  moreover from this have "k \<notin> set (dkeys ds)" using f(2) by auto
  ultimately show ?thesis using False e
    by (auto simp: cache_set_def accounted_cache_def Let_def dset_fresh_append)
qed

lemma cache_expire_accounted: "accounted_cache (cache_expire gone c) = accounted_cache c"
  by (simp add: accounted_cache_def cache_expire_def)

lemma cache_step_accounted: "accounted_cache (fst s) \<Longrightarrow> accounted_cache (fst (cache_step len s e))"
  by (cases s; cases e) (simp_all add: cache_sync_accounted cache_set_accounted cache_expire_accounted)

interpretation cache_machine: total_machine "cache_step len" "\<lambda>s. accounted_cache (fst s)" for len
  by unfold_locales (rule cache_step_accounted)

lemma new_cache_accounted: "0 \<le> limit \<Longrightarrow> accounted_cache (new_cache limit)"
  by (simp add: new_cache_def accounted_cache_def)

text \<open>The values the cache holds, when every one of them has its size on record.\<close>

definition tracked :: "('b \<Rightarrow> nat) \<Rightarrow> 'b sized_cache \<Rightarrow> bool" where
  "tracked len c \<longleftrightarrow> accounted_cache c \<and> (\<forall>k v. sc_values c k = Some v \<longrightarrow> dget (sc_sizes c) k = Some (len v))"

lemma forget_absent_tracked: "tracked len c \<Longrightarrow> sc_values c k = None \<Longrightarrow> tracked len (forget_size k c)"
  using forget_size_accounted[of c k]
  by (auto simp: tracked_def) (auto simp: forget_size_def dget_dpop split: option.splits)

lemma cache_get_tracked: "tracked len c \<Longrightarrow> tracked len (fst (cache_get k c))"
proof (cases "sc_values c k")
  case None
  assume "tracked len c"
  with None show ?thesis by (simp add: cache_get_def cache_sync_def forget_absent_tracked)
next
  case (Some v)
  assume t: "tracked len c"
  then have "dget (sc_sizes c) k = Some (len v)" using Some by (auto simp: tracked_def)
  then show ?thesis using t Some cache_sync_accounted[of c k "Some v"]
    by (auto simp: cache_get_def tracked_def) (auto simp: cache_sync_def map_add_def dget_dpop split: option.splits)
qed

lemma evict_values:
  assumes "evict need limit ds bytes vals = (ds', bytes', vals')" "distinct (dkeys ds)" "bytes = held_bytes ds" "need \<le> limit"
    and "vals' k = Some v" "vals k = Some v \<Longrightarrow> dget ds k = Some n"
  shows "vals k = Some v \<and> dget ds' k = Some n"
proof -
  note f = evict_facts[OF assms(1-4)]
  then have v: "vals k = Some v" "k \<in> set (dkeys ds) \<longrightarrow> k \<in> set (dkeys ds')"
    using assms(5) by (auto split: if_splits)
  have "(k, n) \<in> set ds" using assms(6)[OF v(1)] by (rule map_of_SomeD)
  moreover from this have "k \<in> set (dkeys ds')" using v(2) by force
  then obtain n' where "(k, n') \<in> set ds'" by auto
  ultimately have "(k, n) \<in> set ds'" using f assms(2) by (metis eq_key_imp_eq_value subsetD)
  then show ?thesis using f v(1) by simp
qed

lemma cache_set_tracked:
  assumes "tracked len c"
  shows "tracked len (cache_set len k v c)"
proof (cases "int (len v) > sc_max c")
  case True
  then show ?thesis using assms by (simp add: cache_set_def)
next
  case False
  have a: "accounted_cache c" using assms by (simp add: tracked_def)
  note f = forget_size_accounted[OF a, of k]
  obtain ds bytes vals where e: "evict (int (len v)) (sc_max c) (sc_sizes (forget_size k c)) (sc_bytes (forget_size k c))
      (sc_values (forget_size k c)) = (ds, bytes, vals)" by (metis prod_cases3)
  have fresh: "k \<notin> set (dkeys ds)"
    using evict_facts[OF e] f(1,2) False by (auto simp: accounted_cache_def)
  have "dget ds k' = Some (len x)" if "vals k' = Some x" "k' \<noteq> k" for k' x
  proof -
    have "dget (sc_sizes (forget_size k c)) k' = Some (len x)" if "sc_values (forget_size k c) k' = Some x"
      using assms that \<open>k' \<noteq> k\<close> by (auto simp: tracked_def forget_size_def dget_dpop split: option.splits)
    then show ?thesis
      using evict_values[OF e _ _ _ that(1)] f(1) False by (auto simp: accounted_cache_def)
  qed
  moreover have "accounted_cache (cache_set len k v c)" by (rule cache_set_accounted[OF a])
  ultimately show ?thesis using False e fresh by (auto simp: tracked_def cache_set_def Let_def)
qed

lemma cache_expire_tracked: "tracked len c \<Longrightarrow> tracked len (cache_expire gone c)"
  by (auto simp: tracked_def cache_expire_accounted) (auto simp: cache_expire_def split: if_splits)

text \<open>Tracked values fit in the limit.\<close>

lemma held_bytes_sum: "distinct (dkeys d) \<Longrightarrow> held_bytes d = (\<Sum>k\<in>set (dkeys d). int (the (dget d k)))"
proof (induction d)
  case (Cons p d)
  obtain k n where p: "p = (k, n)" by (cases p)
  have "(\<Sum>x\<in>set (dkeys d). int (the (dget ((k, n) # d) x))) = (\<Sum>x\<in>set (dkeys d). int (the (dget d x)))"
    using Cons.prems p by (intro sum.cong) auto
  then show ?case using Cons p by simp
qed simp

lemma tracked_bound:
  assumes "tracked len c"
  shows "finite (dom (sc_values c))" "(\<Sum>k\<in>dom (sc_values c). int (len (the (sc_values c k)))) \<le> sc_max c"
proof -
  have sub: "dom (sc_values c) \<subseteq> set (dkeys (sc_sizes c))"
    using assms by (auto simp: tracked_def dest!: map_of_SomeD) (metis fst_conv image_eqI map_of_SomeD)
  then show "finite (dom (sc_values c))" by (rule finite_subset) simp
  have "(\<Sum>k\<in>dom (sc_values c). int (len (the (sc_values c k)))) = (\<Sum>k\<in>dom (sc_values c). int (the (dget (sc_sizes c) k)))"
    using assms by (intro sum.cong) (auto simp: tracked_def)
  also have "\<dots> \<le> (\<Sum>k\<in>set (dkeys (sc_sizes c)). int (the (dget (sc_sizes c) k)))"
    using sub by (intro sum_mono2) auto
  also have "\<dots> = sc_bytes c" using assms by (simp add: tracked_def accounted_cache_def held_bytes_sum)
  finally show "(\<Sum>k\<in>dom (sc_values c). int (len (the (sc_values c k)))) \<le> sc_max c"
    using assms by (simp add: tracked_def accounted_cache_def)
qed

text \<open>Runs in which every \<open>get\<close> is completed at once.\<close>

datatype 'b cache_use = OpGet string | OpSet string 'b | OpExpire "string \<Rightarrow> bool"

fun cache_op :: "('b \<Rightarrow> nat) \<Rightarrow> 'b sized_cache \<Rightarrow> 'b cache_use \<Rightarrow> 'b sized_cache" where
  "cache_op len c (OpGet k) = fst (cache_get k c)"
| "cache_op len c (OpSet k v) = cache_set len k v c"
| "cache_op len c (OpExpire gone) = cache_expire gone c"

lemma cache_op_tracked: "tracked len c \<Longrightarrow> tracked len (cache_op len c e)"
  by (cases e) (simp_all add: cache_get_tracked cache_set_tracked cache_expire_tracked)

interpretation cache_ops: total_machine "cache_op len" "tracked len" for len
  by unfold_locales (rule cache_op_tracked)

lemma new_cache_tracked: "0 \<le> limit \<Longrightarrow> tracked len (new_cache limit)"
  by (simp add: tracked_def new_cache_accounted) (simp add: new_cache_def)

lemma sc_max_const: "sc_max (cache_set len k v c) = sc_max c" "sc_max (fst (cache_get k c)) = sc_max c"
  "sc_max (cache_expire gone c) = sc_max c" "sc_max (cache_sync k w c) = sc_max c"
  by (auto simp: cache_set_def cache_get_def cache_sync_def forget_size_def cache_expire_def Let_def split: option.splits prod.splits)

lemma sc_max_step: "sc_max (fst (cache_step len s e)) = sc_max (fst s)"
  by (cases s; cases e) (simp_all add: sc_max_const)

lemma sc_max_run: "sc_max (fst (foldl (cache_step len) s es)) = sc_max (fst s)"
  by (induction es arbitrary: s) (simp_all add: sc_max_step)

lemma sc_max_ops: "sc_max (foldl (cache_op len) c os) = sc_max c"
proof (induction os arbitrary: c)
  case (Cons x os)
  then show ?case by (cases x) (simp_all add: sc_max_const)
qed simp

text \<open>C31: the cache of downloads accounts for its bytes: whatever the interleaving of the segments of
  \<open>get\<close> with \<open>set\<close> and with the expiry of entries, the keys on record are distinct and the counter is
  the sum of their sizes and never exceeds the limit. When every \<open>get\<close> completes before the next
  operation starts, the values that are really held fit in the limit too.\<close>

theorem cache_accounting:
  assumes "0 \<le> limit"
  shows "(let c = fst (foldl (cache_step len) (new_cache limit, []) es) in
      distinct (dkeys (sc_sizes c)) \<and> sc_bytes c = held_bytes (sc_sizes c) \<and> sc_bytes c \<le> limit) \<and>
    (let c = foldl (cache_op len) (new_cache limit) os in
      finite (dom (sc_values c)) \<and> (\<Sum>k\<in>dom (sc_values c). int (len (the (sc_values c k)))) \<le> limit)"
proof -
  let ?c = "fst (foldl (cache_step len) (new_cache limit, []) es)" and ?d = "foldl (cache_op len) (new_cache limit) os"
  have "accounted_cache ?c" by (rule cache_machine.run_inv) (simp add: new_cache_accounted[OF assms])
  moreover have "sc_max ?c = limit" by (simp add: sc_max_run new_cache_def)
  moreover have "tracked len ?d" by (rule cache_ops.run_inv[OF new_cache_tracked[OF assms]])
  moreover have "sc_max ?d = limit" by (simp add: sc_max_ops new_cache_def)
  ultimately show ?thesis using tracked_bound[of len ?d] by (simp add: accounted_cache_def Let_def)
qed

text \<open>
  A \<open>get\<close> that saw an expired entry and takes the lock after the entry was set again drops the size of
  the new entry: the value stays, unaccounted, and the cache holds more than its limit.
\<close>

lemma stale_get_untracks:
  "(let c = fst (foldl (cache_step length) (new_cache 4, [])
      [CacheSet ''a'' ''1234'', CacheExpire (\<lambda>_. True), CacheRead ''a'', CacheSet ''a'' ''1234'', CacheSync 0, CacheSet ''b'' ''5678'']) in
    sc_bytes c = 4 \<and> sc_values c ''a'' = Some ''1234'' \<and> sc_values c ''b'' = Some ''5678'')"
  by code_simp

theorem cache_accounting_witness:
  "sc_bytes (fst (foldl (cache_step length) (new_cache 4, []) [CacheSet ''a'' ''123'', CacheSet ''b'' ''456''])) \<le> 4 \<and>
   finite (dom (sc_values (foldl (cache_op length) (new_cache 4) [OpSet ''a'' ''123'', OpGet ''a''])))"
proof -
  have "(0::int) \<le> 4" by simp
  from cache_accounting[OF this, of length "[CacheSet ''a'' ''123'', CacheSet ''b'' ''456'']" "[OpSet ''a'' ''123'', OpGet ''a'']"]
  show ?thesis unfolding Let_def by blast
qed

end
