(* ===== verification/Activities.thy ===== *)
theory Activities
  imports Execution
begin

text \<open>
  The activities of the workflow engine that shape its data (\<open>allama/dsl/action.py\<close>): the collection
  a scatter ranges over, the finalisation of a gather, and the preparation of child workflows.
  The evaluation of expressions, the object storage, the database and the validation of models are
  arguments; a function that can raise has its exception on the left.
\<close>

section \<open>Scatter and gather\<close>

text \<open>\<open>is_iterable\<close>: strings, byte strings and mappings are not.\<close>

fun is_iterable :: "json \<Rightarrow> bool" where
  "is_iterable (JArr _) = True"
| "is_iterable _ = False"

definition evaluate_scatter_input :: "(json list \<Rightarrow> exn + stored) \<Rightarrow> exn + json \<Rightarrow> exn + stored" where
  "evaluate_scatter_input store evaluated =
     rbind evaluated (\<lambda>v.
       if v = JNull then store []
       else if \<not> is_iterable v then Inl (app_error ''Scatter collection is not iterable'' [])
       else (case v of JArr xs \<Rightarrow> store xs | _ \<Rightarrow> store []))"

definition inline_list :: "json list \<Rightarrow> exn + stored" where
  "inline_list xs = Inr (Inline (JArr xs))"

definition synchronize_collection :: "(stored \<Rightarrow> exn + json) \<Rightarrow> (json list \<Rightarrow> exn + stored) \<Rightarrow> stored list \<Rightarrow> exn + stored" where
  "synchronize_collection retrieve store coll = rbind (rmap retrieve coll) store"

text \<open>
  \<open>as_error\<close> is the validation of a value as \<open>ActionErrorInfo\<close>; \<open>_is_error_info\<close> also requires a
  mapping.
\<close>

definition is_error_info :: "(json \<Rightarrow> action_error option) \<Rightarrow> json \<Rightarrow> bool" where
  "is_error_info as_error v \<longleftrightarrow> is_obj v \<and> as_error v \<noteq> None"

fun partition_errors :: "(json \<Rightarrow> action_error option) \<Rightarrow> json list \<Rightarrow> json list \<times> action_error list" where
  "partition_errors as_error [] = ([], [])"
| "partition_errors as_error (v # vs) =
     (case partition_errors as_error vs of (results, errors) \<Rightarrow>
        (case as_error v of Some e \<Rightarrow> (results, e # errors) | None \<Rightarrow> (v # results, errors)))"

definition finalize_gather ::
  "(json \<Rightarrow> action_error option) \<Rightarrow> (stored \<Rightarrow> exn + json) \<Rightarrow> (json list \<Rightarrow> exn + stored) \<Rightarrow>
   stored list \<Rightarrow> bool \<Rightarrow> stream_error_strategy \<Rightarrow> exn + stored \<times> action_error list" where
  "finalize_gather as_error retrieve store coll drop_nulls strategy =
     rbind (rmap retrieve coll) (\<lambda>values.
       let vs = (if drop_nulls then filter (\<lambda>v. v \<noteq> JNull) values else values);
           (results, errors) =
             (case strategy of
                Partition \<Rightarrow> partition_errors as_error vs
              | Drop \<Rightarrow> (filter (\<lambda>v. \<not> is_error_info as_error v) vs, [])
              | Include \<Rightarrow> (vs, [])
              | Raise \<Rightarrow> partition_errors as_error vs)
       in rbind (store results) (\<lambda>st. Inr (st, errors)))"

section \<open>The iterations of a loop\<close>

type_synonym iterator = "string \<times> json list"

text \<open>\<open>list(zip(*iterators, strict=False))\<close>: as many rows as the shortest iterator has items.\<close>

definition loop_items :: "iterator list \<Rightarrow> (string \<times> json) list list" where
  "loop_items its =
     (if its = [] then [] else
        map (\<lambda>i. map (\<lambda>(path, xs). (path, xs ! i)) its) [0..<foldr min (map (length \<circ> snd) its) (length (snd (hd its)))])"

text \<open>\<open>_patch_object\<close>: sets a value at a dotted path, entering new dictionaries on the way.\<close>

fun patch_path :: "string list \<Rightarrow> json \<Rightarrow> (string \<times> json) list \<Rightarrow> exn + (string \<times> json) list" where
  "patch_path [] v obj = Inr obj"
| "patch_path [leaf] v obj = Inr (dset leaf v obj)"
| "patch_path (k # ks) v obj =
     (case dget obj k of
        None \<Rightarrow> rbind (patch_path ks v []) (\<lambda>e. Inr (dset k (JObj e) obj))
      | Some (JObj d) \<Rightarrow> rbind (patch_path ks v d) (\<lambda>e. Inr (dset k (JObj e) obj))
      | Some _ \<Rightarrow> Inl (Exn ''AttributeError'' False ''object has no attribute'' [] None))"

definition patch_object :: "string \<Rightarrow> json \<Rightarrow> (string \<times> json) list \<Rightarrow> exn + (string \<times> json) list" where
  "patch_object path v obj = patch_path (split_on (CHR ''.'') path) v obj"

definition patch_items :: "(string \<times> json) list \<Rightarrow> (string \<times> json) list \<Rightarrow> exn + (string \<times> json) list" where
  "patch_items row ctx = rfold (\<lambda>(path, v). patch_object (''var'' @ path) v) row ctx"

record subflow_args =
  sf_workflow_id :: "string option"
  sf_workflow_alias :: "string option"
  sf_version :: "int option"
  sf_environment :: "string option"
  sf_timeout :: "rat option"
  sf_trigger_inputs :: json

text \<open>\<open>args.environment or config.environment\<close>: an empty text and a timeout of zero count as unset.\<close>

definition resolve_config :: "dsl_config \<Rightarrow> subflow_args \<Rightarrow> dsl_config" where
  "resolve_config c a =
     \<lparr>dc_environment = (case sf_environment a of Some e \<Rightarrow> if e = [] then dc_environment c else e | None \<Rightarrow> dc_environment c),
      dc_timeout = (case sf_timeout a of Some t \<Rightarrow> if t = 0 then dc_timeout c else t | None \<Rightarrow> dc_timeout c)\<rparr>"

definition MAX_LOOP_ITERATIONS :: nat where
  "MAX_LOOP_ITERATIONS = 4096"

text \<open>The flags that tell whether the configurations diverge, updated once per iteration.\<close>

fun track_config :: "dsl_config \<Rightarrow> dsl_config option \<times> bool \<Rightarrow> dsl_config option \<times> bool" where
  "track_config c (None, same) = (Some c, same)"
| "track_config c (Some first, same) = (Some first, if same \<and> c \<noteq> first then False else same)"

definition share_configs :: "dsl_config list \<Rightarrow> run_configs" where
  "share_configs cs =
     (case foldl (\<lambda>acc c. track_config c acc) (None, True) cs of
        (Some first, True) \<Rightarrow> OneConfig first
      | _ \<Rightarrow> ManyConfigs cs)"

definition loop_iteration ::
  "((string \<times> json) list \<Rightarrow> exn + subflow_args) \<Rightarrow> (string \<times> json) list \<Rightarrow> dsl_config \<Rightarrow> (string \<times> json) list \<Rightarrow> exn + json \<times> dsl_config" where
  "loop_iteration evaluate_args ctx c row =
     rbind (patch_items row ctx) (\<lambda>patched. rbind (evaluate_args patched) (\<lambda>a.
       Inr (sf_trigger_inputs a, resolve_config c a)))"

definition evaluate_loop_iterations ::
  "((string \<times> json) list \<Rightarrow> exn + subflow_args) \<Rightarrow> exn + iterator list \<Rightarrow> (string \<times> json) list \<Rightarrow> dsl_config \<Rightarrow>
   exn + json list \<times> run_configs" where
  "evaluate_loop_iterations evaluate_args iterators ctx c =
     rbind iterators (\<lambda>its.
       let rows = loop_items its in
       if length rows > MAX_LOOP_ITERATIONS
       then Inl (app_error (''Loop exceeds max iterations: '' @ show_nat (length rows) @ '' > '' @ show_nat MAX_LOOP_ITERATIONS) [])
       else rbind (rmap (loop_iteration evaluate_args ctx c) rows) (\<lambda>rs. Inr (map fst rs, share_configs (map snd rs))))"

section \<open>Preparing a child workflow\<close>

text \<open>
  What the preparation asks: the evaluation and validation of the arguments in a context, the
  iterators of \<open>for_each\<close>, the lookup of an alias, the definition of a workflow in a version, and the
  storage of a list.
\<close>

record subflow_env =
  se_evaluate :: "(string \<times> json) list \<Rightarrow> exn + subflow_args"
  se_iterators :: "exn + iterator list"
  se_resolve_alias :: "string \<Rightarrow> exn + string option"
  se_definition :: "string \<Rightarrow> int option \<Rightarrow> exn + dsl_config option"
  se_store :: "json list \<Rightarrow> exn + stored"

definition subflow_id :: "subflow_env \<Rightarrow> subflow_args \<Rightarrow> exn + string" where
  "subflow_id e a =
     (let by_id = (case sf_workflow_id a of
            Some w \<Rightarrow> if w = [] then Inl (app_error ''Either workflow_id or workflow_alias must be provided'' []) else Inr w
          | None \<Rightarrow> Inl (app_error ''Either workflow_id or workflow_alias must be provided'' []))
      in case sf_workflow_alias a of
          None \<Rightarrow> by_id
        | Some al \<Rightarrow>
            if al = [] then by_id
            else rbind (se_resolve_alias e al) (\<lambda>r. case r of
                None \<Rightarrow> Inl (app_error (''Workflow alias '' @ quoted al @ '' not found'') [])
              | Some w \<Rightarrow> Inr w))"

definition prepare_subflow :: "subflow_env \<Rightarrow> action_stmt \<Rightarrow> (string \<times> json) list \<Rightarrow> exn + string \<times> prepared" where
  "prepare_subflow e a ctx =
     rbind (se_evaluate e ctx) (\<lambda>args. rbind (subflow_id e args) (\<lambda>w.
       rbind (se_definition e w (sf_version args)) (\<lambda>defn. case defn of
         None \<Rightarrow> Inl (app_error (''Workflow definition not found for '' @ w) [])
       | Some c \<Rightarrow>
           if \<not> truthy (stmt_for_each a)
           then Inr (w, \<lparr>pr_config = c, pr_trigger_inputs = None, pr_runtime_configs = Some (OneConfig (resolve_config c args))\<rparr>)
           else rbind (evaluate_loop_iterations (se_evaluate e) (se_iterators e) ctx c) (\<lambda>(ts, cs).
             rbind (se_store e ts) (\<lambda>st.
             Inr (w, \<lparr>pr_config = c, pr_trigger_inputs = Some st, pr_runtime_configs = Some cs\<rparr>))))))"

end
