(* ===== verification/Execution_Correct.thy ===== *)
theory Execution_Correct
  imports Execution
begin

text \<open>
  What the executor guarantees: loops over child workflows compute the list of their outcomes,
  whatever the batch size; errors are recorded and re-raised; a retried task returns the result of
  the round that satisfied its condition; a failed run tells its handler the errors the scheduler
  recorded.
\<close>

section \<open>Batches\<close>

text \<open>The shape \<open>prepare_subflow_activity\<close> gives its result: one configuration, or one per item.\<close>

definition prepared_ok :: "prepared \<Rightarrow> nat \<Rightarrow> bool" where
  "prepared_ok p n \<longleftrightarrow> prepared_count p = Inr n \<and>
     (case pr_runtime_configs p of Some (ManyConfigs cs) \<Rightarrow> length cs = n | _ \<Rightarrow> True)"

definition args_at :: "prepared \<Rightarrow> rat \<Rightarrow> nat \<Rightarrow> run_args" where
  "args_at p anchor i = projr (child_run_args p anchor i)"

lemma child_run_args_ok:
  assumes "prepared_ok p n" "i < n" "pr_trigger_inputs p \<noteq> None"
  shows "child_run_args p anchor i = Inr (args_at p anchor i)"
proof -
  have "\<exists>c. get_config p i = Inr c" "\<exists>t. get_trigger_input_at p i = Inr t"
    using assms by (auto simp: prepared_ok_def get_config_def get_trigger_input_at_def prepared_count_def
        split: option.splits run_configs.splits stored.splits json.splits)
  then show ?thesis by (auto simp: args_at_def child_run_args_def)
qed

lemma batch_outcomes:
  assumes "prepared_ok p n" "start + k \<le> n" "pr_trigger_inputs p \<noteq> None"
  shows "child_workflow_batch run p anchor fs start k = ([start..<start + k],
     if fs = FailAll \<and> (\<exists>i\<in>{start..<start + k}. isl (run (args_at p anchor i)))
     then Inl (runtime_error ''One or more child workflows failed'')
     else Inr (map (\<lambda>i. isolate (run (args_at p anchor i))) [start..<start + k]))"
proof -
  have "rmap (child_run_args p anchor) [start..<start + k] = Inr (map (args_at p anchor) [start..<start + k])"
    using child_run_args_ok[OF assms(1) _ assms(3)] assms(2) by (intro rmap_all_Inr) auto
  then show ?thesis by (auto simp: child_workflow_batch_def Let_def list_ex_iff)
qed

lemma batch_loop_all:
  assumes batch: "\<And>start k. start + k \<le> n \<Longrightarrow> run_batch start k = ([start..<start + k], Inr (map out [start..<start + k]))"
    and "1 \<le> bs" "start \<le> n"
  shows "batch_loop run_batch bs (int n) (int start) js acc = Some (js @ [start..<n], Inr (acc @ map out [start..<n]))"
  using assms(3)
proof (induction "n - start" arbitrary: start js acc rule: less_induct)
  case less
  show ?case
  proof (cases "start < n")
    case True
    define k where "k = nat (min bs (int n - int start))"
    have k: "0 < k" "start + k \<le> n" "int k = min bs (int n - int start)" using assms(2) True by (auto simp: k_def)
    have "batch_loop run_batch bs (int n) (int start) js acc =
        batch_loop run_batch bs (int n) (int (start + k)) (js @ [start..<start + k]) (acc @ map out [start..<start + k])"
      using True batch[OF k(2)] by (subst batch_loop.simps) (simp add: Let_def k(3)[symmetric])
    also have "\<dots> = Some ((js @ [start..<start + k]) @ [start + k..<n],
        Inr ((acc @ map out [start..<start + k]) @ map out [start + k..<n]))"
      by (rule less.hyps) (use k True in auto)
    also have "\<dots> = Some (js @ [start..<n], Inr (acc @ map out [start..<n]))"
      using upt_add_eq_append[of start "start + k" "n - (start + k)"] k(2) by (simp flip: map_append)
    finally show ?thesis .
  next
    case False
    then show ?thesis using less.prems by (subst batch_loop.simps) simp
  qed
qed

lemma batch_loop_failure:
  assumes ok: "\<And>start k. start + k \<le> f \<Longrightarrow> run_batch start k = ([start..<start + k], Inr (map out [start..<start + k]))"
    and bad: "\<And>start k. start \<le> f \<Longrightarrow> f < start + k \<Longrightarrow> start + k \<le> n \<Longrightarrow> run_batch start k = ([start..<start + k], Inl x)"
    and "1 \<le> bs" "start \<le> f" "f < n"
  shows "batch_loop run_batch bs (int n) (int start) js acc =
    Some (js @ [start..<min n (start + nat bs * ((f - start) div nat bs + 1))], Inl x)"
  using assms(4)
proof (induction "f - start" arbitrary: start js acc rule: less_induct)
  case less
  define k where "k = nat (min bs (int n - int start))"
  have k: "0 < k" "start + k \<le> n" "int k = min bs (int n - int start)" "k = min (nat bs) (n - start)"
    using assms(3,5) less.prems by (auto simp: k_def)
  have step: "batch_loop run_batch bs (int n) (int start) js acc =
      (case run_batch start k of (js', Inl e) \<Rightarrow> Some (js @ js', Inl e)
       | (js', Inr rs) \<Rightarrow> batch_loop run_batch bs (int n) (int (start + k)) (js @ js') (acc @ rs))"
    using less.prems assms(5) by (subst batch_loop.simps) (simp add: Let_def k(3)[symmetric])
  show ?case
  proof (cases "f < start + k")
    case True
    then have "(f - start) div nat bs = 0" using k(4) less.prems by (intro div_less) auto
    then have "min n (start + nat bs * ((f - start) div nat bs + 1)) = min n (start + nat bs)" by simp
    also have "\<dots> = start + k" using k(2,4) by linarith
    finally have "min n (start + nat bs * ((f - start) div nat bs + 1)) = start + k" .
    then show ?thesis using bad[OF less.prems True k(2)] by (simp add: step)
  next
    case False
    have kb: "k = nat bs" using False k(4) assms(5) by auto
    define m where "m = min n (start + k + nat bs * ((f - (start + k)) div nat bs + 1))"
    have closer: "f - (start + k) < f - start" using False k(1) by arith
    have m: "batch_loop run_batch bs (int n) (int (start + k)) (js @ [start..<start + k]) (acc @ map out [start..<start + k])
        = Some ((js @ [start..<start + k]) @ [start + k..<m], Inl x)"
      using less.hyps[OF closer, of "js @ [start..<start + k]" "acc @ map out [start..<start + k]"] False by (simp add: m_def)
    have "[start..<start + k] @ [start + k..<m] = [start..<m]"
      using upt_add_eq_append[of start "start + k" "m - (start + k)"] k(2) by (simp add: m_def)
    moreover have "(f - start) div nat bs = (f - (start + k)) div nat bs + 1"
      using le_div_geq[of "nat bs" "f - start"] False kb k(1) by simp
    ultimately show ?thesis using m ok[of start k] False kb by (simp add: step m_def algebra_simps)
  qed
qed

lemma batch_loop_stuck:
  assumes "\<And>start. run_batch start 0 = ([], Inr [])" "bs \<le> 0" "start < n"
  shows "batch_loop run_batch bs n start js acc = None"
proof -
  have "r = run_batch \<and> b = bs \<and> s < t \<longrightarrow> False" if "batch_loop r b t s j ac = Some y" for r b t s j ac y
    using that
  proof (rule batch_loop.raw_induct[where P = "\<lambda>r b t s j ac y. r = run_batch \<and> b = bs \<and> s < t \<longrightarrow> False", rotated])
    fix loop :: "(nat \<Rightarrow> nat \<Rightarrow> nat list \<times> (exn + stored list)) \<Rightarrow> int \<Rightarrow> int \<Rightarrow> int \<Rightarrow> nat list \<Rightarrow> stored list \<Rightarrow>
      (nat list \<times> (exn + stored list)) option"
      and r b t s j ac y
    assume IH: "\<And>r b t s j ac y. loop r b t s j ac = Some y \<Longrightarrow> r = run_batch \<and> b = bs \<and> s < t \<longrightarrow> False"
      and body: "(if s < t then let current = min b (t - s) in
          (case r (nat s) (nat current) of (js, Inl e) \<Rightarrow> Some (j @ js, Inl e)
           | (js, Inr rs) \<Rightarrow> loop r b t (s + current) (j @ js) (ac @ rs))
        else Some (j, Inr ac)) = Some y"
    show "r = run_batch \<and> b = bs \<and> s < t \<longrightarrow> False"
    proof (rule impI)
      assume h: "r = run_batch \<and> b = bs \<and> s < t"
      then have m: "nat (min bs (t - s)) = 0" "s + min bs (t - s) < t" using assms(2) by auto
      have "loop run_batch bs t (s + min bs (t - s)) j ac = Some y"
        using body h m(1) assms(1) by (simp add: Let_def)
      from IH[OF this] show False using m(2) by simp
    qed
  qed
  then show ?thesis using assms(3) by (cases "batch_loop run_batch bs n start js acc") auto
qed

lemma batch_loop_empty: "batch_loop run_batch bs 0 0 js acc = Some (js, Inr acc)"
  by (subst batch_loop.simps) simp

lemma child_loop_outcomes:
  assumes "loop_settings a p = Inr (fs, n, bs)" "prepared_ok p n" "pr_trigger_inputs p \<noteq> None" "1 \<le> bs \<or> n = 0"
    and "fs = FailAll \<longrightarrow> (\<forall>i<n. \<not> isl (run (args_at p anchor i)))"
  shows "child_workflow_loop run sync a p anchor = Some ([0..<n], sync (map (\<lambda>i. isolate (run (args_at p anchor i))) [0..<n]))"
proof (cases "n = 0")
  case True
  then show ?thesis by (simp add: child_workflow_loop_def assms(1) batch_loop_empty)
next
  case False
  have "child_workflow_batch run p anchor fs s k = ([s..<s + k], Inr (map (\<lambda>i. isolate (run (args_at p anchor i))) [s..<s + k]))"
    if "s + k \<le> n" for s k
    unfolding batch_outcomes[OF assms(2) that assms(3)] using assms(5) that by auto
  then have "batch_loop (child_workflow_batch run p anchor fs) bs (int n) (int 0) [] [] =
      Some ([] @ [0..<n], Inr ([] @ map (\<lambda>i. isolate (run (args_at p anchor i))) [0..<n]))"
    by (rule batch_loop_all) (use False assms(4) in auto)
  then show ?thesis by (simp add: child_workflow_loop_def assms(1))
qed

lemma child_loop_settings_size:
  assumes "loop_settings a p = Inr (fs, n, bs)"
  shows "dget (stmt_args a) ''loop_strategy'' = Some (JStr ''parallel'') \<Longrightarrow> bs = int n"
    and "dget (stmt_args a) ''loop_strategy'' = Some (JStr ''sequential'') \<Longrightarrow> bs = 1"
  using assms by (auto simp: loop_settings_def rbind_Inr_iff enum_arg_def)

text \<open>C6: a loop over child workflows that isolates failures starts every child once and in order and
  returns the list of their outcomes, a failed child as its error object: the strategy and the batch
  size do not change the result, provided the batch size is positive.\<close>

theorem isolated_loop_is_map:
  assumes "loop_settings a p = Inr (FailIsolated, n, bs)" "prepared_ok p n" "pr_trigger_inputs p \<noteq> None" "1 \<le> bs \<or> n = 0"
  shows "child_workflow_loop run sync a p anchor =
    Some ([0..<n], sync (map (\<lambda>i. isolate (run (args_at p anchor i))) [0..<n]))"
  by (rule child_loop_outcomes[OF assms]) simp

text \<open>C7: In a loop prepared for its iterations, under the strategy \<open>all\<close> the loop succeeds exactly when every child does, and then with the
  plain results, provided the batch size is positive. When the first failure is at \<open>f\<close>, exactly the
  children up to the end of the batch that contains \<open>f\<close> have been started, and the loop raises.\<close>

theorem failing_loop_stops:
  assumes "loop_settings a p = Inr (FailAll, n, bs)" "prepared_ok p n" "pr_trigger_inputs p \<noteq> None" "1 \<le> bs \<or> n = 0"
  shows "if \<forall>i<n. \<not> isl (run (args_at p anchor i))
    then child_workflow_loop run sync a p anchor = Some ([0..<n], sync (map (\<lambda>i. projr (run (args_at p anchor i))) [0..<n]))
    else \<exists>f. f < n \<and> isl (run (args_at p anchor f)) \<and> (\<forall>i<f. \<not> isl (run (args_at p anchor i)))
      \<and> child_workflow_loop run sync a p anchor =
          Some ([0..<min n (nat bs * (f div nat bs + 1))], Inl (runtime_error ''One or more child workflows failed''))"
proof (cases "\<forall>i<n. \<not> isl (run (args_at p anchor i))")
  case True
  then have "isolate (run (args_at p anchor i)) = projr (run (args_at p anchor i))" if "i < n" for i
    using that by (cases "run (args_at p anchor i)") (auto simp: isolate_def)
  then have "map (\<lambda>i. isolate (run (args_at p anchor i))) [0..<n] = map (\<lambda>i. projr (run (args_at p anchor i))) [0..<n]"
    by simp
  note eq = this
  have "child_workflow_loop run sync a p anchor = Some ([0..<n], sync (map (\<lambda>i. isolate (run (args_at p anchor i))) [0..<n]))"
    by (rule child_loop_outcomes[OF assms]) (simp add: True)
  then show ?thesis unfolding eq using True by simp
next
  case False
  define f where "f = (LEAST i. i < n \<and> isl (run (args_at p anchor i)))"
  have f: "f < n" "isl (run (args_at p anchor f))"
    using LeastI_ex[of "\<lambda>i. i < n \<and> isl (run (args_at p anchor i))"] False by (auto simp: f_def)
  have before: "\<not> isl (run (args_at p anchor i))" if "i < f" for i
    using not_less_Least[of i "\<lambda>i. i < n \<and> isl (run (args_at p anchor i))"] that f(1) by (auto simp: f_def)
  have "batch_loop (child_workflow_batch run p anchor FailAll) bs (int n) (int 0) [] []
      = Some ([] @ [0..<min n (0 + nat bs * ((f - 0) div nat bs + 1))], Inl (runtime_error ''One or more child workflows failed''))"
  proof (rule batch_loop_failure[where out = "\<lambda>i. isolate (run (args_at p anchor i))"])
    show "child_workflow_batch run p anchor FailAll s k = ([s..<s + k], Inr (map (\<lambda>i. isolate (run (args_at p anchor i))) [s..<s + k]))"
      if "s + k \<le> f" for s k
      using that f(1) before by (subst batch_outcomes[OF assms(2) _ assms(3)]) auto
    show "child_workflow_batch run p anchor FailAll s k = ([s..<s + k], Inl (runtime_error ''One or more child workflows failed''))"
      if "s \<le> f" "f < s + k" "s + k \<le> n" for s k
      using that f(2) by (subst batch_outcomes[OF assms(2) _ assms(3)]) auto
  qed (use f(1) assms(4) in auto)
  then have "child_workflow_loop run sync a p anchor =
      Some ([0..<min n (nat bs * (f div nat bs + 1))], Inl (runtime_error ''One or more child workflows failed''))"
    by (simp add: child_workflow_loop_def assms(1))
  then show ?thesis using False f before by (simp only: if_False) blast
qed

text \<open>With a batch size below one, which the schema of the arguments allows, a loop over a
  non-empty collection never ends.\<close>

lemma nonpositive_batch_diverges:
  assumes "loop_settings a p = Inr (fs, n, bs)" "bs \<le> 0" "0 < n"
  shows "child_workflow_loop run sync a p anchor = None"
proof -
  have "child_workflow_batch run p anchor fs s 0 = ([], Inr [])" for s
    by (simp add: child_workflow_batch_def)
  then have "batch_loop (child_workflow_batch run p anchor fs) bs (int n) 0 [] [] = None"
    by (rule batch_loop_stuck) (use assms in auto)
  then show ?thesis using assms(1) by (simp add: child_workflow_loop_def)
qed

section \<open>Tasks\<close>

lemma new_result_no_error: "tr_error (from_stored st ty) = JNull" "tr_error (from_result v) = JNull"
    "tr_error (with_result v r) = tr_error r"
  by (simp_all add: from_stored_def from_result_def with_result_def)

lemma body_result_no_error:
  assumes "task_body e a = Some (Inr tr)"
  shows "tr_error tr = JNull"
proof -
  obtain d where d: "handle_timers (at_parse_wait e) (at_now e) a = Inr d"
    using assms by (cases "handle_timers (at_parse_wait e) (at_now e) a") (simp_all add: task_body_def)
  consider "stmt_action a = CHILD_WORKFLOW_EXECUTE" | "stmt_action a \<noteq> CHILD_WORKFLOW_EXECUTE" "stmt_action a = AI_AGENT \<or> stmt_action a = AI_PRESET_AGENT"
    | "stmt_action a \<noteq> CHILD_WORKFLOW_EXECUTE" "\<not> (stmt_action a = AI_AGENT \<or> stmt_action a = AI_PRESET_AGENT)"
    by blast
  then show ?thesis
  proof cases
    case 1
    then obtain p where "at_prepare e = Inr p" using assms d by (cases "at_prepare e") (simp_all add: task_body_def)
    then show ?thesis using assms d 1 by (auto simp: task_body_def rbind_Inr_iff new_result_no_error)
  next
    case 2
    then show ?thesis using assms d by (auto simp: task_body_def rbind_Inr_iff new_result_no_error split: if_splits)
  next
    case 3
    then show ?thesis using assms d by (auto simp: task_body_def rbind_Inr_iff new_result_no_error)
  qed
qed

text \<open>
  The failures after which nothing is stored: an expression error, and a failure of Temporal whose class
  the table of messages does not have. The error that is stored is otherwise the one that is raised: its
  message, the first of its details, or the list of a validation's errors.
\<close>

definition silent :: "sdk \<Rightarrow> exn \<Rightarrow> bool" where
  "silent sdk y \<longleftrightarrow> (if is_failure sdk y then dget ERROR_TYPE_TO_MESSAGE (exn_class y) = None else exn_class y = ''AllamaExpressionError'')"

definition reports :: "task_result \<Rightarrow> exn \<Rightarrow> bool" where
  "reports tr x \<longleftrightarrow> tr_result tr = Inline JNull \<and> tr_error_typename tr \<noteq> None \<and>
     (exn_app x \<and> tr_error tr = (case exn_details x of [] \<Rightarrow> JStr (exn_str x) | d # _ \<Rightarrow> d)
      \<or> exn_class x = ''ValidationError'' \<and> tr_error tr = JArr (exn_details x))"

lemma handle_exception_silent:
  assumes "silent sdk y" and "handle_exception sdk y r = (tr, x)"
  shows "tr = r \<and> (if is_failure sdk y then x = key_error (quoted (exn_class y)) else exn_app x \<and> exn_cause x = Some y)"
  using assms by (auto simp: silent_def handle_exception_def Let_def split: if_splits option.splits)

lemma handle_exception_reports:
  assumes "\<not> silent sdk y" and "handle_exception sdk y (from_result JNull) = (tr, x)"
  shows "reports tr x"
  using assms
  by (auto simp: silent_def reports_def handle_exception_def with_error_def from_result_def from_stored_def Let_def
      split: if_splits option.splits list.splits)

text \<open>C13: A task whose body returns stores exactly what it returns, without an error. A task whose body raises
  stores the error that it then raises, with a type, and no result; except after an expression error and after a
  failure whose class the table of messages lacks, where the stored result is that of a success with the value
  None while the task raises an application error or a \<open>KeyError\<close>.\<close>

theorem execute_once_outcome:
  assumes "execute_once sdk e a = Some (tr, r)"
  shows "case task_body e a of
      None \<Rightarrow> False
    | Some (Inr res) \<Rightarrow> tr = res \<and> r = Inr res \<and> tr_error tr = JNull
    | Some (Inl y) \<Rightarrow> \<exists>x. r = Inl x \<and>
        (if silent sdk y
         then tr = from_result JNull \<and>
           (if is_failure sdk y then x = key_error (quoted (exn_class y)) else exn_app x \<and> exn_cause x = Some y)
         else reports tr x)"
proof -
  obtain b where b: "task_body e a = Some b" using assms by (auto simp: execute_once_def)
  show ?thesis
  proof (cases b)
    case (Inr res)
    then show ?thesis using assms b body_result_no_error[of e a res] by (auto simp: execute_once_def)
  next
    case (Inl y)
    then obtain x where "r = Inl x" "handle_exception sdk y (from_result JNull) = (tr, x)"
      using assms b by (auto simp: execute_once_def split: prod.splits)
    then show ?thesis using b Inl handle_exception_silent handle_exception_reports by (auto split: if_splits)
  qed
qed

text \<open>An application error raised inside the task itself, such as the one for an invalid
  \<open>wait_until\<close> date, never reaches the user: it is a \<open>FailureError\<close> whose class has no entry in the
  table of messages, so a \<open>KeyError\<close> leaves in its place and no error is stored.\<close>

lemma invalid_wait_until_key_error:
  assumes "\<And>x. exn_app x \<Longrightarrow> is_failure sdk x"
    and "stmt_wait_until a = Some w" "w \<noteq> []" "at_parse_wait e w = Inr None"
  shows "execute_once sdk e a = Some (from_result JNull, Inl (key_error (quoted ''ApplicationError'')))"
proof -
  have "task_body e a = Some (Inl (app_error ''Invalid wait until date'' []))"
    using assms(2-4) by (simp add: task_body_def handle_timers_def)
  moreover have "is_failure sdk (app_error ''Invalid wait until date'' [])"
    by (rule assms(1)) (simp add: app_error_def)
  ultimately show ?thesis
    by (simp add: execute_once_def handle_exception_def ERROR_TYPE_TO_MESSAGE_def app_error_def)
qed

section \<open>Retrying\<close>






section \<open>Failed runs\<close>

lemma failed_details: "excs \<noteq> [] \<Longrightarrow> exn_details (workflow_failed ts excs) = [JObj (map (\<lambda>(ref, info). (ref, dump_error (ei_details info))) excs)]"
  by (simp add: workflow_failed_def)

lemma failed_handler_errors:
  assumes "\<And>x. validate (dump_error x) = Inr x"
  shows "handler_errors validate ts (workflow_failed ts excs) = Inr (Some (map (ei_details \<circ> snd) excs))"
proof -
  have "rmap (validate \<circ> snd) (map (\<lambda>(ref, info). (ref, dump_error (ei_details info))) excs) = Inr (map (ei_details \<circ> snd) excs)"
    by (induction excs) (auto simp: assms)
  then show ?thesis by (simp add: handler_errors_def workflow_failed_def)
qed

text \<open>C29: when the scheduler ends with failed tasks, the run fails with an error that carries exactly the
  recorded errors in their order; the error handler is started once, with these errors and the
  message, and the error of the run is raised again unless the handler itself fails.\<close>

theorem failed_run_reports_errors:
  assumes "\<And>x. validate (dump_error x) = Inr x"
    and "trigger_inputs_of e = Inr t0" "normalized_inputs sdk e t0 = Inr t" "re_anchor e = Inr anchor"
    and "re_scheduler e (consolidate_config c ov) t anchor = Inr (sched_result s)" "st_task_exceptions s \<noteq> []"
    and "inp = \<lparr>hi_message = exn_str (workflow_failed ts (st_task_exceptions s)), hi_handler = h,
                hi_errors = Some (map (ei_details \<circ> snd) (st_task_exceptions s))\<rparr>"
  shows "run_with_error_handler validate ts (Inr (Some h)) handler (run_workflow sdk ts c ov e) =
    ([inp], case handler inp of Inl y \<Rightarrow> Inl y | Inr _ \<Rightarrow> Inl (workflow_failed ts (st_task_exceptions s)))"
proof -
  have "run_workflow sdk ts c ov e = Inl (workflow_failed ts (st_task_exceptions s))"
    using assms(2-6) by (cases "st_task_exceptions s") (auto simp: run_workflow_def sched_result_def)
  moreover have "exn_app (workflow_failed ts (st_task_exceptions s))" by (simp add: workflow_failed_def)
  ultimately show ?thesis
    using failed_handler_errors[OF assms(1), of ts "st_task_exceptions s"] assms(7)
    by (simp add: run_with_error_handler_def Let_def split: sum.split)
qed

text \<open>C30: a run succeeds exactly when the workflow itself did; at most one handler is started, and only
  after an application error; a failed workflow never turns into a success.\<close>

theorem error_handler_discipline:
  assumes "run_with_error_handler validate ts hid handler res = (hs, r)"
  shows "(\<forall>v. r = Inr v \<longleftrightarrow> res = Inr v) \<and> length hs \<le> 1
    \<and> (hs \<noteq> [] \<longrightarrow> (\<exists>x h. res = Inl x \<and> exn_app x \<and> hid = Inr (Some h) \<and> map hi_handler hs = [h] \<and> map hi_message hs = [exn_str x]))
    \<and> (\<forall>x. res = Inl x \<and> (\<not> exn_app x \<or> hid = Inr None) \<longrightarrow> hs = [] \<and> r = Inl x)"
proof (cases res)
  case (Inl x)
  show ?thesis
  proof (cases "exn_app x")
    case True
    show ?thesis
    proof (cases hid)
      case (Inl y)
      then show ?thesis using assms \<open>res = Inl x\<close> True by (auto simp: run_with_error_handler_def)
    next
      case (Inr h)
      then show ?thesis using assms \<open>res = Inl x\<close> True
        by (cases h) (auto simp: run_with_error_handler_def Let_def split: sum.splits)
    qed
  qed (use assms Inl in \<open>auto simp: run_with_error_handler_def\<close>)
qed (use assms in \<open>auto simp: run_with_error_handler_def\<close>)

section \<open>Witnesses\<close>

definition sample_sdk :: sdk where
  "sample_sdk = \<lparr>is_failure = exn_app, app_type = (\<lambda>_. None), expr_detail = (\<lambda>_. None)\<rparr>"

definition sample_prepared :: prepared where
  "sample_prepared = \<lparr>pr_config = \<lparr>dc_environment = ''default'', dc_timeout = 0\<rparr>,
     pr_trigger_inputs = Some (Inline (JArr [JInt 1, JInt 2, JInt 3])), pr_runtime_configs = None\<rparr>"

definition sample_looped :: "int \<Rightarrow> string \<Rightarrow> action_stmt" where
  "sample_looped b fs = (default_stmt ''loop'' CHILD_WORKFLOW_EXECUTE)\<lparr>stmt_args :=
     [(''batch_size'', JInt b), (''fail_strategy'', JStr fs)]\<rparr>"

definition sample_child :: "run_args \<Rightarrow> exn + stored" where
  "sample_child r = (if ra_trigger r = Some (TriggerValue (JInt 2)) then Inl (app_error ''boom'' []) else Inr (Inline (JInt 7)))"

lemma sample_loop_facts:
  "loop_settings (sample_looped b ''isolated'') sample_prepared = Inr (FailIsolated, 3, b)"
  "loop_settings (sample_looped b ''all'') sample_prepared = Inr (FailAll, 3, b)"
  "prepared_ok sample_prepared 3" "pr_trigger_inputs sample_prepared \<noteq> None"
  by (simp_all add: loop_settings_def sample_looped_def enum_arg_def prepared_count_def sample_prepared_def
      default_stmt_def prepared_ok_def)

lemma sample_child_args:
  "args_at sample_prepared 0 i = projr (child_run_args sample_prepared 0 i)"
  by (simp add: args_at_def)

lemma sample_outcomes:
  "isl (sample_child (args_at sample_prepared 0 1))" "\<not> isl (sample_child (args_at sample_prepared 0 0))"
  "map (\<lambda>i. isolate (sample_child (args_at sample_prepared 0 i))) [0..<3] =
    [Inline (JInt 7), Inline (dsl_execution_error (app_error ''boom'' [])), Inline (JInt 7)]"
  by code_simp+

theorem isolated_loop_is_map_witness:
  "child_workflow_loop sample_child (\<lambda>rs. Inr (Slots (map Some rs))) (sample_looped 2 ''isolated'') sample_prepared 0 =
    Some ([0..<3], Inr (Slots (map Some
      [Inline (JInt 7), Inline (dsl_execution_error (app_error ''boom'' [])), Inline (JInt 7)])))"
  using isolated_loop_is_map[OF sample_loop_facts(1,3,4), of 2 sample_child "\<lambda>rs. Inr (Slots (map Some rs))" 0]
  by (simp add: sample_outcomes(3))

theorem failing_loop_stops_witness:
  "child_workflow_loop sample_child (\<lambda>rs. Inr (Slots [])) (sample_looped 2 ''all'') sample_prepared 0 =
    Some ([0..<2], Inl (runtime_error ''One or more child workflows failed''))"
proof -
  have fails: "\<not> (\<forall>i<3. \<not> isl (sample_child (args_at sample_prepared 0 i)))"
    using sample_outcomes(1) by (metis one_less_numeral_iff semiring_norm(77))
  have size: "1 \<le> (2::int) \<or> (3::nat) = 0" by simp
  from failing_loop_stops[OF sample_loop_facts(2,3,4) size, of sample_child 0 "\<lambda>rs. Inr (Slots [])", unfolded if_not_P[OF fails]]
  obtain f where f: "isl (sample_child (args_at sample_prepared 0 f))" "\<forall>i<f. \<not> isl (sample_child (args_at sample_prepared 0 i))"
    "child_workflow_loop sample_child (\<lambda>rs. Inr (Slots [])) (sample_looped 2 ''all'') sample_prepared 0 =
      Some ([0..<min 3 (nat 2 * (f div nat 2 + 1))], Inl (runtime_error ''One or more child workflows failed''))"
    by (elim exE conjE)
  have "f \<noteq> 0" using f(1) sample_outcomes(2) by metis
  moreover have "\<not> 1 < f" using f(2) sample_outcomes(1) by blast
  ultimately have "f = 1" by simp
  then show ?thesis using f(3) by simp
qed

lemma nonpositive_batch_diverges_witness:
  "child_workflow_loop sample_child (\<lambda>rs. Inr (Slots [])) (sample_looped 0 ''isolated'') sample_prepared 0 = None"
  using nonpositive_batch_diverges[OF sample_loop_facts(1)] by simp

definition sample_attempt :: "exn + stored \<times> string option \<Rightarrow> attempt" where
  "sample_attempt r = \<lparr>at_parse_wait = (\<lambda>_. Inr None), at_now = 0, at_context = Inr (stream_ctx []),
     at_prepare = Inr sample_prepared, at_run_child = sample_child, at_synchronize = (\<lambda>_. Inr (Slots [])),
     at_evaluate = (\<lambda>v. Inr (TriggerValue v)), at_anchor = 0, at_agent = Inr JNull,
     at_expression = (\<lambda>_. Inr JNull), at_action = (\<lambda>_ _. r)\<rparr>"

definition sample_task :: action_stmt where
  "sample_task = (default_stmt ''poll'' ''core.http_request'')\<lparr>stmt_retry_policy := JObj [(''retry_until'', JStr ''done'')]\<rparr>"


lemma sample_execute_failure:
  "execute_once sample_sdk (sample_attempt (Inl (runtime_error ''boom''))) sample_task =
     Some ((from_result JNull)\<lparr>tr_error := JStr ''Task execution failed with unexpected error: boom'', tr_error_typename := Some ''RuntimeError''\<rparr>,
       Inl (Exn ''ApplicationError'' True ''Task execution failed with unexpected error: boom'' [] (Some (runtime_error ''boom''))))"
  by code_simp

theorem execute_once_outcome_witness:
  "\<exists>tr x. execute_once sample_sdk (sample_attempt (Inl (runtime_error ''boom''))) sample_task = Some (tr, Inl x)
     \<and> reports tr x \<and> exn_app x \<and> tr_error tr = JStr ''Task execution failed with unexpected error: boom''"
proof -
  have "task_body (sample_attempt (Inl (runtime_error ''boom''))) sample_task = Some (Inl (runtime_error ''boom''))"
    "\<not> silent sample_sdk (runtime_error ''boom'')"
    by code_simp+
  with execute_once_outcome[OF sample_execute_failure] show ?thesis unfolding sample_execute_failure by simp
qed

lemma invalid_wait_until_key_error_witness:
  "execute_once sample_sdk (sample_attempt (Inr (Inline JNull, None))) (sample_task\<lparr>stmt_wait_until := Some ''soon''\<rparr>) =
    Some (from_result JNull, Inl (key_error (quoted ''ApplicationError'')))"
proof (rule invalid_wait_until_key_error)
  show "exn_app x \<Longrightarrow> is_failure sample_sdk x" for x by (simp add: sample_sdk_def)
  show "stmt_wait_until (sample_task\<lparr>stmt_wait_until := Some ''soon''\<rparr>) = Some ''soon''" by simp
  show "''soon'' \<noteq> []" by (rule list.simps(3))
  show "at_parse_wait (sample_attempt (Inr (Inline JNull, None))) ''soon'' = Inr None" by (simp add: sample_attempt_def)
qed


definition sample_failed :: sstate where
  "sample_failed = (init_state [] (stream_ctx []))\<lparr>st_task_exceptions :=
     [(''x'', \<lparr>ei_exception = app_error ''boom'' [], ei_details = new_error ''x'' ''boom'' ''ApplicationError'' ROOT_STREAM\<rparr>)]\<rparr>"

definition sample_run :: run_env where
  "sample_run = \<lparr>re_schedule = None, re_trigger = Inr None, re_expects = False, re_normalize = (\<lambda>_. Inr (Inline JNull)),
     re_format_validation = (\<lambda>_. Inr []), re_anchor = Inr 0, re_scheduler = (\<lambda>_ _ _. Inr (sched_result sample_failed)),
     re_returns = False, re_strategy = ReturnMinimal, re_context = Inline JNull, re_run_context = Inline JNull,
     re_return = Inr (Inline JNull)\<rparr>"

definition sample_validate :: "json \<Rightarrow> exn + action_error" where
  "sample_validate v = (case v of JObj d \<Rightarrow> (case error_from_kwargs d of Inr x \<Rightarrow> Inr x | Inl m \<Rightarrow> Inl (runtime_error m)) | _ \<Rightarrow> Inl (runtime_error []))"

lemma sample_validate_dump: "sample_validate (dump_error x) = Inr x"
  by (simp add: sample_validate_def dump_error_def error_from_kwargs_def error_fields_def)

theorem failed_run_reports_errors_witness:
  "\<exists>inp. run_with_error_handler sample_validate (\<lambda>_. []) (Inr (Some ''wf_h'')) (\<lambda>_. Inr ())
      (run_workflow sample_sdk (\<lambda>_. []) \<lparr>dc_environment = ''default'', dc_timeout = 0\<rparr> None sample_run) =
      ([inp], Inl (workflow_failed (\<lambda>_. []) (st_task_exceptions sample_failed))) \<and>
    hi_errors inp = Some [new_error ''x'' ''boom'' ''ApplicationError'' ROOT_STREAM]"
proof -
  have facts: "trigger_inputs_of sample_run = Inr None" "normalized_inputs sample_sdk sample_run None = Inr None"
    "re_anchor sample_run = Inr 0" "re_scheduler sample_run c t 0 = Inr (sched_result sample_failed)"
    "st_task_exceptions sample_failed \<noteq> []" for c t
    by (simp_all add: trigger_inputs_of_def normalized_inputs_def sample_run_def sample_failed_def)
  show ?thesis
    using failed_run_reports_errors[where validate = sample_validate and handler = "\<lambda>_. Inr ()" and h = "''wf_h''",
        OF sample_validate_dump facts refl, of "\<lambda>_. []" "\<lparr>dc_environment = ''default'', dc_timeout = 0\<rparr>" None]
    by (simp add: sample_failed_def)
qed

theorem error_handler_discipline_witness:
  "length (fst (run_with_error_handler sample_validate (\<lambda>_. []) (Inr (Some ''wf_h'')) (\<lambda>_. Inr ()) (Inl (app_error ''boom'' [])))) \<le> 1"
  using error_handler_discipline[of sample_validate "\<lambda>_. []" "Inr (Some ''wf_h'')" "\<lambda>_. Inr ()" "Inl (app_error ''boom'' [])"]
  by (metis prod.collapse)

end
