(* ===== verification/Activities_Correct.thy ===== *)
theory Activities_Correct
  imports Activities Execution_Correct
begin

text \<open>
  What the activities deliver to the executor and to the scheduler: the preparation of a looped child
  workflow gives every iteration its own trigger inputs and its own configuration, whether or not the
  configurations are shared, and the finalisation of a gather loses no value.
\<close>

section \<open>Loops\<close>

text \<open>The storage of a list, as far as the executor relies on it: it keeps the number of items.\<close>

definition stores_list :: "(json list \<Rightarrow> exn + stored) \<Rightarrow> bool" where
  "stores_list store \<longleftrightarrow> (\<forall>xs st. store xs = Inr st \<longrightarrow> st = Inline (JArr xs) \<or> (\<exists>h. st = Collected (length xs) h))"

lemma stores_listD:
  "stores_list store \<Longrightarrow> store xs = Inr st \<Longrightarrow> st = Inline (JArr xs) \<or> (\<exists>h. st = Collected (length xs) h)"
  by (simp add: stores_list_def)

lemma inline_list_stores: "stores_list inline_list"
  by (simp add: stores_list_def inline_list_def)

definition row_count :: "iterator list \<Rightarrow> nat" where
  "row_count its = (if its = [] then 0 else Min (set (map (length \<circ> snd) its)))"

lemma fold_min_Min: "foldr min xs (x::nat) = Min (insert x (set xs))"
proof (induction xs)
  case (Cons y ys)
  have "foldr min (y # ys) x = min y (Min (insert x (set ys)))" by (simp add: Cons.IH)
  also have "\<dots> = Min (insert y (insert x (set ys)))" by simp
  also have "insert y (insert x (set ys)) = insert x (set (y # ys))" by auto
  finally show ?case .
qed simp

lemma loop_items_length: "length (loop_items its) = row_count its"
  by (cases its) (auto simp: loop_items_def row_count_def fold_min_Min simp del: foldr.simps)

lemma track_all:
  "foldl (\<lambda>acc c. track_config c acc) (Some first, same) cs = (Some first, same \<and> (\<forall>c\<in>set cs. c = first))"
  by (induction cs arbitrary: same) auto

lemma share_configs_eq:
  "share_configs cs = (if cs \<noteq> [] \<and> (\<forall>c\<in>set cs. c = hd cs) then OneConfig (hd cs) else ManyConfigs cs)"
  by (cases cs) (auto simp: share_configs_def track_all split: bool.split)

text \<open>Sharing is invisible: reading a shared configuration at an index gives the one of that iteration.\<close>

lemma get_config_shared:
  assumes "pr_runtime_configs p = Some (share_configs cs)" "i < length cs"
  shows "get_config p i = Inr (cs ! i)"
  using assms by (auto simp: get_config_def share_configs_eq) (metis nth_mem)

lemma evaluate_loop_iterations_Inr:
  "evaluate_loop_iterations ev its ctx c = Inr (ts, cs) \<longleftrightarrow>
     (\<exists>iters rs. its = Inr iters \<and> row_count iters \<le> MAX_LOOP_ITERATIONS \<and>
        rmap (loop_iteration ev ctx c) (loop_items iters) = Inr rs \<and> ts = map fst rs \<and> cs = share_configs (map snd rs))"
  by (cases its) (force simp: evaluate_loop_iterations_def rbind_Inr_iff Let_def loop_items_length not_le)+

lemma prepare_subflow_loop:
  assumes "prepare_subflow e a ctx = Inr (w, p)" "truthy (stmt_for_each a)"
  obtains args c iters rs st where
    "se_evaluate e ctx = Inr args" "subflow_id e args = Inr w" "se_definition e w (sf_version args) = Inr (Some c)"
    "se_iterators e = Inr iters" "row_count iters \<le> MAX_LOOP_ITERATIONS"
    "rmap (loop_iteration (se_evaluate e) ctx c) (loop_items iters) = Inr rs" "se_store e (map fst rs) = Inr st"
    "p = \<lparr>pr_config = c, pr_trigger_inputs = Some st, pr_runtime_configs = Some (share_configs (map snd rs))\<rparr>"
  using assms unfolding prepare_subflow_def rbind_Inr_iff
  by (auto simp: rbind_Inr_iff evaluate_loop_iterations_Inr split: option.splits)

text \<open>What the i-th child gets: its item of the stored list, and its configuration.\<close>

definition trigger_of :: "stored \<Rightarrow> json list \<Rightarrow> nat \<Rightarrow> trigger" where
  "trigger_of st ts i = (case st of Collected n h \<Rightarrow> TriggerItem n h i | _ \<Rightarrow> TriggerValue (ts ! i))"

lemma child_args_of_rows:
  assumes "stores_list store" "store (map fst rs) = Inr st" "i < length rs"
  shows "child_run_args \<lparr>pr_config = c, pr_trigger_inputs = Some st, pr_runtime_configs = Some (share_configs (map snd rs))\<rparr> anchor i =
    Inr \<lparr>ra_loop_index = Some i, ra_trigger = Some (trigger_of st (map fst rs) i), ra_config = snd (rs ! i), ra_time_anchor = anchor\<rparr>"
  using stores_listD[OF assms(1,2)] assms(3)
  by (auto simp: child_run_args_def get_config_shared[of _ "map snd rs"] get_trigger_input_at_def trigger_of_def)

lemma prepared_ok_of_rows:
  assumes "stores_list store" "store (map fst rs) = Inr st"
  shows "prepared_ok \<lparr>pr_config = c, pr_trigger_inputs = Some st, pr_runtime_configs = Some (share_configs (map snd rs))\<rparr> (length rs)"
  using stores_listD[OF assms] by (auto simp: prepared_ok_def prepared_count_def share_configs_eq)

text \<open>C8: With a storage that keeps lists, a prepared loop with isolated failures and a positive batch size runs one child per row of the zipped
  iterators, at most 4096 of them, in order: the i-th child gets the trigger inputs that the arguments evaluate
  to with the i-th row patched into the context, and the configuration these arguments give over that of the
  definition of the child workflow, in the version the arguments ask for; the outcomes are synchronised as one list.\<close>

theorem looped_subflow_runs_rows:
  assumes "prepare_subflow e a ctx = Inr (w, p)" "truthy (stmt_for_each a)" "stores_list (se_store e)"
    and "loop_settings a p = Inr (FailIsolated, n, bs)" "1 \<le> bs \<or> n = 0"
  shows "\<exists>args c iters rs st. se_evaluate e ctx = Inr args \<and> subflow_id e args = Inr w \<and>
    se_definition e w (sf_version args) = Inr (Some c) \<and> se_iterators e = Inr iters \<and> n = row_count iters \<and> n \<le> MAX_LOOP_ITERATIONS \<and>
    rmap (loop_iteration (se_evaluate e) ctx c) (loop_items iters) = Inr rs \<and> se_store e (map fst rs) = Inr st \<and>
    child_workflow_loop run sync a p anchor = Some ([0..<n], sync (map (\<lambda>i. isolate (run
      \<lparr>ra_loop_index = Some i, ra_trigger = Some (trigger_of st (map fst rs) i), ra_config = snd (rs ! i), ra_time_anchor = anchor\<rparr>)) [0..<n]))"
proof -
  from assms(1,2) obtain args c iters rs st where base: "se_evaluate e ctx = Inr args" "subflow_id e args = Inr w"
    "se_definition e w (sf_version args) = Inr (Some c)"
    and f: "se_iterators e = Inr iters" "row_count iters \<le> MAX_LOOP_ITERATIONS"
    "rmap (loop_iteration (se_evaluate e) ctx c) (loop_items iters) = Inr rs" "se_store e (map fst rs) = Inr st"
    and p: "p = \<lparr>pr_config = c, pr_trigger_inputs = Some st, pr_runtime_configs = Some (share_configs (map snd rs))\<rparr>"
    by (rule prepare_subflow_loop)
  have len: "length rs = row_count iters" using rmap_Inr_length[OF f(3)] by (simp add: loop_items_length)
  have ok: "prepared_ok p (length rs)" unfolding p by (rule prepared_ok_of_rows[OF assms(3) f(4)])
  have n: "n = length rs" using assms(4) ok by (auto simp: loop_settings_def rbind_Inr_iff prepared_ok_def)
  have loop: "child_workflow_loop run sync a p anchor = Some ([0..<n], sync (map (\<lambda>i. isolate (run (args_at p anchor i))) [0..<n]))"
    by (rule child_loop_outcomes[OF assms(4) _ _ assms(5)]) (use ok n p in auto)
  have at: "args_at p anchor i = \<lparr>ra_loop_index = Some i, ra_trigger = Some (trigger_of st (map fst rs) i),
      ra_config = snd (rs ! i), ra_time_anchor = anchor\<rparr>" if "i < n" for i
    using child_args_of_rows[OF assms(3) f(4), of i c anchor] that n by (simp add: args_at_def p)
  have run: "child_workflow_loop run sync a p anchor = Some ([0..<n], sync (map (\<lambda>i. isolate (run
      \<lparr>ra_loop_index = Some i, ra_trigger = Some (trigger_of st (map fst rs) i), ra_config = snd (rs ! i), ra_time_anchor = anchor\<rparr>)) [0..<n]))"
    unfolding loop by (intro arg_cong[of _ _ "\<lambda>rs. Some ([0..<n], sync rs)"] map_cong refl) (simp add: at)
  show ?thesis
    by (rule exI[of _ args], rule exI[of _ c], rule exI[of _ iters], rule exI[of _ rs], rule exI[of _ st]) (use base f len n run in simp)
qed

section \<open>Gathering\<close>

lemma partition_errors_eq:
  "partition_errors as_error vs = (filter (\<lambda>v. as_error v = None) vs, List.map_filter as_error vs)"
  by (induction vs) (auto simp: List.map_filter_simps split: option.splits)

lemma map_filter_length: "length (filter (\<lambda>v. f v = None) vs) + length (List.map_filter f vs) = length vs"
  by (induction vs) (auto simp: List.map_filter_simps split: option.splits)

definition gathered_values :: "bool \<Rightarrow> json list \<Rightarrow> json list" where
  "gathered_values drop_nulls values = (if drop_nulls then filter (\<lambda>v. v \<noteq> JNull) values else values)"

lemma finalize_gather_Inr:
  "finalize_gather as_error retrieve store coll drop_nulls s = Inr (st, errors) \<longleftrightarrow>
    (\<exists>values results. rmap retrieve coll = Inr values \<and> store results = Inr st \<and>
       (results, errors) = (case s of
          Include \<Rightarrow> (gathered_values drop_nulls values, [])
        | Drop \<Rightarrow> (filter (\<lambda>v. \<not> is_error_info as_error v) (gathered_values drop_nulls values), [])
        | _ \<Rightarrow> partition_errors as_error (gathered_values drop_nulls values)))"
  unfolding finalize_gather_def rbind_Inr_iff Let_def gathered_values_def[symmetric]
  by (cases s) (simp add: partition_errors_eq rbind_Inr_iff; blast)+

text \<open>The finalisation of a gather keeps the order of the values, and no strategy but \<open>drop\<close> loses
  one: under \<open>partition\<close> and \<open>raise\<close> every value is either a result or an error, under \<open>include\<close>
  every value is a result, and \<open>drop\<close> keeps the results of \<open>partition\<close> when only dictionaries count
  as errors. Null values are left out exactly when asked.\<close>

lemma finalize_gather_complete:
  assumes "finalize_gather as_error retrieve store coll drop_nulls s = Inr (st, errors)"
    and "rmap retrieve coll = Inr values" "\<forall>v. as_error v \<noteq> None \<longrightarrow> is_obj v"
  shows "\<exists>results. store results = Inr st \<and>
    results = (if s = Include then gathered_values drop_nulls values
               else filter (\<lambda>v. as_error v = None) (gathered_values drop_nulls values)) \<and>
    errors = (if s \<in> {Partition, Raise} then List.map_filter as_error (gathered_values drop_nulls values) else []) \<and>
    (s \<noteq> Drop \<longrightarrow> length results + length errors = length (gathered_values drop_nulls values)) \<and>
    (\<not> drop_nulls \<longrightarrow> length (gathered_values drop_nulls values) = length coll)"
proof -
  let ?vs = "gathered_values drop_nulls values"
  have eq: "is_error_info as_error v \<longleftrightarrow> as_error v \<noteq> None" for v
    using assms(3) by (auto simp: is_error_info_def simp del: not_None_eq)
  have drop: "filter (\<lambda>v. \<not> is_error_info as_error v) ?vs = filter (\<lambda>v. as_error v = None) ?vs"
    by (simp add: eq)
  have len: "\<not> drop_nulls \<Longrightarrow> length ?vs = length coll"
    using rmap_Inr_length[OF assms(2)] by (simp add: gathered_values_def)
  from assms(1) obtain results where st: "store results = Inr st"
    and res: "(results, errors) = (case s of Include \<Rightarrow> (?vs, [])
       | Drop \<Rightarrow> (filter (\<lambda>v. \<not> is_error_info as_error v) ?vs, [])
       | _ \<Rightarrow> (filter (\<lambda>v. as_error v = None) ?vs, List.map_filter as_error ?vs))"
    unfolding finalize_gather_Inr partition_errors_eq assms(2) by fastforce
  show ?thesis
    by (rule exI[of _ results]) (use st res len map_filter_length[of as_error ?vs] in \<open>cases s; simp add: drop\<close>)
qed

section \<open>Witnesses\<close>

text \<open>A loop over two items; the second iteration overrides the environment.\<close>

definition sample_item :: "(string \<times> json) list \<Rightarrow> json" where
  "sample_item ctx = (case dget ctx ''var'' of Some (JObj d) \<Rightarrow> (case dget d ''x'' of Some v \<Rightarrow> v | None \<Rightarrow> JNull) | _ \<Rightarrow> JNull)"

definition sample_subflow :: subflow_env where
  "sample_subflow = \<lparr>
     se_evaluate = (\<lambda>ctx. Inr \<lparr>sf_workflow_id = Some ''wf_child'', sf_workflow_alias = None, sf_version = None,
        sf_environment = (if sample_item ctx = JInt 2 then Some ''staging'' else None), sf_timeout = None,
        sf_trigger_inputs = sample_item ctx\<rparr>),
     se_iterators = Inr [(''.x'', [JInt 1, JInt 2])],
     se_resolve_alias = (\<lambda>_. Inr None),
     se_definition = (\<lambda>_ _. Inr (Some \<lparr>dc_environment = ''default'', dc_timeout = 0\<rparr>)),
     se_store = inline_list\<rparr>"

definition sample_for_each :: action_stmt where
  "sample_for_each = (default_stmt ''each'' CHILD_WORKFLOW_EXECUTE)\<lparr>stmt_for_each := JStr ''loop''\<rparr>"

definition sample_configs :: "dsl_config list" where
  "sample_configs = [\<lparr>dc_environment = ''default'', dc_timeout = 0\<rparr>, \<lparr>dc_environment = ''staging'', dc_timeout = 0\<rparr>]"

definition sample_two :: prepared where
  "sample_two = \<lparr>pr_config = \<lparr>dc_environment = ''default'', dc_timeout = 0\<rparr>,
     pr_trigger_inputs = Some (Inline (JArr [JInt 1, JInt 2])), pr_runtime_configs = Some (ManyConfigs sample_configs)\<rparr>"

lemma sample_prepare_facts:
  "prepare_subflow sample_subflow sample_for_each [] = Inr (''wf_child'', sample_two)"
  "truthy (stmt_for_each sample_for_each)" "stores_list (se_store sample_subflow)"
  "loop_settings sample_for_each sample_two = Inr (FailIsolated, 2, 32)"
proof -
  show "prepare_subflow sample_subflow sample_for_each [] = Inr (''wf_child'', sample_two)" by code_simp
  show "truthy (stmt_for_each sample_for_each)" by code_simp
  show "stores_list (se_store sample_subflow)" by (simp add: sample_subflow_def inline_list_stores)
  show "loop_settings sample_for_each sample_two = Inr (FailIsolated, 2, 32)" by code_simp
qed

theorem looped_subflow_runs_rows_witness:
  "\<exists>st. child_workflow_loop (\<lambda>r. Inr (Inline (JStr (dc_environment (ra_config r))))) (\<lambda>rs. Inr (Slots (map Some rs)))
     sample_for_each sample_two 0 = Some ([0..<2], Inr st)"
  using looped_subflow_runs_rows[OF sample_prepare_facts,
      of "\<lambda>r. Inr (Inline (JStr (dc_environment (ra_config r))))" "\<lambda>rs. Inr (Slots (map Some rs))" 0]
  by auto

definition sample_as_error :: "json \<Rightarrow> action_error option" where
  "sample_as_error v = (case v of JObj d \<Rightarrow>
       (case dget d ''message'' of Some m \<Rightarrow> Some (new_error ''step'' ''failed'' ''ValueError'' ROOT_STREAM) | None \<Rightarrow> None)
     | _ \<Rightarrow> None)"

definition sample_retrieve :: "stored \<Rightarrow> exn + json" where
  "sample_retrieve s = (case s of Inline v \<Rightarrow> Inr v | _ \<Rightarrow> Inr JNull)"

lemma finalize_gather_complete_witness:
  "finalize_gather sample_as_error sample_retrieve inline_list
     [Inline (JInt 1), Inline (JObj [(''message'', JStr ''x'')]), Inline JNull] True Partition =
     Inr (Inline (JArr [JInt 1]), [new_error ''step'' ''failed'' ''ValueError'' ROOT_STREAM]) \<and>
   inline_list [JInt 1] = Inr (Inline (JArr [JInt 1]))"
proof -
  have vals: "rmap sample_retrieve [Inline (JInt 1), Inline (JObj [(''message'', JStr ''x'')]), Inline JNull] =
      Inr [JInt 1, JObj [(''message'', JStr ''x'')], JNull]"
    by (simp add: sample_retrieve_def)
  have run: "finalize_gather sample_as_error sample_retrieve inline_list
     [Inline (JInt 1), Inline (JObj [(''message'', JStr ''x'')]), Inline JNull] True Partition =
     Inr (Inline (JArr [JInt 1]), [new_error ''step'' ''failed'' ''ValueError'' ROOT_STREAM])"
    by (simp add: finalize_gather_def sample_retrieve_def sample_as_error_def inline_list_def)
  have objects: "\<forall>v. sample_as_error v \<noteq> None \<longrightarrow> is_obj v"
    by (auto simp: sample_as_error_def split: json.splits)
  from finalize_gather_complete[OF run vals objects] show ?thesis
    using run by (auto simp: inline_list_def)
qed

end
