(* ===== verification/Collection_Correct.thy ===== *)
theory Collection_Correct
  imports Storage_Correct Activities_Correct
begin

text \<open>
  What is stored is what is retrieved: single values below and above the threshold, and pages and items
  of chunked collections, through the cache. The laws of the JSON codec, of the hash and of the queries
  of the bucket store are hypotheses (\<open>env_ok\<close>).
\<close>

section \<open>Laws of the environment\<close>

text \<open>
  What was serialised deserialises to itself; a digest contains no colon; the query for an item of a chunk
  answers an object whose field \<open>_1\<close> is the item; the items of a serialisable chunk can be serialised.
\<close>

definition env_ok :: "'b storage_env \<Rightarrow> bool" where
  "env_ok env \<longleftrightarrow>
     (\<forall>v b. ev_serialize env v = Inr b \<longrightarrow> ev_deserialize env b = Inr v) \<and>
     (\<forall>b. CHR '':'' \<notin> set (ev_sha256 env b)) \<and>
     (\<forall>b start items i. ev_serialize env (chunk_json start items) = Inr b \<and> i < length items \<longrightarrow>
        (\<exists>r d. ev_select env b i = Inr r \<and> ev_deserialize env r = Inr d \<and>
           (case json_field ''_1'' d of None \<Rightarrow> JNull | Some v \<Rightarrow> v) = items ! i) \<and>
        (\<exists>x. ev_serialize env (items ! i) = Inr x))"

lemma env_okD:
  assumes "env_ok env"
  shows "ev_serialize env v = Inr b \<Longrightarrow> ev_deserialize env b = Inr v" "CHR '':'' \<notin> set (ev_sha256 env b)"
    "ev_serialize env (chunk_json start items) = Inr b \<Longrightarrow> i < length items \<Longrightarrow>
       \<exists>r d. ev_select env b i = Inr r \<and> ev_deserialize env r = Inr d \<and> (case json_field ''_1'' d of None \<Rightarrow> JNull | Some v \<Rightarrow> v) = items ! i"
    "ev_serialize env (chunk_json start items) = Inr b \<Longrightarrow> i < length items \<Longrightarrow> \<exists>x. ev_serialize env (items ! i) = Inr x"
  using assms unfolding env_ok_def by blast+

text \<open>The blobs have no two contents with the same digest, and the cache holds what the blobs say.\<close>

definition no_collision :: "'b storage_env \<Rightarrow> 'b blob_store \<Rightarrow> bool" where
  "no_collision env st \<longleftrightarrow> (\<forall>p b q b'. bs_blobs st p = Some b \<and> bs_blobs st q = Some b' \<and> ev_sha256 env b = ev_sha256 env b' \<longrightarrow> b = b')"

definition entry_ok :: "'b storage_env \<Rightarrow> 'b blob_store \<Rightarrow> string \<Rightarrow> 'b \<Rightarrow> bool" where
  "entry_ok env st k x \<longleftrightarrow>
     (\<forall>p b. bs_blobs st p = Some b \<longrightarrow> (ev_sha256 env b = k \<longrightarrow> x = b) \<and>
        (\<forall>start items i. ev_serialize env (chunk_json start items) = Inr b \<and> i < length items \<and>
           k = select_key (ev_sha256 env b) i \<longrightarrow> ev_deserialize env x = Inr (items ! i)))"

definition coherent :: "'b storage_env \<Rightarrow> 'b blob_store \<Rightarrow> bool" where
  "coherent env st \<longleftrightarrow> (\<forall>k x. sc_values (bs_cache st) k = Some x \<longrightarrow> entry_ok env st k x)"

definition reads :: "'b storage_env \<Rightarrow> 'b blob_store \<Rightarrow> 'b blob_store \<Rightarrow> bool" where
  "reads env st st' \<longleftrightarrow> bs_blobs st' = bs_blobs st \<and> coherent env st'"

lemma empty_cache_coherent: "coherent env (st\<lparr>bs_cache := new_cache limit\<rparr>)"
  by (simp add: coherent_def new_cache_def)

lemma entry_ok_blobs: "bs_blobs st' = bs_blobs st \<Longrightarrow> entry_ok env st' k x = entry_ok env st k x"
  by (simp add: entry_ok_def)

lemma no_collision_blobs: "bs_blobs st' = bs_blobs st \<Longrightarrow> no_collision env st' = no_collision env st"
  by (simp add: no_collision_def)

lemma cache_get_values: "sc_values (fst (cache_get k c)) = sc_values c" "snd (cache_get k c) = sc_values c k"
  by (auto simp: cache_get_def cache_sync_def forget_size_def split: option.splits)

lemma evict_sub: "evict need limit ds bytes vals = (ds', bytes', vals') \<Longrightarrow> vals' k = Some x \<Longrightarrow> vals k = Some x"
  by (induction need limit ds bytes vals rule: evict.induct) (auto split: if_splits)

lemma cache_set_values:
  assumes "sc_values (cache_set len k v c) k' = Some x"
  shows "(k' = k \<and> x = v) \<or> sc_values c k' = Some x"
proof -
  obtain ds bytes vals where e: "evict (int (len v)) (sc_max c) (sc_sizes (forget_size k c)) (sc_bytes (forget_size k c))
      (sc_values (forget_size k c)) = (ds, bytes, vals)" by (metis prod_cases3)
  have "sc_values (forget_size k c) = sc_values c" by (auto simp: forget_size_def split: option.splits)
  then show ?thesis using assms e evict_sub[OF e, of k' x] by (auto simp: cache_set_def Let_def split: if_splits)
qed

lemma read_cache_reads:
  assumes "coherent env st"
  shows "\<exists>st'. read_cache k st = (st', Inr (sc_values (bs_cache st) k)) \<and> reads env st st'"
  using assms by (auto simp: read_cache_def cache_get_values reads_def coherent_def entry_ok_def split: prod.splits)
    (metis cache_get_values fst_conv snd_conv)+

lemma write_cache_reads:
  assumes "coherent env st" "entry_ok env st k v"
  shows "\<exists>st'. write_cache env k v st = (st', Inr ()) \<and> reads env st st'"
proof (cases "ev_length env v \<le> MAX_CACHEABLE_BLOB_SIZE")
  case True
  let ?st = "st\<lparr>bs_cache := cache_set (ev_length env) k v (bs_cache st)\<rparr>"
  have "entry_ok env ?st k' x" if "sc_values (bs_cache ?st) k' = Some x" for k' x
    using cache_set_values[of "ev_length env" k v "bs_cache st" k' x] that assms entry_ok_blobs[of ?st st env]
    by (auto simp: coherent_def)
  then show ?thesis using True by (simp add: write_cache_def reads_def coherent_def)
next
  case False
  then show ?thesis using assms(1) by (simp add: write_cache_def reads_def)
qed

section \<open>Reading a blob\<close>

text \<open>A reference is valid for a value when the blob is its serialisation, with that digest.\<close>

definition valid_ref :: "'b storage_env \<Rightarrow> 'b blob_store \<Rightarrow> object_ref \<Rightarrow> json \<Rightarrow> bool" where
  "valid_ref env st r v \<longleftrightarrow> (\<exists>b. bs_blobs st (or_bucket r, or_key r) = Some b \<and> ev_serialize env v = Inr b \<and>
     ev_sha256 env b = or_sha r) \<and> ev_download env (or_bucket r, or_key r) = None"

lemma valid_ref_blobs: "bs_blobs st' = bs_blobs st \<Longrightarrow> valid_ref env st' r v = valid_ref env st r v"
  by (simp add: valid_ref_def)

lemma select_key_not_digest: "env_ok env \<Longrightarrow> ev_sha256 env b \<noteq> select_key s i"
  using env_okD(2)[of env b] by (auto simp: select_key_def)

lemma show_nat_inj: "show_nat m = show_nat n \<Longrightarrow> m = n"
  by (metis option.inject parse_show_nat)

lemma append_sep_inj: "xs @ c # ys = xs' @ c # ys' \<Longrightarrow> c \<notin> set xs \<Longrightarrow> c \<notin> set xs' \<Longrightarrow> xs = xs' \<and> ys = ys'"
proof (induction xs arbitrary: xs')
  case Nil
  then show ?case by (cases xs') auto
next
  case (Cons a xs)
  then show ?case by (cases xs') auto
qed

lemma select_key_inj:
  assumes "env_ok env" "select_key (ev_sha256 env b) i = select_key (ev_sha256 env b') j"
  shows "ev_sha256 env b = ev_sha256 env b' \<and> i = j"
proof -
  have "ev_sha256 env b @ CHR '':'' # show_nat i = ev_sha256 env b' @ CHR '':'' # show_nat j"
    using assms(2) by (simp add: select_key_def)
  then have "ev_sha256 env b = ev_sha256 env b' \<and> show_nat i = show_nat j"
    by (rule append_sep_inj[OF _ env_okD(2)[OF assms(1)] env_okD(2)[OF assms(1)]])
  then show ?thesis by (auto dest: show_nat_inj)
qed

lemma entry_ok_digest:
  assumes "env_ok env" "no_collision env st" "bs_blobs st p = Some b"
  shows "entry_ok env st (ev_sha256 env b) b"
proof -
  have "b = b'" if "bs_blobs st q = Some b'" "ev_sha256 env b' = ev_sha256 env b" for q b'
    using assms(2,3) that unfolding no_collision_def by metis
  then show ?thesis using select_key_not_digest[OF assms(1)] unfolding entry_ok_def by metis
qed

lemma cached_download_valid:
  assumes "env_ok env" "coherent env st" "no_collision env st" "valid_ref env st r v"
  shows "\<exists>st' b. cached_blob_download env (or_sha r) (or_bucket r) (or_key r) st = (st', Inr b) \<and> reads env st st' \<and>
    ev_sha256 env b = or_sha r \<and> ev_deserialize env b = Inr v"
proof -
  obtain b where b: "bs_blobs st (or_bucket r, or_key r) = Some b" "ev_serialize env v = Inr b" "ev_sha256 env b = or_sha r"
    "ev_download env (or_bucket r, or_key r) = None" using assms(4) by (auto simp: valid_ref_def)
  obtain st1 where st1: "read_cache (or_sha r) st = (st1, Inr (sc_values (bs_cache st) (or_sha r)))" "reads env st st1"
    using read_cache_reads[OF assms(2)] by blast
  show ?thesis
  proof (cases "sc_values (bs_cache st) (or_sha r)")
    case None
    have "entry_ok env st1 (or_sha r) b"
      using entry_ok_digest[OF assms(1,3) b(1)] entry_ok_blobs[of st1 st env] st1(2) b(3) by (simp add: reads_def)
    moreover have "coherent env st1" using st1(2) by (simp add: reads_def)
    ultimately obtain st2 where w: "write_cache env (or_sha r) b st1 = (st2, Inr ())" "reads env st1 st2"
      using write_cache_reads[of env st1 "or_sha r" b] by blast
    have same: "bs_blobs st1 = bs_blobs st" "reads env st st2" using st1(2) w(2) by (simp_all add: reads_def)
    then have "cached_blob_download env (or_sha r) (or_bucket r) (or_key r) st = (st2, Inr b)"
      using None b(1,4) st1(1) w(1) by (simp add: cached_blob_download_def sbind_def download_file_def sret_def)
    then show ?thesis using same(2) b(3) env_okD(1)[OF assms(1) b(2)] by blast
  next
    case (Some x)
    then have "x = b" using assms(2) b(1,3) by (auto simp: coherent_def entry_ok_def)
    then have "cached_blob_download env (or_sha r) (or_bucket r) (or_key r) st = (st1, Inr b)"
      using Some st1(1) by (simp add: cached_blob_download_def sbind_def sret_def)
    then show ?thesis using st1(2) b(3) env_okD(1)[OF assms(1) b(2)] by blast
  qed
qed

lemma fetch_verified_valid:
  assumes "env_ok env" "coherent env st" "no_collision env st" "valid_ref env st r v"
  shows "\<exists>st'. fetch_verified env what r st = (st', Inr v) \<and> reads env st st'"
  using cached_download_valid[OF assms] by (auto simp: fetch_verified_def sbind_def slift_def)

section \<open>Sequences of reads\<close>

lemma smap_reads:
  assumes "\<And>x s. x \<in> set xs \<Longrightarrow> reads env st s \<Longrightarrow> \<exists>s'. f x s = (s', Inr (g x)) \<and> reads env st s'" "coherent env st"
  shows "\<exists>s'. smap f xs st = (s', Inr (map g xs)) \<and> reads env st s'"
proof -
  have "\<exists>s'. smap f ys s = (s', Inr (map g ys)) \<and> reads env st s'" if "set ys \<subseteq> set xs" "reads env st s" for ys s
    using that
  proof (induction ys arbitrary: s)
    case Nil
    then show ?case by (simp add: sret_def)
  next
    case (Cons y ys)
    obtain s1 where 1: "f y s = (s1, Inr (g y))" "reads env st s1" using assms(1)[of y s] Cons.prems by auto
    obtain s2 where "smap f ys s1 = (s2, Inr (map g ys))" "reads env st s2" using Cons.IH[OF _ 1(2)] Cons.prems(1) by auto
    then show ?case using 1 by (auto simp: sbind_def sret_def)
  qed
  then show ?thesis using assms(2) by (simp add: reads_def)
qed

lemma readsD:
  assumes "reads env st s"
  shows "coherent env s" "no_collision env s = no_collision env st" "valid_ref env s r v = valid_ref env st r v"
  using assms by (simp_all add: reads_def no_collision_def valid_ref_def)

lemma reads_trans: "reads env st s \<Longrightarrow> reads env s s' \<Longrightarrow> reads env st s'"
  by (simp add: reads_def)

section \<open>Manifests and chunks\<close>

lemma parse_ref_json: "parse_ref (ref_json r) = Inr r"
  by (simp add: parse_ref_def ref_json_def need_str_def need_nat_def json_field_def)

lemma parse_manifest_json: "parse_manifest (manifest_json m) = Inr m"
proof -
  have refs: "rmap parse_ref (map ref_json rs) = Inr rs" for rs by (induction rs) (simp_all add: parse_ref_json)
  show ?thesis
    by (cases "mf_kind m") (simp_all add: parse_manifest_def manifest_json_def json_field_def need_nat_def need_list_def
        parse_kind_def need_str_def refs)
qed

lemma parse_chunk_json: "parse_chunk (chunk_json start items) = Inr items"
  by (simp add: parse_chunk_def chunk_json_def json_field_def need_nat_def need_list_def)

lemma chunk_json_inj: "chunk_json s xs = chunk_json s' ys \<longleftrightarrow> s = s' \<and> xs = ys"
  by (simp add: chunk_json_def)

text \<open>What a stored collection looks like in the blob store.\<close>

definition collection_stored :: "'b storage_env \<Rightarrow> 'b blob_store \<Rightarrow> collection \<Rightarrow> json list \<Rightarrow> bool" where
  "collection_stored env st c items \<longleftrightarrow> 0 < co_chunk_size c \<and> co_count c = length items \<and>
     (\<exists>refs. length refs = num_chunks (length items) (co_chunk_size c) \<and>
        valid_ref env st (co_manifest c) (manifest_json \<lparr>mf_count = length items, mf_chunk_size = co_chunk_size c, mf_kind = co_kind c, mf_chunks = refs\<rparr>) \<and>
        (\<forall>i<length refs. valid_ref env st (refs ! i) (chunk_json (i * co_chunk_size c) (chunk_items items (co_chunk_size c) i))))"

lemma slice_map: "b \<le> length xs \<Longrightarrow> take (b - a) (drop a xs) = map ((!) xs) [a..<b]"
  by (intro nth_equalityI) auto

lemma chunk_items_map:
  shows "chunk_items items cs i = map ((!) items) [i * cs..<min (i * cs + cs) (length items)]"
  unfolding chunk_items_def by (rule slice_map) simp

lemma chunk_bounds:
  assumes "0 < cs" "i < num_chunks n cs"
  shows "i * cs \<le> n" "0 < n \<Longrightarrow> i * cs < n"
proof -
  show pos: "i * cs < n" if "0 < n"
  proof -
    have "i + 1 \<le> (n + cs - 1) div cs" using assms(2) that by (simp add: num_chunks_def)
    then have "(i + 1) * cs \<le> n + cs - 1" by (metis div_le_mono less_eq_div_iff_mult_less_eq assms(1))
    then show ?thesis using assms(1) by simp
  qed
  show "i * cs \<le> n" using pos assms(2) by (cases "n = 0") (auto simp: num_chunks_def)
qed

lemma chunk_of_index:
  assumes "0 < cs" "k < n"
  shows "k div cs < num_chunks n cs" "k mod cs < length (chunk_items items cs (k div cs)) \<or> length items \<noteq> n"
proof -
  have k: "k div cs * cs + k mod cs = k" "k mod cs < cs" using assms(1) by simp_all
  have "k div cs * cs \<le> k" by simp
  then have "k div cs * cs + cs \<le> n + cs - 1" using assms(2) by linarith
  then have "(k div cs + 1) * cs \<le> n + cs - 1" by simp
  then show "k div cs < num_chunks n cs" using assms by (simp add: num_chunks_def less_eq_div_iff_mult_less_eq Suc_le_eq[symmetric])
  have "k mod cs < n - k div cs * cs" using k(1) assms(2) by linarith
  then show "k mod cs < length (chunk_items items cs (k div cs)) \<or> length items \<noteq> n"
    using k(2) by (auto simp: chunk_items_def min_def)
qed

lemma chunk_item_nth:
  assumes "0 < cs" "k < length items"
  shows "chunk_items items cs (k div cs) ! (k mod cs) = items ! k"
proof -
  have "k mod cs < length (chunk_items items cs (k div cs))" using chunk_of_index(2)[OF assms, of items] by simp
  then show ?thesis by (simp add: chunk_items_def)
qed

text \<open>The part of a page that one chunk contributes, and how the parts join.\<close>

lemma take_upt_to: "c \<le> n \<Longrightarrow> take (c - lo) [lo..<n] = [lo..<c]"
  by (cases "lo \<le> c") (simp_all add: take_upt)

lemma chunk_part:
  assumes "0 < cs" "i < num_chunks (length items) cs" "b \<le> length items"
  shows "py_slice (chunk_items items cs i) (max 0 (int a - int i * int cs)) (min (int (length (chunk_items items cs i))) (int b - int i * int cs)) =
    map ((!) items) [max a (i * cs)..<min b (i * cs + cs)]"
proof -
  let ?n = "min (i * cs + cs) (length items)"
  have lo: "i * cs \<le> length items" by (rule chunk_bounds(1)[OF assms(1,2)])
  have len: "length (chunk_items items cs i) = ?n - i * cs" by (simp add: chunk_items_map)
  have a: "nat (max 0 (int a - int i * int cs)) = max a (i * cs) - i * cs" by (simp add: nat_diff_distrib' max_def of_nat_diff flip: of_nat_mult)
  have b: "nat (min (int (?n - i * cs)) (int b - int i * int cs)) = min b ?n - i * cs"
    using lo by (simp add: min_def of_nat_diff flip: of_nat_mult) linarith
  have "py_slice (chunk_items items cs i) (max 0 (int a - int i * int cs)) (min (int (length (chunk_items items cs i))) (int b - int i * int cs)) =
      drop (max a (i * cs) - i * cs) (take (min b ?n - i * cs) (map ((!) items) [i * cs..<?n]))"
    unfolding py_slice_def len a b by (simp add: chunk_items_map)
  also have "take (min b ?n - i * cs) (map ((!) items) [i * cs..<?n]) = map ((!) items) [i * cs..<min b ?n]"
    unfolding take_map take_upt_to[OF min.cobounded2] by (rule refl)
  also have "drop (max a (i * cs) - i * cs) (map ((!) items) [i * cs..<min b ?n]) = map ((!) items) [max a (i * cs)..<min b ?n]"
    by (simp add: drop_map)
  also have "min b ?n = min b (i * cs + cs)" using assms(3) by linarith
  finally show ?thesis .
qed

lemma join_parts:
  assumes "j \<le> k"
  shows "concat (map (\<lambda>i. [max a (i * cs)..<min b (i * cs + cs)]) [j..<k]) = [max a (j * cs)..<min b (k * cs)]"
  using assms
proof (induction k rule: dec_induct)
  case base
  then show ?case by simp
next
  case (step k)
  have "[max a (j * cs)..<min b (k * cs)] @ [max a (k * cs)..<min b (k * cs + cs)] = [max a (j * cs)..<min b (k * cs + cs)]"
  proof -
    have "j * cs \<le> k * cs" using step.hyps by simp
    consider "b \<le> k * cs" | "k * cs \<le> a" "k * cs < b" | "a < k * cs" "k * cs < b" by linarith
    then show ?thesis
    proof cases
      case 1
      then show ?thesis by (simp add: min_def max_def)
    next
      case 2
      then have "max a (j * cs) = a" "max a (k * cs) = a" "min b (k * cs) = k * cs" using \<open>j * cs \<le> k * cs\<close> by linarith+
      then show ?thesis using 2 by simp
    next
      case 3
      then show ?thesis using \<open>j * cs \<le> k * cs\<close> upt_add_eq_append[of "max a (j * cs)" "k * cs" "min b (k * cs + cs) - k * cs"]
        by (simp add: min_def max_def)
    qed
  qed
  then show ?case using step by (simp add: add.commute)
qed

lemma parts_of_range:
  assumes "0 < cs"
  shows "concat (map (\<lambda>i. [max a (i * cs)..<min (Suc b) (i * cs + cs)]) [a div cs..<Suc (b div cs)]) = [a..<Suc b]"
proof (cases "a div cs \<le> Suc (b div cs)")
  case True
  have "max a (a div cs * cs) = a" by (rule max_absorb1) simp
  moreover have "Suc b \<le> Suc (b div cs) * cs" using div_mult_mod_eq[of b cs] mod_less_divisor[OF assms, of b] unfolding mult_Suc by linarith
  ultimately show ?thesis unfolding join_parts[OF True] by (simp add: min_absorb1)
next
  case False
  then have "b < a" using div_le_mono[of a b cs] by linarith
  then show ?thesis using False by simp
qed

section \<open>Pages and items\<close>

text \<open>The page of a list: what Python's slicing gives for an offset that is not negative.\<close>

definition page_of :: "'a list \<Rightarrow> int \<Rightarrow> int option \<Rightarrow> 'a list" where
  "page_of items offset limit =
     (case limit of None \<Rightarrow> drop (nat offset) items | Some n \<Rightarrow> take (nat n) (drop (nat offset) items))"

lemma fetch_manifest_valid:
  assumes "env_ok env" "coherent env st" "no_collision env st" "valid_ref env st (co_manifest c) (manifest_json m)"
  shows "\<exists>st'. fetch_manifest env c st = (st', Inr m) \<and> reads env st st'"
proof -
  obtain s where "fetch_verified env ''Manifest'' (co_manifest c) st = (s, Inr (manifest_json m))" "reads env st s"
    using fetch_verified_valid[OF assms] by blast
  then show ?thesis by (auto simp: fetch_manifest_def sbind_def slift_def parse_manifest_json)
qed

lemma page_chunk_valid:
  assumes "env_ok env" "coherent env st" "no_collision env st" "0 < co_chunk_size c"
    and "i < num_chunks (length items) (co_chunk_size c)" "i < length (mf_chunks m)"
    and "valid_ref env st (mf_chunks m ! i) (chunk_json (i * co_chunk_size c) (chunk_items items (co_chunk_size c) i))" "b \<le> length items"
  shows "\<exists>st'. page_chunk env c m (int a) (int b) i st =
    (st', Inr (map ((!) items) [max a (i * co_chunk_size c)..<min b (i * co_chunk_size c + co_chunk_size c)])) \<and> reads env st st'"
proof -
  obtain s where s: "fetch_verified env ''Chunk'' (mf_chunks m ! i) st =
      (s, Inr (chunk_json (i * co_chunk_size c) (chunk_items items (co_chunk_size c) i)))" "reads env st s"
    using fetch_verified_valid[OF assms(1-3,7)] by blast
  then have "fetch_chunk env (mf_chunks m ! i) st = (s, Inr (chunk_items items (co_chunk_size c) i))"
    by (simp add: fetch_chunk_def sbind_def slift_def parse_chunk_json)
  then show ?thesis
    using s(2) assms(6) chunk_part[OF assms(4,5,8), of a] by (simp add: page_chunk_def sbind_def sret_def Let_def)
qed

lemma page_of_range:
  assumes "0 \<le> offset" "offset < int (length items)"
    and "stop = min (offset + (case limit of None \<Rightarrow> int (length items) - offset | Some n \<Rightarrow> n)) (int (length items))"
  shows "map ((!) items) [nat offset..<nat stop] = page_of items offset limit"
proof (cases limit)
  case None
  then have "nat stop = length items" using assms by simp
  then show ?thesis using slice_map[of "length items" items "nat offset"] None by (simp add: page_of_def)
next
  case (Some n)
  have "nat stop \<le> length items" using assms by simp
  from slice_map[OF this, of "nat offset"]
  have "map ((!) items) [nat offset..<nat stop] = take (nat stop - nat offset) (drop (nat offset) items)" by simp
  also have "nat stop - nat offset = min (nat n) (length items - nat offset)" using assms Some by (simp add: min_def) linarith
  also have "take (min (nat n) (length items - nat offset)) (drop (nat offset) items) = take (nat n) (drop (nat offset) items)"
    by (simp add: min_def)
  finally show ?thesis using Some by (simp add: page_of_def)
qed

text \<open>The chunks that a page ranges over.\<close>

definition page_range :: "nat \<Rightarrow> int \<Rightarrow> int \<Rightarrow> nat list" where
  "page_range cs offset stop = [nat (offset div int cs)..<nat ((stop - 1) div int cs + 1)]"

lemma page_range_empty: "0 < cs \<Longrightarrow> stop \<le> 0 \<Longrightarrow> page_range cs offset stop = []"
  using pos_imp_zdiv_neg_iff[of "int cs" "stop - 1"] by (simp add: page_range_def)

lemma page_range_nat:
  assumes "0 < cs" "0 \<le> offset" "0 < stop"
  shows "page_range cs offset stop = [nat offset div cs..<Suc ((nat stop - 1) div cs)]"
  using assms by (simp add: page_range_def nat_div_distrib nat_add_distrib pos_imp_zdiv_nonneg_iff nat_diff_distrib)

lemma page_range_chunks:
  assumes "0 < cs" "0 \<le> offset" "stop \<le> int n" "i \<in> set (page_range cs offset stop)"
  shows "0 < stop" "i < num_chunks n cs"
proof -
  show pos: "0 < stop" using page_range_empty[OF assms(1), of stop offset] assms(4) by (cases "0 < stop") auto
  then have "i \<le> (nat stop - 1) div cs" using assms(4) page_range_nat[OF assms(1,2) pos] by auto
  moreover have "(nat stop - 1) div cs < num_chunks n cs"
    using assms(3) pos by (intro chunk_of_index(1)[OF assms(1)]) linarith
  ultimately show "i < num_chunks n cs" by linarith
qed

lemma page_range_join:
  assumes "0 < cs" "0 \<le> offset"
  shows "concat (map (\<lambda>i. map f [max (nat offset) (i * cs)..<min (nat stop) (i * cs + cs)]) (page_range cs offset stop)) =
    map f [nat offset..<nat stop]"
proof (cases "0 < stop")
  case True
  then show ?thesis
    using arg_cong[OF parts_of_range[OF assms(1), of "nat offset" "nat stop - 1"], of "map f"]
    by (simp add: map_concat comp_def page_range_nat[OF assms True])
next
  case False
  then show ?thesis using page_range_empty[OF assms(1), of stop offset] by simp
qed

lemma page_loop_valid:
  assumes "env_ok env" "coherent env st" "no_collision env st" "0 < co_chunk_size c" "0 \<le> offset" "stop \<le> int (length items)"
    and "length (mf_chunks m) = num_chunks (length items) (co_chunk_size c)"
    and "\<And>i. i < length (mf_chunks m) \<Longrightarrow> valid_ref env st (mf_chunks m ! i) (chunk_json (i * co_chunk_size c) (chunk_items items (co_chunk_size c) i))"
  shows "\<exists>s' parts. smap (page_chunk env c m offset stop) (page_range (co_chunk_size c) offset stop) st = (s', Inr parts) \<and>
    reads env st s' \<and> concat parts = map ((!) items) [nat offset..<nat stop]"
proof -
  let ?cs = "co_chunk_size c" and ?is = "page_range (co_chunk_size c) offset stop"
  let ?g = "\<lambda>i. map ((!) items) [max (nat offset) (i * ?cs)..<min (nat stop) (i * ?cs + ?cs)]"
  have "\<exists>s'. smap (page_chunk env c m offset stop) ?is st = (s', Inr (map ?g ?is)) \<and> reads env st s'"
  proof (rule smap_reads[OF _ assms(2)])
    fix i s1
    assume i: "i \<in> set ?is" and r: "reads env st s1"
    note pos = page_range_chunks(1)[OF assms(4,5,6) i] and lt = page_range_chunks(2)[OF assms(4,5,6) i]
    have "\<exists>s'. page_chunk env c m (int (nat offset)) (int (nat stop)) i s1 = (s', Inr (?g i)) \<and> reads env s1 s'"
      by (rule page_chunk_valid[OF assms(1) _ _ assms(4) lt])
        (use readsD[OF r] assms(3,6,7) assms(8)[of i] lt pos in auto)
    then show "\<exists>s'. page_chunk env c m offset stop i s1 = (s', Inr (?g i)) \<and> reads env st s'"
      using reads_trans[OF r] pos assms(5) by auto
  qed
  then show ?thesis using page_range_join[OF assms(4,5), of "(!) items" stop] by blast
qed

lemma page_valid:
  assumes "env_ok env" "coherent env st" "no_collision env st" "collection_stored env st c items" "0 \<le> offset"
  shows "\<exists>st'. get_collection_page env c offset limit st = (st', Inr (page_of items offset limit)) \<and> reads env st st'"
proof (cases "offset \<ge> int (co_count c) \<or> limit = Some 0")
  case True
  then have "page_of items offset limit = []" using assms(4) by (auto simp: page_of_def collection_stored_def split: option.splits)
  then show ?thesis using True assms(2,5) by (auto simp: get_collection_page_def sret_def reads_def)
next
  case False
  let ?cs = "co_chunk_size c"
  define stop where "stop = min (offset + (case limit of None \<Rightarrow> int (length items) - offset | Some n \<Rightarrow> n)) (int (length items))"
  obtain refs where refs: "length refs = num_chunks (length items) ?cs"
    "valid_ref env st (co_manifest c) (manifest_json \<lparr>mf_count = length items, mf_chunk_size = ?cs, mf_kind = co_kind c, mf_chunks = refs\<rparr>)"
    "\<And>i. i < length refs \<Longrightarrow> valid_ref env st (refs ! i) (chunk_json (i * ?cs) (chunk_items items ?cs i))"
    and c: "0 < ?cs" "co_count c = length items"
    using assms(4) unfolding collection_stored_def by blast
  let ?m = "\<lparr>mf_count = length items, mf_chunk_size = ?cs, mf_kind = co_kind c, mf_chunks = refs\<rparr>"
  obtain s where s: "fetch_manifest env c st = (s, Inr ?m)" "reads env st s"
    using fetch_manifest_valid[OF assms(1-3) refs(2)] by blast
  have "\<exists>s' parts. smap (page_chunk env c ?m offset stop) (page_range ?cs offset stop) s = (s', Inr parts) \<and>
    reads env s s' \<and> concat parts = map ((!) items) [nat offset..<nat stop]"
    by (rule page_loop_valid[OF assms(1) _ _ c(1) assms(5)]) (use readsD[OF s(2)] assms(3) refs(1,3) in \<open>auto simp: stop_def\<close>)
  then obtain s2 parts where s2: "smap (page_chunk env c ?m offset stop) (page_range ?cs offset stop) s = (s2, Inr parts)"
    "reads env s s2" "concat parts = map ((!) items) [nat offset..<nat stop]" by blast
  have "concat parts = page_of items offset limit"
    unfolding s2(3) by (rule page_of_range[OF assms(5) _ stop_def]) (use False c(2) in simp)
  moreover have eq: "min (offset + (case limit of None \<Rightarrow> int (co_count c) - offset | Some n \<Rightarrow> n)) (int (co_count c)) = stop"
    unfolding stop_def c(2) by (rule refl)
  have "get_collection_page env c offset limit st = (s2, Inr (concat parts))"
    using False assms(5) s(1) s2(1) c(1) unfolding get_collection_page_def Let_def page_range_def eq
    by (simp add: sbind_def sret_def)
  ultimately show ?thesis using reads_trans[OF s(2) s2(2)] by simp
qed

text \<open>One item, through the query of the bucket store.\<close>

lemma select_item_valid:
  assumes "env_ok env" "coherent env st" "no_collision env st" "valid_ref env st r (chunk_json start items)" "i < length items"
  shows "\<exists>st'. cached_select_item env (or_sha r) (or_bucket r) (or_key r) i st = (st', Inr (items ! i)) \<and> reads env st st'"
proof -
  obtain b where b: "bs_blobs st (or_bucket r, or_key r) = Some b" "ev_serialize env (chunk_json start items) = Inr b"
    "ev_sha256 env b = or_sha r" "ev_download env (or_bucket r, or_key r) = None" using assms(4) by (auto simp: valid_ref_def)
  let ?k = "select_key (or_sha r) i"
  obtain s1 where s1: "read_cache ?k st = (s1, Inr (sc_values (bs_cache st) ?k))" "reads env st s1"
    using read_cache_reads[OF assms(2)] by blast
  show ?thesis
  proof (cases "sc_values (bs_cache st) ?k")
    case (Some x)
    then have "ev_deserialize env x = Inr (items ! i)"
      using assms(2,5) b by (auto simp: coherent_def entry_ok_def)
    then show ?thesis using Some s1 by (auto simp: cached_select_item_def sbind_def slift_def)
  next
    case None
    obtain q d where q: "ev_select env b i = Inr q" "ev_deserialize env q = Inr d"
      "(case json_field ''_1'' d of None \<Rightarrow> JNull | Some v \<Rightarrow> v) = items ! i" using env_okD(3)[OF assms(1) b(2) assms(5)] by blast
    obtain x where x: "ev_serialize env (items ! i) = Inr x" using env_okD(4)[OF assms(1) b(2) assms(5)] by blast
    have "entry_ok env st ?k x" unfolding entry_ok_def
    proof (intro allI impI conjI)
      fix p b' assume p: "bs_blobs st p = Some b'"
      show "x = b'" if "ev_sha256 env b' = ?k" using that select_key_not_digest[OF assms(1)] by metis
      fix start' items' j
      assume h: "ev_serialize env (chunk_json start' items') = Inr b' \<and> j < length items' \<and> ?k = select_key (ev_sha256 env b') j"
      then have "ev_sha256 env b = ev_sha256 env b'" "i = j" using select_key_inj[OF assms(1), of b i b' j] b(3) by simp_all
      then have "b' = b" using assms(3) p b(1) unfolding no_collision_def by metis
      then have "items' = items" using env_okD(1)[OF assms(1)] h b(2) by (metis Inr_inject chunk_json_inj)
      then show "ev_deserialize env x = Inr (items' ! j)" using env_okD(1)[OF assms(1) x] \<open>i = j\<close> by simp
    qed
    then have "entry_ok env s1 ?k x" "coherent env s1" using s1(2) entry_ok_blobs[of s1 st] by (auto simp: reads_def)
    then obtain s2 where w: "write_cache env ?k x s1 = (s2, Inr ())" "reads env s1 s2"
      using write_cache_reads[of env s1 ?k x] by blast
    have "bs_blobs s1 = bs_blobs st" using s1(2) by (simp add: reads_def)
    then have "cached_select_item env (or_sha r) (or_bucket r) (or_key r) i st = (s2, Inr (items ! i))"
      using None b(1,4) s1(1) w(1) q x
      by (simp add: cached_select_item_def sbind_def slift_def sret_def select_object_content_def download_file_def Let_def)
    then show ?thesis using reads_trans[OF s1(2) w(2)] by blast
  qed
qed

lemma item_valid:
  assumes "env_ok env" "coherent env st" "no_collision env st" "collection_stored env st c items"
    and "- int (length items) \<le> index" "index < int (length items)"
  shows "\<exists>st'. get_collection_item env c index st =
    (st', Inr (items ! nat (if index < 0 then int (length items) + index else index))) \<and> reads env st st'"
proof -
  let ?cs = "co_chunk_size c" and ?i = "nat (if index < 0 then int (length items) + index else index)"
  obtain refs where refs: "length refs = num_chunks (length items) ?cs"
    "valid_ref env st (co_manifest c) (manifest_json \<lparr>mf_count = length items, mf_chunk_size = ?cs, mf_kind = co_kind c, mf_chunks = refs\<rparr>)"
    "\<And>i. i < length refs \<Longrightarrow> valid_ref env st (refs ! i) (chunk_json (i * ?cs) (chunk_items items ?cs i))"
    and c: "0 < ?cs" "co_count c = length items"
    using assms(4) unfolding collection_stored_def by blast
  let ?m = "\<lparr>mf_count = length items, mf_chunk_size = ?cs, mf_kind = co_kind c, mf_chunks = refs\<rparr>"
  obtain s where s: "fetch_manifest env c st = (s, Inr ?m)" "reads env st s"
    using fetch_manifest_valid[OF assms(1-3) refs(2)] by blast
  have i: "?i < length items" using assms(5,6) by auto
  have j: "?i div ?cs < length refs" using chunk_of_index(1)[OF c(1) i] refs(1) by simp
  have "?i mod ?cs < length (chunk_items items ?cs (?i div ?cs))" using chunk_of_index(2)[OF c(1) i, of items] by simp
  from select_item_valid[OF assms(1) readsD(1)[OF s(2)] _ _ this, of "refs ! (?i div ?cs)" "?i div ?cs * ?cs"]
  obtain s2 where s2: "cached_select_item env (or_sha (refs ! (?i div ?cs))) (or_bucket (refs ! (?i div ?cs))) (or_key (refs ! (?i div ?cs))) (?i mod ?cs) s =
      (s2, Inr (items ! ?i))" "reads env s s2"
    using readsD(2,3)[OF s(2)] assms(3) refs(3)[OF j] chunk_item_nth[OF c(1) i] by auto
  then show ?thesis
    using s(1) j c assms(5,6) reads_trans[OF s(2) s2(2)] by (auto simp: get_collection_item_def sbind_def Let_def)
qed

lemma item_out_of_range:
  assumes "index < - int (co_count c) \<or> int (co_count c) \<le> index"
  shows "get_collection_item env c index st = (st, Inl (Exn ''IndexError'' False ''Collection index out of range'' [] None))"
  using assms by (auto simp: get_collection_item_def slift_def Let_def)

section \<open>Storing\<close>

lemma store_blob_Inr:
  assumes "store_blob env bucket key v st = (st', Inr r)"
  shows "\<exists>b. ev_serialize env v = Inr b \<and> st' = st\<lparr>bs_blobs := (bs_blobs st)((bucket, key) := Some b)\<rparr> \<and>
    r = \<lparr>or_bucket = bucket, or_key = key, or_size = ev_length env b, or_sha = ev_sha256 env b\<rparr>"
  using assms by (auto simp: store_blob_def sbind_def slift_def upload_file_def sret_def split: sum.splits option.splits)

text \<open>A reference that was just stored is valid until its blob is written again.\<close>

lemma store_blob_valid:
  assumes "store_blob env bucket key v st = (st', Inr r)" "bs_blobs st2 (bucket, key) = bs_blobs st' (bucket, key)"
    and "ev_download env (bucket, key) = None"
  shows "valid_ref env st2 r v"
  using store_blob_Inr[OF assms(1)] assms(2,3) by (auto simp: valid_ref_def)

lemma sbind_Inr: "sbind m f st = (st', Inr y) \<longleftrightarrow> (\<exists>s x. m st = (s, Inr x) \<and> f x s = (st', Inr y))"
  by (auto simp: sbind_def split: prod.splits sum.splits)

lemma store_blobs_Inr:
  assumes "smap (\<lambda>i. store_blob env bucket (key i) (val i)) is st = (st', Inr refs)" "inj_on key (set is)" "distinct is"
  shows "length refs = length is \<and>
    (\<forall>j<length is. \<forall>st2. bs_blobs st2 (bucket, key (is ! j)) = bs_blobs st' (bucket, key (is ! j)) \<and>
       ev_download env (bucket, key (is ! j)) = None \<longrightarrow> valid_ref env st2 (refs ! j) (val (is ! j))) \<and>
    (\<forall>k. k \<notin> key ` set is \<longrightarrow> bs_blobs st' (bucket, k) = bs_blobs st (bucket, k))"
  using assms
proof (induction "is" arbitrary: st refs)
  case Nil
  then show ?case by (simp add: sret_def)
next
  case (Cons i "is")
  obtain s r rs where 1: "store_blob env bucket (key i) (val i) st = (s, Inr r)"
    and 2: "smap (\<lambda>i. store_blob env bucket (key i) (val i)) is s = (st', Inr rs)" and 3: "refs = r # rs"
    using Cons.prems(1) by (auto simp: sbind_Inr sret_def)
  note IH = Cons.IH[OF 2]
  have fresh: "key i \<notin> key ` set is" using Cons.prems(2,3) by (auto simp: inj_on_def)
  have keep: "bs_blobs st' (bucket, key i) = bs_blobs s (bucket, key i)" using IH Cons.prems(2,3) fresh by (auto simp: inj_on_def)
  have other: "bs_blobs s (bucket, k) = bs_blobs st (bucket, k)" if "k \<noteq> key i" for k
    using store_blob_Inr[OF 1] that by auto
  have ih: "length rs = length is" "\<And>j st2. j < length is \<Longrightarrow> bs_blobs st2 (bucket, key (is ! j)) = bs_blobs st' (bucket, key (is ! j)) \<Longrightarrow>
      ev_download env (bucket, key (is ! j)) = None \<Longrightarrow> valid_ref env st2 (rs ! j) (val (is ! j))"
    "\<And>k. k \<notin> key ` set is \<Longrightarrow> bs_blobs st' (bucket, k) = bs_blobs s (bucket, k)"
    using IH Cons.prems(2,3) by (auto simp: inj_on_def)
  have "valid_ref env st2 (refs ! j) (val ((i # is) ! j))"
    if "j < length (i # is)" "bs_blobs st2 (bucket, key ((i # is) ! j)) = bs_blobs st' (bucket, key ((i # is) ! j))"
      "ev_download env (bucket, key ((i # is) ! j)) = None" for j st2
  proof (cases j)
    case 0
    then show ?thesis using store_blob_valid[OF 1, of st2] that keep 3 by simp
  next
    case (Suc j')
    then show ?thesis using ih(2)[of j' st2] that 3 by simp
  qed
  then show ?case using ih(1,3) other 3 by auto
qed

lemma chunk_key_inj: "inj_on (chunk_key prefix) A"
  by (intro inj_onI) (auto simp: chunk_key_def dest: show_nat_inj)

lemma manifest_key_fresh: "manifest_key prefix \<noteq> chunk_key prefix i"
  by (simp add: manifest_key_def chunk_key_def)

text \<open>Everything of a collection is stored under its prefix.\<close>

definition prefix_kept :: "string \<Rightarrow> string \<Rightarrow> 'b blob_store \<Rightarrow> 'b blob_store \<Rightarrow> bool" where
  "prefix_kept bucket prefix st st2 \<longleftrightarrow> (\<forall>s. bs_blobs st2 (bucket, prefix @ ''/'' @ s) = bs_blobs st (bucket, prefix @ ''/'' @ s))"

lemma prefix_keptD:
  assumes "prefix_kept bucket prefix st st2"
  shows "bs_blobs st2 (bucket, chunk_key prefix i) = bs_blobs st (bucket, chunk_key prefix i)"
    "bs_blobs st2 (bucket, manifest_key prefix) = bs_blobs st (bucket, manifest_key prefix)"
  using assms[unfolded prefix_kept_def, rule_format, of "''chunks/'' @ show_nat i @ ''.json''"]
    assms[unfolded prefix_kept_def, rule_format, of "''manifest.json''"]
  by (simp_all add: chunk_key_def manifest_key_def)

definition bucket_of :: "string \<Rightarrow> string option \<Rightarrow> string" where
  "bucket_of d b = (case b of Some x \<Rightarrow> if x = [] then d else x | None \<Rightarrow> d)"

lemma store_collection_stored:
  assumes "store_collection env default_size default_bucket prefix items kind chunk_size bucket_arg st = (st1, Inr c)"
    and "0 < default_size" "\<And>p. ev_download env p = None" "prefix_kept (bucket_of default_bucket bucket_arg) prefix st1 st2"
  shows "collection_stored env st2 c items" "co_index c = None" "co_kind c = kind"
proof -
  define cs where "cs = (case chunk_size of Some n \<Rightarrow> if n = 0 then default_size else n | None \<Rightarrow> default_size)"
  let ?b = "bucket_of default_bucket bucket_arg" and ?n = "num_chunks (length items) cs"
  have pos: "0 < cs" using assms(2) by (auto simp: cs_def split: option.splits)
  obtain s refs r where 1: "smap (\<lambda>i. store_blob env ?b (chunk_key prefix i) (chunk_json (i * cs) (chunk_items items cs i))) [0..<?n] st = (s, Inr refs)"
    and 2: "store_blob env ?b (manifest_key prefix) (manifest_json \<lparr>mf_count = length items, mf_chunk_size = cs, mf_kind = kind, mf_chunks = refs\<rparr>) s = (st1, Inr r)"
    and c: "c = \<lparr>co_manifest = r, co_count = length items, co_chunk_size = cs, co_kind = kind, co_index = None\<rparr>"
    using assms(1) unfolding store_collection_def Let_def cs_def[symmetric] bucket_of_def[symmetric]
    by (auto simp: sbind_Inr sret_def)
  note chunks = store_blobs_Inr[OF 1 chunk_key_inj distinct_upt]
  have keep: "bs_blobs st2 (?b, chunk_key prefix i) = bs_blobs s (?b, chunk_key prefix i)" for i
    using store_blob_Inr[OF 2] prefix_keptD(1)[OF assms(4), of i] manifest_key_fresh[of prefix i] by auto
  have "valid_ref env st2 r (manifest_json \<lparr>mf_count = length items, mf_chunk_size = cs, mf_kind = kind, mf_chunks = refs\<rparr>)"
    by (rule store_blob_valid[OF 2 prefix_keptD(2)[OF assms(4)] assms(3)])
  moreover have "length refs = ?n" using chunks by simp
  moreover have "valid_ref env st2 (refs ! i) (chunk_json (i * cs) (chunk_items items cs i))" if "i < length refs" for i
    using chunks keep[of i] assms(3) that by auto
  ultimately show "collection_stored env st2 c items" unfolding collection_stored_def using pos c by auto
  show "co_index c = None" "co_kind c = kind" by (simp_all add: c)
qed

section \<open>Round trips\<close>

text \<open>C9: what \<open>store_collection\<close> stored is read back as the list it was, as long as nothing under its
  prefix is written again: from any later state whose cache agrees with the blobs, a page is the
  slice of the list, for every offset and limit, negative limits included, an item is the item of the
  list, counted from the end when the index is negative, and an index out of range raises. Reading
  changes no blob and leaves the cache in agreement.\<close>

theorem collection_roundtrip:
  assumes "store_collection env default_size default_bucket prefix items kind chunk_size bucket_arg st = (st1, Inr c)"
    and "env_ok env" "0 < default_size" "\<And>p. ev_download env p = None"
    and "prefix_kept (bucket_of default_bucket bucket_arg) prefix st1 st2" "coherent env st2" "no_collision env st2"
  shows "(0 \<le> offset \<longrightarrow> (\<exists>st3. get_collection_page env c offset limit st2 = (st3, Inr (page_of items offset limit)) \<and> reads env st2 st3)) \<and>
    (if - int (length items) \<le> index \<and> index < int (length items)
     then \<exists>st3. get_collection_item env c index st2 = (st3, Inr (items ! nat (index mod int (length items)))) \<and> reads env st2 st3
     else get_collection_item env c index st2 = (st2, Inl (Exn ''IndexError'' False ''Collection index out of range'' [] None)))"
proof -
  have c: "collection_stored env st2 c items" by (rule store_collection_stored(1)[OF assms(1,3,4,5)])
  have page: "0 \<le> offset \<longrightarrow> (\<exists>st3. get_collection_page env c offset limit st2 = (st3, Inr (page_of items offset limit)) \<and> reads env st2 st3)"
    using page_valid[OF assms(2,6,7) c] by blast
  have n: "co_count c = length items" using c by (simp add: collection_stored_def)
  show ?thesis
  proof (cases "- int (length items) \<le> index \<and> index < int (length items)")
    case True
    have "index mod int (length items) = (if index < 0 then int (length items) + index else index)"
    proof (cases "index < 0")
      case neg: True
      have "index mod int (length items) = (int (length items) + index) mod int (length items)" by simp
      also have "\<dots> = int (length items) + index" using True neg by (intro mod_pos_pos_trivial) auto
      finally show ?thesis using neg by simp
    qed (use True in simp)
    then show ?thesis using page True item_valid[OF assms(2,6,7) c] by simp
  next
    case False
    then have "index < - int (co_count c) \<or> int (co_count c) \<le> index" using n by auto
    from item_out_of_range[OF this] show ?thesis using page False by auto
  qed
qed

text \<open>A value that \<open>S3ObjectStorage\<close> stored is the value it retrieves. It stays inline, and nothing is
  written, when its serialisation is within the threshold; above it, exactly the blob under its key is
  written, and retrieving it is right from every later state in which that blob is unchanged.\<close>

lemma object_roundtrip:
  assumes "s3_store env bucket threshold key v st = (st1, Inr s)" "env_ok env" "\<And>p. ev_download env p = None"
    and "bs_blobs st2 (bucket, key) = bs_blobs st1 (bucket, key)" "coherent env st2" "no_collision env st2"
  shows "\<exists>b st3. ev_serialize env v = Inr b \<and> s3_retrieve env s st2 = (st3, Inr v) \<and> reads env st2 st3 \<and>
    (if ev_length env b \<le> threshold then s = SInline v \<and> st1 = st
     else bs_cache st1 = bs_cache st \<and> bs_blobs st1 = (bs_blobs st)((bucket, key) := Some b))"
proof -
  obtain b where b: "ev_serialize env v = Inr b"
    using assms(1) by (auto simp: s3_store_def sbind_Inr slift_def)
  show ?thesis
  proof (cases "ev_length env b \<le> threshold")
    case True
    then have "s = SInline v" "st1 = st" using assms(1) b by (auto simp: s3_store_def sbind_Inr slift_def sret_def)
    then show ?thesis using b True assms(5) by (simp add: s3_retrieve_def sret_def reads_def)
  next
    case False
    let ?r = "\<lparr>or_bucket = bucket, or_key = key, or_size = ev_length env b, or_sha = ev_sha256 env b\<rparr>"
    have s: "s = SExternal ?r (json_typename v)" "st1 = st\<lparr>bs_blobs := (bs_blobs st)((bucket, key) := Some b)\<rparr>"
      using assms(1) b False by (auto simp: s3_store_def sbind_Inr slift_def sret_def upload_file_def split: option.splits)
    have "valid_ref env st2 ?r v" using b s(2) assms(3,4) by (auto simp: valid_ref_def)
    from fetch_verified_valid[OF assms(2,5,6) this, of "''Object''"] show ?thesis
      using b s False by (auto simp: s3_retrieve_def)
  qed
qed

section \<open>Overwritten blobs\<close>

lemma cache_set_hit:
  assumes "int (len v) \<le> sc_max c"
  shows "sc_values (cache_set len k v c) k = Some v"
  using assms by (auto simp: cache_set_def Let_def split: prod.splits)

lemma cached_hit:
  assumes "sc_values (bs_cache st) (or_sha r) = Some x" "ev_sha256 env x \<noteq> or_sha r"
  shows "\<exists>st'. fetch_verified env what r st = (st', Inl (value_error (what @ '' integrity check failed''))) \<and>
    bs_blobs st' = bs_blobs st"
proof -
  obtain c where "cache_get (or_sha r) (bs_cache st) = (c, Some x)" using assms(1) by (metis cache_get_values(2) prod.collapse)
  then show ?thesis using assms(2)
    by (auto simp: fetch_verified_def cached_blob_download_def sbind_def read_cache_def sret_def slift_def)
qed

text \<open>The cache keeps what was downloaded under the digest that was expected, before the digest is
  checked. Retrieving a reference whose blob was overwritten therefore fails, as it should, but it also
  makes every other reference with the same digest fail, though their blobs are intact, until the entry
  expires; the failing retrievals do not repair it.\<close>

lemma stale_reference_poisons_cache:
  assumes "env_ok env" "no_collision env st" "coherent env st" "\<And>p. ev_download env p = None"
    and "or_sha r1 = or_sha r2" "valid_ref env st r2 v" "sc_values (bs_cache st) (or_sha r1) = None"
    and "bs_blobs st (or_bucket r1, or_key r1) = Some x" "ev_sha256 env x \<noteq> or_sha r1"
    and "ev_length env x \<le> MAX_CACHEABLE_BLOB_SIZE" "int (ev_length env x) \<le> sc_max (bs_cache st)"
  shows "\<exists>st0 st1 st2. s3_retrieve env (SExternal r2 t) st = (st0, Inr v) \<and>
    s3_retrieve env (SExternal r1 t) st = (st1, Inl (value_error ''Object integrity check failed'')) \<and>
    s3_retrieve env (SExternal r2 t) st1 = (st2, Inl (value_error ''Object integrity check failed'')) \<and>
    bs_blobs st2 = bs_blobs st \<and> valid_ref env st2 r2 v \<and>
    (\<exists>st3. s3_retrieve env (SExternal r2 t) (st2\<lparr>bs_cache := cache_expire (\<lambda>_. True) (bs_cache st2)\<rparr>) = (st3, Inr v))"
proof -
  obtain st0 where 0: "fetch_verified env ''Object'' r2 st = (st0, Inr v)" using fetch_verified_valid[OF assms(1,3,2,6)] by blast
  obtain c where get: "cache_get (or_sha r1) (bs_cache st) = (c, None)" using assms(7) by (metis cache_get_values(2) prod.collapse)
  let ?st1 = "st\<lparr>bs_cache := cache_set (ev_length env) (or_sha r1) x c\<rparr>"
  have max: "sc_max c = sc_max (bs_cache st)" using sc_max_const(2)[of "or_sha r1" "bs_cache st"] get by simp
  have "cached_blob_download env (or_sha r1) (or_bucket r1) (or_key r1) st = (?st1, Inr x)"
    using assms(4,8,10)
    by (simp add: cached_blob_download_def sbind_def read_cache_def get download_file_def write_cache_def sret_def)
  then have 1: "fetch_verified env ''Object'' r1 st = (?st1, Inl (value_error ''Object integrity check failed''))"
    using assms(9) by (simp add: fetch_verified_def sbind_def slift_def)
  have hit: "sc_values (bs_cache ?st1) (or_sha r2) = Some x"
    using cache_set_hit[of "ev_length env" x c "or_sha r1"] assms(5,11) max by simp
  obtain st2 where 2: "fetch_verified env ''Object'' r2 ?st1 = (st2, Inl (value_error ''Object integrity check failed''))" "bs_blobs st2 = bs_blobs ?st1"
    using cached_hit[OF hit, of env "''Object''"] assms(5,9) by auto
  let ?st3 = "st2\<lparr>bs_cache := cache_expire (\<lambda>_. True) (bs_cache st2)\<rparr>"
  have same: "bs_blobs st2 = bs_blobs st" "bs_blobs ?st3 = bs_blobs st" using 2(2) by simp_all
  have "coherent env ?st3" by (simp add: coherent_def cache_expire_def)
  moreover have "no_collision env ?st3" "valid_ref env ?st3 r2 v" using assms(2,6) same by (simp_all add: no_collision_def valid_ref_def)
  ultimately obtain st4 where "fetch_verified env ''Object'' r2 ?st3 = (st4, Inr v)" using fetch_verified_valid[OF assms(1)] by blast
  moreover have "valid_ref env st2 r2 v" using assms(6) same(1) by (simp add: valid_ref_def)
  ultimately show ?thesis using 0 1 2(1) same(1) unfolding s3_retrieve_def sobj.case by (intro exI conjI)
qed

section \<open>Loops over stored collections\<close>

lemma parse_collection_json: "parse_stored (collection_json c) = Inr (SCollection c)"
  by (cases "co_index c"; cases "co_kind c")
    (simp_all add: parse_stored_def parse_kind_def need_str_def need_nat_def json_field_def collection_json_def parse_ref_json)

text \<open>The storage of a list as the activities see it, from a given state.\<close>

definition storing :: "'b storage_env \<Rightarrow> nat \<Rightarrow> string \<Rightarrow> string \<Rightarrow> 'b blob_store \<Rightarrow> json list \<Rightarrow> exn + stored" where
  "storing env d b prefix st xs =
     rbind (snd (store_collection env d b prefix xs ValueKind None None st)) (\<lambda>c. Inr (Collected (co_count c) (collection_json c)))"

lemma store_collection_count: "store_collection env d b prefix xs k cs bu st = (st1, Inr c) \<Longrightarrow> co_count c = length xs"
  by (auto simp: store_collection_def Let_def sbind_Inr sret_def)

lemma collection_at_simps:
  "co_manifest (collection_at c i) = co_manifest c" "co_count (collection_at c i) = co_count c"
  "co_chunk_size (collection_at c i) = co_chunk_size c" "co_index (collection_at c i) = Some i"
  by (simp_all add: collection_at_def)

lemma get_item_at: "get_collection_item env (collection_at c j) = get_collection_item env c"
  by (intro ext) (simp only: get_collection_item_def fetch_manifest_def collection_at_simps)

lemma storing_stores: "stores_list (storing env d b prefix st)"
proof -
  have "\<exists>h. s = Collected (length xs) h" if h: "storing env d b prefix st xs = Inr s" for xs s
  proof -
    obtain c where c: "snd (store_collection env d b prefix xs ValueKind None None st) = Inr c" "s = Collected (co_count c) (collection_json c)"
      using h by (auto simp: storing_def rbind_Inr_iff)
    then have "co_count c = length xs"
      by (cases "store_collection env d b prefix xs ValueKind None None st") (simp add: store_collection_count)
    then show ?thesis using c(2) by blast
  qed
  then show ?thesis by (simp add: stores_list_def)
qed

text \<open>C10: a loop over child workflows whose trigger inputs went to the blob store: each child, retrieving
  the item of the collection that its arguments name, gets the trigger inputs that were evaluated for its
  row, together with the configuration of that row.\<close>

theorem stored_loop_delivers_rows:
  assumes "prepare_subflow e a ctx = Inr (w, p)" "truthy (stmt_for_each a)" "se_store e = storing env d b prefix st"
    and "env_ok env" "0 < d" "\<And>q. ev_download env q = None"
  shows "\<exists>iters rs c st1 col. se_iterators e = Inr iters \<and> length rs = row_count iters \<and>
    rmap (loop_iteration (se_evaluate e) ctx c) (loop_items iters) = Inr rs \<and>
    store_collection env d b prefix (map fst rs) ValueKind None None st = (st1, Inr col) \<and>
    (\<forall>st2. prefix_kept b prefix st1 st2 \<and> coherent env st2 \<and> no_collision env st2 \<longrightarrow>
       list_all2 (\<lambda>i row. \<exists>t st3. child_run_args p anchor i =
          Inr \<lparr>ra_loop_index = Some i, ra_trigger = Some t, ra_config = snd row, ra_time_anchor = anchor\<rparr> \<and>
          retrieve_trigger env t st2 = (st3, Inr (fst row))) [0..<length rs] rs)"
proof -
  from assms(1,2) obtain args c iters rs s where f: "se_iterators e = Inr iters"
    "rmap (loop_iteration (se_evaluate e) ctx c) (loop_items iters) = Inr rs" "se_store e (map fst rs) = Inr s"
    and p: "p = \<lparr>pr_config = c, pr_trigger_inputs = Some s, pr_runtime_configs = Some (share_configs (map snd rs))\<rparr>"
    by (rule prepare_subflow_loop)
  have len: "length rs = row_count iters" using rmap_Inr_length[OF f(2)] by (simp add: loop_items_length)
  obtain st1 col where store: "store_collection env d b prefix (map fst rs) ValueKind None None st = (st1, Inr col)"
    and s: "s = Collected (co_count col) (collection_json col)"
    using f(3) assms(3) by (cases "store_collection env d b prefix (map fst rs) ValueKind None None st") (auto simp: storing_def rbind_Inr_iff)
  have item: "\<exists>st3. retrieve_trigger env (trigger_of s (map fst rs) i) st2 = (st3, Inr (fst (rs ! i)))"
    if "i < length rs" "prefix_kept b prefix st1 st2" "coherent env st2" "no_collision env st2" for i st2
  proof -
    have kept: "prefix_kept (bucket_of b None) prefix st1 st2" using \<open>prefix_kept b prefix st1 st2\<close> by (simp add: bucket_of_def)
    obtain st3 where "get_collection_item env col (int i) st2 = (st3, Inr (map fst rs ! i))"
      using item_valid[OF assms(4) \<open>coherent env st2\<close> \<open>no_collision env st2\<close> store_collection_stored(1)[OF store assms(5,6) kept], of "int i"]
        \<open>i < length rs\<close> by auto
    then show ?thesis
      using \<open>i < length rs\<close> by (simp add: s trigger_of_def retrieve_trigger_def sbind_def slift_def parse_collection_json s3_retrieve_def
          collection_at_simps get_item_at)
  qed
  have "list_all2 (\<lambda>i row. \<exists>t st3. child_run_args p anchor i =
      Inr \<lparr>ra_loop_index = Some i, ra_trigger = Some t, ra_config = snd row, ra_time_anchor = anchor\<rparr> \<and>
      retrieve_trigger env t st2 = (st3, Inr (fst row))) [0..<length rs] rs"
    if "prefix_kept b prefix st1 st2" "coherent env st2" "no_collision env st2" for st2
    unfolding list_all2_conv_all_nth p
    using child_args_of_rows[OF storing_stores, of env d b prefix st rs s _ c anchor] item[OF _ that] f(3) assms(3) by auto
  then show ?thesis using f(1,2) len store by blast
qed

section \<open>Witnesses\<close>

text \<open>Byte strings are JSON values here, and digests tell manifests, chunks and other values apart.\<close>

definition sample_sha :: "json \<Rightarrow> string" where
  "sample_sha v = (case json_field ''start'' v of Some (JInt i) \<Rightarrow> ''c'' @ show_nat (nat i)
     | _ \<Rightarrow> (case json_field ''chunks'' v of Some _ \<Rightarrow> ''m'' | None \<Rightarrow> (if v = JStr ''stale'' then ''s'' else ''v'')))"

definition sample_storage :: "json storage_env" where
  "sample_storage = \<lparr>ev_serialize = Inr, ev_deserialize = Inr, ev_length = (\<lambda>_. 300), ev_sha256 = sample_sha,
     ev_select = (\<lambda>b i. case json_field ''items'' b of Some (JArr xs) \<Rightarrow> Inr (JObj [(''_1'', xs ! i)]) | _ \<Rightarrow> Inl pydantic_error),
     ev_upload = (\<lambda>_. None), ev_download = (\<lambda>_. None)\<rparr>"

lemma sample_storage_ok: "env_ok sample_storage"
proof -
  have "CHR '':'' \<notin> set (show_nat n)" for n using set_show_nat_digits[of "CHR '':''" n] by auto
  then have "CHR '':'' \<notin> set (sample_sha v)" for v
    by (auto simp: sample_sha_def split: option.splits json.splits)
  then show ?thesis by (auto simp: env_ok_def sample_storage_def json_field_def chunk_json_def)
qed

definition empty_store :: "json blob_store" where
  "empty_store = \<lparr>bs_blobs = (\<lambda>_. None), bs_cache = blob_cache\<rparr>"

definition sample_stored :: "json blob_store" where
  "sample_stored = fst (store_collection sample_storage 256 ''wf'' ''p'' [JInt 1, JInt 2, JInt 3] ValueKind (Some 2) None empty_store)"

definition sample_collection :: collection where
  "sample_collection = \<lparr>co_manifest = \<lparr>or_bucket = ''wf'', or_key = ''p/manifest.json'', or_size = 300, or_sha = ''m''\<rparr>, co_count = 3,
     co_chunk_size = 2, co_kind = ValueKind, co_index = None\<rparr>"

lemma sample_store_facts:
  "snd (store_collection sample_storage 256 ''wf'' ''p'' [JInt 1, JInt 2, JInt 3] ValueKind (Some 2) None empty_store) = Inr sample_collection"
  by code_simp

lemma sample_stored_blobs:
  "bs_blobs sample_stored = (\<lambda>_. None)
     ((''wf'', ''p/chunks/0.json'') := Some (chunk_json 0 [JInt 1, JInt 2]), (''wf'', ''p/chunks/1.json'') := Some (chunk_json 2 [JInt 3]),
      (''wf'', ''p/manifest.json'') := Some (manifest_json \<lparr>mf_count = 3, mf_chunk_size = 2, mf_kind = ValueKind, mf_chunks =
         [\<lparr>or_bucket = ''wf'', or_key = ''p/chunks/0.json'', or_size = 300, or_sha = ''c0''\<rparr>,
          \<lparr>or_bucket = ''wf'', or_key = ''p/chunks/1.json'', or_size = 300, or_sha = ''c2''\<rparr>]\<rparr>))"
  "bs_cache sample_stored = blob_cache"
proof -
  have "show_nat 0 = ''0''" "show_nat (Suc 0) = ''1''" "show_nat 2 = ''2''" by code_simp+
  then show "bs_blobs sample_stored = (\<lambda>_. None)
     ((''wf'', ''p/chunks/0.json'') := Some (chunk_json 0 [JInt 1, JInt 2]), (''wf'', ''p/chunks/1.json'') := Some (chunk_json 2 [JInt 3]),
      (''wf'', ''p/manifest.json'') := Some (manifest_json \<lparr>mf_count = 3, mf_chunk_size = 2, mf_kind = ValueKind, mf_chunks =
         [\<lparr>or_bucket = ''wf'', or_key = ''p/chunks/0.json'', or_size = 300, or_sha = ''c0''\<rparr>,
          \<lparr>or_bucket = ''wf'', or_key = ''p/chunks/1.json'', or_size = 300, or_sha = ''c2''\<rparr>]\<rparr>))" "bs_cache sample_stored = blob_cache"
    by (simp_all add: sample_stored_def store_collection_def num_chunks_def upt_rec sbind_def store_blob_def slift_def upload_file_def
        sret_def sample_storage_def empty_store_def chunk_items_def chunk_key_def manifest_key_def sample_sha_def json_field_def
        chunk_json_def manifest_json_def Let_def)
qed

lemma sample_coherent: "coherent env (st\<lparr>bs_cache := blob_cache\<rparr>)" "bs_cache st = blob_cache \<Longrightarrow> coherent env st"
  by (simp_all add: coherent_def blob_cache_def new_cache_def)

lemma sample_no_collision: "no_collision sample_storage sample_stored"
  using show_nat_inj[of 0 2] show_nat_inj[of 2 0] by (auto simp: no_collision_def sample_stored_blobs sample_storage_def sample_sha_def json_field_def chunk_json_def manifest_json_def)

lemma sample_no_failure: "ev_download sample_storage p = None"
  by (simp add: sample_storage_def)

theorem collection_roundtrip_witness:
  "(\<exists>st3. get_collection_page sample_storage sample_collection 1 (Some 1) sample_stored = (st3, Inr [JInt 2])) \<and>
   (\<exists>st3. get_collection_item sample_storage sample_collection (- 1) sample_stored = (st3, Inr (JInt 3)))"
proof -
  have store: "store_collection sample_storage 256 ''wf'' ''p'' [JInt 1, JInt 2, JInt 3] ValueKind (Some 2) None empty_store =
      (sample_stored, Inr sample_collection)"
    using sample_store_facts by (metis prod.collapse sample_stored_def)
  have kept: "prefix_kept (bucket_of ''wf'' None) ''p'' sample_stored sample_stored" by (simp add: prefix_kept_def)
  from collection_roundtrip[OF store sample_storage_ok _ sample_no_failure kept sample_coherent(2)[OF sample_stored_blobs(2)] sample_no_collision,
      of 1 "Some 1" "- 1"]
  show ?thesis by (auto simp: page_of_def)
qed

definition sample_kept :: "json blob_store" where
  "sample_kept = fst (s3_store sample_storage ''wf'' 256 ''k'' (JStr ''value'') empty_store)"

definition sample_ref :: "string \<Rightarrow> object_ref" where
  "sample_ref k = \<lparr>or_bucket = ''wf'', or_key = k, or_size = 300, or_sha = ''v''\<rparr>"

lemma sample_kept_facts:
  "s3_store sample_storage ''wf'' 256 ''k'' (JStr ''value'') empty_store = (sample_kept, Inr (SExternal (sample_ref ''k'') ''str''))"
  "bs_blobs sample_kept = (\<lambda>_. None)((''wf'', ''k'') := Some (JStr ''value''))" "bs_cache sample_kept = blob_cache"
  by (simp_all add: s3_store_def sbind_def slift_def sret_def upload_file_def sample_storage_def sample_kept_def empty_store_def
      sample_sha_def json_field_def sample_ref_def)

lemma object_roundtrip_witness:
  "\<exists>st3. s3_retrieve sample_storage (SExternal (sample_ref ''k'') ''str'') sample_kept = (st3, Inr (JStr ''value''))"
proof -
  have "no_collision sample_storage sample_kept" by (simp add: no_collision_def sample_kept_facts(2))
  from object_roundtrip[OF sample_kept_facts(1) sample_storage_ok sample_no_failure refl sample_coherent(2)[OF sample_kept_facts(3)] this]
  show ?thesis by blast
qed

definition sample_stale :: "json blob_store" where
  "sample_stale = \<lparr>bs_blobs = (\<lambda>_. None)((''wf'', ''old'') := Some (JStr ''stale''), (''wf'', ''k'') := Some (JStr ''value'')), bs_cache = blob_cache\<rparr>"

lemma stale_reference_poisons_cache_witness:
  "\<exists>st1 st2. s3_retrieve sample_storage (SExternal (sample_ref ''old'') []) sample_stale = (st1, Inl (value_error ''Object integrity check failed'')) \<and>
    s3_retrieve sample_storage (SExternal (sample_ref ''k'') []) st1 = (st2, Inl (value_error ''Object integrity check failed'')) \<and>
    valid_ref sample_storage st2 (sample_ref ''k'') (JStr ''value'')"
proof -
  have facts: "no_collision sample_storage sample_stale" "coherent sample_storage sample_stale"
    "or_sha (sample_ref ''old'') = or_sha (sample_ref ''k'')" "valid_ref sample_storage sample_stale (sample_ref ''k'') (JStr ''value'')"
    "sc_values (bs_cache sample_stale) (or_sha (sample_ref ''old'')) = None"
    "bs_blobs sample_stale (or_bucket (sample_ref ''old''), or_key (sample_ref ''old'')) = Some (JStr ''stale'')"
    "ev_sha256 sample_storage (JStr ''stale'') \<noteq> or_sha (sample_ref ''old'')"
    "ev_length sample_storage (JStr ''stale'') \<le> MAX_CACHEABLE_BLOB_SIZE"
    "int (ev_length sample_storage (JStr ''stale'')) \<le> sc_max (bs_cache sample_stale)"
    by (auto simp: no_collision_def coherent_def sample_stale_def sample_ref_def valid_ref_def sample_storage_def sample_sha_def json_field_def
        blob_cache_def new_cache_def MAX_CACHEABLE_BLOB_SIZE_def BLOB_CACHE_MAX_BYTES_def split: if_splits)
  from stale_reference_poisons_cache[OF sample_storage_ok facts(1,2) sample_no_failure facts(3-9), of "[]"] show ?thesis by blast
qed

text \<open>The loop of the witness for prepared loops, with its trigger inputs stored in chunks.\<close>

definition sample_subflow_stored :: subflow_env where
  "sample_subflow_stored = sample_subflow\<lparr>se_store := storing sample_storage 2 ''wf'' ''p'' empty_store\<rparr>"

theorem stored_loop_delivers_rows_witness:
  "\<exists>p (rs :: (json \<times> dsl_config) list) st1 col. prepare_subflow sample_subflow_stored sample_for_each [] = Inr (''wf_child'', p) \<and> length rs = 2 \<and>
    store_collection sample_storage 2 ''wf'' ''p'' (map fst rs) ValueKind None None empty_store = (st1, Inr col)"
proof -
  have n: "row_count iters = 2" if "se_iterators sample_subflow_stored = Inr iters" for iters
    using that by (auto simp: sample_subflow_stored_def sample_subflow_def row_count_def)
  have "isl (prepare_subflow sample_subflow_stored sample_for_each []) = False"
    "fst (projr (prepare_subflow sample_subflow_stored sample_for_each [])) = ''wf_child''" by code_simp+
  then obtain p where p: "prepare_subflow sample_subflow_stored sample_for_each [] = Inr (''wf_child'', p)"
    by (cases "prepare_subflow sample_subflow_stored sample_for_each []") auto
  have store: "se_store sample_subflow_stored = storing sample_storage 2 ''wf'' ''p'' empty_store" by (simp add: sample_subflow_stored_def)
  have size: "(0::nat) < 2" by simp
  from stored_loop_delivers_rows[OF p sample_prepare_facts(2) store sample_storage_ok size sample_no_failure, of 0]
  obtain iters :: "iterator list" and rs :: "(json \<times> dsl_config) list" and st1 col where
    "se_iterators sample_subflow_stored = Inr iters" "length rs = row_count iters"
    "store_collection sample_storage 2 ''wf'' ''p'' (map fst rs) ValueKind None None empty_store = (st1, Inr col)"
    by (elim exE conjE)
  then obtain rs :: "(json \<times> dsl_config) list" and st1 col where "length rs = 2"
    "store_collection sample_storage 2 ''wf'' ''p'' (map fst rs) ValueKind None None empty_store = (st1, Inr col)" using n by simp
  then show ?thesis using p by blast
qed

end
