(* ===== verification/Secrets.thy ===== *)
theory Secrets
  imports Execution Templates
begin

text \<open>
  Secrets of an action run: the masking of secret values in results (\<open>allama/secrets/common.py\<close>, the
  mask values of \<open>prepare_resolved_context\<close>), the sandbox that loads them (\<open>allama/auth/sandbox.py\<close>),
  the collection of everything an action needs and the flattening into environment variables
  (\<open>allama/secrets/secrets_manager.py\<close>). The database, the decryption and the OAuth integrations are
  replies of the environment. A Python set of names is a list without duplicates.
\<close>

section \<open>Masking\<close>

definition MASK_VALUE :: string where "MASK_VALUE = ''***''"

text \<open>
  \<open>re.sub\<close> with the alternation of the escaped masks: at every position the first alternative that
  matches is taken, and the scan goes on behind it. The masks have at least two characters.
\<close>

definition mask_at :: "string list \<Rightarrow> string \<Rightarrow> string option" where
  "mask_at masks s = find (\<lambda>m. startswith s m) masks"

function redact :: "string list \<Rightarrow> string \<Rightarrow> string" where
  "redact masks [] = []"
| "redact masks (c # cs) =
     (case mask_at masks (c # cs) of
        Some m \<Rightarrow> MASK_VALUE @ redact masks (drop (length m - 1) cs)
      | None \<Rightarrow> c # redact masks cs)"
  by pat_completeness auto
termination
  by (relation "measure (length \<circ> snd)") auto

definition apply_masks :: "string \<Rightarrow> string list \<Rightarrow> string" where
  "apply_masks v masks =
     (let fm = filter (\<lambda>m. length m > 1) masks in if fm = [] then v else redact fm v)"

fun apply_masks_object :: "json \<Rightarrow> string list \<Rightarrow> json" where
  "apply_masks_object (JStr s) masks = JStr (apply_masks s masks)"
| "apply_masks_object (JArr xs) masks = JArr (map (\<lambda>x. apply_masks_object x masks) xs)"
| "apply_masks_object (JObj kvs) masks = JObj (map (\<lambda>kv. (fst kv, apply_masks_object (snd kv) masks)) kvs)"
| "apply_masks_object v masks = v"

type_synonym secret_dict = "(string, (string, string) dict) dict"

definition secrets_json :: "secret_dict \<Rightarrow> json" where
  "secrets_json s = JObj (map (\<lambda>(n, kvs). (n, JObj (map (\<lambda>(k, v). (k, JStr v)) kvs))) s)"

text \<open>\<open>show\<close> is \<open>str\<close> of a value that is not text.\<close>

definition mask_values :: "(json \<Rightarrow> string) \<Rightarrow> json \<Rightarrow> string list" where
  "mask_values show secrets =
     remdups (filter (\<lambda>m. length m > 1)
       (map (\<lambda>(_, v). case v of JStr s \<Rightarrow> s | _ \<Rightarrow> show v)
         (filter (\<lambda>(_, v). v \<noteq> JNull) (traverse_leaves [] secrets))))"

section \<open>Declared secrets\<close>

datatype grant_type = AuthorizationCode | ClientCredentials

datatype rsecret =
    RegistrySecret (rs_name: string) (rs_keys: "string list option") (rs_optional_keys: "string list option") (rs_optional: bool)
  | RegistryOAuthSecret (ro_provider: string) (ro_grant: grant_type) (ro_optional: bool)

type_synonym provider_key = "string \<times> grant_type"

text \<open>\<open>str.upper\<close> on ASCII letters.\<close>

definition upper_char :: "char \<Rightarrow> char" where
  "upper_char c = (if CHR ''a'' \<le> c \<and> c \<le> CHR ''z'' then char_of (of_char c - 32 :: nat) else c)"

fun token_name :: "string \<Rightarrow> grant_type \<Rightarrow> string" where
  "token_name provider ClientCredentials = map upper_char provider @ ''_SERVICE_TOKEN''"
| "token_name provider AuthorizationCode = map upper_char provider @ ''_USER_TOKEN''"

definition infer_grant_type :: "string \<Rightarrow> grant_type option" where
  "infer_grant_type t =
     (if endswith t ''_USER_TOKEN'' then Some AuthorizationCode
      else if endswith t ''_SERVICE_TOKEN'' then Some ClientCredentials else None)"

section \<open>Loading the secrets of the workspace\<close>

record secret_row =
  sr_name :: string
  sr_encrypted :: string

record integration =
  in_provider :: string
  in_grant :: grant_type
  in_refresh :: "exn option"
  in_token :: "exn + string option"

record secrets_env =
  sv_encryption_key :: "string option"
  sv_environment :: string
  sv_search :: "string list \<Rightarrow> string \<Rightarrow> exn + secret_row list"
  sv_decrypt :: "string \<Rightarrow> string \<Rightarrow> exn + (string \<times> string) list"
  sv_integrations :: "provider_key list \<Rightarrow> exn + integration list"

definition credentials_error :: "string \<Rightarrow> exn" where
  "credentials_error msg = Exn ''AllamaCredentialsError'' False msg [] None"

definition is_credentials_error :: "exn \<Rightarrow> bool" where
  "is_credentials_error e \<longleftrightarrow> exn_class e \<in> {''AllamaCredentialsError'', ''AllamaCredentialsNotFoundError''}"

definition add_secret :: "string \<Rightarrow> string \<times> string \<Rightarrow> secret_dict \<Rightarrow> secret_dict" where
  "add_secret n kv ctx = dset n (dset (fst kv) (snd kv) (case dget ctx n of Some d \<Rightarrow> d | None \<Rightarrow> [])) ctx"

definition set_secrets :: "secrets_env \<Rightarrow> string \<Rightarrow> secret_row list \<Rightarrow> exn + secret_dict" where
  "set_secrets env key rows =
     rfold (\<lambda>row ctx. rbind (sv_decrypt env key (sr_encrypted row)) (\<lambda>kvs.
       Inr (foldl (\<lambda>c kv. add_secret (sr_name row) kv c) ctx kvs))) rows []"

text \<open>Entering the sandbox. The number of required names is compared with the number of those found.\<close>

definition get_secrets :: "secrets_env \<Rightarrow> string list \<Rightarrow> string list \<Rightarrow> exn + secret_row list" where
  "get_secrets env paths optional =
     (let names = remdups (map (\<lambda>p. fst (split_once (CHR ''.'') p)) paths) in
      rbind (sv_search env names (sv_environment env)) (\<lambda>rows.
        let req = filter (\<lambda>n. n \<notin> set optional) names;
            found = remdups (filter (\<lambda>n. n \<notin> set optional) (map sr_name rows)) in
        if length req \<noteq> length found
        then Inl (credentials_error (''Missing workspace secrets: '' @ join_with '', '' (filter (\<lambda>n. n \<notin> set found) req) @ ''.''))
        else Inr rows))"

definition auth_sandbox :: "secrets_env \<Rightarrow> string list \<Rightarrow> string list \<Rightarrow> exn + secret_dict" where
  "auth_sandbox env paths optional =
     (case sv_encryption_key env of
        None \<Rightarrow> Inl (key_error ''ALLAMA__DB_ENCRYPTION_KEY is not set'')
      | Some key \<Rightarrow>
          if key = [] then Inl (key_error ''ALLAMA__DB_ENCRYPTION_KEY is not set'')
          else if paths = [] then Inr []
          else rbind (get_secrets env paths optional) (set_secrets env key))"

section \<open>The secrets of an action\<close>

text \<open>An expression \<open>name.KEY\<close> whose name ends in \<open>_oauth\<close> asks for a token of an integration.\<close>

definition is_oauth_expr :: "string \<Rightarrow> bool" where
  "is_oauth_expr s = (case split_once (CHR ''.'') s of (n, Some _) \<Rightarrow> endswith n ''_oauth'' | (_, None) \<Rightarrow> False)"

definition removesuffix :: "string \<Rightarrow> string \<Rightarrow> string" where
  "removesuffix suf s = (if endswith s suf then take (length s - length suf) s else s)"

definition oauth_expr_key :: "string \<Rightarrow> (provider_key \<times> string) option" where
  "oauth_expr_key s =
     (case split_once (CHR ''.'') s of
        (n, Some t) \<Rightarrow> map_option (\<lambda>g. ((removesuffix ''_oauth'' n, g), t)) (infer_grant_type t)
      | (_, None) \<Rightarrow> None)"

definition oauth_tokens :: "string list \<Rightarrow> (provider_key, string) dict" where
  "oauth_tokens exprs =
     foldl (\<lambda>d s. case oauth_expr_key s of Some (k, t) \<Rightarrow> dset k t d | None \<Rightarrow> d) [] (filter is_oauth_expr exprs)"

definition basic_names :: "bool \<Rightarrow> rsecret list \<Rightarrow> string list" where
  "basic_names opt ss =
     remdups (concat (map (\<lambda>s. case s of RegistrySecret n _ _ b \<Rightarrow> if b = opt then [n] else [] | _ \<Rightarrow> []) ss))"

definition oauth_declared :: "rsecret list \<Rightarrow> (provider_key, rsecret) dict" where
  "oauth_declared ss =
     foldl (\<lambda>d s. case s of RegistryOAuthSecret p g _ \<Rightarrow> dset (p, g) s d | _ \<Rightarrow> d) [] ss"

text \<open>
  One integration: the token is stored under the name its declaration or its expression gives. The
  entry of the provider exists even when no name is found (the \<open>KeyError\<close> is caught and logged).
\<close>

definition store_token ::
  "(provider_key, rsecret) dict \<Rightarrow> (provider_key, string) dict \<Rightarrow> integration \<Rightarrow> secret_dict \<Rightarrow> secret_dict" where
  "store_token declared tokens i secrets =
     (case in_token i of
        Inr (Some t) \<Rightarrow>
          if t = [] then secrets
          else
            (let n = in_provider i @ ''_oauth'';
                 k = (in_provider i, in_grant i);
                 d = (case dget secrets n of Some d \<Rightarrow> d | None \<Rightarrow> []);
                 name = (case dget declared k of
                           Some s \<Rightarrow> Some (token_name (ro_provider s) (ro_grant s)) | None \<Rightarrow> dget tokens k)
             in case name of Some nm \<Rightarrow> dset n (dset nm t d) secrets | None \<Rightarrow> dset n d secrets)
      | _ \<Rightarrow> secrets)"

text \<open>The loop ends early, with what it has stored so far, when a refresh raises.\<close>

fun oauth_loop ::
  "(provider_key, rsecret) dict \<Rightarrow> (provider_key, string) dict \<Rightarrow> integration list \<Rightarrow> secret_dict \<Rightarrow> provider_key list \<Rightarrow>
   (secret_dict \<times> provider_key list) \<times> exn option" where
  "oauth_loop declared tokens [] secrets fetched = ((secrets, fetched), None)"
| "oauth_loop declared tokens (i # is) secrets fetched =
     (let fetched' = (in_provider i, in_grant i) # fetched in
      case in_refresh i of
        Some e \<Rightarrow> ((secrets, fetched'), Some e)
      | None \<Rightarrow> oauth_loop declared tokens is (store_token declared tokens i secrets) fetched')"

definition missing_oauth :: "(provider_key, rsecret) dict \<Rightarrow> provider_key list \<Rightarrow> provider_key list" where
  "missing_oauth declared fetched =
     map fst (filter (\<lambda>(k, s). k \<notin> set fetched \<and> \<not> ro_optional s) declared)"

definition load_oauth :: "secrets_env \<Rightarrow> (provider_key, rsecret) dict \<Rightarrow> (provider_key, string) dict \<Rightarrow> secret_dict \<Rightarrow> exn + secret_dict" where
  "load_oauth env declared tokens secrets =
     (let keys = remdups (dkeys declared @ dkeys tokens) in
      if keys = [] then Inr secrets
      else case sv_integrations env keys of
          Inl e \<Rightarrow> if is_credentials_error e then Inl e else Inr secrets
        | Inr is \<Rightarrow>
            (case oauth_loop declared tokens is secrets [] of
               ((s, _), Some e) \<Rightarrow> if is_credentials_error e then Inl e else Inr s
             | ((s, fetched), None) \<Rightarrow>
                 if missing_oauth declared fetched \<noteq> []
                 then Inl (credentials_error ''Missing required OAuth integrations'') else Inr s))"

definition get_action_secrets :: "secrets_env \<Rightarrow> string list \<Rightarrow> rsecret list \<Rightarrow> exn + secret_dict" where
  "get_action_secrets env exprs declared =
     (let optional = basic_names True declared;
          names = remdups (basic_names False declared @ filter (\<lambda>s. \<not> is_oauth_expr s) exprs @ optional) in
      rbind (auth_sandbox env names optional)
        (load_oauth env (oauth_declared declared) (oauth_tokens exprs)))"

section \<open>Environment variables\<close>

definition duplicate_key :: "string \<Rightarrow> string \<Rightarrow> exn" where
  "duplicate_key k n = Exn ''ValueError'' False (''Key '' @ quoted k @ '' is duplicated in '' @ quoted n @ ''!'') [] None"

definition flatten_one :: "string \<Rightarrow> string \<times> string \<Rightarrow> (string, string) dict \<Rightarrow> exn + (string, string) dict" where
  "flatten_one n kv flat =
     (if fst kv \<in> set (dkeys flat) then Inl (duplicate_key (fst kv) n) else Inr (dset (fst kv) (snd kv) flat))"

definition flatten_secrets :: "secret_dict \<Rightarrow> exn + (string, string) dict" where
  "flatten_secrets secrets = rfold (\<lambda>(n, kvs). rfold (flatten_one n) kvs) secrets []"

end
