(* ===== verification/Registry.thy ===== *)
theory Registry
  imports Secrets
begin

text \<open>
  Resolution of actions from registry manifests (\<open>allama/executor/registry_resolver.py\<close>): the tables of
  manifests, the cache in front of them, the index of implementations, the lookup of an action through
  a registry lock, and the collection of the secrets an action and its steps declare; with the
  validation of locks and template definitions. Error messages are shortened: the lists of available
  names and versions are left out.
\<close>

section \<open>Template actions and manifests\<close>

record step =
  st_ref :: string
  st_action :: string
  st_args :: "(string \<times> json) list"

record template_def =
  td_namespace :: string
  td_name :: string
  td_secrets :: "rsecret list option"
  td_expects :: "(string \<times> json) list"
  td_steps :: "step list"
  td_returns :: json

definition td_action :: "template_def \<Rightarrow> string" where
  "td_action t = td_namespace t @ ''.'' @ td_name t"

definition validate_steps :: "template_def \<Rightarrow> string option" where
  "validate_steps t =
     also_check (check_that (td_steps t \<noteq> []) ''Template action must have at least 1 step'')
       (also_check (check_that (distinct (map st_ref (td_steps t))) ''Duplicate step references found'')
         (check_that (td_action t \<notin> set (map st_action (td_steps t)))
           (''Steps cannot reference the template action itself: '' @ td_action t)))"

datatype action_body = UdfBody string string | TemplateBody template_def

record manifest_action =
  ma_body :: action_body
  ma_secrets :: "rsecret list option"

type_synonym registry_manifest = "(string, manifest_action) dict"

record action_impl =
  ai_type :: string
  ai_action_name :: "string option"
  ai_module :: "string option"
  ai_name :: "string option"
  ai_template :: "template_def option"
  ai_origin :: "string option"

definition impl_of :: "string \<Rightarrow> string \<Rightarrow> action_body \<Rightarrow> action_impl" where
  "impl_of origin action body =
     (case body of
        UdfBody m n \<Rightarrow> \<lparr>ai_type = ''udf'', ai_action_name = Some action, ai_module = Some m, ai_name = Some n,
                       ai_template = None, ai_origin = Some origin\<rparr>
      | TemplateBody t \<Rightarrow> \<lparr>ai_type = ''template'', ai_action_name = Some action, ai_module = None, ai_name = None,
                       ai_template = Some t, ai_origin = Some origin\<rparr>)"

definition build_impl_index :: "registry_manifest \<Rightarrow> string \<Rightarrow> (string, action_impl) dict" where
  "build_impl_index m origin = foldl (\<lambda>idx (a, ma). dset a (impl_of origin a (ma_body ma)) idx) [] m"

section \<open>The tables\<close>

definition DEFAULT_REGISTRY_ORIGIN :: string where "DEFAULT_REGISTRY_ORIGIN = ''allama_registry''"

record repo_row =
  rr_id :: string
  rr_org :: string
  rr_origin :: string

record version_row =
  rv_repo :: string
  rv_org :: string
  rv_version :: string
  rv_manifest :: "registry_manifest option"

text \<open>The rows of the platform carry no organization; the field is not read there.\<close>

record registry_db =
  platform_repos :: "repo_row list"
  platform_versions :: "version_row list"
  org_repos :: "repo_row list"
  org_versions :: "version_row list"

definition registry_error :: "string \<Rightarrow> exn" where
  "registry_error msg = Exn ''RegistryError'' False msg [] None"

definition is_registry_error :: "exn \<Rightarrow> bool" where
  "is_registry_error e \<longleftrightarrow>
     exn_class e \<in> {''RegistryError'', ''RegistryActionError'', ''RegistryValidationError'', ''RegistryNotFound''}"

definition manifest_rows :: "registry_db \<Rightarrow> string \<Rightarrow> string \<Rightarrow> string \<Rightarrow> version_row list" where
  "manifest_rows db origin version org =
     (if origin = DEFAULT_REGISTRY_ORIGIN
      then [v. v \<leftarrow> platform_versions db, r \<leftarrow> platform_repos db,
              rv_repo v = rr_id r \<and> rr_origin r = origin \<and> rv_version v = version]
      else [v. v \<leftarrow> org_versions db, r \<leftarrow> org_repos db,
              rv_repo v = rr_id r \<and> rr_origin r = origin \<and> rv_version v = version
              \<and> rr_org r = org \<and> rv_org v = org])"

definition fetch_registry_manifest :: "registry_db \<Rightarrow> string \<Rightarrow> string \<Rightarrow> string \<Rightarrow> exn + registry_manifest" where
  "fetch_registry_manifest db origin version org =
     (case manifest_rows db origin version org of
        [] \<Rightarrow> Inl (registry_error ((if origin = DEFAULT_REGISTRY_ORIGIN then ''Platform registry'' else ''Registry'') @
               '' version not found: origin='' @ quoted origin @ '', version='' @ quoted version))
      | [v] \<Rightarrow> (case rv_manifest v of
               Some m \<Rightarrow> Inr m
             | None \<Rightarrow> Inl (registry_error ((if origin = DEFAULT_REGISTRY_ORIGIN then ''Platform registry'' else ''Registry'') @
               '' version not found: origin='' @ quoted origin @ '', version='' @ quoted version)))
      | _ \<Rightarrow> Inl (Exn ''MultipleResultsFound'' False ''Multiple rows were found when one or none was required'' [] None))"

section \<open>The cache of manifests\<close>

type_synonym manifest_entry = "registry_manifest \<times> (string, action_impl) dict"
type_synonym manifest_cache = "(string, manifest_entry) dict"

definition manifest_cache_key :: "string \<Rightarrow> string \<Rightarrow> string \<Rightarrow> string" where
  "manifest_cache_key origin version org = ''manifest:'' @ org @ '':'' @ origin @ '':'' @ version"

definition fetch_entry :: "registry_db \<Rightarrow> string \<Rightarrow> string \<Rightarrow> string \<Rightarrow> exn + manifest_entry" where
  "fetch_entry db origin version org =
     rbind (fetch_registry_manifest db origin version org) (\<lambda>m. Inr (m, build_impl_index m origin))"

definition get_manifest_entry ::
  "registry_db \<Rightarrow> string \<Rightarrow> string \<Rightarrow> string \<Rightarrow> manifest_cache \<Rightarrow> (exn + manifest_entry) \<times> manifest_cache" where
  "get_manifest_entry db origin version org cache =
     (case dget cache (manifest_cache_key origin version org) of
        Some e \<Rightarrow> (Inr e, cache)
      | None \<Rightarrow>
          (case fetch_entry db origin version org of
             Inl x \<Rightarrow> (Inl x, cache)
           | Inr e \<Rightarrow> (Inr e, dset (manifest_cache_key origin version org) e cache)))"

text \<open>What happens to the cache: lookups against the tables of the moment, expiry, and clearing.\<close>

datatype cache_event =
    Lookup registry_db string string string
  | ExpireEntry string
  | ClearCache

fun manifest_cache_step :: "manifest_cache \<Rightarrow> cache_event \<Rightarrow> manifest_cache" where
  "manifest_cache_step cache (Lookup db origin version org) = snd (get_manifest_entry db origin version org cache)"
| "manifest_cache_step cache (ExpireEntry k) = AList.delete k cache"
| "manifest_cache_step cache ClearCache = []"

section \<open>Locks and resolution\<close>

record registry_lock =
  lk_origins :: "(string, string) dict"
  lk_actions :: "(string, string) dict"

definition validate_action_origins :: "registry_lock \<Rightarrow> bool" where
  "validate_action_origins lock \<longleftrightarrow> list_all (\<lambda>(a, og). og \<in> set (dkeys (lk_origins lock))) (lk_actions lock)"

text \<open>The entry of an origin in a version, for the organization of the run.\<close>

type_synonym entries = "string \<Rightarrow> string \<Rightarrow> exn + manifest_entry"

text \<open>\<open>prefetch_lock\<close>: of several failures the first origin of the lock is reported.\<close>

definition prefetch_lock :: "entries \<Rightarrow> registry_lock \<Rightarrow> exn option" where
  "prefetch_lock entry lock =
     first_error (\<lambda>(og, v). case entry og v of Inl e \<Rightarrow> Some e | Inr _ \<Rightarrow> None) (lk_origins lock)"

definition locked_entry :: "entries \<Rightarrow> registry_lock \<Rightarrow> string \<Rightarrow> exn + manifest_entry" where
  "locked_entry entry lock a =
     (case dget (lk_actions lock) a of
        None \<Rightarrow> Inl (registry_error (''Action '' @ quoted a @ '' not bound in registry_lock''))
      | Some og \<Rightarrow>
          (case dget (lk_origins lock) og of
             None \<Rightarrow> Inl (registry_error (''Origin '' @ quoted og @ '' not found in registry_lock''))
           | Some v \<Rightarrow> entry og v))"

definition not_in_manifest :: "string \<Rightarrow> exn" where
  "not_in_manifest a = registry_error (''Action '' @ quoted a @ '' not found in manifest'')"

definition resolve_action :: "entries \<Rightarrow> registry_lock \<Rightarrow> string \<Rightarrow> exn + action_impl" where
  "resolve_action entry lock a =
     rbind (locked_entry entry lock a) (\<lambda>(_, idx).
       case dget idx a of None \<Rightarrow> Inl (not_in_manifest a) | Some impl \<Rightarrow> Inr impl)"

section \<open>The secrets of an action and its steps\<close>

definition recursion_error :: exn where
  "recursion_error = Exn ''RecursionError'' False ''maximum recursion depth exceeded'' [] None"

definition set_update :: "rsecret list option \<Rightarrow> rsecret list \<Rightarrow> rsecret list" where
  "set_update new acc = (case new of Some ss \<Rightarrow> remdups (acc @ ss) | None \<Rightarrow> acc)"

text \<open>The action of a step, when it is bound and its manifest can be fetched.\<close>

definition step_manifest_action :: "entries \<Rightarrow> registry_lock \<Rightarrow> string \<Rightarrow> exn + manifest_action option" where
  "step_manifest_action entry lock a =
     (case dget (lk_actions lock) a of
        None \<Rightarrow> Inr None
      | Some og \<Rightarrow>
          (case dget (lk_origins lock) og of
             None \<Rightarrow> Inr None
           | Some v \<Rightarrow>
               (case entry og v of
                  Inl e \<Rightarrow> if is_registry_error e then Inr None else Inl e
                | Inr (m, _) \<Rightarrow> Inr (dget m a))))"

text \<open>
  \<open>_collect_secrets_recursive\<close>. Nothing remembers the actions visited; the first argument is the
  number of nested calls the interpreter still allows.
\<close>

fun collect_secrets :: "nat \<Rightarrow> entries \<Rightarrow> registry_lock \<Rightarrow> manifest_action \<Rightarrow> rsecret list \<Rightarrow> exn + rsecret list" where
  "collect_secrets 0 entry lock ma acc = Inl recursion_error"
| "collect_secrets (Suc n) entry lock ma acc =
     (case ma_body ma of
        UdfBody _ _ \<Rightarrow> Inr (set_update (ma_secrets ma) acc)
      | TemplateBody t \<Rightarrow>
          rfold (\<lambda>s acc. rbind (step_manifest_action entry lock (st_action s)) (\<lambda>r. case r of
                  None \<Rightarrow> Inr acc
                | Some ma' \<Rightarrow> collect_secrets n entry lock ma' acc))
            (td_steps t) (set_update (td_secrets t) acc))"

definition collect_action_secrets :: "nat \<Rightarrow> entries \<Rightarrow> registry_lock \<Rightarrow> string \<Rightarrow> exn + rsecret list" where
  "collect_action_secrets n entry lock a =
     rbind (locked_entry entry lock a) (\<lambda>(m, _).
       case dget m a of
         None \<Rightarrow> Inl (not_in_manifest a)
       | Some ma \<Rightarrow> collect_secrets n entry lock ma [])"

end
