(* ===== verification/Executor.thy ===== *)
theory Executor
  imports Registry Activities Storage
begin

text \<open>
  The executor of actions (\<open>allama/executor/service.py\<close>, \<open>activities.py\<close>, \<open>schemas.py\<close>): the preparation
  of an action from its registry manifest, secrets and variables, the invocation through a backend,
  template actions with nested steps, loops over an action, and the activity around it with its
  translation of failures. Expressions, the validation of arguments, the database, tokens and the
  backend are replies of the environment. Positions in source files (file, function, line of an error
  and the part of messages shown in development) are left out.
\<close>

section \<open>Errors\<close>

record error_info =
  xi_action :: string
  xi_type :: string
  xi_message :: string
  xi_iteration :: "nat option"
  xi_vars :: "json option"

text \<open>\<open>dumps\<close> is \<open>json.dumps(\<dots>, indent=2)\<close>.\<close>

definition LF :: string where "LF = [char_of (10::nat)]"

definition info_str :: "(json \<Rightarrow> string) \<Rightarrow> error_info \<Rightarrow> string" where
  "info_str dumps i =
     (let msg = LF @ xi_type i @ '': '' @ xi_message i in
      case xi_iteration i of
        None \<Rightarrow> msg
      | Some k \<Rightarrow>
          LF @ ''[for_each] (Iteration '' @ show_nat k @ '')'' @ LF @ LF @ ''Loop variables:'' @ LF @ ''```'' @ LF @
          dumps (case xi_vars i of Some v \<Rightarrow> if truthy v then v else JObj [] | None \<Rightarrow> JObj []) @ LF @ ''```'' @
          LF @ LF @ msg @ LF @ LF @
          ''Please ensure that the loop is iterable and that the loop variable has the correct type.'')"

text \<open>The message of an \<open>ExecutionError\<close> is built when it is raised; its info may change later.\<close>

record exec_error =
  ee_info :: error_info
  ee_message :: string

definition execution_error :: "(json \<Rightarrow> string) \<Rightarrow> error_info \<Rightarrow> exec_error" where
  "execution_error dumps i =
     \<lparr>ee_info = i,
      ee_message = ''There was an error in the executor when calling action '' @ quoted (xi_action i) @ ''.'' @ LF @ LF @ info_str dumps i\<rparr>"

datatype xerr =
    XExec exec_error
  | XLoop "exec_error list"
  | XPlain exn
  | XGroup "xerr list"

fun xerr_class :: "xerr \<Rightarrow> string" where
  "xerr_class (XExec _) = ''ExecutionError''"
| "xerr_class (XLoop _) = ''LoopExecutionError''"
| "xerr_class (XPlain e) = exn_class e"
| "xerr_class (XGroup _) = ''ExceptionGroup''"

fun xerr_str :: "xerr \<Rightarrow> string" where
  "xerr_str (XExec e) = ee_message e"
| "xerr_str (XLoop es) = ''Loop execution failed with '' @ show_nat (length es) @ '' error(s)''"
| "xerr_str (XPlain e) = exn_str e"
| "xerr_str (XGroup es) = '' ('' @ show_nat (length es) @ '' sub-exceptions)''"

definition from_exc :: "xerr \<Rightarrow> string \<Rightarrow> error_info" where
  "from_exc e action =
     \<lparr>xi_action = action, xi_type = xerr_class e, xi_message = xerr_str e, xi_iteration = None, xi_vars = None\<rparr>"

fun lift :: "exn + 'a \<Rightarrow> xerr + 'a" where
  "lift (Inl e) = Inl (XPlain e)"
| "lift (Inr x) = Inr x"

section \<open>The environment\<close>

record role =
  ro_org :: "string option"
  ro_workspace :: "string option"

record run_input =
  ri_task :: action_stmt
  ri_context :: "(string \<times> json) list"
  ri_lock :: registry_lock
  ri_environment :: string
  ri_wf_id :: string
  ri_wf_run_id :: string
  ri_wf_exec_id :: string
  ri_stream :: stream_id

record resolved =
  rc_secrets :: secret_dict
  rc_variables :: "(string \<times> json) list"
  rc_impl :: action_impl
  rc_args :: "(string \<times> json) list"
  rc_workspace :: string
  rc_workflow :: string
  rc_run :: string
  rc_token :: string
  rc_time :: json

datatype exec_result = ExecSuccess json | ExecFailure error_info

text \<open>
  \<open>xe_depth\<close> is the number of nested calls the interpreter allows. \<open>xe_eval\<close> is the evaluation of a
  templated object at a logical time, \<open>xe_collect\<close> collects the secrets and variables its expressions
  name, \<open>xe_validate\<close> validates arguments against the \<open>expects\<close> of a template and applies defaults.
  The backend is told the position of the call, the iteration and the steps on the way, so that two
  calls with the same context may answer differently.
\<close>

record exec_env =
  xe_depth :: nat
  xe_entry :: "string \<Rightarrow> entries"
  xe_secrets :: secrets_env
  xe_collect :: "json \<Rightarrow> exn + string list \<times> string list"
  xe_variables :: "string list \<Rightarrow> string \<Rightarrow> exn + (string \<times> json) list"
  xe_masking :: bool
  xe_show :: "json \<Rightarrow> string"
  xe_set_order :: "string list \<Rightarrow> string list"
  xe_parse_time :: "string \<Rightarrow> exn + json"
  xe_eval :: "json \<Rightarrow> json \<Rightarrow> (string \<times> json) list \<Rightarrow> exn + json"
  xe_validate :: "template_def \<Rightarrow> (string \<times> json) list \<Rightarrow> exn + (string \<times> json) list"
  xe_token :: "role \<Rightarrow> string \<Rightarrow> string \<Rightarrow> string"
  xe_dumps :: "json \<Rightarrow> string"
  xe_iterators :: "json \<Rightarrow> (string \<times> json) list \<Rightarrow> exn + iterator list"
  xe_backend :: "nat list \<Rightarrow> run_input \<Rightarrow> resolved \<Rightarrow> exn + exec_result"

definition get_workspace_variables :: "exec_env \<Rightarrow> string list \<Rightarrow> string \<Rightarrow> exn + (string \<times> json) list" where
  "get_workspace_variables env names environment =
     (case xe_variables env names environment of
        Inl e \<Rightarrow> if exn_class e = ''AllamaAuthorizationError'' then Inr [] else Inl e
      | Inr vs \<Rightarrow> Inr vs)"

fun as_args :: "json \<Rightarrow> exn + (string \<times> json) list" where
  "as_args (JObj kvs) = Inr kvs"
| "as_args _ = Inl pydantic_error"

section \<open>Templates\<close>

definition materialized_step :: "json \<Rightarrow> json" where
  "materialized_step v =
     JObj [(''result'', v), (''result_typename'', JStr (json_typename v)), (''error'', JNull), (''error_typename'', JNull),
           (''interaction'', JNull), (''interaction_id'', JNull), (''interaction_type'', JNull)]"

definition template_context :: "run_input \<Rightarrow> resolved \<Rightarrow> (string \<times> json) list \<Rightarrow> (string \<times> json) list \<Rightarrow> (string \<times> json) list" where
  "template_context input rc inputs steps =
     [(''SECRETS'', secrets_json (rc_secrets rc)),
      (''ENV'', case dget (ri_context input) ''ENV'' of Some v \<Rightarrow> v | None \<Rightarrow> JObj []),
      (''VARS'', JObj (rc_variables rc)), (''inputs'', JObj inputs), (''steps'', JObj steps)]"

definition prepare_step_context :: "exec_env \<Rightarrow> role \<Rightarrow> run_input \<Rightarrow> resolved \<Rightarrow> string \<Rightarrow> (string \<times> json) list \<Rightarrow> exn + resolved" where
  "prepare_step_context env role input parent action args =
     (case ro_org role of
        None \<Rightarrow> Inl (value_error ''organization_id is required for template step execution'')
      | Some org \<Rightarrow>
          rbind (resolve_action (xe_entry env org) (ri_lock input) action) (\<lambda>impl.
            case ro_workspace role of
              None \<Rightarrow> Inl (value_error ''workspace_id is required for template step execution'')
            | Some _ \<Rightarrow> Inr (parent\<lparr>rc_impl := impl, rc_args := args,
                rc_token := xe_token env role (ri_wf_id input) (ri_wf_run_id input)\<rparr>)))"

definition template_inputs :: "exec_env \<Rightarrow> template_def \<Rightarrow> (string \<times> json) list \<Rightarrow> exn + (string \<times> json) list" where
  "template_inputs env t args =
     (if td_expects t = [] then Inr args
      else (case xe_validate env t args of
              Inl e \<Rightarrow> Inl (Exn ''RegistryValidationError'' False
                 (''Validation error for template action '' @ quoted (td_action t) @ '': '' @ exn_str e) [] (Some e))
            | Inr vs \<Rightarrow> Inr vs))"

text \<open>An error of the step that is no \<open>ExecutionError\<close> is wrapped with the name of the step's action.\<close>

definition step_failure :: "exec_env \<Rightarrow> string \<Rightarrow> xerr \<Rightarrow> xerr" where
  "step_failure env action e =
     (case e of XExec _ \<Rightarrow> e | _ \<Rightarrow> XExec (execution_error (xe_dumps env) (from_exc e action)))"

definition run_template_step ::
  "(nat list \<Rightarrow> resolved \<Rightarrow> xerr + json) \<Rightarrow> exec_env \<Rightarrow> role \<Rightarrow> run_input \<Rightarrow> nat list \<Rightarrow> resolved \<Rightarrow>
   (string \<times> json) list \<Rightarrow> nat \<times> step \<Rightarrow> (string \<times> json) list \<Rightarrow> xerr + (string \<times> json) list" where
  "run_template_step invoke env role input path rc inputs ks steps =
     (let s = snd ks in
      rbind (lift (rbind (xe_eval env (rc_time rc) (JObj (st_args s)) (template_context input rc inputs steps)) as_args)) (\<lambda>args.
      rbind (lift (prepare_step_context env role input rc (st_action s) args)) (\<lambda>rc'.
        case invoke (path @ [fst ks]) rc' of
          Inl e \<Rightarrow> Inl (step_failure env (st_action s) e)
        | Inr v \<Rightarrow> Inr (dset (st_ref s) (materialized_step v) steps))))"

definition execute_template_action ::
  "(nat list \<Rightarrow> resolved \<Rightarrow> xerr + json) \<Rightarrow> exec_env \<Rightarrow> role \<Rightarrow> run_input \<Rightarrow> nat list \<Rightarrow> resolved \<Rightarrow> xerr + json" where
  "execute_template_action invoke env role input path rc =
     (case ai_template (rc_impl rc) of
        None \<Rightarrow> Inl (XPlain (value_error ''Template action missing template_definition''))
      | Some t \<Rightarrow>
          rbind (lift (template_inputs env t (rc_args rc))) (\<lambda>inputs.
          rbind (rfold (run_template_step invoke env role input path rc inputs) (zip [0..<length (td_steps t)] (td_steps t)) []) (\<lambda>steps.
            lift (xe_eval env (rc_time rc) (td_returns t) (template_context input rc inputs steps)))))"

fun invoke_step :: "nat \<Rightarrow> exec_env \<Rightarrow> role \<Rightarrow> run_input \<Rightarrow> nat list \<Rightarrow> resolved \<Rightarrow> xerr + json" where
  "invoke_step 0 env role input path rc = Inl (XPlain recursion_error)"
| "invoke_step (Suc n) env role input path rc =
     (if ai_type (rc_impl rc) = ''template''
      then execute_template_action (\<lambda>p r. invoke_step n env role input p r) env role input path rc
      else if ai_type (rc_impl rc) = ''udf''
      then (case xe_backend env path input rc of
              Inl e \<Rightarrow> Inl (XPlain e)
            | Inr (ExecSuccess v) \<Rightarrow> Inr v
            | Inr (ExecFailure info) \<Rightarrow> Inl (XExec (execution_error (xe_dumps env) info)))
      else Inl (XPlain (value_error (''Unknown action type: '' @ ai_type (rc_impl rc)))))"

section \<open>Preparing and invoking an action\<close>

fun obj_get :: "json \<Rightarrow> string \<Rightarrow> json option" where
  "obj_get (JObj kvs) k = dget kvs k"
| "obj_get _ k = None"

text \<open>\<open>context.get("ENV") or {}\<close>, then \<open>.get("workflow") or {}\<close>, then \<open>.get("logical_time")\<close>.\<close>

definition raw_logical_time :: "(string \<times> json) list \<Rightarrow> json" where
  "raw_logical_time ctx =
     (let e = (case dget ctx ''ENV'' of Some v \<Rightarrow> v | None \<Rightarrow> JNull);
          w = (case obj_get e ''workflow'' of Some v \<Rightarrow> v | None \<Rightarrow> JNull)
      in case obj_get w ''logical_time'' of Some v \<Rightarrow> v | None \<Rightarrow> JNull)"

fun logical_time :: "exec_env \<Rightarrow> json \<Rightarrow> exn + json" where
  "logical_time env (JStr s) = xe_parse_time env s"
| "logical_time env v = Inr v"

definition prepare_resolved_context :: "exec_env \<Rightarrow> role \<Rightarrow> run_input \<Rightarrow> exn + resolved \<times> string list option" where
  "prepare_resolved_context env role input =
     (case ro_org role of
        None \<Rightarrow> Inl (value_error ''organization_id is required for action execution'')
      | Some org \<Rightarrow>
          (let a = stmt_action (ri_task input); entry = xe_entry env org; lock = ri_lock input in
           rbind (resolve_action entry lock a) (\<lambda>impl.
           rbind (collect_action_secrets (xe_depth env) entry lock a) (\<lambda>declared.
           rbind (xe_collect env (JObj (stmt_args (ri_task input)))) (\<lambda>(secret_exprs, variable_exprs).
           rbind (get_action_secrets (xe_secrets env) secret_exprs declared) (\<lambda>secrets.
           rbind (get_workspace_variables env variable_exprs (ri_environment input)) (\<lambda>vars.
             let masks = (if xe_masking env then Some (mask_values (xe_show env) (secrets_json secrets)) else None);
                 ctx = dset ''VARS'' (JObj vars) (dset ''SECRETS'' (secrets_json secrets) (ri_context input)) in
           rbind (logical_time env (raw_logical_time ctx)) (\<lambda>time.
           rbind (rbind (xe_eval env time (JObj (stmt_args (ri_task input))) ctx) as_args) (\<lambda>args.
             case ro_workspace role of
               None \<Rightarrow> Inl (value_error ''workspace_id is required for action execution'')
             | Some ws \<Rightarrow>
                 Inr (\<lparr>rc_secrets = secrets, rc_variables = vars, rc_impl = impl, rc_args = args, rc_workspace = ws,
                       rc_workflow = ri_wf_id input, rc_run = ri_wf_run_id input,
                       rc_token = xe_token env role (ri_wf_id input) (ri_wf_run_id input), rc_time = time\<rparr>, masks))))))))))"

text \<open>
  The handlers of \<open>invoke_once\<close>: an \<open>ExecutionError\<close> keeps its message and gets the iteration in its
  info, everything else is wrapped.
\<close>

definition loop_info :: "nat option \<Rightarrow> run_input \<Rightarrow> error_info \<Rightarrow> error_info" where
  "loop_info iteration input i =
     (case iteration of
        None \<Rightarrow> i
      | Some k \<Rightarrow> i\<lparr>xi_iteration := Some k, xi_vars := dget (ri_context input) ''var''\<rparr>)"

definition invocation_failure :: "exec_env \<Rightarrow> nat option \<Rightarrow> run_input \<Rightarrow> xerr \<Rightarrow> xerr" where
  "invocation_failure env iteration input e =
     (case e of
        XExec x \<Rightarrow> XExec (x\<lparr>ee_info := loop_info iteration input (ee_info x)\<rparr>)
      | _ \<Rightarrow> XExec (execution_error (xe_dumps env) (loop_info iteration input (from_exc e (stmt_action (ri_task input))))))"

definition invocation :: "exec_env \<Rightarrow> role \<Rightarrow> run_input \<Rightarrow> nat option \<Rightarrow> xerr + json \<times> string list option" where
  "invocation env role input iteration =
     rbind (lift (prepare_resolved_context env role input)) (\<lambda>(rc, masks).
       rbind (invoke_step (xe_depth env) env role input (case iteration of None \<Rightarrow> [] | Some k \<Rightarrow> [k]) rc) (\<lambda>v. Inr (v, masks)))"

definition invoke_once :: "exec_env \<Rightarrow> role \<Rightarrow> run_input \<Rightarrow> nat option \<Rightarrow> xerr + json" where
  "invoke_once env role input iteration =
     (case ro_org role of
        None \<Rightarrow> Inl (XPlain (value_error ''organization_id is required for action dispatch''))
      | Some org \<Rightarrow>
          (case prefetch_lock (xe_entry env org) (ri_lock input) of
             Some e \<Rightarrow> Inl (XPlain e)
           | None \<Rightarrow>
               (case invocation env role input iteration of
                  Inl e \<Rightarrow> Inl (invocation_failure env iteration input e)
                | Inr (v, masks) \<Rightarrow>
                    Inr (case masks of
                           Some ms \<Rightarrow> if ms = [] then v else apply_masks_object v (xe_set_order env ms)
                         | None \<Rightarrow> v))))"

section \<open>Loops\<close>

text \<open>
  The contexts of the iterations. The copy of the base context is shallow: without a \<open>var\<close> in it every
  iteration gets a dictionary of its own, with one all iterations share it, and as they start after
  the last patch, all see the last row. (By the grammar the path of an iterator starts with a dot.)
\<close>

definition loop_contexts :: "(string \<times> json) list list \<Rightarrow> (string \<times> json) list \<Rightarrow> exn + (string \<times> json) list list" where
  "loop_contexts rows base =
     (if dget base ''var'' = None then rmap (\<lambda>row. patch_items row base) rows
      else rbind (rfold patch_items rows base) (\<lambda>shared. Inr (replicate (length rows) shared)))"

text \<open>
  The task group. \<open>ended\<close> lists the iterations that raised before the group had cancelled them, in
  the order in which they did; it is empty exactly when no iteration raised.
\<close>

definition possible_ends :: "(xerr + json) list \<Rightarrow> nat list \<Rightarrow> bool" where
  "possible_ends outcomes ended \<longleftrightarrow>
     distinct ended \<and> list_all (\<lambda>i. i < length outcomes \<and> isl (outcomes ! i)) ended \<and>
     (ended = [] \<longleftrightarrow> list_all (\<lambda>r. \<not> isl r) outcomes)"

fun is_execution :: "xerr \<Rightarrow> bool" where
  "is_execution (XExec _) = True"
| "is_execution _ = False"

definition loop_exception :: "action_stmt \<Rightarrow> string list \<Rightarrow> exn" where
  "loop_exception a errors =
     Exn ''AllamaException'' False
       (LF @ ''[ACTIONS.'' @ stmt_ref a @ '' -> for_each]'' @ LF @ LF @ ''Unexpected error(s) in loop:'' @ LF @ LF @
        join_with (LF @ LF) errors @ LF @ LF @
        ''Please ensure that the loop is iterable and that the loop variable has the correct type.'') [] None"

text \<open>
  \<open>except*\<close>: each clause handles its part of the group; one new exception leaves as it is, two leave
  in a new group.
\<close>

definition handle_group :: "action_stmt \<Rightarrow> xerr list \<Rightarrow> xerr" where
  "handle_group a errs =
     (let ex = concat (map (\<lambda>e. case e of XExec x \<Rightarrow> [x] | _ \<Rightarrow> []) errs);
          others = filter (\<lambda>e. \<not> is_execution e) errs;
          raised = (if ex = [] then [] else [XLoop ex]) @
                   (if others = [] then [] else [XPlain (loop_exception a (map xerr_str others))])
      in case raised of [e] \<Rightarrow> e | _ \<Rightarrow> XGroup raised)"

definition loop_outcomes :: "exec_env \<Rightarrow> role \<Rightarrow> run_input \<Rightarrow> (string \<times> json) list list \<Rightarrow> (xerr + json) list" where
  "loop_outcomes env role input ctxs =
     map (\<lambda>(k, c). invoke_once env role (input\<lparr>ri_context := c\<rparr>) (Some k)) (zip [0..<length ctxs] ctxs)"

definition ended_errors :: "(xerr + json) list \<Rightarrow> nat list \<Rightarrow> xerr list" where
  "ended_errors outcomes ended =
     concat (map (\<lambda>i. if i < length outcomes then (case outcomes ! i of Inl e \<Rightarrow> [e] | Inr _ \<Rightarrow> []) else []) ended)"

definition dispatch_action :: "exec_env \<Rightarrow> role option \<Rightarrow> run_input \<Rightarrow> nat list \<Rightarrow> xerr + json" where
  "dispatch_action env who input ended =
     (case who of
        None \<Rightarrow> Inl (XPlain (value_error ''Role is required to dispatch actions''))
      | Some role \<Rightarrow>
          (let a = ri_task input in
           if \<not> truthy (stmt_for_each a) then invoke_once env role input None
           else rbind (lift (xe_iterators env (stmt_for_each a) (ri_context input))) (\<lambda>its.
             case loop_contexts (loop_items its) (ri_context input) of
               Inl e \<Rightarrow> Inl (handle_group a [XPlain e])
             | Inr ctxs \<Rightarrow>
                 (let outcomes = loop_outcomes env role input ctxs in
                  case rmap (\<lambda>r. r) outcomes of
                    Inr vs \<Rightarrow> Inr (JArr vs)
                  | Inl _ \<Rightarrow> Inl (handle_group a (ended_errors outcomes ended))))))"

section \<open>The activity\<close>

record activity_failure =
  af_exn :: exn
  af_type :: "string option"
  af_non_retryable :: bool

definition activity_error_info :: "run_input \<Rightarrow> nat \<Rightarrow> string \<Rightarrow> string \<Rightarrow> action_error" where
  "activity_error_info input attempt msg ty =
     \<lparr>ae_ref = JStr (stmt_ref (ri_task input)), ae_message = JStr msg, ae_type = JStr ty,
      ae_expr_context = JStr ''ACTIONS'', ae_attempt = JInt (int attempt), ae_stream_id = JStr (ri_stream input), ae_children = JNull\<rparr>"

definition format_error :: "run_input \<Rightarrow> nat \<Rightarrow> string \<Rightarrow> string" where
  "format_error input attempt msg =
     ''[ACTIONS.'' @ stmt_ref (ri_task input) @ '' -> execute_action] (Attempt '' @ show_nat attempt @ '')'' @ LF @ LF @ msg"

definition activity_failure_of :: "run_input \<Rightarrow> nat \<Rightarrow> string \<Rightarrow> string \<Rightarrow> string option \<Rightarrow> bool \<Rightarrow> activity_failure" where
  "activity_failure_of input attempt msg ty app_ty final =
     \<lparr>af_exn = Exn ''ApplicationError'' True (format_error input attempt msg) [dump_error (activity_error_info input attempt msg ty)] None,
      af_type = app_ty, af_non_retryable = final\<rparr>"

text \<open>
  The handlers of \<open>execute_action_activity\<close>; the type and the flag of an application error that
  passes through are those it had.
\<close>

definition translate_failure :: "sdk \<Rightarrow> (exn \<Rightarrow> bool) \<Rightarrow> run_input \<Rightarrow> nat \<Rightarrow> xerr \<Rightarrow> activity_failure" where
  "translate_failure sdk final input attempt e =
     (case e of
        XExec _ \<Rightarrow> activity_failure_of input attempt (xerr_str e) (xerr_class e) (Some (xerr_class e)) False
      | XLoop _ \<Rightarrow> activity_failure_of input attempt (xerr_str e) (xerr_class e) (Some (xerr_class e)) False
      | XPlain x \<Rightarrow>
          if exn_app x
          then activity_failure_of input attempt (exn_str x)
                 (case app_type sdk x of Some t \<Rightarrow> if t = [] then exn_class x else t | None \<Rightarrow> exn_class x) (app_type sdk x) (final x)
          else activity_failure_of input attempt (''Unexpected '' @ xerr_class e @ '' occurred:'' @ LF @ xerr_str e) (xerr_class e) (Some (xerr_class e)) True
      | XGroup _ \<Rightarrow> activity_failure_of input attempt (''Unexpected '' @ xerr_class e @ '' occurred:'' @ LF @ xerr_str e) (xerr_class e) (Some (xerr_class e)) True)"

text \<open>
  \<open>AsyncRetrying\<close>: the body is tried again, up to the given number of attempts, when it raised
  \<open>RateLimitExceeded\<close>; then a \<open>RetryError\<close> is raised.
\<close>

fun is_rate_limit :: "xerr \<Rightarrow> bool" where
  "is_rate_limit (XPlain e) = (exn_class e = ''RateLimitExceeded'')"
| "is_rate_limit _ = False"

fun with_retries :: "nat \<Rightarrow> nat \<Rightarrow> (nat \<Rightarrow> xerr + 'a) \<Rightarrow> xerr + 'a" where
  "with_retries 0 k body = Inl (XPlain (Exn ''RetryError'' False ''RetryError'' [] None))"
| "with_retries (Suc n) k body =
     (case body k of
        Inl e \<Rightarrow> if is_rate_limit e then with_retries n (Suc k) body else Inl e
      | Inr x \<Rightarrow> Inr x)"

definition MAX_RATE_LIMIT_ATTEMPTS :: nat where "MAX_RATE_LIMIT_ATTEMPTS = 20"

text \<open>
  The activity: \<open>materialize\<close> replaces stored objects in the context and \<open>store\<close> wraps the result under a
  key; an error of the former is raised outside the handlers. Each attempt has an environment of its
  own.
\<close>

definition execute_action_activity ::
  "sdk \<Rightarrow> (exn \<Rightarrow> bool) \<Rightarrow> ((string \<times> json) list \<Rightarrow> exn + (string \<times> json) list) \<Rightarrow> (string \<Rightarrow> json \<Rightarrow> exn + stored) \<Rightarrow>
   (nat \<Rightarrow> exec_env \<times> nat list) \<Rightarrow> role \<Rightarrow> nat \<Rightarrow> run_input \<Rightarrow> activity_failure + stored" where
  "execute_action_activity sdk final materialize store envs role attempt input =
     (case materialize (ri_context input) of
        Inl e \<Rightarrow> Inl \<lparr>af_exn = e, af_type = app_type sdk e, af_non_retryable = final e\<rparr>
      | Inr ctx \<Rightarrow>
          (case with_retries MAX_RATE_LIMIT_ATTEMPTS 0 (\<lambda>k.
                  rbind (dispatch_action (fst (envs k)) (Some role) (input\<lparr>ri_context := ctx\<rparr>) (snd (envs k))) (\<lambda>v.
                  lift (store (action_key (case ro_workspace role of Some ws \<Rightarrow> ws | None \<Rightarrow> ''None'') (ri_wf_exec_id input)
                          (ri_stream input) (stmt_ref (ri_task input))) v))) of
             Inl e \<Rightarrow> Inl (translate_failure sdk final input attempt e)
           | Inr st \<Rightarrow> Inr st))"

end
