(* ===== verification/Secrets_Correct.thy ===== *)
theory Secrets_Correct
  imports Secrets "HOL-Library.Sublist"
begin

text \<open>
  What the handling of secrets promises: no secret value survives in the text of a masked result, a
  declared secret that is required is loaded or the run fails, and the environment variables are
  the union of the secrets, with a clash reported.
\<close>

section \<open>Masking\<close>

lemma startswith_prefix: "startswith s p \<longleftrightarrow> prefix p s"
  by (simp add: startswith_iff prefix_def)

lemma mask_at_Some: "mask_at masks s = Some m \<Longrightarrow> m \<in> set masks \<and> prefix m s"
  by (auto simp: mask_at_def find_Some_iff startswith_prefix)

lemma mask_at_None: "mask_at masks s = None \<Longrightarrow> m \<in> set masks \<Longrightarrow> \<not> prefix m s"
  by (auto simp: mask_at_def find_None_iff startswith_prefix)

lemma prefix_of_redact:
  "prefix p (redact masks s) \<Longrightarrow> CHR ''*'' \<notin> set p \<Longrightarrow> prefix p s"
proof (induction masks s arbitrary: p rule: redact.induct)
  case (1 masks)
  then show ?case by simp
next
  case (2 masks c cs)
  show ?case
  proof (cases p)
    case (Cons d p')
    show ?thesis
    proof (cases "mask_at masks (c # cs)")
      case None
      with 2(1) [OF None, of p'] "2.prems" Cons show ?thesis by simp
    next
      case (Some m)
      with "2.prems" Cons show ?thesis by (simp add: MASK_VALUE_def)
    qed
  qed simp
qed

lemma star_prefix: "CHR ''*'' \<notin> set m \<Longrightarrow> m \<noteq> [] \<Longrightarrow> \<not> prefix m (CHR ''*'' # t)"
  by (cases m) auto

lemma redact_hides:
  assumes masks: "\<And>m. m \<in> set masks \<Longrightarrow> m \<noteq> [] \<and> CHR ''*'' \<notin> set m"
    and m: "m \<in> set masks"
  shows "\<not> sublist m (redact masks s)"
  using masks m
proof (induction masks s rule: redact.induct)
  case (1 masks)
  then show ?case by auto
next
  case (2 masks c cs)
  have ne: "m \<noteq> []" "CHR ''*'' \<notin> set m" using "2.prems" by blast+
  show ?case
  proof (cases "mask_at masks (c # cs)")
    case None
    have "\<not> prefix m (c # redact masks cs)"
    proof
      assume "prefix m (c # redact masks cs)"
      with None have "prefix m (redact masks (c # cs))" by simp
      from prefix_of_redact [OF this ne(2)] mask_at_None [OF None "2.prems"(2)] show False by simp
    qed
    with None "2.IH"(1) [OF None "2.prems"] show ?thesis by (simp add: sublist_Cons_right)
  next
    case (Some k)
    with "2.IH"(2) [OF Some "2.prems"] star_prefix [OF ne(2,1)] show ?thesis
      by (simp add: MASK_VALUE_def sublist_Cons_right)
  qed
qed

lemma apply_masks_hides:
  assumes "\<And>m. m \<in> set masks \<Longrightarrow> CHR ''*'' \<notin> set m"
    and "m \<in> set masks" and "length m > 1"
  shows "\<not> sublist m (apply_masks s masks)"
proof -
  let ?fm = "filter (\<lambda>m. length m > 1) masks"
  have "?fm \<noteq> []" using assms(2,3) by (auto simp: filter_empty_conv)
  moreover have "\<not> sublist m (redact ?fm s)"
    using assms by (intro redact_hides) auto
  ultimately show ?thesis by (simp add: apply_masks_def Let_def)
qed

text \<open>The texts of a masked value are masked texts, at every depth.\<close>

lemma masked_leaf:
  "(p, JStr s) \<in> set (traverse_leaves q (apply_masks_object v masks)) \<Longrightarrow> \<exists>t. s = apply_masks t masks"
proof (induction v masks arbitrary: p q rule: apply_masks_object.induct)
  case (2 xs masks)
  then obtain i x where "(i, x) \<in> set (zip [0..<length xs] (map (\<lambda>x. apply_masks_object x masks) xs))"
    "(p, JStr s) \<in> set (traverse_leaves (q @ ''['' @ show_nat i @ '']'') x)" by auto
  with "2.IH" show ?case by (auto dest!: set_zip_rightD)
next
  case (3 kvs masks)
  then show ?case by (auto; blast)
qed auto

lemma masked_object_hides:
  assumes "(p, JStr s) \<in> set (traverse_leaves q (apply_masks_object v masks))"
    and "\<And>m. m \<in> set masks \<Longrightarrow> CHR ''*'' \<notin> set m"
    and "m \<in> set masks" and "length m > 1"
  shows "\<not> sublist m s"
proof -
  obtain t where "s = apply_masks t masks" using masked_leaf [OF assms(1)] by blast
  with apply_masks_hides [OF assms(2-4)] show ?thesis by simp
qed

lemma mask_values_secret:
  "(p, JStr v) \<in> set (traverse_leaves [] secrets) \<Longrightarrow> length v > 1 \<Longrightarrow> v \<in> set (mask_values show secrets)"
  by (force simp: mask_values_def)

section \<open>Loading\<close>

lemma image_fst_dset: "fst ` set (dset k v d) = insert k (fst ` set d)"
  using dkeys_dset [of k v d] by simp

text \<open>The keys stored under a name.\<close>

definition secret_keys :: "secret_dict \<Rightarrow> string \<Rightarrow> string set" where
  "secret_keys s n = (case dget s n of Some d \<Rightarrow> fst ` set d | None \<Rightarrow> {})"

lemma secret_keys_add:
  "secret_keys (add_secret n kv ctx) m = (if m = n then insert (fst kv) (secret_keys ctx n) else secret_keys ctx m)"
  by (auto simp: secret_keys_def add_secret_def image_fst_dset split: option.splits)

lemma secret_keys_add_all:
  "secret_keys (foldl (\<lambda>c kv. add_secret n kv c) ctx kvs) m =
   (if m = n then secret_keys ctx n \<union> fst ` set kvs else secret_keys ctx m)"
  by (induction kvs arbitrary: ctx) (auto simp: secret_keys_add)

lemma set_secrets_keys:
  fixes rows :: "secret_row list"
  assumes "set_secrets env key rows = Inr s"
    and "row \<in> set rows" and "sv_decrypt env key (sr_encrypted row) = Inr kvs"
  shows "fst ` set kvs \<subseteq> secret_keys s (sr_name row)"
proof -
  define f where "f = (\<lambda>(row :: secret_row) ctx. rbind (sv_decrypt env key (sr_encrypted row)) (\<lambda>kvs.
       Inr (foldl (\<lambda>c kv. add_secret (sr_name row) kv c) ctx kvs)) :: exn + secret_dict)"
  have mono: "secret_keys a m \<subseteq> secret_keys b m" if "f r a = Inr b" for r a b m
    using that by (auto simp: f_def rbind_Inr_iff secret_keys_add_all)
  have "fst ` set kvs \<subseteq> secret_keys b (sr_name row)" if "rfold f rs a = Inr b" "row \<in> set rs" for rs :: "secret_row list" and a b
    using that
  proof (induction rs arbitrary: a)
    case (Cons r rs)
    then obtain c where c: "f r a = Inr c" "rfold f rs c = Inr b" by (auto simp: rbind_Inr_iff)
    show ?case
    proof (cases "row \<in> set rs")
      case False
      with Cons.prems(2) have "r = row" by simp
      with c(1) assms(3) have "c = foldl (\<lambda>c kv. add_secret (sr_name row) kv c) a kvs"
        by (simp add: f_def)
      then have "fst ` set kvs \<subseteq> secret_keys c (sr_name row)"
        by (simp add: secret_keys_add_all)
      also have "\<dots> \<subseteq> secret_keys b (sr_name row)"
        using c(2) by (rule rfold_invariant [where P = "\<lambda>x. secret_keys c (sr_name row) \<subseteq> secret_keys x (sr_name row)"])
          (use mono in blast)+
      finally show ?thesis .
    qed (use Cons.IH [OF c(2)] in blast)
  qed simp
  from this [of rows "[]" s] assms(1,2) show ?thesis by (simp add: set_secrets_def f_def)
qed

lemma get_secrets_found:
  fixes rows :: "secret_row list"
  assumes "get_secrets env paths optional = Inr rows"
    and law: "\<And>ns e rs. sv_search env ns e = Inr rs \<Longrightarrow> sr_name ` set rs \<subseteq> set ns"
    and n: "n \<in> set paths" "CHR ''.'' \<notin> set n" "n \<notin> set optional"
  shows "\<exists>row\<in>set rows. sr_name row = n"
proof -
  define names where "names = remdups (map (\<lambda>p. fst (split_once (CHR ''.'') p)) paths)"
  let ?req = "filter (\<lambda>n. n \<notin> set optional) names"
  let ?found = "remdups (filter (\<lambda>n. n \<notin> set optional) (map sr_name rows))"
  from assms(1) have r: "sv_search env names (sv_environment env) = Inr rows" "length ?req = length ?found"
    by (auto simp: get_secrets_def names_def rbind_Inr_iff Let_def split: if_splits)
  have "set ?found \<subseteq> set ?req" using law [OF r(1)] by auto
  moreover have "distinct ?req" "distinct ?found" by (simp_all add: names_def)
  ultimately have found: "set ?found = set ?req"
    using r(2) by (metis List.finite_set card_subset_eq distinct_card)
  have "fst (split_once (CHR ''.'') n) = n" using n(2) by simp
  then have "n \<in> set ?req" using n(1,3) by (force simp: names_def)
  then have "n \<in> set ?found" unfolding found .
  then show ?thesis by auto
qed

lemma store_token_keys: "secret_keys s m \<subseteq> secret_keys (store_token declared tokens i s) m"
  by (auto simp: secret_keys_def store_token_def Let_def image_fst_dset split: sum.splits option.splits)

lemma oauth_loop_keys:
  "oauth_loop declared tokens is s f = ((s', f'), r) \<Longrightarrow> secret_keys s m \<subseteq> secret_keys s' m"
proof (induction declared tokens "is" s f rule: oauth_loop.induct)
  case (2 declared tokens i "is" s f)
  then show ?case
    using store_token_keys [of s m declared tokens i] by (auto simp: Let_def split: option.splits)
qed simp

lemma load_oauth_keys: "load_oauth env declared tokens s = Inr s' \<Longrightarrow> secret_keys s m \<subseteq> secret_keys s' m"
  by (auto simp: load_oauth_def Let_def split: if_splits sum.splits prod.splits option.splits dest: oauth_loop_keys)

section \<open>Environment variables\<close>

lemma flatten_entry:
  "rfold (flatten_one n) kvs flat = Inr f \<longleftrightarrow>
   distinct (map fst kvs) \<and> fst ` set kvs \<inter> fst ` set flat = {} \<and> f = flat @ kvs"
proof (induction kvs arbitrary: flat)
  case (Cons kv kvs)
  show ?case
  proof (cases "fst kv \<in> fst ` set flat")
    case True
    then show ?thesis by (auto simp: flatten_one_def)
  next
    case False
    then have "flatten_one n kv flat = Inr (flat @ [kv])"
      by (simp add: flatten_one_def dset_fresh)
    with False show ?thesis by (auto simp: Cons.IH)
  qed
qed auto

lemma flatten_entries:
  "rfold (\<lambda>(n, kvs). rfold (flatten_one n) kvs) secrets flat = Inr f \<longleftrightarrow>
   distinct (map fst (concat (map snd secrets))) \<and> fst ` set (concat (map snd secrets)) \<inter> fst ` set flat = {}
   \<and> f = flat @ concat (map snd secrets)"
proof (induction secrets arbitrary: flat)
  case (Cons e secrets)
  obtain n kvs where e: "e = (n, kvs)" by (cases e)
  show ?case
  proof (cases "distinct (map fst kvs) \<and> fst ` set kvs \<inter> fst ` set flat = {}")
    case True
    then have "rfold (flatten_one n) kvs flat = Inr (flat @ kvs)" by (simp add: flatten_entry)
    with True show ?thesis
      by (simp add: e Cons.IH image_Un Int_Un_distrib Int_Un_distrib2 del: set_concat) blast
  next
    case False
    then obtain x where "rfold (flatten_one n) kvs flat = Inl x"
      by (cases "rfold (flatten_one n) kvs flat") (auto simp: flatten_entry)
    with False show ?thesis by (auto simp: e)
  qed
qed auto

lemma flatten_secrets_iff:
  "flatten_secrets s = Inr f \<longleftrightarrow> distinct (map fst (concat (map snd s))) \<and> f = concat (map snd s)"
  by (simp add: flatten_secrets_def flatten_entries)

section \<open>The secrets of an action\<close>

lemma set_secrets_decrypted:
  fixes rows :: "secret_row list"
  assumes "set_secrets env key rows = Inr s" and "row \<in> set rows"
  shows "\<exists>kvs. sv_decrypt env key (sr_encrypted row) = Inr kvs"
proof -
  define f where "f = (\<lambda>(row :: secret_row) ctx. rbind (sv_decrypt env key (sr_encrypted row)) (\<lambda>kvs.
       Inr (foldl (\<lambda>c kv. add_secret (sr_name row) kv c) ctx kvs)) :: exn + secret_dict)"
  have "\<exists>kvs. sv_decrypt env key (sr_encrypted row) = Inr kvs"
    if "rfold f rs a = Inr b" "row \<in> set rs" for rs :: "secret_row list" and a b
    using that by (induction rs arbitrary: a) (auto simp: f_def rbind_Inr_iff)
  from this [of rows "[]" s] assms show ?thesis by (simp add: set_secrets_def f_def)
qed

lemma basic_names_in_paths:
  "n \<in> set (basic_names False declared) \<Longrightarrow>
   n \<in> set (remdups (basic_names False declared @ xs @ ys))"
  by simp

text \<open>C36: With a search that returns only secrets that were asked for: when the secrets of an action are returned, every basic secret that some declaration requires and none makes
  optional, and whose name has no dot, was found in the workspace and decrypted, and every key stored with it is
  available. The keys a declaration names are not checked, and OAuth secrets are not covered.\<close>

theorem required_secrets_loaded:
  assumes got: "get_action_secrets env exprs declared = Inr s"
    and law: "\<And>ns e rs. sv_search env ns e = Inr rs \<Longrightarrow> sr_name ` set rs \<subseteq> set ns"
    and n: "n \<in> set (basic_names False declared)" "n \<notin> set (basic_names True declared)" "CHR ''.'' \<notin> set n"
  shows "\<exists>names rows row key kvs. sv_search env names (sv_environment env) = Inr rows \<and> row \<in> set rows \<and> sr_name row = n
           \<and> sv_decrypt env key (sr_encrypted row) = Inr kvs \<and> fst ` set kvs \<subseteq> secret_keys s n"
proof -
  define paths where "paths = remdups (basic_names False declared @ filter (\<lambda>s. \<not> is_oauth_expr s) exprs @ basic_names True declared)"
  have np: "n \<in> set paths" unfolding paths_def by (rule basic_names_in_paths [OF n(1)])
  from got obtain b where b: "auth_sandbox env paths (basic_names True declared) = Inr b"
    "load_oauth env (oauth_declared declared) (oauth_tokens exprs) b = Inr s"
    by (auto simp: get_action_secrets_def Let_def rbind_Inr_iff paths_def)
  from b(1) np obtain key rows where k:
    "get_secrets env paths (basic_names True declared) = Inr rows" "set_secrets env key rows = Inr b"
    by (auto simp: auth_sandbox_def rbind_Inr_iff split: option.splits if_splits)
  from k(1) obtain names where names: "sv_search env names (sv_environment env) = Inr rows"
    by (auto simp: get_secrets_def Let_def rbind_Inr_iff split: if_splits)
  have "\<exists>row\<in>set rows. sr_name row = n"
    by (rule get_secrets_found [OF k(1) _ np n(3,2)]) (rule law)
  then obtain row where row: "row \<in> set rows" "sr_name row = n" by blast
  obtain kvs where kvs: "sv_decrypt env key (sr_encrypted row) = Inr kvs"
    using set_secrets_decrypted [OF k(2) row(1)] by blast
  have "fst ` set kvs \<subseteq> secret_keys s n"
    using set_secrets_keys [OF k(2) row(1) kvs] load_oauth_keys [OF b(2), of n] row(2) by blast
  with names row kvs show ?thesis by (intro exI conjI)
qed

definition demo_secrets_env :: secrets_env where
  "demo_secrets_env =
     \<lparr>sv_encryption_key = Some ''k'', sv_environment = ''default'',
      sv_search = (\<lambda>ns _. Inr (if ''slack'' \<in> set ns then [\<lparr>sr_name = ''slack'', sr_encrypted = ''x''\<rparr>] else [])),
      sv_decrypt = (\<lambda>_ _. Inr [(''TOKEN'', ''hunter2'')]), sv_integrations = (\<lambda>_. Inr [])\<rparr>"

theorem required_secrets_loaded_witness:
  "get_action_secrets demo_secrets_env [] [RegistrySecret ''slack'' (Some [''TOKEN'']) None False] = Inr [(''slack'', [(''TOKEN'', ''hunter2'')])]
   \<and> (\<exists>names rows row key kvs. sv_search demo_secrets_env names (sv_environment demo_secrets_env) = Inr rows \<and> row \<in> set rows \<and> sr_name row = ''slack''
        \<and> sv_decrypt demo_secrets_env key (sr_encrypted row) = Inr kvs \<and> fst ` set kvs \<subseteq> secret_keys [(''slack'', [(''TOKEN'', ''hunter2'')])] ''slack'')"
proof
  show g: "get_action_secrets demo_secrets_env [] [RegistrySecret ''slack'' (Some [''TOKEN'']) None False] = Inr [(''slack'', [(''TOKEN'', ''hunter2'')])]"
    by (simp add: get_action_secrets_def demo_secrets_env_def basic_names_def auth_sandbox_def get_secrets_def set_secrets_def
        add_secret_def load_oauth_def oauth_declared_def oauth_tokens_def Let_def)
  show "\<exists>names rows row key kvs. sv_search demo_secrets_env names (sv_environment demo_secrets_env) = Inr rows \<and> row \<in> set rows \<and> sr_name row = ''slack''
        \<and> sv_decrypt demo_secrets_env key (sr_encrypted row) = Inr kvs \<and> fst ` set kvs \<subseteq> secret_keys [(''slack'', [(''TOKEN'', ''hunter2'')])] ''slack''"
    by (rule required_secrets_loaded [OF g]) (auto simp: demo_secrets_env_def basic_names_def split: if_splits)
qed

text \<open>
  A failure to list the integrations is swallowed before the check of the required ones, so an action
  starts without the tokens it requires.
\<close>

lemma oauth_outage_ignored:
  assumes "auth_sandbox env (remdups (basic_names False declared @ filter (\<lambda>s. \<not> is_oauth_expr s) exprs @ basic_names True declared))
             (basic_names True declared) = Inr b"
    and "\<And>keys. sv_integrations env keys = Inl e" and "\<not> is_credentials_error e"
  shows "get_action_secrets env exprs declared = Inr b"
  using assms by (simp add: get_action_secrets_def load_oauth_def Let_def)

end
