(* ===== verification/Registry_Correct.thy ===== *)
theory Registry_Correct
  imports Registry
begin

text \<open>
  What the resolver promises: a manifest served by the cache belongs to the organization that asks
  or to the platform, whatever other organizations looked up before; the secrets collected for an
  action are exactly those declared by the actions its steps reach; and when nested templates end.
\<close>

section \<open>The cache and the organizations\<close>

lemma append_sep_inject:
  fixes c :: char
  assumes a: "c \<notin> set a" and b: "c \<notin> set b"
  shows "a @ c # s = b @ c # t \<longleftrightarrow> a = b \<and> s = t"
proof
  assume "a @ c # s = b @ c # t"
  then have "split_once c (a @ c # s) = split_once c (b @ c # t)" by simp
  with a b show "a = b \<and> s = t" by simp
qed simp

lemma append_last_sep_inject:
  fixes c :: char
  assumes "c \<notin> set v" and "c \<notin> set w"
  shows "s @ c # v = t @ c # w \<longleftrightarrow> s = t \<and> v = w"
proof -
  have "s @ c # v = t @ c # w \<longleftrightarrow> rev v @ c # rev s = rev w @ c # rev t"
    by (metis append.assoc append_Cons append_Nil rev.simps(2) rev_append rev_rev_ident)
  then show ?thesis using assms append_sep_inject [of c "rev v" "rev w" "rev s" "rev t"] by auto
qed

lemma manifest_cache_key_inject:
  assumes "CHR '':'' \<notin> set org" and "CHR '':'' \<notin> set org'" and "CHR '':'' \<notin> set v" and "CHR '':'' \<notin> set v'"
  shows "manifest_cache_key og v org = manifest_cache_key og' v' org' \<longleftrightarrow> og = og' \<and> v = v' \<and> org = org'"
  using assms append_sep_inject [of "CHR '':''" org org' "og @ CHR '':'' # v" "og' @ CHR '':'' # v'"]
    append_last_sep_inject [of "CHR '':''" v v' og og']
  by (auto simp: manifest_cache_key_def)

lemma fetch_registry_manifest_row:
  assumes "fetch_registry_manifest db origin version org = Inr m"
  shows "\<exists>v. v \<in> set (if origin = DEFAULT_REGISTRY_ORIGIN then platform_versions db else org_versions db)
           \<and> (origin = DEFAULT_REGISTRY_ORIGIN \<or> rv_org v = org) \<and> rv_version v = version \<and> rv_manifest v = Some m"
proof -
  from assms obtain v where v: "manifest_rows db origin version org = [v]" "rv_manifest v = Some m"
    by (auto simp: fetch_registry_manifest_def split: list.splits option.splits)
  then have "v \<in> set (manifest_rows db origin version org)" by simp
  with v(2) show ?thesis
    by (cases "origin = DEFAULT_REGISTRY_ORIGIN") (auto simp: manifest_rows_def intro!: exI [of _ v])
qed

definition cache_event_ok :: "registry_db list \<Rightarrow> manifest_cache \<Rightarrow> cache_event \<Rightarrow> bool" where
  "cache_event_ok dbs cache ev =
     (case ev of
        Lookup db _ version org \<Rightarrow> db \<in> set dbs \<and> CHR '':'' \<notin> set version \<and> CHR '':'' \<notin> set org
      | _ \<Rightarrow> True)"

definition manifest_cache_ok :: "registry_db list \<Rightarrow> manifest_cache \<Rightarrow> bool" where
  "manifest_cache_ok dbs cache \<longleftrightarrow>
     (\<forall>(k, e)\<in>set cache. \<exists>db\<in>set dbs. \<exists>og v org.
        CHR '':'' \<notin> set v \<and> CHR '':'' \<notin> set org \<and> k = manifest_cache_key og v org \<and> fetch_entry db og v org = Inr e)"

lemma manifest_cache_okI:
  assumes "manifest_cache_ok dbs cache" and "set cache' \<subseteq> insert (k, e) (set cache)"
    and "db \<in> set dbs" and "CHR '':'' \<notin> set v" and "CHR '':'' \<notin> set org"
    and "k = manifest_cache_key og v org" and "fetch_entry db og v org = Inr e"
  shows "manifest_cache_ok dbs cache'"
  using assms unfolding manifest_cache_ok_def by blast

lemma set_dset_subset: "set (dset k e m) \<subseteq> insert (k, e) (set m)"
  by (induction m) auto

lemma manifest_cache_step_ok:
  assumes ok: "manifest_cache_ok dbs cache" and ev: "cache_event_ok dbs cache ev"
  shows "manifest_cache_ok dbs (manifest_cache_step cache ev)"
proof (cases ev)
  case (Lookup db og v org)
  have l: "db \<in> set dbs" "CHR '':'' \<notin> set v" "CHR '':'' \<notin> set org"
    using ev Lookup by (simp_all add: cache_event_ok_def)
  show ?thesis
  proof (cases "dget cache (manifest_cache_key og v org)")
    case None
    then show ?thesis
      using ok Lookup manifest_cache_okI [OF ok set_dset_subset l refl]
      by (auto simp: get_manifest_entry_def split: sum.splits)
  next
    case (Some e)
    then show ?thesis using ok Lookup by (simp add: get_manifest_entry_def)
  qed
next
  case (ExpireEntry k)
  have "set (AList.delete k cache) \<subseteq> set cache" by (auto simp: AList.delete_eq)
  then show ?thesis using ok ExpireEntry by (auto simp: manifest_cache_ok_def)
next
  case ClearCache
  then show ?thesis by (simp add: manifest_cache_ok_def)
qed

interpretation manifest_cache: machine manifest_cache_step "manifest_cache_ok dbs" "cache_event_ok dbs" for dbs
  by unfold_locales (rule manifest_cache_step_ok)

lemma cached_entry_fetched:
  assumes "manifest_cache_ok dbs cache" and "db \<in> set dbs"
    and "CHR '':'' \<notin> set version" and "CHR '':'' \<notin> set org"
    and "get_manifest_entry db origin version org cache = (Inr e, cache')"
  shows "\<exists>db'\<in>set dbs. fetch_entry db' origin version org = Inr e"
proof (cases "dget cache (manifest_cache_key origin version org)")
  case None
  then show ?thesis using assms(2,5) by (auto simp: get_manifest_entry_def split: sum.splits)
next
  case (Some e')
  with assms(5) have "(manifest_cache_key origin version org, e) \<in> set cache"
    by (auto simp: get_manifest_entry_def dest: map_of_SomeD)
  with assms(1) obtain db' og v o' where d: "db' \<in> set dbs" "CHR '':'' \<notin> set v" "CHR '':'' \<notin> set o'"
    "manifest_cache_key origin version org = manifest_cache_key og v o'" "fetch_entry db' og v o' = Inr e"
    unfolding manifest_cache_ok_def by blast
  with assms(3,4) show ?thesis using manifest_cache_key_inject by metis
qed

text \<open>C27: Whatever sequence of lookups by any organizations, expiries and clearings came before, the
  manifest an organization is served for an origin other than the platform's stems from a version
  row of that organization (in one of the states of the tables), for exactly the version it asked.
\<close>
theorem manifest_cache_isolation:
  assumes "legal manifest_cache_step (cache_event_ok dbs) [] events"
    and "db \<in> set dbs" and "CHR '':'' \<notin> set version" and "CHR '':'' \<notin> set org"
    and "get_manifest_entry db origin version org (foldl manifest_cache_step [] events) = (Inr (m, idx), cache')"
  shows "\<exists>db'\<in>set dbs. \<exists>v. v \<in> set (if origin = DEFAULT_REGISTRY_ORIGIN then platform_versions db' else org_versions db')
           \<and> (origin = DEFAULT_REGISTRY_ORIGIN \<or> rv_org v = org) \<and> rv_version v = version
           \<and> rv_manifest v = Some m \<and> idx = build_impl_index m origin"
proof -
  have "manifest_cache_ok dbs (foldl manifest_cache_step [] events)"
    using assms(1) by (intro manifest_cache.run_inv) (simp_all add: manifest_cache_ok_def)
  from cached_entry_fetched [OF this assms(2-5)] obtain db' where
    d: "db' \<in> set dbs" "fetch_entry db' origin version org = Inr (m, idx)" by blast
  then have f: "fetch_registry_manifest db' origin version org = Inr m" "idx = build_impl_index m origin"
    by (auto simp: fetch_entry_def rbind_Inr_iff)
  from fetch_registry_manifest_row [OF f(1)] d(1) f(2) show ?thesis by blast
qed

section \<open>Collecting the secrets of steps\<close>

definition declared_secrets :: "manifest_action \<Rightarrow> rsecret set" where
  "declared_secrets ma =
     (case ma_body ma of
        UdfBody _ _ \<Rightarrow> (case ma_secrets ma of Some ss \<Rightarrow> set ss | None \<Rightarrow> {})
      | TemplateBody t \<Rightarrow> (case td_secrets t of Some ss \<Rightarrow> set ss | None \<Rightarrow> {}))"

text \<open>One manifest action calls another as a step.\<close>

definition step_call :: "entries \<Rightarrow> registry_lock \<Rightarrow> manifest_action \<Rightarrow> manifest_action \<Rightarrow> bool" where
  "step_call entry lock ma ma' \<longleftrightarrow>
     (\<exists>t s. ma_body ma = TemplateBody t \<and> s \<in> set (td_steps t) \<and>
        step_manifest_action entry lock (st_action s) = Inr (Some ma'))"

inductive step_reaches :: "entries \<Rightarrow> registry_lock \<Rightarrow> manifest_action \<Rightarrow> manifest_action \<Rightarrow> bool"
  for entry lock where
  reaches_self: "step_reaches entry lock ma ma"
| reaches_step: "step_call entry lock ma ma' \<Longrightarrow> step_reaches entry lock ma' ma'' \<Longrightarrow> step_reaches entry lock ma ma''"

text \<open>The body of the loop over the steps of a template.\<close>

definition collect_step :: "nat \<Rightarrow> entries \<Rightarrow> registry_lock \<Rightarrow> step \<Rightarrow> rsecret list \<Rightarrow> exn + rsecret list" where
  "collect_step n entry lock s acc =
     rbind (step_manifest_action entry lock (st_action s)) (\<lambda>r. case r of
       None \<Rightarrow> Inr acc | Some ma' \<Rightarrow> collect_secrets n entry lock ma' acc)"

lemma collect_secrets_template:
  "ma_body ma = TemplateBody t \<Longrightarrow>
   collect_secrets (Suc n) entry lock ma acc = rfold (collect_step n entry lock) (td_steps t) (set_update (td_secrets t) acc)"
  by (simp add: collect_step_def [abs_def])

lemma set_set_update: "set (set_update new acc) = set acc \<union> (case new of Some ss \<Rightarrow> set ss | None \<Rightarrow> {})"
  by (simp add: set_update_def split: option.splits)

lemma step_reaches_unfold:
  "step_reaches entry lock ma x \<longleftrightarrow> ma = x \<or> (\<exists>ma'. step_call entry lock ma ma' \<and> step_reaches entry lock ma' x)"
  by (subst step_reaches.simps) blast

lemma reached_secrets_udf:
  "ma_body ma = UdfBody m n \<Longrightarrow> {s. \<exists>x. step_reaches entry lock ma x \<and> s \<in> declared_secrets x} = declared_secrets ma"
  by (subst step_reaches_unfold) (auto simp: step_call_def)

lemma collect_secrets_set:
  "collect_secrets n entry lock ma acc = Inr ss \<Longrightarrow>
   set ss = set acc \<union> {s. \<exists>x. step_reaches entry lock ma x \<and> s \<in> declared_secrets x}"
proof (induction n arbitrary: ma acc ss)
  case 0
  then show ?case by simp
next
  case (Suc n)
  let ?R = "\<lambda>ma. {s. \<exists>x. step_reaches entry lock ma x \<and> s \<in> declared_secrets x}"
  show ?case
  proof (cases "ma_body ma")
    case (UdfBody m f)
    then have "ss = set_update (ma_secrets ma) acc" using Suc.prems by simp
    with reached_secrets_udf [OF UdfBody, of entry lock] UdfBody show ?thesis
      by (simp add: set_set_update declared_secrets_def)
  next
    case (TemplateBody t)
    let ?f = "collect_step n entry lock"
    have step: "set b = set a \<union> \<Union> {?R ma' |ma'. step_manifest_action entry lock (st_action s) = Inr (Some ma')}"
      if s: "?f s a = Inr b" for s a b
      using s Suc.IH by (cases "step_manifest_action entry lock (st_action s)")
        (auto simp: collect_step_def split: option.splits)
    have fold: "set b = set a \<union> \<Union> {?R ma' |s ma'. s \<in> set xs \<and> step_manifest_action entry lock (st_action s) = Inr (Some ma')}"
      if r: "rfold ?f xs a = Inr b" for xs a b
      using r
    proof (induction xs arbitrary: a)
      case (Cons x xs)
      then obtain c where c: "?f x a = Inr c" "rfold ?f xs c = Inr b" by (auto simp: rbind_Inr_iff)
      show ?case unfolding Cons.IH [OF c(2)] step [OF c(1)] by (simp; blast)
    qed simp
    from Suc.prems have "rfold ?f (td_steps t) (set_update (td_secrets t) acc) = Inr ss"
      by (simp only: collect_secrets_template [OF TemplateBody])
    from fold [OF this] have "set ss = set acc \<union> declared_secrets ma \<union> \<Union> {?R ma' |ma'. step_call entry lock ma ma'}"
      using TemplateBody by (auto simp: set_set_update declared_secrets_def step_call_def)
    moreover have "?R ma = declared_secrets ma \<union> \<Union> {?R ma' |ma'. step_call entry lock ma ma'}"
      by (subst step_reaches_unfold) blast
    ultimately show ?thesis by auto
  qed
qed

text \<open>C39: The secrets collected for an action are exactly those declared by the action itself and by the
  actions its steps reach, at any depth, through the registry lock.
\<close>
theorem collected_secrets_exact:
  assumes "collect_action_secrets n entry lock a = Inr ss"
  shows "\<exists>m idx ma. locked_entry entry lock a = Inr (m, idx) \<and> dget m a = Some ma \<and>
           set ss = {s. \<exists>x. step_reaches entry lock ma x \<and> s \<in> declared_secrets x}"
proof -
  from assms obtain m idx ma where m: "locked_entry entry lock a = Inr (m, idx)" "dget m a = Some ma"
    "collect_secrets n entry lock ma [] = Inr ss"
    by (auto simp: collect_action_secrets_def rbind_Inr_iff split: option.splits)
  from collect_secrets_set [OF m(3)] have "set ss = {s. \<exists>x. step_reaches entry lock ma x \<and> s \<in> declared_secrets x}"
    by simp
  with m(1,2) show ?thesis by (intro exI conjI)
qed

section \<open>Nested templates\<close>

text \<open>Recursion stops when the calls decrease a rank, and never when a template keeps calling.\<close>

lemma collect_secrets_total:
  assumes rank: "\<And>ma ma'. step_call entry lock ma ma' \<Longrightarrow> r ma' < r ma"
    and reg: "\<And>og v e. entry og v = Inl e \<Longrightarrow> is_registry_error e"
    and "r ma < n"
  shows "\<exists>ss. collect_secrets n entry lock ma acc = Inr ss"
  using assms(3)
proof (induction n arbitrary: ma acc)
  case 0
  then show ?case by simp
next
  case (Suc n)
  show ?case
  proof (cases "ma_body ma")
    case (UdfBody m f)
    then show ?thesis by simp
  next
    case (TemplateBody t)
    let ?f = "collect_step n entry lock"
    have ok: "\<exists>q. step_manifest_action entry lock b = Inr q" for b
      using reg by (fastforce simp: step_manifest_action_def split: option.splits sum.splits)
    have "\<exists>b. ?f s a = Inr b" if s: "s \<in> set (td_steps t)" for s a
    proof -
      obtain q where q: "step_manifest_action entry lock (st_action s) = Inr q" using ok by blast
      show ?thesis
      proof (cases q)
        case (Some ma')
        then have "step_call entry lock ma ma'" using TemplateBody s q unfolding step_call_def by blast
        then have "r ma' < n" using rank [of ma ma'] Suc.prems by simp
        from Suc.IH [OF this] q Some show ?thesis by (simp add: collect_step_def)
      qed (simp add: collect_step_def q)
    qed
    from rfold_total [of "td_steps t" ?f, OF this] show ?thesis
      by (simp only: collect_secrets_template [OF TemplateBody])
  qed
qed

lemma collect_secrets_loops:
  assumes "ma \<in> C"
    and "\<And>ma. ma \<in> C \<Longrightarrow> \<exists>t s rest ma'. ma_body ma = TemplateBody t \<and> td_steps t = s # rest \<and>
            step_manifest_action entry lock (st_action s) = Inr (Some ma') \<and> ma' \<in> C"
  shows "collect_secrets n entry lock ma acc = Inl recursion_error"
  using assms(1)
proof (induction n arbitrary: ma acc)
  case 0
  then show ?case by simp
next
  case (Suc n)
  from assms(2) [OF Suc.prems] obtain t s rest ma' where
    t: "ma_body ma = TemplateBody t" "td_steps t = s # rest"
       "step_manifest_action entry lock (st_action s) = Inr (Some ma')" "ma' \<in> C" by blast
  with Suc.IH [OF t(4)] show ?case by simp
qed

section \<open>Instances\<close>

text \<open>Two organizations with different manifests for one origin and version.\<close>

definition tenant_manifest :: "string \<Rightarrow> registry_manifest" where
  "tenant_manifest f = [(''tools.run'', \<lparr>ma_body = UdfBody ''tools'' f, ma_secrets = Some [RegistrySecret f None (Some []) False]\<rparr>)]"

definition demo_tenants :: registry_db where
  "demo_tenants =
     \<lparr>platform_repos = [], platform_versions = [],
      org_repos = [\<lparr>rr_id = ''r1'', rr_org = ''acme'', rr_origin = ''git''\<rparr>, \<lparr>rr_id = ''r2'', rr_org = ''globex'', rr_origin = ''git''\<rparr>],
      org_versions = [\<lparr>rv_repo = ''r1'', rv_org = ''acme'', rv_version = ''1'', rv_manifest = Some (tenant_manifest ''a'')\<rparr>,
                      \<lparr>rv_repo = ''r2'', rv_org = ''globex'', rv_version = ''1'', rv_manifest = Some (tenant_manifest ''b'')\<rparr>]\<rparr>"

theorem manifest_cache_isolation_witness:
  "\<exists>db'\<in>set [demo_tenants]. \<exists>v. v \<in> set (if ''git'' = DEFAULT_REGISTRY_ORIGIN then platform_versions db' else org_versions db')
      \<and> (''git'' = DEFAULT_REGISTRY_ORIGIN \<or> rv_org v = ''globex'') \<and> rv_version v = ''1''
      \<and> rv_manifest v = Some (tenant_manifest ''b'') \<and> build_impl_index (tenant_manifest ''b'') ''git'' = build_impl_index (tenant_manifest ''b'') ''git''"
proof (rule manifest_cache_isolation)
  show "legal manifest_cache_step (cache_event_ok [demo_tenants]) [] [Lookup demo_tenants ''git'' ''1'' ''acme'']"
    by (simp add: cache_event_ok_def)
  show "get_manifest_entry demo_tenants ''git'' ''1'' ''globex'' (foldl manifest_cache_step [] [Lookup demo_tenants ''git'' ''1'' ''acme'']) =
      (Inr (tenant_manifest ''b'', build_impl_index (tenant_manifest ''b'') ''git''),
       snd (get_manifest_entry demo_tenants ''git'' ''1'' ''globex'' (foldl manifest_cache_step [] [Lookup demo_tenants ''git'' ''1'' ''acme''])))"
    by code_simp
qed simp_all

definition wrapper_manifest :: registry_manifest where
  "wrapper_manifest = tenant_manifest ''a'' @
     [(''t.wrap'', \<lparr>ma_body = TemplateBody \<lparr>td_namespace = ''t'', td_name = ''wrap'', td_secrets = None, td_expects = [],
        td_steps = [\<lparr>st_ref = ''s'', st_action = ''tools.run'', st_args = []\<rparr>], td_returns = JNull\<rparr>, ma_secrets = None\<rparr>)]"

definition wrapper_entry :: entries where
  "wrapper_entry og v = Inr (wrapper_manifest, build_impl_index wrapper_manifest og)"

definition wrapper_lock :: registry_lock where
  "wrapper_lock = \<lparr>lk_origins = [(''git'', ''1'')], lk_actions = [(''tools.run'', ''git''), (''t.wrap'', ''git'')]\<rparr>"

theorem collected_secrets_exact_witness:
  "collect_action_secrets 3 wrapper_entry wrapper_lock ''t.wrap'' = Inr [RegistrySecret ''a'' None (Some []) False]
   \<and> (\<exists>m idx ma. locked_entry wrapper_entry wrapper_lock ''t.wrap'' = Inr (m, idx) \<and> dget m ''t.wrap'' = Some ma \<and>
        set [RegistrySecret ''a'' None (Some []) False] = {s. \<exists>x. step_reaches wrapper_entry wrapper_lock ma x \<and> s \<in> declared_secrets x})"
proof
  show c: "collect_action_secrets 3 wrapper_entry wrapper_lock ''t.wrap'' = Inr [RegistrySecret ''a'' None (Some []) False]"
    by code_simp
  show "\<exists>m idx ma. locked_entry wrapper_entry wrapper_lock ''t.wrap'' = Inr (m, idx) \<and> dget m ''t.wrap'' = Some ma \<and>
        set [RegistrySecret ''a'' None (Some []) False] = {s. \<exists>x. step_reaches wrapper_entry wrapper_lock ma x \<and> s \<in> declared_secrets x}"
    by (rule collected_secrets_exact [OF c])
qed

end
