(* ===== verification/Executor_Correct.thy ===== *)
theory Executor_Correct
  imports Executor Secrets_Correct Registry_Correct
begin

text \<open>
  What the executor promises: a masked result contains no secret, nested templates end when their
  calls descend, the results of a loop come in order and its failures are collected, and a failure
  reaches the workflow with the reference and stream of its action.
\<close>

section \<open>Outcomes of an invocation\<close>

lemma invoke_once_cases:
  assumes "invoke_once env role input it = Inr v"
  shows "\<exists>rc masks w. prepare_resolved_context env role input = Inr (rc, masks) \<and>
           v = (case masks of Some ms \<Rightarrow> if ms = [] then w else apply_masks_object w (xe_set_order env ms) | None \<Rightarrow> w)"
  using assms
  by (auto simp: invoke_once_def invocation_def rbind_Inr_iff split: option.splits sum.splits elim!: lift.elims)

lemma prepare_masks:
  "prepare_resolved_context env role input = Inr (rc, masks) \<Longrightarrow>
   masks = (if xe_masking env then Some (mask_values (xe_show env) (secrets_json (rc_secrets rc))) else None)"
  by (auto simp: prepare_resolved_context_def rbind_Inr_iff Let_def split: option.splits prod.splits)

lemma invocation_failure_execution: "is_execution (invocation_failure env it input e)"
  by (simp add: invocation_failure_def split: xerr.splits)

lemma invoke_once_failure:
  assumes "ro_org role = Some org" and "prefetch_lock (xe_entry env org) (ri_lock input) = None"
    and "invoke_once env role input it = Inl e"
  shows "\<exists>x. e = XExec x \<and> (\<forall>k. it = Some k \<longrightarrow> xi_iteration (ee_info x) = Some k)"
proof -
  from assms obtain e' where "e = invocation_failure env it input e'"
    by (auto simp: invoke_once_def split: sum.splits)
  then show ?thesis
    by (cases e') (auto simp: invocation_failure_def loop_info_def execution_error_def)
qed

section \<open>Masking\<close>

lemma secret_leaf:
  assumes "(n, d) \<in> set ss" and "(k, v) \<in> set d"
  shows "\<exists>p. (p, JStr v) \<in> set (traverse_leaves [] (secrets_json ss))"
  using assms by (force simp: secrets_json_def)

lemma secret_leaf_iff:
  "(p, v) \<in> set (traverse_leaves [] (secrets_json ss)) \<Longrightarrow> \<exists>n d k s. (n, d) \<in> set ss \<and> (k, s) \<in> set d \<and> v = JStr s"
  by (auto simp: secrets_json_def) blast

lemma mask_values_secrets:
  assumes "m \<in> set (mask_values show (secrets_json ss))"
  shows "\<exists>n d k. (n, d) \<in> set ss \<and> (k, m) \<in> set d"
proof -
  from assms obtain p v where v: "(p, v) \<in> set (traverse_leaves [] (secrets_json ss))"
    "m = (case v of JStr s \<Rightarrow> s | _ \<Rightarrow> show v)"
    by (auto simp: mask_values_def)
  from secret_leaf_iff [OF v(1)] obtain n d k s where "(n, d) \<in> set ss" "(k, s) \<in> set d" "v = JStr s" by blast
  with v(2) show ?thesis by (intro exI conjI) simp_all
qed

text \<open>C3: With masking on, no string value in the result of an action, at any depth, contains a secret value of two
  or more characters that was loaded for it, in whatever order the set of masks is enumerated, provided no loaded
  secret contains the character of the mask. The keys of dictionaries are not masked.\<close>

theorem masked_result_hides_secrets:
  assumes run: "invoke_once env role input it = Inr v"
    and masking: "xe_masking env"
    and order: "\<And>xs. set (xe_set_order env xs) = set xs"
    and prep: "prepare_resolved_context env role input = Inr (rc, masks)"
    and star: "\<And>n d k s. (n, d) \<in> set (rc_secrets rc) \<Longrightarrow> (k, s) \<in> set d \<Longrightarrow> CHR ''*'' \<notin> set s"
    and secret: "(n, d) \<in> set (rc_secrets rc)" "(k, s) \<in> set d" "length s > 1"
    and leaf: "(p, JStr t) \<in> set (traverse_leaves [] v)"
  shows "\<not> sublist s t"
proof -
  let ?ms = "mask_values (xe_show env) (secrets_json (rc_secrets rc))"
  obtain q where "(q, JStr s) \<in> set (traverse_leaves [] (secrets_json (rc_secrets rc)))"
    using secret_leaf [OF secret(1,2)] by blast
  from mask_values_secret [OF this secret(3)] have s: "s \<in> set ?ms" .
  then have ne: "?ms \<noteq> []" by auto
  obtain w where "v = apply_masks_object w (xe_set_order env ?ms)"
    using invoke_once_cases [OF run] prep prepare_masks [OF prep] masking ne by auto
  with leaf have l: "(p, JStr t) \<in> set (traverse_leaves [] (apply_masks_object w (xe_set_order env ?ms)))" by simp
  show ?thesis
  proof (rule masked_object_hides [OF l])
    fix m
    assume "m \<in> set (xe_set_order env ?ms)"
    then have "m \<in> set ?ms" by (simp add: order)
    with star mask_values_secrets show "CHR ''*'' \<notin> set m" by blast
  qed (use s secret(3) in \<open>simp_all add: order\<close>)
qed

section \<open>Nested templates\<close>

text \<open>One implementation calls another as a step.\<close>

definition impl_call :: "entries \<Rightarrow> registry_lock \<Rightarrow> action_impl \<Rightarrow> action_impl \<Rightarrow> bool" where
  "impl_call entry lock impl impl' \<longleftrightarrow>
     (\<exists>t s. ai_template impl = Some t \<and> s \<in> set (td_steps t) \<and> resolve_action entry lock (st_action s) = Inr impl')"

lemma rfold_cong:
  assumes "\<And>x s. x \<in> set xs \<Longrightarrow> f x s = g x s"
  shows "rfold f xs s = rfold g xs s"
  using assms
proof (induction xs arbitrary: s)
  case Nil
  then show ?case by simp
next
  case (Cons x xs)
  then show ?case by (cases "f x s") auto
qed

lemma prepare_step_impl:
  "prepare_step_context env role input parent a args = Inr rc \<Longrightarrow>
   \<exists>org. ro_org role = Some org \<and> resolve_action (xe_entry env org) (ri_lock input) a = Inr (rc_impl rc)"
  by (auto simp: prepare_step_context_def rbind_Inr_iff split: option.splits)

lemma run_template_step_cong:
  assumes "\<And>p rc'. (\<exists>org. ro_org role = Some org \<and>
       resolve_action (xe_entry env org) (ri_lock input) (st_action (snd ks)) = Inr (rc_impl rc')) \<Longrightarrow> f p rc' = g p rc'"
  shows "run_template_step f env role input path rc inputs ks steps = run_template_step g env role input path rc inputs ks steps"
proof -
  show ?thesis
  proof (cases "rbind (xe_eval env (rc_time rc) (JObj (st_args (snd ks))) (template_context input rc inputs steps)) as_args")
    case (Inl e)
    then show ?thesis by (simp add: run_template_step_def Let_def)
  next
    case args: (Inr args)
    show ?thesis
    proof (cases "prepare_step_context env role input rc (st_action (snd ks)) args")
      case (Inl e)
      with args show ?thesis by (simp add: run_template_step_def Let_def)
    next
      case (Inr rc')
      have "f (path @ [fst ks]) rc' = g (path @ [fst ks]) rc'"
        by (rule assms) (rule prepare_step_impl [OF Inr])
      with args Inr show ?thesis by (simp add: run_template_step_def Let_def)
    qed
  qed
qed

lemma invoke_step_template:
  "ai_type (rc_impl rc) = ''template'' \<Longrightarrow>
   invoke_step (Suc n) env role input path rc = execute_template_action (invoke_step n env role input) env role input path rc"
  by simp

text \<open>When the calls from templates to the actions of their steps decrease a rank, the number of nested
  calls the interpreter allows does not matter as soon as it exceeds the rank of the action: two
  runs with enough of it have the same outcome, so no run ends for want of stack.
\<close>
lemma ranked_templates_bounded:
  assumes org: "ro_org role = Some org"
    and rank: "\<And>impl impl'. impl_call (xe_entry env org) (ri_lock input) impl impl' \<Longrightarrow> r impl' < r impl"
    and "r (rc_impl rc) < n" and "r (rc_impl rc) < m"
  shows "invoke_step n env role input path rc = invoke_step m env role input path rc"
  using assms(3,4)
proof (induction n arbitrary: m path rc)
  case 0
  then show ?case by simp
next
  case (Suc n)
  then obtain m' where m: "m = Suc m'" by (cases m) auto
  let ?f = "invoke_step n env role input" and ?g = "invoke_step m' env role input"
  show ?case
  proof (cases "ai_type (rc_impl rc) = ''template''")
    case False
    with m show ?thesis by simp
  next
    case True
    have same: "run_template_step ?f env role input path rc inputs ks steps = run_template_step ?g env role input path rc inputs ks steps"
      if t: "ai_template (rc_impl rc) = Some t" and ks: "ks \<in> set (zip [0..<length (td_steps t)] (td_steps t))" for t inputs ks steps
    proof (rule run_template_step_cong)
      fix p and rc' :: resolved
      assume "\<exists>org. ro_org role = Some org \<and>
         resolve_action (xe_entry env org) (ri_lock input) (st_action (snd ks)) = Inr (rc_impl rc')"
      moreover have "snd ks \<in> set (td_steps t)" using ks set_zip_rightD [of "fst ks" "snd ks"] by simp
      ultimately have "impl_call (xe_entry env org) (ri_lock input) (rc_impl rc) (rc_impl rc')"
        using org t unfolding impl_call_def by auto
      from rank [OF this] Suc.prems m show "?f p rc' = ?g p rc'" by (intro Suc.IH) simp_all
    qed
    have "rfold (run_template_step ?f env role input path rc inputs) (zip [0..<length (td_steps t)] (td_steps t)) [] =
          rfold (run_template_step ?g env role input path rc inputs) (zip [0..<length (td_steps t)] (td_steps t)) []"
      if "ai_template (rc_impl rc) = Some t" for t inputs
      using that by (intro rfold_cong same)
    then have "execute_template_action ?f env role input path rc = execute_template_action ?g env role input path rc"
      by (cases "ai_template (rc_impl rc)") (simp_all add: execute_template_action_def)
    with True m show ?thesis by (simp only: invoke_step_template)
  qed
qed

text \<open>Templates that call each other pass the validation of their definitions, which only looks for a
  template that is its own step, but no run of them returns: collecting their secrets exhausts the
  stack, whatever its depth, and the run fails with a \<open>RecursionError\<close>.
\<close>
lemma mutual_templates_fail:
  assumes org: "ro_org role = Some org" and pre: "prefetch_lock (xe_entry env org) (ri_lock input) = None"
    and impl: "resolve_action (xe_entry env org) (ri_lock input) (stmt_action (ri_task input)) = Inr impl"
    and entry: "locked_entry (xe_entry env org) (ri_lock input) (stmt_action (ri_task input)) = Inr (mf, idx)"
    and action: "dget mf (stmt_action (ri_task input)) = Some ma" "ma \<in> C"
    and cycle: "\<And>ma. ma \<in> C \<Longrightarrow> \<exists>t s rest ma'. ma_body ma = TemplateBody t \<and> td_steps t = s # rest \<and>
            step_manifest_action (xe_entry env org) (ri_lock input) (st_action s) = Inr (Some ma') \<and> ma' \<in> C"
  shows "\<exists>x. invoke_once env role input it = Inl (XExec x) \<and> xi_type (ee_info x) = ''RecursionError''"
proof -
  have "collect_action_secrets (xe_depth env) (xe_entry env org) (ri_lock input) (stmt_action (ri_task input)) = Inl recursion_error"
    using entry action collect_secrets_loops [OF action(2) cycle] by (simp add: collect_action_secrets_def)
  then have "prepare_resolved_context env role input = Inl recursion_error"
    using org impl by (simp add: prepare_resolved_context_def Let_def)
  then have "invocation env role input it = Inl (XPlain recursion_error)"
    by (simp add: invocation_def)
  then show ?thesis
    using org pre by (auto simp: invoke_once_def invocation_failure_def execution_error_def from_exc_def loop_info_def
        recursion_error_def split: option.splits)
qed

section \<open>Loops over an action\<close>

lemma loop_contexts_rows:
  assumes "dget base ''var'' = None" and "loop_contexts rows base = Inr ctxs" and "i < length rows"
  shows "length ctxs = length rows \<and> patch_items (rows ! i) base = Inr (ctxs ! i)"
  using assms by (auto simp: loop_contexts_def dest: rmap_Inr_length rmap_Inr_nth)

lemma loop_outcomes_nth:
  "i < length ctxs \<Longrightarrow> loop_outcomes env role input ctxs ! i = invoke_once env role (input\<lparr>ri_context := ctxs ! i\<rparr>) (Some i)"
  by (simp add: loop_outcomes_def)

lemma length_loop_outcomes [simp]: "length (loop_outcomes env role input ctxs) = length ctxs"
  by (simp add: loop_outcomes_def)

lemma rmap_collect: "rmap (\<lambda>r. r) rs = Inr vs \<longleftrightarrow> rs = map Inr vs"
proof (induction rs arbitrary: vs)
  case Nil
  then show ?case by auto
next
  case (Cons r rs)
  show ?case
  proof (cases r)
    case (Inr x)
    with Cons show ?thesis by (cases vs) (auto simp: rbind_Inr_iff)
  qed auto
qed

lemma rmap_collect_error: "rmap (\<lambda>r. r) rs = Inl e \<Longrightarrow> \<exists>r\<in>set rs. isl r"
proof (induction rs)
  case (Cons r rs)
  then show ?case by (cases r) (auto simp: rbind_Inl_iff)
qed simp

lemma handle_group_executions:
  assumes "es \<noteq> []"
  shows "handle_group a (map XExec es) = XLoop es"
proof -
  have "concat (map (\<lambda>e. case e of XExec x \<Rightarrow> [x] | _ \<Rightarrow> []) (map XExec es)) = es"
    by (induction es) simp_all
  moreover have "filter (\<lambda>e. \<not> is_execution e) (map XExec es) = []"
    by (induction es) simp_all
  ultimately show ?thesis using assms by (simp add: handle_group_def Let_def)
qed

lemma ended_errors_map:
  assumes "\<And>i. i \<in> set ended \<Longrightarrow> i < length rs \<and> rs ! i = Inl (f i)"
  shows "ended_errors rs ended = map f ended"
  using assms by (induction ended) (auto simp: ended_errors_def)

text \<open>C24: In a loop over an action whose registry lock can be fetched, iteration \<open>i\<close> runs in the base context
  patched with row \<open>i\<close>. If no iteration fails the results come in the order of the rows; otherwise the
  loop fails with a \<open>LoopExecutionError\<close> that has exactly the errors raised before the cancellation,
  in that order, each with the number of its iteration.
\<close>
theorem loop_dispatch_outcome:
  assumes org: "ro_org role = Some org" and pre: "prefetch_lock (xe_entry env org) (ri_lock input) = None"
    and loop: "truthy (stmt_for_each (ri_task input))"
      "xe_iterators env (stmt_for_each (ri_task input)) (ri_context input) = Inr its"
      "dget (ri_context input) ''var'' = None"
      "loop_contexts (loop_items its) (ri_context input) = Inr ctxs"
    and ended: "possible_ends (loop_outcomes env role input ctxs) ended"
  defines "run \<equiv> \<lambda>i. invoke_once env role (input\<lparr>ri_context := ctxs ! i\<rparr>) (Some i)"
  shows "length ctxs = length (loop_items its)
    \<and> (\<forall>i<length ctxs. patch_items (loop_items its ! i) (ri_context input) = Inr (ctxs ! i))
    \<and> (case dispatch_action env (Some role) input ended of
         Inr v \<Rightarrow> \<exists>vs. v = JArr vs \<and> length vs = length ctxs \<and> (\<forall>i<length ctxs. run i = Inr (vs ! i))
       | Inl e \<Rightarrow> \<exists>es. e = XLoop es \<and> es \<noteq> [] \<and> length es = length ended
             \<and> (\<forall>j<length es. ended ! j < length ctxs \<and> run (ended ! j) = Inl (XExec (es ! j)) \<and> xi_iteration (ee_info (es ! j)) = Some (ended ! j)))"
proof (intro conjI)
  show len: "length ctxs = length (loop_items its)"
    using loop(3,4) by (auto simp: loop_contexts_def dest: rmap_Inr_length)
  show "\<forall>i<length ctxs. patch_items (loop_items its ! i) (ri_context input) = Inr (ctxs ! i)"
    using loop_contexts_rows [OF loop(3,4)] len by simp
  let ?rs = "loop_outcomes env role input ctxs"
  show "case dispatch_action env (Some role) input ended of
         Inr v \<Rightarrow> \<exists>vs. v = JArr vs \<and> length vs = length ctxs \<and> (\<forall>i<length ctxs. run i = Inr (vs ! i))
       | Inl e \<Rightarrow> \<exists>es. e = XLoop es \<and> es \<noteq> [] \<and> length es = length ended
             \<and> (\<forall>j<length es. ended ! j < length ctxs \<and> run (ended ! j) = Inl (XExec (es ! j)) \<and> xi_iteration (ee_info (es ! j)) = Some (ended ! j))"
  proof (cases "rmap (\<lambda>r. r) ?rs")
    case (Inr vs)
    then have rs: "?rs = map Inr vs" by (simp only: rmap_collect)
    then have lv: "length vs = length ctxs" by (metis length_loop_outcomes length_map)
    have "run i = Inr (vs ! i)" if i: "i < length ctxs" for i
      using loop_outcomes_nth [OF i, of env role input] i lv unfolding rs run_def by simp
    moreover have "dispatch_action env (Some role) input ended = Inr (JArr vs)"
      using loop Inr by (simp add: dispatch_action_def Let_def)
    ultimately show ?thesis using lv by simp
  next
    case (Inl e)
    then have "ended \<noteq> []"
      using ended rmap_collect_error [OF Inl] by (auto simp: possible_ends_def list_all_iff)
    have ex: "\<exists>x. ?rs ! i = Inl (XExec x) \<and> xi_iteration (ee_info x) = Some i" if i: "i \<in> set ended" for i
    proof -
      have il: "i < length ctxs" "isl (?rs ! i)"
        using ended i by (auto simp: possible_ends_def list_all_iff)
      then obtain e' where "invoke_once env role (input\<lparr>ri_context := ctxs ! i\<rparr>) (Some i) = Inl e'"
        using loop_outcomes_nth [OF il(1)] by (metis isl_def)
      with invoke_once_failure [OF org, of env "input\<lparr>ri_context := ctxs ! i\<rparr>" "Some i"] pre
        loop_outcomes_nth [OF il(1)] show ?thesis by fastforce
    qed
    define f where "f = (\<lambda>i. SOME x. ?rs ! i = Inl (XExec x) \<and> xi_iteration (ee_info x) = Some i)"
    have f: "?rs ! i = Inl (XExec (f i)) \<and> xi_iteration (ee_info (f i)) = Some i" if "i \<in> set ended" for i
      using someI_ex [OF ex [OF that]] unfolding f_def .
    have ls: "i < length ctxs" if "i \<in> set ended" for i
      using ended that by (auto simp: possible_ends_def list_all_iff)
    have "ended_errors ?rs ended = map XExec (map f ended)"
      using f ls by (subst ended_errors_map [where f = "\<lambda>i. XExec (f i)"]) simp_all
    then have "dispatch_action env (Some role) input ended = Inl (XLoop (map f ended))"
      using loop Inl \<open>ended \<noteq> []\<close> handle_group_executions [of "map f ended"]
      by (simp add: dispatch_action_def Let_def del: map_map)
    moreover have "run (ended ! j) = Inl (XExec (f (ended ! j)))" if "j < length ended" for j
      using f [of "ended ! j"] ls [of "ended ! j"] that loop_outcomes_nth unfolding run_def by fastforce
    ultimately show ?thesis using \<open>ended \<noteq> []\<close> f ls by simp
  qed
qed

section \<open>Failures in the workflow\<close>

lemma sublist_between: "s = a @ m @ b \<Longrightarrow> sublist m s"
  by (auto simp: sublist_def)

lemma failure_message_contains: "sublist (xi_message i) (info_str dumps i)"
proof (cases "xi_iteration i")
  case None
  then have "info_str dumps i = (LF @ xi_type i @ '': '') @ xi_message i @ []"
    by (simp add: info_str_def Let_def)
  then show ?thesis by (rule sublist_between)
next
  case (Some k)
  define vars where "vars = dumps (case xi_vars i of Some v \<Rightarrow> if truthy v then v else JObj [] | None \<Rightarrow> JObj [])"
  have "info_str dumps i =
     (LF @ ''[for_each] (Iteration '' @ show_nat k @ '')'' @ LF @ LF @ ''Loop variables:'' @ LF @ ''```'' @ LF @
      vars @ LF @ ''```'' @ LF @ LF @ LF @ xi_type i @ '': '') @ xi_message i @
     (LF @ LF @ ''Please ensure that the loop is iterable and that the loop variable has the correct type.'')"
    unfolding info_str_def Let_def vars_def by (simp add: Some)
  then show ?thesis by (rule sublist_between)
qed

lemma execution_error_contains: "sublist (xi_message i) (ee_message (execution_error dumps i))"
proof -
  from failure_message_contains [of i dumps] obtain a b where "info_str dumps i = a @ xi_message i @ b"
    by (auto simp: sublist_def)
  then have "ee_message (execution_error dumps i) =
      (''There was an error in the executor when calling action '' @ quoted (xi_action i) @ ''.'' @ LF @ LF @ a) @ xi_message i @ b"
    by (simp add: execution_error_def)
  then show ?thesis by (rule sublist_between)
qed

text \<open>
  The retry of rate limits: an invocation wraps whatever its backend raises, so no such error reaches
  the loop of attempts.
\<close>

lemma invoke_once_no_rate_limit:
  assumes "\<And>e. prefetch_lock (xe_entry env org) (ri_lock input) = Some e \<Longrightarrow> \<not> is_rate_limit (XPlain e)"
    and "ro_org role = Some org" and "invoke_once env role input it = Inl x"
  shows "\<not> is_rate_limit x"
proof (cases "prefetch_lock (xe_entry env org) (ri_lock input)")
  case None
  with invoke_once_failure [OF assms(2) None assms(3)] show ?thesis by auto
next
  case (Some e)
  with assms(2,3) have "x = XPlain e" by (simp add: invoke_once_def)
  with assms(1) [OF Some] show ?thesis by simp
qed

lemma handle_group_no_rate_limit: "\<not> is_rate_limit (handle_group a errs)"
  by (simp add: handle_group_def Let_def loop_exception_def split: list.splits)

lemma fetch_entry_no_rate_limit:
  "fetch_entry db og v org = Inl e \<Longrightarrow> \<not> is_rate_limit (XPlain e)"
  by (auto simp: fetch_entry_def rbind_Inl_iff fetch_registry_manifest_def registry_error_def
      split: list.splits option.splits)

lemma prefetch_no_rate_limit:
  assumes "prefetch_lock (\<lambda>og v. fetch_entry db og v org) lock = Some e"
  shows "\<not> is_rate_limit (XPlain e)"
  using first_error_Some [OF assms [unfolded prefetch_lock_def]] fetch_entry_no_rate_limit
  by (fastforce split: sum.splits)

lemma dispatch_no_rate_limit:
  assumes entry: "xe_entry env = (\<lambda>org og v. fetch_entry db og v org)" and org: "ro_org role = Some org"
    and its: "\<And>v ctx e. xe_iterators env v ctx = Inl e \<Longrightarrow> exn_class e \<noteq> ''RateLimitExceeded''"
    and d: "dispatch_action env (Some role) input ended = Inl x"
  shows "\<not> is_rate_limit x"
proof (cases "truthy (stmt_for_each (ri_task input))")
  case False
  with d have "invoke_once env role input None = Inl x" by (simp add: dispatch_action_def Let_def)
  moreover have "prefetch_lock (xe_entry env org) (ri_lock input) = Some e \<Longrightarrow> \<not> is_rate_limit (XPlain e)" for e
    using prefetch_no_rate_limit entry by simp
  ultimately show ?thesis using invoke_once_no_rate_limit [OF _ org] by blast
next
  case True
  show ?thesis
  proof (cases "xe_iterators env (stmt_for_each (ri_task input)) (ri_context input)")
    case (Inl e)
    with True d its show ?thesis by (auto simp: dispatch_action_def Let_def)
  next
    case (Inr rows)
    with True d show ?thesis
      by (auto simp: dispatch_action_def Let_def handle_group_no_rate_limit split: sum.splits)
  qed
qed

lemma with_retries_once:
  assumes "\<And>e. body k = Inl e \<Longrightarrow> \<not> is_rate_limit e"
  shows "with_retries (Suc n) k body = body k"
  using assms by (cases "body k") simp_all

text \<open>The activity never retries for a rate limit: with manifests fetched from the tables, iterators and
  storage that do not raise \<open>RateLimitExceeded\<close> themselves, its outcome is that of the first attempt,
  even when the backend was rejected by a rate limit.
\<close>
theorem rate_limit_never_retried:
  assumes entry: "xe_entry (fst (envs 0)) = (\<lambda>org og v. fetch_entry db og v org)" and org: "ro_org role = Some org"
    and its: "\<And>v ctx e. xe_iterators (fst (envs 0)) v ctx = Inl e \<Longrightarrow> exn_class e \<noteq> ''RateLimitExceeded''"
    and store: "\<And>key v e. store key v = Inl e \<Longrightarrow> exn_class e \<noteq> ''RateLimitExceeded''"
    and same: "envs' 0 = envs 0"
  shows "execute_action_activity sdk final materialize store envs role attempt input =
         execute_action_activity sdk final materialize store envs' role attempt input"
proof -
  define body where "body = (\<lambda>envs ctx (k :: nat).
     rbind (dispatch_action (fst (envs k :: exec_env \<times> nat list)) (Some role) (input\<lparr>ri_context := ctx\<rparr>) (snd (envs k))) (\<lambda>v.
       lift (store (action_key (case ro_workspace role of Some ws \<Rightarrow> ws | None \<Rightarrow> ''None'') (ri_wf_exec_id input)
                          (ri_stream input) (stmt_ref (ri_task input))) v)))"
  have norate: "\<not> is_rate_limit e" if b: "body envs ctx 0 = Inl e" for ctx e
  proof (cases "dispatch_action (fst (envs 0)) (Some role) (input\<lparr>ri_context := ctx\<rparr>) (snd (envs 0))")
    case (Inl x)
    with b dispatch_no_rate_limit [OF entry org its Inl] show ?thesis by (simp add: body_def)
  next
    case (Inr v)
    with b store show ?thesis by (auto simp: body_def elim!: lift.elims)
  qed
  have b0: "body envs' ctx 0 = body envs ctx 0" for ctx by (simp add: body_def same)
  have "with_retries MAX_RATE_LIMIT_ATTEMPTS 0 (body envs ctx) = with_retries MAX_RATE_LIMIT_ATTEMPTS 0 (body envs' ctx)" for ctx
    using with_retries_once [of "body envs ctx" 0 19] with_retries_once [of "body envs' ctx" 0 19] norate b0
    by (simp add: MAX_RATE_LIMIT_ATTEMPTS_def numeral_eq_Suc)
  then show ?thesis unfolding execute_action_activity_def body_def by (simp cong: sum.case_cong)
qed

lemma with_error_tr_error [simp]: "tr_error (with_error e ty r) = e"
  by (simp add: with_error_def)

text \<open>C26: When its context, lock and secrets are prepared and the backend reports that a udf action, of a task without
  a loop, failed, the activity fails retryably
  and the result that the workflow records for the task carries an error with the reference and the stream of the
  action, the attempt, and a message that contains the message of the backend as it is: masking applies to results only.\<close>

theorem backend_failure_reaches_workflow:
  assumes ctx: "materialize (ri_context input) = Inr ctx"
    and org: "ro_org role = Some org" and pre: "prefetch_lock (xe_entry (fst (envs 0)) org) (ri_lock input) = None"
    and single: "\<not> truthy (stmt_for_each (ri_task input))"
    and prep: "prepare_resolved_context (fst (envs 0)) role (input\<lparr>ri_context := ctx\<rparr>) = Inr (rc, masks)"
    and depth: "0 < xe_depth (fst (envs 0))"
    and udf: "ai_type (rc_impl rc) = ''udf''"
    and failed: "xe_backend (fst (envs 0)) [] (input\<lparr>ri_context := ctx\<rparr>) rc = Inr (ExecFailure info)"
    and sdk: "\<And>msg c. is_failure sdk (Exn ''ActivityError'' False msg [] c)"
  shows "\<exists>f m. execute_action_activity sdk final materialize store envs role attempt input = Inl f
           \<and> \<not> af_non_retryable f \<and> sublist (xi_message info) m
           \<and> tr_error (fst (handle_exception sdk (Exn ''ActivityError'' False msg [] (Some (af_exn f))) r))
             = dump_error (activity_error_info input attempt m ''ExecutionError'')"
proof -
  let ?e = "XExec (execution_error (xe_dumps (fst (envs 0))) info)"
  obtain n where n: "xe_depth (fst (envs 0)) = Suc n" using depth gr0_implies_Suc by blast
  have "invoke_once (fst (envs 0)) role (input\<lparr>ri_context := ctx\<rparr>) None = Inl ?e"
    using org pre prep udf failed n
    by (simp add: invoke_once_def invocation_def invocation_failure_def loop_info_def)
  then have d: "dispatch_action (fst (envs 0)) (Some role) (input\<lparr>ri_context := ctx\<rparr>) (snd (envs 0)) = Inl ?e"
    using single by (simp add: dispatch_action_def Let_def)
  define m where "m = ee_message (execution_error (xe_dumps (fst (envs 0))) info)"
  let ?f = "activity_failure_of input attempt m ''ExecutionError'' (Some ''ExecutionError'') False"
  have "execute_action_activity sdk final materialize store envs role attempt input = Inl ?f"
    using ctx d by (simp add: execute_action_activity_def MAX_RATE_LIMIT_ATTEMPTS_def numeral_eq_Suc translate_failure_def m_def)
  moreover have "tr_error (fst (handle_exception sdk (Exn ''ActivityError'' False msg [] (Some (af_exn ?f))) r))
      = dump_error (activity_error_info input attempt m ''ExecutionError'')"
    using sdk [of msg "Some (af_exn ?f)"]
    by (simp add: handle_exception_def activity_failure_of_def ERROR_TYPE_TO_MESSAGE_def)
  moreover have "sublist (xi_message info) m" unfolding m_def by (rule execution_error_contains)
  moreover have "\<not> af_non_retryable ?f" by (simp add: activity_failure_of_def)
  ultimately show ?thesis by (intro exI conjI)
qed

section \<open>Instances\<close>

definition demo_db :: "registry_manifest \<Rightarrow> registry_db" where
  "demo_db m =
     \<lparr>platform_repos = [], platform_versions = [],
      org_repos = [\<lparr>rr_id = ''r'', rr_org = ''acme'', rr_origin = ''o''\<rparr>],
      org_versions = [\<lparr>rv_repo = ''r'', rv_org = ''acme'', rv_version = ''1'', rv_manifest = Some m\<rparr>]\<rparr>"

definition demo_exec_env :: "registry_manifest \<Rightarrow> (nat list \<Rightarrow> run_input \<Rightarrow> resolved \<Rightarrow> exn + exec_result) \<Rightarrow> exec_env" where
  "demo_exec_env m backend =
     \<lparr>xe_depth = 5, xe_entry = (\<lambda>org og v. fetch_entry (demo_db m) og v org), xe_secrets = demo_secrets_env,
      xe_collect = (\<lambda>_. Inr ([], [])), xe_variables = (\<lambda>_ _. Inr []), xe_masking = True, xe_show = (\<lambda>_. []),
      xe_set_order = (\<lambda>ms. ms), xe_parse_time = (\<lambda>s. Inr (JStr s)), xe_eval = (\<lambda>_ v _. Inr v),
      xe_validate = (\<lambda>_ args. Inr args), xe_token = (\<lambda>_ _ _. ''t''), xe_dumps = (\<lambda>_. ''{}''),
      xe_iterators = (\<lambda>_ _. Inr [(''.x'', [JInt 1, JInt 2])]), xe_backend = backend\<rparr>"

definition demo_lock :: "string list \<Rightarrow> registry_lock" where
  "demo_lock actions = \<lparr>lk_origins = [(''o'', ''1'')], lk_actions = map (\<lambda>a. (a, ''o'')) actions\<rparr>"

definition demo_role :: role where
  "demo_role = \<lparr>ro_org = Some ''acme'', ro_workspace = Some ''ws''\<rparr>"

definition demo_input :: "string list \<Rightarrow> string \<Rightarrow> json \<Rightarrow> run_input" where
  "demo_input actions a each =
     \<lparr>ri_task = (default_stmt ''step'' a)\<lparr>stmt_for_each := each\<rparr>, ri_context = [], ri_lock = demo_lock actions,
      ri_environment = ''default'', ri_wf_id = ''wf'', ri_wf_run_id = ''run'', ri_wf_exec_id = ''exec'', ri_stream = ''<root>:0''\<rparr>"

definition demo_udf :: registry_manifest where
  "demo_udf = [(''core.get'', \<lparr>ma_body = UdfBody ''mod'' ''get'', ma_secrets = Some [RegistrySecret ''slack'' (Some [''TOKEN'']) None False]\<rparr>)]"

definition leaky :: "nat list \<Rightarrow> run_input \<Rightarrow> resolved \<Rightarrow> exn + exec_result" where
  "leaky _ _ rc = Inr (ExecSuccess (JArr [JStr ''pw hunter2!'', JStr (rc_token rc)]))"

lemma demo_prepared:
  "prepare_resolved_context (demo_exec_env demo_udf b) demo_role (demo_input [''core.get''] ''core.get'' each) =
   Inr (\<lparr>rc_secrets = [(''slack'', [(''TOKEN'', ''hunter2'')])], rc_variables = [],
         rc_impl = impl_of ''o'' ''core.get'' (UdfBody ''mod'' ''get''), rc_args = [], rc_workspace = ''ws'', rc_workflow = ''wf'',
         rc_run = ''run'', rc_token = ''t'', rc_time = JNull\<rparr>, Some [''hunter2''])"
  by code_simp

lemma show_zero: "show_nat 0 = ''0''"
  by code_simp

theorem masked_result_hides_secrets_witness:
  "invoke_once (demo_exec_env demo_udf leaky) demo_role (demo_input [''core.get''] ''core.get'' JNull) None
     = Inr (JArr [JStr ''pw ***!'', JStr ''t''])
   \<and> \<not> sublist ''hunter2'' ''pw ***!''"
proof
  show run: "invoke_once (demo_exec_env demo_udf leaky) demo_role (demo_input [''core.get''] ''core.get'' JNull) None
     = Inr (JArr [JStr ''pw ***!'', JStr ''t''])"
    by code_simp
  show "\<not> sublist ''hunter2'' ''pw ***!''"
    by (rule masked_result_hides_secrets [OF run _ _ demo_prepared, where n = "''slack''" and d = "[(''TOKEN'', ''hunter2'')]"
          and k = "''TOKEN''" and p = "''[0]''"])
      (auto simp: demo_exec_env_def show_zero)
qed

definition demo_outer :: template_def where
  "demo_outer =
     \<lparr>td_namespace = ''t'', td_name = ''outer'', td_secrets = None, td_expects = [],
      td_steps = [\<lparr>st_ref = ''s'', st_action = ''core.get'', st_args = []\<rparr>], td_returns = JStr ''done''\<rparr>"

definition demo_nested :: registry_manifest where
  "demo_nested = demo_udf @ [(''t.outer'', \<lparr>ma_body = TemplateBody demo_outer, ma_secrets = None\<rparr>)]"

definition demo_rank :: "action_impl \<Rightarrow> nat" where
  "demo_rank impl = (case ai_template impl of None \<Rightarrow> 0 | Some t \<Rightarrow> if t = demo_outer then 1 else 2)"

definition demo_resolved :: "action_impl \<Rightarrow> resolved" where
  "demo_resolved impl =
     \<lparr>rc_secrets = [(''slack'', [(''TOKEN'', ''hunter2'')])], rc_variables = [], rc_impl = impl, rc_args = [], rc_workspace = ''ws'',
      rc_workflow = ''wf'', rc_run = ''run'', rc_token = ''t'', rc_time = JNull\<rparr>"

lemma demo_nested_index:
  "fetch_entry (demo_db demo_nested) ''o'' ''1'' ''acme'' = Inr (demo_nested,
     [(''core.get'', impl_of ''o'' ''core.get'' (UdfBody ''mod'' ''get'')), (''t.outer'', impl_of ''o'' ''t.outer'' (TemplateBody demo_outer))])"
  by code_simp

lemma demo_nested_resolve:
  "resolve_action (xe_entry (demo_exec_env demo_nested b) ''acme'') (demo_lock [''core.get'', ''t.outer'']) a = Inr impl \<Longrightarrow>
   a = ''core.get'' \<and> impl = impl_of ''o'' ''core.get'' (UdfBody ''mod'' ''get'') \<or>
   a = ''t.outer'' \<and> impl = impl_of ''o'' ''t.outer'' (TemplateBody demo_outer)"
  by (auto simp: resolve_action_def locked_entry_def demo_lock_def demo_exec_env_def demo_nested_index split: if_splits)

lemma ranked_templates_bounded_witness:
  "invoke_step 2 (demo_exec_env demo_nested leaky) demo_role (demo_input [''core.get'', ''t.outer''] ''t.outer'' JNull) []
      (demo_resolved (impl_of ''o'' ''t.outer'' (TemplateBody demo_outer))) =
   invoke_step 9 (demo_exec_env demo_nested leaky) demo_role (demo_input [''core.get'', ''t.outer''] ''t.outer'' JNull) []
      (demo_resolved (impl_of ''o'' ''t.outer'' (TemplateBody demo_outer)))"
proof (rule ranked_templates_bounded [where r = demo_rank and org = "''acme''"])
  fix impl impl'
  assume "impl_call (xe_entry (demo_exec_env demo_nested leaky) ''acme'') (ri_lock (demo_input [''core.get'', ''t.outer''] ''t.outer'' JNull)) impl impl'"
  then obtain t s where t: "ai_template impl = Some t" "s \<in> set (td_steps t)"
    "resolve_action (xe_entry (demo_exec_env demo_nested leaky) ''acme'') (demo_lock [''core.get'', ''t.outer'']) (st_action s) = Inr impl'"
    by (auto simp: impl_call_def demo_input_def)
  from demo_nested_resolve [OF t(3)] t(1,2) show "demo_rank impl' < demo_rank impl"
    by (auto simp: demo_rank_def impl_of_def demo_outer_def)
qed (simp_all add: demo_role_def demo_rank_def demo_resolved_def impl_of_def)

text \<open>Two templates, each a step of the other.\<close>

definition ping_pong :: "string \<Rightarrow> string \<Rightarrow> template_def" where
  "ping_pong me other =
     \<lparr>td_namespace = ''t'', td_name = me, td_secrets = None, td_expects = [],
      td_steps = [\<lparr>st_ref = ''s'', st_action = ''t.'' @ other, st_args = []\<rparr>], td_returns = JNull\<rparr>"

definition ping_pong_action :: "string \<Rightarrow> string \<Rightarrow> manifest_action" where
  "ping_pong_action me other = \<lparr>ma_body = TemplateBody (ping_pong me other), ma_secrets = None\<rparr>"

definition demo_mutual :: registry_manifest where
  "demo_mutual = [(''t.ping'', ping_pong_action ''ping'' ''pong''), (''t.pong'', ping_pong_action ''pong'' ''ping'')]"

lemma ping_pong_body: "ma_body (ping_pong_action me other) = TemplateBody (ping_pong me other)"
  by (simp add: ping_pong_action_def)

lemma ping_pong_steps: "td_steps (ping_pong me other) = [\<lparr>st_ref = ''s'', st_action = ''t.'' @ other, st_args = []\<rparr>]"
  by (simp add: ping_pong_def)

lemma demo_mutual_steps:
  "step_manifest_action (xe_entry (demo_exec_env demo_mutual leaky) ''acme'')
     (ri_lock (demo_input [''t.ping'', ''t.pong''] ''t.ping'' JNull)) ''t.pong'' = Inr (Some (ping_pong_action ''pong'' ''ping''))"
  "step_manifest_action (xe_entry (demo_exec_env demo_mutual leaky) ''acme'')
     (ri_lock (demo_input [''t.ping'', ''t.pong''] ''t.ping'' JNull)) ''t.ping'' = Inr (Some (ping_pong_action ''ping'' ''pong''))"
  by code_simp+

lemma demo_mutual_index:
  "fetch_entry (demo_db demo_mutual) ''o'' ''1'' ''acme'' = Inr (demo_mutual,
     [(''t.ping'', impl_of ''o'' ''t.ping'' (TemplateBody (ping_pong ''ping'' ''pong''))),
      (''t.pong'', impl_of ''o'' ''t.pong'' (TemplateBody (ping_pong ''pong'' ''ping'')))])"
  by code_simp

lemma mutual_templates_fail_witness:
  "validate_steps (ping_pong ''ping'' ''pong'') = None \<and> validate_steps (ping_pong ''pong'' ''ping'') = None \<and>
   (\<exists>x. invoke_once (demo_exec_env demo_mutual leaky) demo_role (demo_input [''t.ping'', ''t.pong''] ''t.ping'' JNull) None = Inl (XExec x)
      \<and> xi_type (ee_info x) = ''RecursionError'')"
proof (intro conjI)
  show "validate_steps (ping_pong ''ping'' ''pong'') = None" "validate_steps (ping_pong ''pong'' ''ping'') = None"
    by code_simp+
  show "\<exists>x. invoke_once (demo_exec_env demo_mutual leaky) demo_role (demo_input [''t.ping'', ''t.pong''] ''t.ping'' JNull) None = Inl (XExec x)
      \<and> xi_type (ee_info x) = ''RecursionError''"
  proof (rule mutual_templates_fail [where org = "''acme''" and C = "set (map snd demo_mutual)" and mf = demo_mutual
      and ma = "ping_pong_action ''ping'' ''pong''"])
    fix ma
    assume "ma \<in> set (map snd demo_mutual)"
    then consider "ma = ping_pong_action ''ping'' ''pong''" | "ma = ping_pong_action ''pong'' ''ping''"
      by (auto simp: demo_mutual_def)
    then show "\<exists>t s rest ma'. ma_body ma = TemplateBody t \<and> td_steps t = s # rest \<and>
       step_manifest_action (xe_entry (demo_exec_env demo_mutual leaky) ''acme'')
         (ri_lock (demo_input [''t.ping'', ''t.pong''] ''t.ping'' JNull)) (st_action s) = Inr (Some ma') \<and> ma' \<in> set (map snd demo_mutual)"
    proof cases
      case 1
      show ?thesis unfolding 1 by (intro exI conjI, rule ping_pong_body, rule ping_pong_steps)
        (simp only: step.simps demo_mutual_steps append.simps, simp add: demo_mutual_def)
    next
      case 2
      show ?thesis unfolding 2 by (intro exI conjI, rule ping_pong_body, rule ping_pong_steps)
        (simp only: step.simps demo_mutual_steps append.simps, simp add: demo_mutual_def)
    qed
  qed (simp_all add: demo_role_def demo_exec_env_def demo_input_def default_stmt_def resolve_action_def locked_entry_def demo_lock_def
      demo_mutual_index prefetch_lock_def, simp_all add: demo_mutual_def)
qed

text \<open>A loop whose second iteration fails.\<close>

definition demo_failure :: error_info where
  "demo_failure = \<lparr>xi_action = ''core.get'', xi_type = ''ValueError'', xi_message = ''bad hunter2'', xi_iteration = None, xi_vars = None\<rparr>"

definition flaky :: "nat list \<Rightarrow> run_input \<Rightarrow> resolved \<Rightarrow> exn + exec_result" where
  "flaky path _ _ = (if path = [0] then Inr (ExecSuccess JNull) else Inr (ExecFailure demo_failure))"

lemma demo_contexts:
  "loop_contexts (loop_items [(''.x'', [JInt 1, JInt 2])]) [] =
   Inr [[(''var'', JObj [(''x'', JInt 1)])], [(''var'', JObj [(''x'', JInt 2)])]]"
  by code_simp

theorem loop_dispatch_outcome_witness:
  "\<exists>x. dispatch_action (demo_exec_env demo_udf flaky) (Some demo_role) (demo_input [''core.get''] ''core.get'' (JStr ''loop'')) [1] = Inl (XLoop [x])
      \<and> xi_iteration (ee_info x) = Some 1"
proof -
  let ?env = "demo_exec_env demo_udf flaky" and ?in = "demo_input [''core.get''] ''core.get'' (JStr ''loop'')"
  let ?ctxs = "[[(''var'', JObj [(''x'', JInt 1)])], [(''var'', JObj [(''x'', JInt 2)])]]"
  have pre: "prefetch_lock (xe_entry ?env ''acme'') (ri_lock ?in) = None" by code_simp
  have ends: "possible_ends (loop_outcomes ?env demo_role ?in ?ctxs) [1]" by code_simp
  have inl: "isl (dispatch_action ?env (Some demo_role) ?in [1])" by code_simp
  have "case dispatch_action ?env (Some demo_role) ?in [1] of
         Inr v \<Rightarrow> True
       | Inl e \<Rightarrow> \<exists>es. e = XLoop es \<and> length es = 1 \<and> xi_iteration (ee_info (es ! 0)) = Some 1"
    using loop_dispatch_outcome [OF _ pre _ _ _ _ ends, of "[(''.x'', [JInt 1, JInt 2])]"] demo_contexts
    by (auto simp: demo_role_def demo_input_def demo_exec_env_def split: sum.splits)
  with inl obtain es where "dispatch_action ?env (Some demo_role) ?in [1] = Inl (XLoop es)" "length es = 1"
    "xi_iteration (ee_info (es ! 0)) = Some 1"
    by (auto simp: isl_def)
  then show ?thesis by (cases es) auto
qed

definition demo_sdk :: sdk where
  "demo_sdk = \<lparr>is_failure = (\<lambda>e. exn_class e = ''ActivityError''), app_type = (\<lambda>_. None), expr_detail = (\<lambda>_. None)\<rparr>"

definition limited :: "nat list \<Rightarrow> run_input \<Rightarrow> resolved \<Rightarrow> exn + exec_result" where
  "limited _ _ _ = Inl (Exn ''RateLimitExceeded'' False ''Rate limit exceeded'' [] None)"

theorem rate_limit_never_retried_witness:
  "execute_action_activity demo_sdk (\<lambda>_. False) Inr (\<lambda>_ v. Inr (Inline v))
     (\<lambda>k. (demo_exec_env demo_udf (if k = 0 then limited else leaky), [])) demo_role 1 (demo_input [''core.get''] ''core.get'' JNull) =
   execute_action_activity demo_sdk (\<lambda>_. False) Inr (\<lambda>_ v. Inr (Inline v))
     (\<lambda>_. (demo_exec_env demo_udf limited, [])) demo_role 1 (demo_input [''core.get''] ''core.get'' JNull)"
  by (rule rate_limit_never_retried [where org = "''acme''"]) (simp_all add: demo_exec_env_def demo_role_def)

theorem backend_failure_reaches_workflow_witness:
  "\<exists>f m. execute_action_activity demo_sdk (\<lambda>_. False) Inr (\<lambda>_ v. Inr (Inline v)) (\<lambda>_. (demo_exec_env demo_udf flaky, []))
           demo_role 1 (demo_input [''core.get''] ''core.get'' JNull) = Inl f
     \<and> \<not> af_non_retryable f \<and> sublist ''bad hunter2'' m
     \<and> tr_error (fst (handle_exception demo_sdk (Exn ''ActivityError'' False ''failed'' [] (Some (af_exn f))) (from_result JNull)))
       = dump_error (activity_error_info (demo_input [''core.get''] ''core.get'' JNull) 1 m ''ExecutionError'')"
proof -
  let ?in = "demo_input [''core.get''] ''core.get'' JNull"
  have in': "?in\<lparr>ri_context := []\<rparr> = ?in" by (simp add: demo_input_def)
  have pre: "prefetch_lock (xe_entry (fst ((\<lambda>_. (demo_exec_env demo_udf flaky, [])) (0::nat))) ''acme'') (ri_lock ?in) = None" by code_simp
  have m: "xi_message demo_failure = ''bad hunter2''" by (simp add: demo_failure_def)
  show ?thesis unfolding m [symmetric]
    by (rule backend_failure_reaches_workflow [OF _ _ pre, where ctx = "[]"])
      (simp_all add: in' demo_prepared, simp_all add: demo_input_def demo_role_def demo_exec_env_def demo_sdk_def impl_of_def flaky_def)
qed

end
