(* ===== verification/Durations.thy ===== *)
theory Durations
  imports Scheduler
begin

text \<open>
  Case durations (\<open>allama/cases/durations/service.py\<close>): the definitions a workspace keeps, the search for
  the events that start and end a duration, the computation for one case and for many, and the
  records that persist the computed values. Tables are lists in insertion order, identifiers are drawn
  from a counter, times are microseconds since the epoch in UTC. The constraints of the tables and
  the foreign keys to users are not modelled, nor are attributes of built-in values on a path.
\<close>

section \<open>The tables\<close>

record case_row =
  c_id :: nat
  c_ws :: string
  c_summary :: "string option"
  c_description :: "string option"
  c_status :: string
  c_priority :: string
  c_severity :: string
  c_assignee :: "string option"
  c_payload :: json

record event_row =
  e_id :: nat
  e_ws :: string
  e_case :: nat
  e_type :: string
  e_data :: json
  e_user :: "string option"
  e_at :: int

record anchor =
  an_type :: string
  an_path :: string
  an_filters :: "(string \<times> json) list"
  an_last :: bool

record duration_def =
  dd_id :: nat
  dd_ws :: string
  dd_name :: string
  dd_description :: "string option"
  dd_start :: anchor
  dd_end :: anchor

record duration_value =
  dv_start_event :: "nat option"
  dv_end_event :: "nat option"
  dv_started :: "int option"
  dv_ended :: "int option"
  dv_duration :: "int option"

record duration_row =
  du_id :: nat
  du_ws :: string
  du_case :: nat
  du_def :: nat
  du_value :: duration_value

record task_row =
  k_id :: nat
  k_ws :: string
  k_case :: nat
  k_title :: string
  k_description :: "string option"
  k_priority :: string
  k_status :: string
  k_assignee :: "string option"
  k_workflow :: "string option"
  k_defaults :: json
  k_at :: int

record comment_row =
  cm_id :: nat
  cm_ws :: string
  cm_case :: nat
  cm_content :: "string option"
  cm_user :: "string option"
  cm_parent :: "nat option"
  cm_edited :: "int option"
  cm_at :: int

record tag_row =
  t_id :: nat
  t_ws :: string
  t_name :: "string option"
  t_ref :: string
  t_color :: "string option"

record case_db =
  db_next :: nat
  db_cases :: "case_row list"
  db_events :: "event_row list"
  db_defs :: "duration_def list"
  db_durations :: "duration_row list"
  db_tasks :: "task_row list"
  db_fields :: "(nat, (string \<times> json) list) dict"
  db_comments :: "comment_row list"
  db_tags :: "tag_row list"
  db_links :: "(nat \<times> nat) list"

text \<open>Who acts: the workspace and user of the role, the execution of a running workflow, and the time.\<close>

record actor =
  wh_ws :: string
  wh_user :: "string option"
  wh_exec :: "string option"
  wh_now :: int

definition not_found_error :: "string \<Rightarrow> exn" where
  "not_found_error msg = Exn ''AllamaNotFoundError'' False msg [] None"

definition validation_error :: "string \<Rightarrow> exn" where
  "validation_error msg = Exn ''AllamaValidationError'' False msg [] None"

section \<open>Definitions\<close>

definition list_definitions :: "string \<Rightarrow> case_db \<Rightarrow> duration_def list" where
  "list_definitions ws db = filter (\<lambda>d. dd_ws d = ws) (db_defs db)"

definition get_definition :: "string \<Rightarrow> nat \<Rightarrow> case_db \<Rightarrow> exn + duration_def" where
  "get_definition ws i db =
     (case find (\<lambda>d. dd_id d = i \<and> dd_ws d = ws) (db_defs db) of
        None \<Rightarrow> Inl (not_found_error (''Case duration definition '' @ show_nat i @ '' not found in this workspace''))
      | Some d \<Rightarrow> Inr d)"

definition ensure_unique_name :: "string \<Rightarrow> string \<Rightarrow> nat option \<Rightarrow> case_db \<Rightarrow> exn option" where
  "ensure_unique_name ws name excluded db =
     check_that (\<not> list_ex (\<lambda>d. dd_ws d = ws \<and> dd_name d = name \<and> Some (dd_id d) \<noteq> excluded) (db_defs db))
       (validation_error (''A duration named '' @ quoted name @ '' already exists''))"

record def_create =
  dc_name :: string
  dc_description :: "string option"
  dc_start :: anchor
  dc_end :: anchor

definition create_definition :: "string \<Rightarrow> def_create \<Rightarrow> case_db \<Rightarrow> exn + case_db" where
  "create_definition ws p db =
     (case ensure_unique_name ws (dc_name p) None db of
        Some e \<Rightarrow> Inl e
      | None \<Rightarrow>
          Inr (db\<lparr>db_next := Suc (db_next db),
                  db_defs := db_defs db @ [\<lparr>dd_id = db_next db, dd_ws = ws, dd_name = dc_name p, dd_description = dc_description p,
                                           dd_start = dc_start p, dd_end = dc_end p\<rparr>]\<rparr>))"

text \<open>
  The fields that were set: for the name a null counts as unset, for the description it clears it,
  for an anchor (the inner \<open>None\<close>) it is an error.
\<close>

record def_update =
  dp_name :: "string option"
  dp_description :: "string option option"
  dp_start :: "anchor option option"
  dp_end :: "anchor option option"

definition apply_anchor :: "string \<Rightarrow> anchor option option \<Rightarrow> anchor \<Rightarrow> exn + anchor" where
  "apply_anchor which p old =
     (case p of
        None \<Rightarrow> Inr old
      | Some None \<Rightarrow> Inl (validation_error (which @ '' anchor cannot be null when updating a duration definition.''))
      | Some (Some a) \<Rightarrow> Inr a)"

definition update_definition :: "string \<Rightarrow> nat \<Rightarrow> def_update \<Rightarrow> case_db \<Rightarrow> exn + case_db" where
  "update_definition ws i p db =
     rbind (get_definition ws i db) (\<lambda>d.
     rbind (case dp_name p of
              None \<Rightarrow> Inr d
            | Some n \<Rightarrow> (case ensure_unique_name ws n (Some (dd_id d)) db of Some e \<Rightarrow> Inl e | None \<Rightarrow> Inr (d\<lparr>dd_name := n\<rparr>))) (\<lambda>d.
     rbind (apply_anchor ''Start'' (dp_start p) (dd_start d)) (\<lambda>s.
     rbind (apply_anchor ''End'' (dp_end p) (dd_end d)) (\<lambda>e.
       let d' = d\<lparr>dd_description := (case dp_description p of None \<Rightarrow> dd_description d | Some x \<Rightarrow> x), dd_start := s, dd_end := e\<rparr>
       in Inr (db\<lparr>db_defs := map (\<lambda>x. if dd_id x = i then d' else x) (db_defs db)\<rparr>)))))"

text \<open>Deleting a definition deletes its recorded durations too.\<close>

definition delete_definition :: "string \<Rightarrow> nat \<Rightarrow> case_db \<Rightarrow> exn + case_db" where
  "delete_definition ws i db =
     rbind (get_definition ws i db) (\<lambda>d.
       Inr (db\<lparr>db_defs := filter (\<lambda>x. dd_id x \<noteq> i) (db_defs db),
               db_durations := filter (\<lambda>r. du_def r \<noteq> i) (db_durations db)\<rparr>))"

section \<open>Matching events\<close>

text \<open>What a path on an event can reach: JSON, a time, or a UUID object.\<close>

datatype field_value = FJson json | FTime int | FUuid string

definition uuid_value :: "string option \<Rightarrow> field_value" where
  "uuid_value u = (case u of Some s \<Rightarrow> FUuid s | None \<Rightarrow> FJson JNull)"

definition event_attr :: "event_row \<Rightarrow> string \<Rightarrow> field_value" where
  "event_attr e name =
     (if name = ''created_at'' \<or> name = ''updated_at'' then FTime (e_at e)
      else if name = ''type'' then FJson (JStr (e_type e))
      else if name = ''data'' then FJson (e_data e)
      else if name = ''user_id'' then uuid_value (e_user e)
      else if name = ''id'' then FUuid (show_nat (e_id e))
      else if name = ''case_id'' then FUuid (show_nat (e_case e))
      else if name = ''workspace_id'' then FUuid (e_ws e)
      else if name = ''surrogate_id'' then FJson (JInt (int (e_id e)))
      else FJson JNull)"

fun resolve_parts :: "field_value \<Rightarrow> string list \<Rightarrow> field_value" where
  "resolve_parts v [] = v"
| "resolve_parts (FJson (JObj kvs)) (p # ps) =
     (case dget kvs p of
        None \<Rightarrow> FJson JNull
      | Some w \<Rightarrow> if w = JNull then FJson JNull else resolve_parts (FJson w) ps)"
| "resolve_parts v (p # ps) = FJson JNull"

definition resolve_field :: "event_row \<Rightarrow> string \<Rightarrow> field_value" where
  "resolve_field e path =
     (case split_on (CHR ''.'') path of
        [] \<Rightarrow> FJson JNull
      | p # ps \<Rightarrow> if event_attr e p = FJson JNull then FJson JNull else resolve_parts (event_attr e p) ps)"

text \<open>Python's equality of JSON values: numbers and truth values are compared by value.\<close>

fun num_of :: "json \<Rightarrow> rat option" where
  "num_of (JBool b) = Some (if b then 1 else 0)"
| "num_of (JInt i) = Some (of_int i)"
| "num_of (JFloat r) = Some r"
| "num_of _ = None"

lemma size_zip_left [termination_simp]:
  "(x, y) \<in> set (zip xs ys) \<Longrightarrow> size x < Suc (size_list size xs)"
  by (auto dest!: set_zip_leftD simp: less_Suc_eq_le intro: size_list_estimation')

fun py_eq :: "json \<Rightarrow> json \<Rightarrow> bool" where
  "py_eq (JArr xs) (JArr ys) \<longleftrightarrow> length xs = length ys \<and> list_all (\<lambda>(x, y). py_eq x y) (zip xs ys)"
| "py_eq (JObj kvs) (JObj lws) \<longleftrightarrow>
     length kvs = length lws \<and> list_all (\<lambda>kv. case dget lws (fst kv) of Some w \<Rightarrow> py_eq (snd kv) w | None \<Rightarrow> False) kvs"
| "py_eq (JStr s) (JStr t) \<longleftrightarrow> s = t"
| "py_eq JNull JNull \<longleftrightarrow> True"
| "py_eq v w \<longleftrightarrow> num_of v \<noteq> None \<and> num_of v = num_of w"

fun in_list :: "field_value \<Rightarrow> json list \<Rightarrow> bool" where
  "in_list (FJson v) xs = list_ex (\<lambda>x. py_eq v x) xs"
| "in_list _ xs = False"

fun filter_matches :: "field_value \<Rightarrow> json \<Rightarrow> bool" where
  "filter_matches (FJson JNull) (JArr xs) = False"
| "filter_matches (FJson (JArr ys)) (JArr xs) = list_ex (\<lambda>y. in_list (FJson y) xs) ys"
| "filter_matches v (JArr xs) = in_list v xs"
| "filter_matches (FJson v) x = py_eq v x"
| "filter_matches _ x = False"

definition matches_filters :: "event_row \<Rightarrow> (string \<times> json) list \<Rightarrow> bool" where
  "matches_filters e filters = list_all (\<lambda>(path, expected). filter_matches (resolve_field e path) expected) filters"

section \<open>Timestamps\<close>

text \<open>
  \<open>coerce_to_utc_datetime\<close>, where an error means no timestamp. \<open>fromiso\<close> is \<open>datetime.fromisoformat\<close>, a time
  without a zone taken as UTC. \<open>datetime.fromtimestamp\<close> rounds half to even and accepts the years 1
  to 9999.
\<close>

definition round_half_even :: "rat \<Rightarrow> int" where
  "round_half_even r =
     (let f = floor r; d = r - of_int f in
      if d < 1 / 2 then f else if d > 1 / 2 then f + 1 else if even f then f else f + 1)"

definition from_timestamp :: "rat \<Rightarrow> int option" where
  "from_timestamp r =
     (let us = round_half_even (r * 1000000) in
      if -62135596800 * 1000000 \<le> us \<and> us < 253402300800 * 1000000 then Some us else None)"

definition iso_text :: "string \<Rightarrow> string" where
  "iso_text s =
     (let t = strip_ws s in
      if endswith t ''Z'' \<or> endswith t ''z'' then butlast t @ ''+00:00'' else t)"

fun to_utc :: "(string \<Rightarrow> int option) \<Rightarrow> field_value \<Rightarrow> int option" where
  "to_utc fromiso (FTime t) = Some t"
| "to_utc fromiso (FJson (JStr s)) = fromiso (iso_text s)"
| "to_utc fromiso (FJson (JInt i)) = from_timestamp (of_int i)"
| "to_utc fromiso (FJson (JBool b)) = from_timestamp (if b then 1 else 0)"
| "to_utc fromiso (FJson (JFloat r)) = from_timestamp r"
| "to_utc fromiso _ = None"

definition extract_timestamp :: "(string \<Rightarrow> int option) \<Rightarrow> event_row \<Rightarrow> anchor \<Rightarrow> int option" where
  "extract_timestamp fromiso e a = to_utc fromiso (resolve_field e (an_path a))"

section \<open>Computing durations\<close>

definition candidate :: "(string \<Rightarrow> int option) \<Rightarrow> anchor \<Rightarrow> int option \<Rightarrow> event_row \<Rightarrow> (event_row \<times> int) list" where
  "candidate fromiso a earliest e =
     (if e_type e \<noteq> an_type a then []
      else if \<not> matches_filters e (an_filters a) then []
      else case extract_timestamp fromiso e a of
          None \<Rightarrow> []
        | Some t \<Rightarrow> (case earliest of Some b \<Rightarrow> if t < b then [] else [(e, t)] | None \<Rightarrow> [(e, t)]))"

definition find_matching_event ::
  "(string \<Rightarrow> int option) \<Rightarrow> event_row list \<Rightarrow> anchor \<Rightarrow> int option \<Rightarrow> (event_row \<times> int) option" where
  "find_matching_event fromiso events a earliest =
     (let cs = concat (map (candidate fromiso a earliest) events) in
      if cs = [] then None
      else let s = sort_key snd cs in Some (if an_last a then last s else hd s))"

record computation =
  cp_def :: nat
  cp_name :: string
  cp_description :: "string option"
  cp_value :: duration_value

definition compute_one :: "(string \<Rightarrow> int option) \<Rightarrow> event_row list \<Rightarrow> duration_def \<Rightarrow> computation" where
  "compute_one fromiso events d =
     (let start = find_matching_event fromiso events (dd_start d) None;
          end0 = find_matching_event fromiso events (dd_end d) (map_option snd start);
          started = map_option snd start;
          early = (case (started, map_option snd end0) of (Some s, Some e) \<Rightarrow> e < s | _ \<Rightarrow> False);
          end1 = (if early then None else end0);
          ended = map_option snd end1
      in \<lparr>cp_def = dd_id d, cp_name = dd_name d, cp_description = dd_description d,
          cp_value = \<lparr>dv_start_event = map_option (\<lambda>m. e_id (fst m)) start, dv_end_event = map_option (\<lambda>m. e_id (fst m)) end1,
            dv_started = started, dv_ended = ended,
            dv_duration = (case (started, ended) of (Some s, Some e) \<Rightarrow> Some (e - s) | _ \<Rightarrow> None)\<rparr>\<rparr>)"

definition compute_durations_from_events :: "(string \<Rightarrow> int option) \<Rightarrow> event_row list \<Rightarrow> duration_def list \<Rightarrow> computation list" where
  "compute_durations_from_events fromiso events ds = map (compute_one fromiso events) ds"

definition resolve_case :: "string \<Rightarrow> case_row \<Rightarrow> exn + case_row" where
  "resolve_case ws c =
     (if c_ws c \<noteq> ws then Inl (not_found_error ''Case does not belong to the active workspace'') else Inr c)"

definition list_case_events :: "string \<Rightarrow> nat \<Rightarrow> case_db \<Rightarrow> event_row list" where
  "list_case_events ws cid db = sort_key e_at (filter (\<lambda>e. e_case e = cid \<and> e_ws e = ws) (db_events db))"

definition compute_duration :: "(string \<Rightarrow> int option) \<Rightarrow> string \<Rightarrow> case_row \<Rightarrow> case_db \<Rightarrow> exn + computation list" where
  "compute_duration fromiso ws c db =
     rbind (resolve_case ws c) (\<lambda>c.
       let ds = list_definitions ws db in
       Inr (if ds = [] then [] else compute_durations_from_events fromiso (list_case_events ws (c_id c) db) ds))"

text \<open>Many cases: one query ordered by case and time, whose rows are distributed over the cases.\<close>

definition group_events :: "nat list \<Rightarrow> event_row list \<Rightarrow> (nat, event_row list) dict" where
  "group_events ids events =
     foldl (\<lambda>d e. dset (e_case e) ((case dget d (e_case e) of Some es \<Rightarrow> es | None \<Rightarrow> []) @ [e]) d)
       (foldl (\<lambda>d i. dset i [] d) [] ids) events"

definition compute_durations :: "(string \<Rightarrow> int option) \<Rightarrow> string \<Rightarrow> case_row list \<Rightarrow> case_db \<Rightarrow> (nat, computation list) dict" where
  "compute_durations fromiso ws cs db =
     (if cs = [] then []
      else let ds = list_definitions ws db; ids = map c_id cs in
        if ds = [] then foldl (\<lambda>d i. dset i [] d) [] ids
        else let rows = sort_key e_case (sort_key e_at (filter (\<lambda>e. e_ws e = ws \<and> e_case e \<in> set ids) (db_events db)))
             in map (\<lambda>(i, es). (i, compute_durations_from_events fromiso es ds)) (group_events ids rows))"

section \<open>Metrics\<close>

record duration_metric =
  mt_timestamp :: int
  mt_seconds :: rat
  mt_name :: string
  mt_slug :: string
  mt_priority :: string
  mt_severity :: string
  mt_status :: string
  mt_case :: nat

definition metric_of :: "(string \<Rightarrow> string) \<Rightarrow> case_row \<Rightarrow> computation \<Rightarrow> duration_metric list" where
  "metric_of slugify c cp =
     (case (dv_duration (cp_value cp), dv_ended (cp_value cp)) of
        (Some d, Some e) \<Rightarrow>
          [\<lparr>mt_timestamp = e, mt_seconds = of_int d / 1000000, mt_name = cp_name cp, mt_slug = slugify (cp_name cp),
            mt_priority = c_priority c, mt_severity = c_severity c, mt_status = c_status c, mt_case = c_id c\<rparr>]
      | _ \<Rightarrow> [])"

definition format_time_series :: "(string \<Rightarrow> string) \<Rightarrow> case_row list \<Rightarrow> (nat, computation list) dict \<Rightarrow> duration_metric list" where
  "format_time_series slugify cs durations =
     concat (map (\<lambda>c. concat (map (metric_of slugify c) (case dget durations (c_id c) of Some ds \<Rightarrow> ds | None \<Rightarrow> []))) cs)"

definition compute_time_series :: "(string \<Rightarrow> int option) \<Rightarrow> (string \<Rightarrow> string) \<Rightarrow> string \<Rightarrow> case_row list \<Rightarrow> case_db \<Rightarrow> duration_metric list" where
  "compute_time_series fromiso slugify ws cs db =
     (if cs = [] then [] else format_time_series slugify cs (compute_durations fromiso ws cs db))"

section \<open>Recorded durations\<close>

definition case_durations :: "string \<Rightarrow> nat \<Rightarrow> case_db \<Rightarrow> duration_row list" where
  "case_durations ws cid db = filter (\<lambda>r. du_ws r = ws \<and> du_case r = cid) (db_durations db)"

definition list_durations :: "string \<Rightarrow> case_row \<Rightarrow> case_db \<Rightarrow> exn + duration_row list" where
  "list_durations ws c db = rbind (resolve_case ws c) (\<lambda>c. Inr (case_durations ws (c_id c) db))"

definition ensure_unique_case_duration :: "string \<Rightarrow> nat \<Rightarrow> nat \<Rightarrow> nat option \<Rightarrow> case_db \<Rightarrow> exn option" where
  "ensure_unique_case_duration ws cid defn excluded db =
     check_that (\<not> list_ex (\<lambda>r. du_ws r = ws \<and> du_case r = cid \<and> du_def r = defn \<and> Some (du_id r) \<noteq> excluded) (db_durations db))
       (validation_error ''A duration for this definition already exists on the case'')"

definition add_duration :: "string \<Rightarrow> nat \<Rightarrow> nat \<Rightarrow> duration_value \<Rightarrow> case_db \<Rightarrow> case_db" where
  "add_duration ws cid defn v db =
     db\<lparr>db_next := Suc (db_next db),
        db_durations := db_durations db @ [\<lparr>du_id = db_next db, du_ws = ws, du_case = cid, du_def = defn, du_value = v\<rparr>]\<rparr>"

definition create_duration :: "string \<Rightarrow> case_row \<Rightarrow> nat \<Rightarrow> duration_value \<Rightarrow> case_db \<Rightarrow> exn + case_db" where
  "create_duration ws c defn v db =
     rbind (resolve_case ws c) (\<lambda>c.
     rbind (get_definition ws defn db) (\<lambda>_.
       case ensure_unique_case_duration ws (c_id c) defn None db of
         Some e \<Rightarrow> Inl e
       | None \<Rightarrow> Inr (add_duration ws (c_id c) defn v db)))"

definition get_case_duration :: "string \<Rightarrow> nat \<Rightarrow> nat \<Rightarrow> case_db \<Rightarrow> exn + duration_row" where
  "get_case_duration ws i cid db =
     (case find (\<lambda>r. du_id r = i \<and> du_ws r = ws \<and> du_case r = cid) (db_durations db) of
        None \<Rightarrow> Inl (not_found_error (''Case duration '' @ show_nat i @ '' not found for this case''))
      | Some r \<Rightarrow> Inr r)"

definition set_duration :: "nat \<Rightarrow> (duration_row \<Rightarrow> duration_row) \<Rightarrow> case_db \<Rightarrow> case_db" where
  "set_duration i f db = db\<lparr>db_durations := map (\<lambda>r. if du_id r = i then f r else r) (db_durations db)\<rparr>"

text \<open>\<open>change\<close> assigns the value fields that were set.\<close>

definition update_duration :: "string \<Rightarrow> case_row \<Rightarrow> nat \<Rightarrow> nat option \<Rightarrow> (duration_value \<Rightarrow> duration_value) \<Rightarrow> case_db \<Rightarrow> exn + case_db" where
  "update_duration ws c i defn change db =
     rbind (resolve_case ws c) (\<lambda>c.
     rbind (get_case_duration ws i (c_id c) db) (\<lambda>r.
       case defn of
         None \<Rightarrow> Inr (set_duration i (\<lambda>r. r\<lparr>du_value := change (du_value r)\<rparr>) db)
       | Some d \<Rightarrow>
           rbind (get_definition ws d db) (\<lambda>_.
             case ensure_unique_case_duration ws (c_id c) d (Some (du_id r)) db of
               Some e \<Rightarrow> Inl e
             | None \<Rightarrow> Inr (set_duration i (\<lambda>r. r\<lparr>du_def := d, du_value := change (du_value r)\<rparr>) db))))"

definition delete_duration :: "string \<Rightarrow> case_row \<Rightarrow> nat \<Rightarrow> case_db \<Rightarrow> exn + case_db" where
  "delete_duration ws c i db =
     rbind (resolve_case ws c) (\<lambda>c.
     rbind (get_case_duration ws i (c_id c) db) (\<lambda>r.
       Inr (db\<lparr>db_durations := filter (\<lambda>r. du_id r \<noteq> i) (db_durations db)\<rparr>)))"

text \<open>
  \<open>sync_case_durations\<close>: the record of each computation is updated or created (of several records of one
  definition the dictionary keeps the last), then those without a computation are deleted.
\<close>

definition existing_by_definition :: "string \<Rightarrow> nat \<Rightarrow> case_db \<Rightarrow> (nat, duration_row) dict" where
  "existing_by_definition ws cid db = foldl (\<lambda>d r. dset (du_def r) r d) [] (case_durations ws cid db)"

definition sync_one :: "string \<Rightarrow> nat \<Rightarrow> (nat, duration_row) dict \<Rightarrow> computation \<Rightarrow> case_db \<Rightarrow> case_db" where
  "sync_one ws cid existing cp db =
     (case dget existing (cp_def cp) of
        Some r \<Rightarrow> set_duration (du_id r) (\<lambda>r. r\<lparr>du_value := cp_value cp\<rparr>) db
      | None \<Rightarrow> add_duration ws cid (cp_def cp) (cp_value cp) db)"

definition sync_case_durations :: "(string \<Rightarrow> int option) \<Rightarrow> string \<Rightarrow> case_row \<Rightarrow> case_db \<Rightarrow> exn + computation list \<times> case_db" where
  "sync_case_durations fromiso ws c db =
     rbind (resolve_case ws c) (\<lambda>c.
     rbind (compute_duration fromiso ws c db) (\<lambda>cps.
       let existing = existing_by_definition ws (c_id c) db;
           db1 = foldl (\<lambda>db cp. sync_one ws (c_id c) existing cp db) db cps;
           stale = map (du_id \<circ> snd) (filter (\<lambda>(d, r). d \<notin> set (map cp_def cps)) existing)
       in Inr (cps, db1\<lparr>db_durations := filter (\<lambda>r. du_id r \<notin> set stale) (db_durations db1)\<rparr>)))"

end
