(* ===== verification/Cases.thy ===== *)
theory Cases
  imports Durations
begin

text \<open>
  The case service (\<open>allama/cases/service.py\<close>): events, creating, updating, viewing and deleting a
  case, and its comments. A transaction that raises is rolled back, so an operation gives an error
  and leaves the tables, or gives the new tables. One clock serves for the application and the
  database. \<open>updated_at\<close>, attachments, search and column lengths are not modelled.
\<close>

section \<open>The environment\<close>

text \<open>
  \<open>ce_write\<close> is the row of the workspace's table of custom fields after PostgreSQL has stored values in
  it (its columns, types and defaults are physical), \<open>ce_workflow\<close> the title and \<open>expects\<close> of a workflow,
  \<open>ce_conforms\<close> the failure of the pydantic model built from \<open>expects\<close>, \<open>ce_slugify\<close> the slugify package
  and \<open>ce_uuid\<close> the constructor \<open>uuid.UUID\<close>.
\<close>

record case_env =
  ce_fromiso :: "string \<Rightarrow> int option"
  ce_write :: "(string \<times> json) list option \<Rightarrow> (string \<times> json) list \<Rightarrow> exn + (string \<times> json) list"
  ce_workflow :: "string \<Rightarrow> string \<Rightarrow> (string \<times> (string \<times> json) list) option"
  ce_conforms :: "(string \<times> json) list \<Rightarrow> json \<Rightarrow> string option"
  ce_slugify :: "string \<Rightarrow> string"
  ce_uuid :: "string \<Rightarrow> nat option"

definition integrity_error :: exn where
  "integrity_error = Exn ''IntegrityError'' False ''null value violates not-null constraint'' [] None"

definition authorization_error :: "string \<Rightarrow> exn" where
  "authorization_error msg = Exn ''AllamaAuthorizationError'' False msg [] None"

section \<open>Events\<close>

definition create_event :: "actor \<Rightarrow> nat \<Rightarrow> string \<Rightarrow> (string \<times> json) list \<Rightarrow> case_db \<Rightarrow> case_db" where
  "create_event who cid type data db =
     db\<lparr>db_next := Suc (db_next db),
        db_events := db_events db @ [\<lparr>e_id = db_next db, e_ws = wh_ws who, e_case = cid, e_type = type, e_data = JObj data,
                                      e_user = wh_user who, e_at = wh_now who\<rparr>]\<rparr>"

text \<open>The serialised variants begin with the execution that caused them.\<close>

definition event_data :: "actor \<Rightarrow> (string \<times> json) list \<Rightarrow> (string \<times> json) list" where
  "event_data who kvs = (''wf_exec_id'', opt_str (wh_exec who)) # kvs"

definition change_data :: "actor \<Rightarrow> string option \<Rightarrow> string option \<Rightarrow> (string \<times> json) list" where
  "change_data who old new = event_data who [(''old'', opt_str old), (''new'', opt_str new)]"

text \<open>Newest first; of equal times the later identifier first.\<close>

definition list_events :: "nat \<Rightarrow> case_db \<Rightarrow> event_row list" where
  "list_events cid db = rev (sort_key e_at (sort_key e_id (filter (\<lambda>e. e_case e = cid) (db_events db))))"

definition CASE_VIEW_EVENT_DEDUP_WINDOW :: int where
  "CASE_VIEW_EVENT_DEDUP_WINDOW = 5 * 60 * 1000000"

definition last_view :: "actor \<Rightarrow> string \<Rightarrow> nat \<Rightarrow> case_db \<Rightarrow> event_row option" where
  "last_view who user cid db =
     (case rev (sort_key e_at (filter (\<lambda>e. e_ws e = wh_ws who \<and> e_case e = cid \<and> e_type e = ''case_viewed'' \<and> e_user e = Some user) (db_events db))) of
        [] \<Rightarrow> None
      | e # _ \<Rightarrow> Some e)"

definition create_case_viewed_event :: "actor \<Rightarrow> nat \<Rightarrow> case_db \<Rightarrow> case_db option" where
  "create_case_viewed_event who cid db =
     (case wh_user who of
        None \<Rightarrow> None
      | Some user \<Rightarrow>
          if (case last_view who user cid db of Some e \<Rightarrow> wh_now who - e_at e < CASE_VIEW_EVENT_DEDUP_WINDOW | None \<Rightarrow> False) then None
          else Some (create_event who cid ''case_viewed'' [(''wf_exec_id'', JNull)] db))"

section \<open>Cases\<close>

definition find_case :: "string \<Rightarrow> nat \<Rightarrow> case_db \<Rightarrow> case_row option" where
  "find_case ws cid db = find (\<lambda>c. c_ws c = ws \<and> c_id c = cid) (db_cases db)"

definition put_case :: "case_row \<Rightarrow> case_db \<Rightarrow> case_db" where
  "put_case c db = db\<lparr>db_cases := map (\<lambda>x. if c_id x = c_id c then c else x) (db_cases db)\<rparr>"

text \<open>\<open>get_case\<close> with \<open>track_view\<close>: what fails after the case was found is logged and rolled back.\<close>

definition get_case :: "case_env \<Rightarrow> actor \<Rightarrow> bool \<Rightarrow> nat \<Rightarrow> case_db \<Rightarrow> case_row option \<times> case_db" where
  "get_case env who track cid db =
     (case find_case (wh_ws who) cid db of
        None \<Rightarrow> (None, db)
      | Some c \<Rightarrow>
          if \<not> track then (Some c, db)
          else (case create_case_viewed_event who cid db of
              None \<Rightarrow> (Some c, db)
            | Some db1 \<Rightarrow>
                (case sync_case_durations (ce_fromiso env) (wh_ws who) c db1 of
                   Inl e \<Rightarrow> (Some c, db)
                 | Inr (_, db2) \<Rightarrow> (Some c, db2))))"

definition synced :: "case_env \<Rightarrow> actor \<Rightarrow> case_row \<Rightarrow> case_db \<Rightarrow> exn + case_db" where
  "synced env who c db = rbind (sync_case_durations (ce_fromiso env) (wh_ws who) c db) (\<lambda>r. Inr (snd r))"

definition upsert_field_values :: "case_env \<Rightarrow> nat \<Rightarrow> (string \<times> json) list \<Rightarrow> case_db \<Rightarrow> exn + case_db" where
  "upsert_field_values env cid kvs db =
     rbind (ce_write env (dget (db_fields db) cid) kvs) (\<lambda>row. Inr (db\<lparr>db_fields := dset cid row (db_fields db)\<rparr>))"

record case_create =
  cc_summary :: string
  cc_description :: string
  cc_status :: string
  cc_priority :: string
  cc_severity :: string
  cc_fields :: "(string \<times> json) list option"
  cc_assignee :: "string option"
  cc_payload :: json

definition new_case :: "string \<Rightarrow> nat \<Rightarrow> case_create \<Rightarrow> case_row" where
  "new_case ws i p =
     \<lparr>c_id = i, c_ws = ws, c_summary = Some (cc_summary p), c_description = Some (cc_description p), c_status = cc_status p,
      c_priority = cc_priority p, c_severity = cc_severity p, c_assignee = cc_assignee p, c_payload = cc_payload p\<rparr>"

definition create_case :: "case_env \<Rightarrow> actor \<Rightarrow> case_create \<Rightarrow> case_db \<Rightarrow> exn + case_db" where
  "create_case env who p db =
     (let c = new_case (wh_ws who) (db_next db) p;
          db1 = db\<lparr>db_next := Suc (db_next db), db_cases := db_cases db @ [c]\<rparr>
      in rbind (upsert_field_values env (c_id c) (case cc_fields p of Some f \<Rightarrow> f | None \<Rightarrow> []) db1) (\<lambda>db2.
         synced env who c (create_event who (c_id c) ''case_created'' (event_data who []) db2)))"

text \<open>
  The fields that were set. For status, priority and severity a null counts as unset; for the
  others the inner \<open>None\<close> (\<open>JNull\<close> for the payload) is a null that was set.
\<close>

record case_update =
  up_summary :: "string option option"
  up_description :: "string option option"
  up_status :: "string option"
  up_priority :: "string option"
  up_severity :: "string option"
  up_fields :: "(string \<times> json) list option"
  up_assignee :: "string option option"
  up_payload :: "json option"

definition status_event :: "string \<Rightarrow> string \<Rightarrow> string" where
  "status_event old new =
     (if new = ''closed'' then ''case_closed'' else if old = ''closed'' then ''case_reopened'' else ''status_changed'')"

text \<open>One of the three values: the type of its event, how to read and how to write it.\<close>

definition update_value ::
  "actor \<Rightarrow> (string \<Rightarrow> string \<Rightarrow> string) \<Rightarrow> (case_row \<Rightarrow> string) \<Rightarrow> (string \<Rightarrow> case_row \<Rightarrow> case_row) \<Rightarrow> string option
   \<Rightarrow> case_row \<times> case_db \<Rightarrow> case_row \<times> case_db" where
  "update_value who type get put new st =
     (case (new, st) of
        (Some v, (c, db)) \<Rightarrow>
          if v = '''' \<or> v = get c then (c, db)
          else (put v c, create_event who (c_id c) (type (get c) v) (change_data who (Some (get c)) (Some v)) db)
      | (None, _) \<Rightarrow> st)"

definition update_status :: "actor \<Rightarrow> string option \<Rightarrow> case_row \<times> case_db \<Rightarrow> case_row \<times> case_db" where
  "update_status who = update_value who status_event c_status (\<lambda>v. c_status_update (\<lambda>_. v))"

definition update_priority :: "actor \<Rightarrow> string option \<Rightarrow> case_row \<times> case_db \<Rightarrow> case_row \<times> case_db" where
  "update_priority who = update_value who (\<lambda>_ _. ''priority_changed'') c_priority (\<lambda>v. c_priority_update (\<lambda>_. v))"

definition update_severity :: "actor \<Rightarrow> string option \<Rightarrow> case_row \<times> case_db \<Rightarrow> case_row \<times> case_db" where
  "update_severity who = update_value who (\<lambda>_ _. ''severity_changed'') c_severity (\<lambda>v. c_severity_update (\<lambda>_. v))"

definition field_diffs :: "(string \<times> json) list \<Rightarrow> (string \<times> json) list \<Rightarrow> json list" where
  "field_diffs old new =
     concat (map (\<lambda>(f, v). let o' = (case dget old f of Some w \<Rightarrow> w | None \<Rightarrow> JNull) in
               if py_eq o' v then [] else [JObj [(''field'', JStr f), (''old'', o'), (''new'', v)]]) new)"

definition update_fields :: "case_env \<Rightarrow> actor \<Rightarrow> (string \<times> json) list option \<Rightarrow> case_row \<times> case_db \<Rightarrow> exn + case_row \<times> case_db" where
  "update_fields env who kvs st =
     (case kvs of
        None \<Rightarrow> Inr st
      | Some [] \<Rightarrow> Inr st
      | Some fs \<Rightarrow>
          let (c, db) = st; old = (case dget (db_fields db) (c_id c) of Some row \<Rightarrow> row | None \<Rightarrow> []) in
          rbind (upsert_field_values env (c_id c) fs db) (\<lambda>db1.
            Inr (c, create_event who (c_id c) ''fields_changed'' (event_data who [(''changes'', JArr (field_diffs old fs))]) db1)))"

text \<open>The rest: the changed case, and the events in the order of the fields of \<open>CaseUpdate\<close>.\<close>

definition rest_row :: "case_update \<Rightarrow> case_row \<Rightarrow> case_row" where
  "rest_row p c =
     c\<lparr>c_summary := (case up_summary p of Some s \<Rightarrow> s | None \<Rightarrow> c_summary c),
       c_description := (case up_description p of Some s \<Rightarrow> s | None \<Rightarrow> c_description c),
       c_assignee := (case up_assignee p of Some a \<Rightarrow> a | None \<Rightarrow> c_assignee c),
       c_payload := (case up_payload p of Some x \<Rightarrow> x | None \<Rightarrow> c_payload c)\<rparr>"

definition rest_events :: "actor \<Rightarrow> case_update \<Rightarrow> case_row \<Rightarrow> (string \<times> (string \<times> json) list) list" where
  "rest_events who p c =
     (case up_summary p of
        Some s \<Rightarrow> [(''case_updated'', event_data who [(''field'', JStr ''summary''), (''old'', opt_str (c_summary c)), (''new'', opt_str s)])]
      | None \<Rightarrow> [])
     @ (case up_assignee p of Some a \<Rightarrow> [(''assignee_changed'', change_data who (c_assignee c) a)] | None \<Rightarrow> [])
     @ (case up_payload p of
          Some x \<Rightarrow> if py_eq (c_payload c) x then [] else [(''payload_changed'', event_data who [])]
        | None \<Rightarrow> [])"

definition update_case :: "case_env \<Rightarrow> actor \<Rightarrow> case_row \<Rightarrow> case_update \<Rightarrow> case_db \<Rightarrow> exn + case_db" where
  "update_case env who c p db =
     rbind (update_fields env who (up_fields p)
             (update_severity who (up_severity p) (update_priority who (up_priority p) (update_status who (up_status p) (c, db))))) (\<lambda>(c1, db1).
       let c2 = rest_row p c1;
           db2 = put_case c2 (foldl (\<lambda>db (type, data). create_event who (c_id c) type data db) db1 (rest_events who p c1))
       in if c_summary c2 = None \<or> c_description c2 = None then Inl integrity_error
          else synced env who c2 db2)"

text \<open>Deleting a case deletes what belongs to it.\<close>

definition delete_case :: "case_row \<Rightarrow> case_db \<Rightarrow> case_db" where
  "delete_case c db =
     db\<lparr>db_cases := filter (\<lambda>x. c_id x \<noteq> c_id c) (db_cases db),
        db_events := filter (\<lambda>e. e_case e \<noteq> c_id c) (db_events db),
        db_durations := filter (\<lambda>r. du_case r \<noteq> c_id c) (db_durations db),
        db_tasks := filter (\<lambda>k. k_case k \<noteq> c_id c) (db_tasks db),
        db_fields := filter (\<lambda>(i, _). i \<noteq> c_id c) (db_fields db),
        db_comments := filter (\<lambda>m. cm_case m \<noteq> c_id c) (db_comments db),
        db_links := filter (\<lambda>(i, _). i \<noteq> c_id c) (db_links db)\<rparr>"

section \<open>Comments\<close>

definition get_comment :: "actor \<Rightarrow> nat \<Rightarrow> case_db \<Rightarrow> comment_row option" where
  "get_comment who i db = find (\<lambda>m. cm_ws m = wh_ws who \<and> cm_id m = i) (db_comments db)"

definition list_comments :: "nat \<Rightarrow> case_db \<Rightarrow> comment_row list" where
  "list_comments cid db = sort_key cm_at (filter (\<lambda>m. cm_case m = cid) (db_comments db))"

definition create_comment :: "actor \<Rightarrow> case_row \<Rightarrow> string \<Rightarrow> nat option \<Rightarrow> case_db \<Rightarrow> case_db" where
  "create_comment who c content parent db =
     db\<lparr>db_next := Suc (db_next db),
        db_comments := db_comments db @ [\<lparr>cm_id = db_next db, cm_ws = wh_ws who, cm_case = c_id c, cm_content = Some content,
          cm_user = wh_user who, cm_parent = parent, cm_edited = None, cm_at = wh_now who\<rparr>]\<rparr>"

record comment_update =
  mu_content :: "string option option"
  mu_parent :: "nat option option"

definition update_comment :: "actor \<Rightarrow> comment_row \<Rightarrow> comment_update \<Rightarrow> case_db \<Rightarrow> exn + case_db" where
  "update_comment who m p db =
     (if cm_user m \<noteq> wh_user who then Inl (authorization_error ''You cannot update this comment'')
      else
        let m' = m\<lparr>cm_content := (case mu_content p of Some x \<Rightarrow> x | None \<Rightarrow> cm_content m),
                   cm_parent := (case mu_parent p of Some x \<Rightarrow> x | None \<Rightarrow> cm_parent m), cm_edited := Some (wh_now who)\<rparr>
        in if cm_content m' = None then Inl integrity_error
           else Inr (db\<lparr>db_comments := map (\<lambda>x. if cm_id x = cm_id m then m' else x) (db_comments db)\<rparr>))"

definition delete_comment :: "actor \<Rightarrow> comment_row \<Rightarrow> case_db \<Rightarrow> exn + case_db" where
  "delete_comment who m db =
     (if cm_user m \<noteq> wh_user who then Inl (authorization_error ''You can only delete your own comments'')
      else Inr (db\<lparr>db_comments := filter (\<lambda>x. cm_id x \<noteq> cm_id m) (db_comments db)\<rparr>))"

end
