(* ===== verification/CaseTasks.thy ===== *)
theory CaseTasks
  imports Cases
begin

text \<open>
  Tasks and tags of a case (\<open>CaseTasksService\<close> of \<open>allama/cases/service.py\<close> and
  \<open>allama/cases/tags/service.py\<close>), and the operations on the tables of cases as one step function.
  Workflow identifiers are given in their UUID form.
\<close>

section \<open>Tasks\<close>

text \<open>The database orders an enumeration by declaration.\<close>

definition priority_rank :: "string \<Rightarrow> nat" where
  "priority_rank p =
     (case find (\<lambda>(q, i). q = p) [(''unknown'', 0), (''low'', 1), (''medium'', 2), (''high'', 3), (''critical'', 4), (''other'', 5)] of
        Some (_, i) \<Rightarrow> i
      | None \<Rightarrow> 0)"

definition list_tasks :: "actor \<Rightarrow> nat \<Rightarrow> case_db \<Rightarrow> task_row list" where
  "list_tasks who cid db =
     sort_key (\<lambda>k. - int (priority_rank (k_priority k))) (sort_key k_at (filter (\<lambda>k. k_ws k = wh_ws who \<and> k_case k = cid) (db_tasks db)))"

definition get_task :: "actor \<Rightarrow> nat \<Rightarrow> case_db \<Rightarrow> exn + task_row" where
  "get_task who i db =
     (case find (\<lambda>k. k_ws k = wh_ws who \<and> k_id k = i) (db_tasks db) of
        None \<Rightarrow> Inl (not_found_error (''Task '' @ show_nat i @ '' not found''))
      | Some k \<Rightarrow> Inr k)"

definition case_or_error :: "actor \<Rightarrow> nat \<Rightarrow> case_db \<Rightarrow> exn + case_row" where
  "case_or_error who cid db =
     (case find_case (wh_ws who) cid db of
        None \<Rightarrow> Inl (not_found_error (''Case '' @ show_nat cid @ '' not found''))
      | Some c \<Rightarrow> Inr c)"

definition validate_default_trigger_values :: "case_env \<Rightarrow> string \<Rightarrow> string option \<Rightarrow> json \<Rightarrow> exn option" where
  "validate_default_trigger_values env ws wfid vals =
     (case wfid of
        None \<Rightarrow> Some (validation_error ''Cannot set default_trigger_values without a workflow_id'')
      | Some w \<Rightarrow>
          (case ce_workflow env ws w of
             None \<Rightarrow> Some (not_found_error (''Workflow '' @ w @ '' not found''))
           | Some (title, expects) \<Rightarrow>
               if expects = [] then None
               else (case ce_conforms env expects vals of
                   None \<Rightarrow> None
                 | Some e \<Rightarrow> Some (validation_error (''Invalid default_trigger_values for workflow '' @ quoted title @ '': '' @ e)))))"

record task_create =
  tc_title :: string
  tc_description :: "string option"
  tc_priority :: string
  tc_status :: string
  tc_assignee :: "string option"
  tc_workflow :: "string option"
  tc_defaults :: json

definition task_data :: "actor \<Rightarrow> task_row \<Rightarrow> (string \<times> json) list \<Rightarrow> (string \<times> json) list" where
  "task_data who k kvs = event_data who ([(''task_id'', JStr (show_nat (k_id k))), (''title'', JStr (k_title k))] @ kvs)"

definition create_task :: "case_env \<Rightarrow> actor \<Rightarrow> nat \<Rightarrow> task_create \<Rightarrow> case_db \<Rightarrow> exn + case_db" where
  "create_task env who cid p db =
     rbind (case_or_error who cid db) (\<lambda>c.
       case (if truthy (tc_defaults p) then validate_default_trigger_values env (wh_ws who) (tc_workflow p) (tc_defaults p) else None) of
         Some e \<Rightarrow> Inl e
       | None \<Rightarrow>
           let k = \<lparr>k_id = db_next db, k_ws = wh_ws who, k_case = cid, k_title = tc_title p, k_description = tc_description p,
                    k_priority = tc_priority p, k_status = tc_status p, k_assignee = tc_assignee p, k_workflow = tc_workflow p,
                    k_defaults = tc_defaults p, k_at = wh_now who\<rparr>;
               db1 = db\<lparr>db_next := Suc (db_next db), db_tasks := db_tasks db @ [k]\<rparr>
           in Inr (create_event who (c_id c) ''task_created'' (task_data who k []) db1))"

text \<open>
  The fields that were set. A null counts as unset, except for the workflow (the inner \<open>None\<close>) and
  the default trigger values (\<open>JNull\<close>), which it clears.
\<close>

record task_update =
  ku_title :: "string option"
  ku_description :: "string option"
  ku_priority :: "string option"
  ku_status :: "string option"
  ku_assignee :: "string option"
  ku_workflow :: "string option option"
  ku_defaults :: "json option"

definition put_task :: "task_row \<Rightarrow> case_db \<Rightarrow> case_db" where
  "put_task k db = db\<lparr>db_tasks := map (\<lambda>x. if k_id x = k_id k then k else x) (db_tasks db)\<rparr>"

definition update_task_value ::
  "actor \<Rightarrow> string \<Rightarrow> (task_row \<Rightarrow> string option) \<Rightarrow> (string \<Rightarrow> task_row \<Rightarrow> task_row) \<Rightarrow> string option
   \<Rightarrow> task_row \<times> case_db \<Rightarrow> task_row \<times> case_db" where
  "update_task_value who type get put new st =
     (case (new, st) of
        (Some v, (k, db)) \<Rightarrow>
          if Some v = get k then (k, db)
          else (put v k, create_event who (k_case k) type (task_data who k [(''old'', opt_str (get k)), (''new'', JStr v)]) db)
      | (None, _) \<Rightarrow> st)"

definition update_task_workflow :: "case_env \<Rightarrow> actor \<Rightarrow> task_update \<Rightarrow> task_row \<times> case_db \<Rightarrow> exn + task_row \<times> case_db" where
  "update_task_workflow env who p st =
     (case (ku_workflow p, st) of
        (None, _) \<Rightarrow> Inr st
      | (Some wfid, (k, db)) \<Rightarrow>
          (case (if wfid \<noteq> None \<and> truthy (k_defaults k) \<and> ku_defaults p = None
                 then validate_default_trigger_values env (wh_ws who) wfid (k_defaults k) else None) of
             Some e \<Rightarrow> Inl e
           | None \<Rightarrow>
               if k_workflow k = wfid then Inr st
               else Inr (k\<lparr>k_workflow := wfid\<rparr>,
                 create_event who (k_case k) ''task_workflow_changed''
                   (task_data who k [(''old'', opt_str (k_workflow k)), (''new'', opt_str wfid)]) db)))"

definition update_task_defaults :: "case_env \<Rightarrow> actor \<Rightarrow> json option \<Rightarrow> task_row \<Rightarrow> exn + task_row" where
  "update_task_defaults env who vals k =
     (case vals of
        None \<Rightarrow> Inr k
      | Some v \<Rightarrow>
          (case (if truthy v then validate_default_trigger_values env (wh_ws who) (k_workflow k) v else None) of
             Some e \<Rightarrow> Inl e
           | None \<Rightarrow> Inr (k\<lparr>k_defaults := v\<rparr>)))"

definition update_task :: "case_env \<Rightarrow> actor \<Rightarrow> nat \<Rightarrow> task_update \<Rightarrow> case_db \<Rightarrow> exn + case_db" where
  "update_task env who i p db =
     rbind (get_task who i db) (\<lambda>k.
     rbind (case_or_error who (k_case k) db) (\<lambda>c.
       let st1 = update_task_value who ''task_status_changed'' (\<lambda>k. Some (k_status k)) (\<lambda>v. k_status_update (\<lambda>_. v)) (ku_status p) (k, db);
           st2 = update_task_value who ''task_assignee_changed'' k_assignee (\<lambda>v. k_assignee_update (\<lambda>_. Some v)) (ku_assignee p) st1;
           st3 = update_task_value who ''task_priority_changed'' (\<lambda>k. Some (k_priority k)) (\<lambda>v. k_priority_update (\<lambda>_. v)) (ku_priority p) st2
       in rbind (update_task_workflow env who p st3) (\<lambda>(k1, db1).
          rbind (update_task_defaults env who (ku_defaults p) k1) (\<lambda>k2.
            let k3 = k2\<lparr>k_title := (case ku_title p of Some t \<Rightarrow> t | None \<Rightarrow> k_title k2),
                        k_description := (case ku_description p of Some d \<Rightarrow> Some d | None \<Rightarrow> k_description k2)\<rparr>
            in Inr (put_task k3 db1)))))"

definition delete_task :: "actor \<Rightarrow> nat \<Rightarrow> case_db \<Rightarrow> exn + case_db" where
  "delete_task who i db =
     rbind (get_task who i db) (\<lambda>k.
     rbind (case_or_error who (k_case k) db) (\<lambda>c.
       let db1 = create_event who (c_id c) ''task_deleted'' (task_data who k []) db
       in Inr (db1\<lparr>db_tasks := filter (\<lambda>x. k_id x \<noteq> k_id k) (db_tasks db1)\<rparr>)))"

section \<open>Tags\<close>

definition no_result :: "string \<Rightarrow> exn" where
  "no_result msg = Exn ''NoResultFound'' False msg [] None"

definition tag_value_error :: "string \<Rightarrow> exn" where
  "tag_value_error msg = Exn ''ValueError'' False msg [] None"

definition get_tag :: "string \<Rightarrow> nat \<Rightarrow> case_db \<Rightarrow> tag_row option" where
  "get_tag ws i db = find (\<lambda>t. t_ws t = ws \<and> t_id t = i) (db_tags db)"

definition get_tag_by_ref :: "string \<Rightarrow> string \<Rightarrow> case_db \<Rightarrow> tag_row option" where
  "get_tag_by_ref ws ref db = find (\<lambda>t. t_ws t = ws \<and> t_ref t = ref) (db_tags db)"

definition tag_candidates :: "case_env \<Rightarrow> string \<Rightarrow> string list" where
  "tag_candidates env ident =
     (let slug = ce_slugify env ident in
      ident # (if ident \<noteq> '''' \<and> slug \<noteq> '''' \<and> slug \<noteq> ident then [slug] else []))"

fun first_tag :: "string \<Rightarrow> string list \<Rightarrow> case_db \<Rightarrow> tag_row option" where
  "first_tag ws [] db = None"
| "first_tag ws (r # rs) db = (case get_tag_by_ref ws r db of Some t \<Rightarrow> Some t | None \<Rightarrow> first_tag ws rs db)"

definition get_tag_by_ref_or_id :: "case_env \<Rightarrow> string \<Rightarrow> string \<Rightarrow> case_db \<Rightarrow> exn + tag_row" where
  "get_tag_by_ref_or_id env ws ident db =
     (case ce_uuid env ident of
        None \<Rightarrow>
          (case first_tag ws (tag_candidates env ident) db of
             Some t \<Rightarrow> Inr t
           | None \<Rightarrow> Inl (no_result (''Case tag '' @ quoted ident @ '' not found. Checked refs: ''
               @ join_with '', '' (map quoted (tag_candidates env ident)) @ ''. Ensure the tag exists or provide its UUID.'')))
      | Some i \<Rightarrow>
          (case get_tag ws i db of
             Some t \<Rightarrow> Inr t
           | None \<Rightarrow> Inl (no_result (''Case tag ID '' @ quoted ident @ '' not found in this workspace.''))))"

definition create_tag :: "case_env \<Rightarrow> string \<Rightarrow> string \<Rightarrow> string option \<Rightarrow> case_db \<Rightarrow> exn + tag_row \<times> case_db" where
  "create_tag env ws name color db =
     (let ref = ce_slugify env name in
      if get_tag_by_ref ws ref db \<noteq> None then Inl (tag_value_error (''Case tag with slug '' @ quoted ref @ '' already exists''))
      else let t = \<lparr>t_id = db_next db, t_ws = ws, t_name = Some name, t_ref = ref, t_color = color\<rparr>
           in Inr (t, db\<lparr>db_next := Suc (db_next db), db_tags := db_tags db @ [t]\<rparr>))"

record tag_update =
  tu_name :: "string option option"
  tu_color :: "string option option"

text \<open>The constraint pydantic checks on the name of a tag.\<close>

definition tag_name_ok :: "string \<Rightarrow> bool" where
  "tag_name_ok name \<longleftrightarrow> name \<noteq> [] \<and> length name \<le> 50"

definition tag_update_ok :: "tag_update \<Rightarrow> bool" where
  "tag_update_ok p = (case tu_name p of Some (Some n) \<Rightarrow> tag_name_ok n | _ \<Rightarrow> True)"

definition update_tag :: "case_env \<Rightarrow> tag_row \<Rightarrow> tag_update \<Rightarrow> case_db \<Rightarrow> exn + case_db" where
  "update_tag env t p db =
     (let named = (case tu_name p of Some (Some n) \<Rightarrow> n \<noteq> '''' \<and> t_name t \<noteq> Some n | _ \<Rightarrow> False);
          ref = (case tu_name p of Some (Some n) \<Rightarrow> if named then ce_slugify env n else t_ref t | _ \<Rightarrow> t_ref t)
      in if ref \<noteq> t_ref t \<and> list_ex (\<lambda>x. t_ws x = t_ws t \<and> t_ref x = ref \<and> t_id x \<noteq> t_id t) (db_tags db)
         then Inl (tag_value_error (''Case tag with slug '' @ quoted ref @ '' already exists''))
         else
           let t' = t\<lparr>t_name := (case tu_name p of Some n \<Rightarrow> n | None \<Rightarrow> t_name t), t_ref := ref,
                      t_color := (case tu_color p of Some x \<Rightarrow> x | None \<Rightarrow> t_color t)\<rparr>
           in if t_name t' = None then Inl integrity_error
              else Inr (db\<lparr>db_tags := map (\<lambda>x. if t_id x = t_id t then t' else x) (db_tags db)\<rparr>))"

definition delete_tag :: "tag_row \<Rightarrow> case_db \<Rightarrow> case_db" where
  "delete_tag t db =
     db\<lparr>db_tags := filter (\<lambda>x. t_id x \<noteq> t_id t) (db_tags db), db_links := filter (\<lambda>(_, i). i \<noteq> t_id t) (db_links db)\<rparr>"

definition list_tags_for_case :: "nat \<Rightarrow> case_db \<Rightarrow> tag_row list" where
  "list_tags_for_case cid db = filter (\<lambda>t. (cid, t_id t) \<in> set (db_links db)) (db_tags db)"

definition tag_data :: "tag_row \<Rightarrow> (string \<times> json) list" where
  "tag_data t = [(''tag_id'', JStr (show_nat (t_id t))), (''tag_ref'', JStr (t_ref t)), (''tag_name'', opt_str (t_name t))]"

definition tagged_case :: "actor \<Rightarrow> nat \<Rightarrow> case_db \<Rightarrow> exn + case_row" where
  "tagged_case who cid db =
     (case find_case (wh_ws who) cid db of
        None \<Rightarrow> Inl (not_found_error (''Case '' @ show_nat cid @ '' not found in this workspace.''))
      | Some c \<Rightarrow> Inr c)"

text \<open>\<open>create_if_missing\<close> commits the new tag before the rest: what fails afterwards leaves it.\<close>

definition resolve_tag :: "case_env \<Rightarrow> string \<Rightarrow> bool \<Rightarrow> string \<Rightarrow> case_db \<Rightarrow> exn + tag_row \<times> case_db" where
  "resolve_tag env ws create ident db =
     (case get_tag_by_ref_or_id env ws ident db of
        Inr t \<Rightarrow> Inr (t, db)
      | Inl e \<Rightarrow>
          if \<not> create then Inl e
          else if \<not> tag_name_ok ident then Inl (Exn ''ValidationError'' False ''TagCreate'' [] None)
          else create_tag env ws ident None db)"

definition add_case_tag :: "case_env \<Rightarrow> actor \<Rightarrow> nat \<Rightarrow> string \<Rightarrow> bool \<Rightarrow> case_db \<Rightarrow> (exn + tag_row) \<times> case_db" where
  "add_case_tag env who cid ident create db =
     (case rbind (tagged_case who cid db) (\<lambda>c. rbind (resolve_tag env (wh_ws who) create ident db) (\<lambda>r. Inr (c, r))) of
        Inl e \<Rightarrow> (Inl e, db)
      | Inr (c, (t, db1)) \<Rightarrow>
          if (cid, t_id t) \<in> set (db_links db1) then (Inr t, db1)
          else (case synced env who c (create_event who (c_id c) ''tag_added'' (tag_data t) (db1\<lparr>db_links := db_links db1 @ [(cid, t_id t)]\<rparr>)) of
              Inl e \<Rightarrow> (Inl e, db1)
            | Inr db2 \<Rightarrow> (Inr t, db2)))"

definition remove_case_tag :: "case_env \<Rightarrow> actor \<Rightarrow> nat \<Rightarrow> string \<Rightarrow> case_db \<Rightarrow> exn + case_db" where
  "remove_case_tag env who cid ident db =
     rbind (tagged_case who cid db) (\<lambda>c.
     rbind (get_tag_by_ref_or_id env (wh_ws who) ident db) (\<lambda>t.
       if (cid, t_id t) \<notin> set (db_links db)
       then Inl (tag_value_error (''Tag '' @ ident @ '' not found on case '' @ show_nat cid))
       else synced env who c
         (create_event who (c_id c) ''tag_removed'' (tag_data t) (db\<lparr>db_links := filter (\<lambda>l. l \<noteq> (cid, t_id t)) (db_links db)\<rparr>))))"

section \<open>The operations together\<close>

text \<open>
  A request names the row it is about; the routers look it up in the workspace of the role and answer
  404 when there is none. An operation that raises leaves the tables.
\<close>

datatype case_op =
    CreateCase case_create
  | ViewCase nat
  | UpdateCase nat case_update
  | DeleteCase nat
  | CreateComment nat string "nat option"
  | UpdateComment nat comment_update
  | DeleteComment nat
  | CreateTask nat task_create
  | UpdateTask nat task_update
  | DeleteTask nat
  | AddTag nat string bool
  | RemoveTag nat string
  | CreateTag string "string option"
  | UpdateTag nat tag_update
  | DeleteTag nat
  | CreateDefinition def_create
  | UpdateDefinition nat def_update
  | DeleteDefinition nat
  | CreateDuration nat nat duration_value
  | UpdateDuration nat nat "nat option" "duration_value \<Rightarrow> duration_value"
  | DeleteDuration nat nat
  | SyncDurations nat

definition or_same :: "case_db \<Rightarrow> exn + case_db \<Rightarrow> case_db" where
  "or_same db r = (case r of Inl e \<Rightarrow> db | Inr db' \<Rightarrow> db')"

definition on_row :: "'a option \<Rightarrow> ('a \<Rightarrow> exn + case_db) \<Rightarrow> case_db \<Rightarrow> case_db" where
  "on_row x f db = (case x of None \<Rightarrow> db | Some y \<Rightarrow> or_same db (f y))"

abbreviation on_case :: "actor \<Rightarrow> nat \<Rightarrow> (case_row \<Rightarrow> exn + case_db) \<Rightarrow> case_db \<Rightarrow> case_db" where
  "on_case who cid f db \<equiv> on_row (find_case (wh_ws who) cid db) f db"

fun case_step :: "case_env \<Rightarrow> case_db \<Rightarrow> actor \<times> case_op \<Rightarrow> case_db" where
  "case_step env db (who, CreateCase p) = or_same db (create_case env who p db)"
| "case_step env db (who, ViewCase i) = snd (get_case env who True i db)"
| "case_step env db (who, UpdateCase i p) = on_case who i (\<lambda>c. update_case env who c p db) db"
| "case_step env db (who, DeleteCase i) = on_case who i (\<lambda>c. Inr (delete_case c db)) db"
| "case_step env db (who, CreateComment i content parent) = on_case who i (\<lambda>c. Inr (create_comment who c content parent db)) db"
| "case_step env db (who, UpdateComment i p) = on_row (get_comment who i db) (\<lambda>m. update_comment who m p db) db"
| "case_step env db (who, DeleteComment i) = on_row (get_comment who i db) (\<lambda>m. delete_comment who m db) db"
| "case_step env db (who, CreateTask i p) = or_same db (create_task env who i p db)"
| "case_step env db (who, UpdateTask i p) = or_same db (update_task env who i p db)"
| "case_step env db (who, DeleteTask i) = or_same db (delete_task who i db)"
| "case_step env db (who, AddTag i ident create) = snd (add_case_tag env who i ident create db)"
| "case_step env db (who, RemoveTag i ident) = or_same db (remove_case_tag env who i ident db)"
| "case_step env db (who, CreateTag name color) = (if tag_name_ok name then or_same db (rbind (create_tag env (wh_ws who) name color db) (\<lambda>r. Inr (snd r))) else db)"
| "case_step env db (who, UpdateTag i p) = (if tag_update_ok p then on_row (get_tag (wh_ws who) i db) (\<lambda>t. update_tag env t p db) db else db)"
| "case_step env db (who, DeleteTag i) = on_row (get_tag (wh_ws who) i db) (\<lambda>t. Inr (delete_tag t db)) db"
| "case_step env db (who, CreateDefinition p) = or_same db (create_definition (wh_ws who) p db)"
| "case_step env db (who, UpdateDefinition i p) = or_same db (update_definition (wh_ws who) i p db)"
| "case_step env db (who, DeleteDefinition i) = or_same db (delete_definition (wh_ws who) i db)"
| "case_step env db (who, CreateDuration i d v) = on_case who i (\<lambda>c. create_duration (wh_ws who) c d v db) db"
| "case_step env db (who, UpdateDuration i j d change) = on_case who i (\<lambda>c. update_duration (wh_ws who) c j d change db) db"
| "case_step env db (who, DeleteDuration i j) = on_case who i (\<lambda>c. delete_duration (wh_ws who) c j db) db"
| "case_step env db (who, SyncDurations i) = on_case who i (\<lambda>c. synced env who c db) db"

definition empty_case_db :: case_db where
  "empty_case_db = \<lparr>db_next = 0, db_cases = [], db_events = [], db_defs = [], db_durations = [], db_tasks = [],
     db_fields = [], db_comments = [], db_tags = [], db_links = []\<rparr>"

end
