(* ===== verification/Durations_Correct.thy ===== *)
theory Durations_Correct
  imports Durations
begin

text \<open>
  What case durations promise: a computed duration runs between the events its anchors select and is
  never negative, the computation for many cases agrees with that for each of them, and the records
  of a case are exactly its computations after a synchronisation.
\<close>

section \<open>Selected events\<close>

definition eligible :: "(string \<Rightarrow> int option) \<Rightarrow> anchor \<Rightarrow> int option \<Rightarrow> event_row \<Rightarrow> int \<Rightarrow> bool" where
  "eligible fromiso a earliest e t \<longleftrightarrow>
     e_type e = an_type a \<and> matches_filters e (an_filters a) \<and> extract_timestamp fromiso e a = Some t
     \<and> (case earliest of Some b \<Rightarrow> b \<le> t | None \<Rightarrow> True)"

text \<open>The event is the first (or last) of the eligible ones; nothing is selected only when there is none.\<close>

definition selects :: "(string \<Rightarrow> int option) \<Rightarrow> event_row list \<Rightarrow> anchor \<Rightarrow> int option \<Rightarrow> nat option \<Rightarrow> int option \<Rightarrow> bool" where
  "selects fromiso events a earliest i t \<longleftrightarrow>
     (case t of
        None \<Rightarrow> i = None \<and> (\<forall>e\<in>set events. \<forall>t. \<not> eligible fromiso a earliest e t)
      | Some t \<Rightarrow>
          (\<exists>e\<in>set events. i = Some (e_id e) \<and> eligible fromiso a earliest e t)
          \<and> (\<forall>e\<in>set events. \<forall>t'. eligible fromiso a earliest e t' \<longrightarrow> (if an_last a then t' \<le> t else t \<le> t')))"

lemma set_candidate: "(x, t) \<in> set (candidate fromiso a earliest e) \<longleftrightarrow> x = e \<and> eligible fromiso a earliest e t"
  by (cases earliest; cases "extract_timestamp fromiso e a") (auto simp: candidate_def eligible_def)

lemma set_candidates:
  "(e, t) \<in> set (concat (map (candidate fromiso a earliest) events)) \<longleftrightarrow> e \<in> set events \<and> eligible fromiso a earliest e t"
  by (auto simp: set_candidate)

lemma sort_key_not_Nil: "x \<in> set xs \<Longrightarrow> sort_key f xs \<noteq> []"
proof
  assume x: "x \<in> set xs" and "sort_key f xs = []"
  then have "set (sort_key f xs) = {}" by (simp only: list.set)
  with x show False by simp
qed

lemma hd_sort_key_le: "x \<in> set xs \<Longrightarrow> f (hd (sort_key f xs)) \<le> f x" for f :: "'a \<Rightarrow> 'b :: linorder"
proof -
  assume x: "x \<in> set xs"
  then obtain y ys where s: "sort_key f xs = y # ys" using sort_key_not_Nil by (metis neq_Nil_conv)
  have "sorted (map f (y # ys))" using sorted_sort_key [of f xs] by (simp only: s)
  moreover have "x \<in> set (y # ys)" using x set_sort [of f xs] by (simp only: s)
  ultimately show ?thesis unfolding s by auto
qed

lemma last_sort_key_ge: "x \<in> set xs \<Longrightarrow> f x \<le> f (last (sort_key f xs))" for f :: "'a \<Rightarrow> 'b :: linorder"
proof -
  assume x: "x \<in> set xs"
  then have "sort_key f xs \<noteq> []" by (rule sort_key_not_Nil)
  then obtain ys y where s: "sort_key f xs = ys @ [y]" by (cases "sort_key f xs" rule: rev_cases) auto
  have "sorted (map f (ys @ [y]))" using sorted_sort_key [of f xs] by (simp only: s)
  moreover have "x \<in> set (ys @ [y])" using x set_sort [of f xs] by (simp only: s)
  ultimately show ?thesis unfolding s by (auto simp: sorted_append)
qed

lemma find_matching_event_selects:
  fixes fromiso :: "string \<Rightarrow> int option" and events :: "event_row list" and a :: anchor and earliest :: "int option"
  defines "m \<equiv> find_matching_event fromiso events a earliest"
  shows "selects fromiso events a earliest (map_option (\<lambda>m. e_id (fst m)) m) (map_option snd m)"
proof -
  let ?cs = "concat (map (candidate fromiso a earliest) events)"
  show ?thesis
  proof (cases "?cs = []")
    case True
    then have "\<not> (e \<in> set events \<and> eligible fromiso a earliest e t)" for e t
      using set_candidates [of e t fromiso a earliest events] by simp
    with True show ?thesis by (simp add: m_def find_matching_event_def selects_def)
  next
    case False
    let ?s = "sort_key snd ?cs"
    obtain e t where et: "(if an_last a then last ?s else hd ?s) = (e, t)" by fastforce
    have "?s \<noteq> []" using False by (metis set_empty set_sort)
    then have "(e, t) \<in> set ?s" using et by (metis hd_in_set last_in_set)
    then have el: "e \<in> set events" "eligible fromiso a earliest e t"
      using set_candidates [of e t fromiso a earliest events] by simp_all
    have best: "if an_last a then t' \<le> t else t \<le> t'"
      if "e' \<in> set events" "eligible fromiso a earliest e' t'" for e' t'
    proof -
      have "(e', t') \<in> set ?cs" using that set_candidates [of e' t' fromiso a earliest events] by simp
      from hd_sort_key_le [OF this, of snd] last_sort_key_ge [OF this, of snd] et show ?thesis
        by (auto split: if_splits)
    qed
    have "m = Some (e, t)" using False et by (simp add: m_def find_matching_event_def Let_def)
    with el best show ?thesis by (auto simp: selects_def)
  qed
qed

lemma selects_late: "selects fromiso events a (Some b) i (Some t) \<Longrightarrow> b \<le> t"
  by (auto simp: selects_def eligible_def)

text \<open>C33: A computed duration starts at the event its start anchor selects and ends at the one its end anchor
  selects among those not before the start; it has a value exactly when both were found, the time
  between them, which is never negative.
\<close>
theorem duration_between_anchors:
  fixes fromiso :: "string \<Rightarrow> int option" and events :: "event_row list" and d :: duration_def
  defines "v \<equiv> cp_value (compute_one fromiso events d)"
  shows "selects fromiso events (dd_start d) None (dv_start_event v) (dv_started v)
    \<and> selects fromiso events (dd_end d) (dv_started v) (dv_end_event v) (dv_ended v)
    \<and> dv_duration v = (case (dv_started v, dv_ended v) of (Some s, Some e) \<Rightarrow> Some (e - s) | _ \<Rightarrow> None)
    \<and> (case dv_duration v of Some x \<Rightarrow> 0 \<le> x | None \<Rightarrow> True)"
proof -
  let ?s = "find_matching_event fromiso events (dd_start d) None"
  let ?e = "find_matching_event fromiso events (dd_end d) (map_option snd ?s)"
  have end_sel: "selects fromiso events (dd_end d) (map_option snd ?s) (map_option (\<lambda>m. e_id (fst m)) ?e) (map_option snd ?e)"
    by (rule find_matching_event_selects)
  define so eo where "so = map_option snd ?s" and "eo = map_option snd ?e"
  have late: "b \<le> t" if "so = Some b" "eo = Some t" for b t
    using selects_late end_sel that unfolding so_def eo_def by metis
  have "(case (so, eo) of (Some s, Some e) \<Rightarrow> e < s | _ \<Rightarrow> False) = False"
    using late by (cases so; cases eo) (auto simp: not_less)
  then have v: "v = \<lparr>dv_start_event = map_option (\<lambda>m. e_id (fst m)) ?s, dv_end_event = map_option (\<lambda>m. e_id (fst m)) ?e,
      dv_started = so, dv_ended = eo, dv_duration = (case (so, eo) of (Some s, Some e) \<Rightarrow> Some (e - s) | _ \<Rightarrow> None)\<rparr>"
    by (simp add: v_def compute_one_def Let_def so_def eo_def)
  have "case dv_duration v of Some x \<Rightarrow> 0 \<le> x | None \<Rightarrow> True"
    using late by (cases so; cases eo) (auto simp: v)
  then show ?thesis using end_sel find_matching_event_selects [of fromiso events "dd_start d" None]
    by (simp add: v so_def eo_def)
qed

section \<open>Many cases\<close>

lemma dget_foldl_nil: "dget (foldl (\<lambda>d i. dset i [] d) m ids) i = (if i \<in> set ids then Some [] else dget m i)"
  by (induction ids arbitrary: m) auto

lemma dget_group:
  assumes "\<And>e. e \<in> set events \<Longrightarrow> dget m (e_case e) \<noteq> None"
  shows "dget (foldl (\<lambda>d e. dset (e_case e) ((case dget d (e_case e) of Some es \<Rightarrow> es | None \<Rightarrow> []) @ [e]) d) m events) i
       = map_option (\<lambda>es. es @ filter (\<lambda>e. e_case e = i) events) (dget m i)"
  using assms
proof (induction events arbitrary: m)
  case Nil
  then show ?case by (simp add: option.map_ident)
next
  case (Cons e events)
  let ?m = "dset (e_case e) ((case dget m (e_case e) of Some es \<Rightarrow> es | None \<Rightarrow> []) @ [e]) m"
  have "\<And>x. x \<in> set events \<Longrightarrow> dget ?m (e_case x) \<noteq> None" using Cons.prems by auto
  from Cons.IH [OF this] Cons.prems [of e] show ?case by (cases "dget m i") (auto split: option.splits)
qed

lemma group_events_get:
  assumes "\<And>e. e \<in> set events \<Longrightarrow> e_case e \<in> set ids" and "i \<in> set ids"
  shows "dget (group_events ids events) i = Some (filter (\<lambda>e. e_case e = i) events)"
  unfolding group_events_def using assms by (subst dget_group) (auto simp: dget_foldl_nil)

lemma map_of_map_snd: "map_of (map (\<lambda>(i, x). (i, f x)) m) i = map_option f (map_of m i)"
  by (induction m) auto

text \<open>C37: The batch computation gives every case of the workspace exactly the durations that the computation
  for that case alone gives.
\<close>
theorem batch_matches_single:
  assumes "c \<in> set cs" and "c_ws c = ws"
  shows "dget (compute_durations fromiso ws cs db) (c_id c) = Some ds \<longleftrightarrow> compute_duration fromiso ws c db = Inr ds"
proof (cases "list_definitions ws db = []")
  case True
  have "cs \<noteq> []" "c_id c \<in> c_id ` set cs" using assms(1) by auto
  with True assms(2) show ?thesis
    by (auto simp: compute_durations_def compute_duration_def resolve_case_def Let_def dget_foldl_nil)
next
  case False
  let ?ids = "map c_id cs"
  let ?P = "\<lambda>e. e_ws e = ws \<and> e_case e \<in> set ?ids"
  let ?rows = "sort_key e_case (sort_key e_at (filter ?P (db_events db)))"
  have i: "c_id c \<in> set ?ids" using assms(1) by simp
  have "dget (group_events ?ids ?rows) (c_id c) = Some (filter (\<lambda>e. e_case e = c_id c) ?rows)"
    by (rule group_events_get) (use i in auto)
  also have "filter (\<lambda>e. e_case e = c_id c) ?rows = filter (\<lambda>e. e_case e = c_id c) (sort_key e_at (filter ?P (db_events db)))"
    by (rule sort_key_stable)
  also have "\<dots> = sort_key e_at (filter (\<lambda>e. e_case e = c_id c) (filter ?P (db_events db)))"
    by (rule filter_sort)
  also have "filter (\<lambda>e. e_case e = c_id c) (filter ?P (db_events db)) = filter (\<lambda>e. e_case e = c_id c \<and> e_ws e = ws) (db_events db)"
    using i by (auto intro!: filter_cong)
  finally have "dget (group_events ?ids ?rows) (c_id c) = Some (list_case_events ws (c_id c) db)"
    by (simp add: list_case_events_def)
  moreover have "cs \<noteq> []" using assms(1) by auto
  ultimately show ?thesis
    using False assms(2) by (auto simp: compute_durations_def compute_duration_def resolve_case_def Let_def map_of_map_snd)
qed

section \<open>Synchronised records\<close>

definition durations_ok :: "case_db \<Rightarrow> bool" where
  "durations_ok db \<longleftrightarrow>
     distinct (map du_id (db_durations db)) \<and> (\<forall>r\<in>set (db_durations db). du_id r < db_next db)
     \<and> distinct (map (\<lambda>r. (du_case r, du_def r)) (db_durations db))
     \<and> distinct (map dd_id (db_defs db)) \<and> (\<forall>d\<in>set (db_defs db). dd_id d < db_next db)
     \<and> distinct (map (\<lambda>d. (dd_ws d, dd_name d)) (db_defs db))
     \<and> distinct (map c_id (db_cases db)) \<and> (\<forall>c\<in>set (db_cases db). c_id c < db_next db)
     \<and> (\<forall>r\<in>set (db_durations db). \<forall>c\<in>set (db_cases db). c_id c = du_case r \<longrightarrow> c_ws c = du_ws r)"

definition of_case :: "string \<Rightarrow> nat \<Rightarrow> duration_row \<Rightarrow> bool" where
  "of_case ws cid r \<longleftrightarrow> du_ws r = ws \<and> du_case r = cid"

lemma case_durations_of_case: "case_durations ws cid db = filter (of_case ws cid) (db_durations db)"
  by (simp add: case_durations_def of_case_def [abs_def])

lemma distinct_map_filter_snd:
  "distinct (map (\<lambda>r. (f r, g r)) xs) \<Longrightarrow> (\<And>r. P r \<Longrightarrow> f r = k) \<Longrightarrow> distinct (map g (filter P xs))"
  by (induction xs) auto

lemma existing_by_definition_rows:
  assumes "durations_ok db"
  shows "existing_by_definition ws cid db = map (\<lambda>r. (du_def r, r)) (filter (of_case ws cid) (db_durations db))"
proof -
  have "distinct (map du_def (filter (of_case ws cid) (db_durations db)))"
    using assms by (intro distinct_map_filter_snd [where f = du_case and k = cid]) (simp_all add: durations_ok_def of_case_def)
  then show ?thesis
    unfolding existing_by_definition_def case_durations_of_case by (subst foldl_dset_distinct) simp_all
qed

lemma existing_get:
  assumes "durations_ok db"
  shows "dget (existing_by_definition ws cid db) d = Some r \<longleftrightarrow> r \<in> set (db_durations db) \<and> of_case ws cid r \<and> du_def r = d"
proof -
  have dist: "distinct (map du_def (filter (of_case ws cid) (db_durations db)))"
    using assms by (intro distinct_map_filter_snd [where f = du_case and k = cid]) (simp_all add: durations_ok_def of_case_def)
  show ?thesis
    unfolding existing_by_definition_rows [OF assms]
    using map_of_map_key [OF dist, of r "\<lambda>r. r"] map_of_map_key_Some [of du_def "\<lambda>r. r" "filter (of_case ws cid) (db_durations db)" d r]
    by auto
qed

text \<open>What the loop over the computations leaves: updated rows, then the new ones.\<close>

definition cp_values :: "computation list \<Rightarrow> (nat, duration_value) dict" where
  "cp_values cps = map (\<lambda>cp. (cp_def cp, cp_value cp)) cps"

definition synced_row :: "string \<Rightarrow> nat \<Rightarrow> computation list \<Rightarrow> duration_row \<Rightarrow> duration_row" where
  "synced_row ws cid cps r =
     (if of_case ws cid r
      then (case dget (cp_values cps) (du_def r) of Some v \<Rightarrow> r\<lparr>du_value := v\<rparr> | None \<Rightarrow> r) else r)"

definition new_rows :: "string \<Rightarrow> nat \<Rightarrow> nat \<Rightarrow> computation list \<Rightarrow> duration_row list" where
  "new_rows ws cid n cps =
     map (\<lambda>(i, cp). \<lparr>du_id = i, du_ws = ws, du_case = cid, du_def = cp_def cp, du_value = cp_value cp\<rparr>) (zip [n..<n + length cps] cps)"

lemma new_rows_snoc:
  "new_rows ws cid n (cps @ [cp]) = new_rows ws cid n cps @
     [\<lparr>du_id = n + length cps, du_ws = ws, du_case = cid, du_def = cp_def cp, du_value = cp_value cp\<rparr>]"
  by (simp add: new_rows_def)

lemma set_new_rows:
  "r \<in> set (new_rows ws cid n cps) \<Longrightarrow> n \<le> du_id r \<and> du_id r < n + length cps \<and> of_case ws cid r \<and> (\<exists>cp\<in>set cps. du_def r = cp_def cp \<and> du_value r = cp_value cp)"
  by (auto simp: new_rows_def of_case_def dest: set_zip_leftD set_zip_rightD)

lemma new_rows_maps:
  "map du_id (new_rows ws cid n cps) = [n..<n + length cps]"
  "map (\<lambda>r. (du_def r, du_value r)) (new_rows ws cid n cps) = map (\<lambda>cp. (cp_def cp, cp_value cp)) cps"
  "map (\<lambda>r. (du_case r, du_def r)) (new_rows ws cid n cps) = map (\<lambda>cp. (cid, cp_def cp)) cps"
proof -
  have "map (f \<circ> (\<lambda>(i, cp). \<lparr>du_id = i, du_ws = ws, du_case = cid, du_def = cp_def cp, du_value = cp_value cp\<rparr>)) (zip [n..<n + length cps] cps)
      = map g cps" if "\<And>i cp. f \<lparr>du_id = i, du_ws = ws, du_case = cid, du_def = cp_def cp, du_value = cp_value cp\<rparr> = g cp" for f :: "duration_row \<Rightarrow> 'z" and g
    by (rule nth_equalityI) (simp_all add: that)
  note m = this
  show "map (\<lambda>r. (du_def r, du_value r)) (new_rows ws cid n cps) = map (\<lambda>cp. (cp_def cp, cp_value cp)) cps"
    unfolding new_rows_def map_map by (rule m) simp
  show "map (\<lambda>r. (du_case r, du_def r)) (new_rows ws cid n cps) = map (\<lambda>cp. (cid, cp_def cp)) cps"
    unfolding new_rows_def map_map by (rule m) simp
  show "map du_id (new_rows ws cid n cps) = [n..<n + length cps]"
    by (rule nth_equalityI) (simp_all add: new_rows_def)
qed

lemma synced_row_fields [simp]:
  "du_id (synced_row ws cid cps r) = du_id r" "du_case (synced_row ws cid cps r) = du_case r"
  "du_ws (synced_row ws cid cps r) = du_ws r" "du_def (synced_row ws cid cps r) = du_def r"
  by (simp_all add: synced_row_def split: option.splits)

lemma fold_sync:
  fixes ws :: string and cid :: nat and db :: case_db and cps :: "computation list"
  assumes ok: "durations_ok db" and "distinct (map cp_def cps)"
  defines "ex \<equiv> existing_by_definition ws cid db"
  shows "foldl (\<lambda>db cp. sync_one ws cid ex cp db) db cps =
         db\<lparr>db_next := db_next db + length (filter (\<lambda>cp. dget ex (cp_def cp) = None) cps),
            db_durations := map (synced_row ws cid cps) (db_durations db)
              @ new_rows ws cid (db_next db) (filter (\<lambda>cp. dget ex (cp_def cp) = None) cps)\<rparr>"
  using assms(2)
proof (induction cps rule: rev_induct)
  case Nil
  have "synced_row ws cid [] = (\<lambda>r. r)" by (simp add: synced_row_def cp_values_def fun_eq_iff)
  then show ?case by (simp add: new_rows_def)
next
  case (snoc cp cps)
  have fresh: "dget (cp_values cps) (cp_def cp) = None"
    using snoc.prems by (auto simp: cp_values_def map_of_eq_None_iff comp_def)
  have app: "dget (cp_values (cps @ [cp])) d = (case dget (cp_values cps) d of Some v \<Rightarrow> Some v | None \<Rightarrow> if d = cp_def cp then Some (cp_value cp) else None)" for d
    by (simp add: cp_values_def map_add_def split: option.splits)
  let ?new = "filter (\<lambda>cp. dget ex (cp_def cp) = None) cps"
  have IH: "foldl (\<lambda>db cp. sync_one ws cid ex cp db) db cps =
         db\<lparr>db_next := db_next db + length ?new,
            db_durations := map (synced_row ws cid cps) (db_durations db) @ new_rows ws cid (db_next db) ?new\<rparr>"
    using snoc by simp
  have step: "foldl (\<lambda>db cp. sync_one ws cid ex cp db) db (cps @ [cp]) = sync_one ws cid ex cp
         (db\<lparr>db_next := db_next db + length ?new,
            db_durations := map (synced_row ws cid cps) (db_durations db) @ new_rows ws cid (db_next db) ?new\<rparr>)"
    by (simp only: foldl_append foldl.simps IH)
  show ?case
  proof (cases "dget ex (cp_def cp)")
    case None
    then have "\<not> (of_case ws cid r \<and> du_def r = cp_def cp)" if "r \<in> set (db_durations db)" for r
      using that existing_get [OF ok, of ws cid "cp_def cp" r] by (auto simp: ex_def)
    then have "map (synced_row ws cid (cps @ [cp])) (db_durations db) = map (synced_row ws cid cps) (db_durations db)"
      by (auto simp: synced_row_def app split: option.splits)
    with None show ?thesis unfolding step by (simp add: sync_one_def add_duration_def new_rows_snoc)
  next
    case (Some r0)
    then have r0: "r0 \<in> set (db_durations db)" "of_case ws cid r0" "du_def r0 = cp_def cp"
      using existing_get [OF ok, of ws cid "cp_def cp" r0] by (auto simp: ex_def)
    have ids: "du_id r = du_id r0 \<longleftrightarrow> r = r0" if "r \<in> set (db_durations db)" for r
      using ok that r0(1) by (auto simp: durations_ok_def distinct_map dest: inj_onD)
    have keys: "of_case ws cid r \<and> du_def r = cp_def cp \<longleftrightarrow> r = r0" if "r \<in> set (db_durations db)" for r
      using existing_get [OF ok, of ws cid "cp_def cp" r] that Some r0 by (auto simp: ex_def)
    have rows: "map (\<lambda>r. if du_id r = du_id r0 then r\<lparr>du_value := cp_value cp\<rparr> else r) (map (synced_row ws cid cps) (db_durations db))
        = map (synced_row ws cid (cps @ [cp])) (db_durations db)"
    proof -
      have "(if du_id r = du_id r0 then (synced_row ws cid cps r)\<lparr>du_value := cp_value cp\<rparr> else synced_row ws cid cps r)
          = synced_row ws cid (cps @ [cp]) r" if r: "r \<in> set (db_durations db)" for r
        using ids [OF r] keys [OF r] r0 fresh by (auto simp: synced_row_def app split: option.splits)
      then show ?thesis by simp
    qed
    have "map (\<lambda>r. if du_id r = du_id r0 then r\<lparr>du_value := cp_value cp\<rparr> else r) (new_rows ws cid (db_next db) ?new)
        = new_rows ws cid (db_next db) ?new"
    proof (rule map_idI)
      fix r assume "r \<in> set (new_rows ws cid (db_next db) ?new)"
      from set_new_rows [OF this] r0(1) ok show "(if du_id r = du_id r0 then r\<lparr>du_value := cp_value cp\<rparr> else r) = r"
        by (auto simp: durations_ok_def)
    qed
    with Some rows show ?thesis unfolding step by (simp add: sync_one_def set_duration_def del: map_map)
  qed
qed

definition kept :: "string \<Rightarrow> nat \<Rightarrow> computation list \<Rightarrow> duration_row \<Rightarrow> bool" where
  "kept ws cid cps r \<longleftrightarrow> of_case ws cid r \<longrightarrow> du_def r \<in> cp_def ` set cps"

definition missing :: "string \<Rightarrow> nat \<Rightarrow> duration_row list \<Rightarrow> computation list \<Rightarrow> computation list" where
  "missing ws cid rows cps = filter (\<lambda>cp. \<forall>r\<in>set rows. of_case ws cid r \<longrightarrow> du_def r \<noteq> cp_def cp) cps"

definition synced_rows :: "string \<Rightarrow> nat \<Rightarrow> computation list \<Rightarrow> nat \<Rightarrow> duration_row list \<Rightarrow> duration_row list" where
  "synced_rows ws cid cps n rows =
     map (synced_row ws cid cps) (filter (kept ws cid cps) rows) @ new_rows ws cid n (missing ws cid rows cps)"

definition computed :: "(string \<Rightarrow> int option) \<Rightarrow> string \<Rightarrow> nat \<Rightarrow> case_db \<Rightarrow> computation list" where
  "computed fromiso ws cid db = map (compute_one fromiso (list_case_events ws cid db)) (list_definitions ws db)"

lemma compute_duration_computed:
  "compute_duration fromiso ws c db =
     (if c_ws c = ws then Inr (computed fromiso ws (c_id c) db)
      else Inl (not_found_error ''Case does not belong to the active workspace''))"
  by (simp add: compute_duration_def resolve_case_def computed_def compute_durations_from_events_def Let_def)

lemma computed_defs:
  assumes "durations_ok db"
  shows "distinct (map cp_def (computed fromiso ws cid db))"
proof -
  have "map cp_def (computed fromiso ws cid db) = map dd_id (list_definitions ws db)"
    by (simp add: computed_def compute_one_def Let_def)
  then show ?thesis using assms by (simp add: durations_ok_def list_definitions_def distinct_map_filter)
qed

lemma missing_get:
  assumes "durations_ok db"
  shows "missing ws cid (db_durations db) cps = filter (\<lambda>cp. dget (existing_by_definition ws cid db) (cp_def cp) = None) cps"
  unfolding missing_def
proof (rule filter_cong [OF refl])
  fix cp
  show "(\<forall>r\<in>set (db_durations db). of_case ws cid r \<longrightarrow> du_def r \<noteq> cp_def cp) \<longleftrightarrow> dget (existing_by_definition ws cid db) (cp_def cp) = None"
    using existing_get [OF assms, of ws cid "cp_def cp"] by (cases "dget (existing_by_definition ws cid db) (cp_def cp)") auto
qed

lemma sync_result:
  fixes cid :: nat and c :: case_row and db :: case_db and ws :: string and fromiso :: "string \<Rightarrow> int option"
  assumes ok: "durations_ok db" and "c_ws c = ws"
  defines "cid \<equiv> c_id c"
  defines "cps \<equiv> computed fromiso ws cid db"
  shows "sync_case_durations fromiso ws c db = Inr (cps,
    db\<lparr>db_next := db_next db + length (missing ws cid (db_durations db) cps),
       db_durations := synced_rows ws cid cps (db_next db) (db_durations db)\<rparr>)"
proof -
  let ?rows = "db_durations db" and ?new = "new_rows ws cid (db_next db) (missing ws cid (db_durations db) cps)"
  let ?stale = "map (du_id \<circ> snd) (filter (\<lambda>(d, r). d \<notin> set (map cp_def cps)) (existing_by_definition ws cid db))"
  have stale: "i \<in> set ?stale \<longleftrightarrow> (\<exists>r\<in>set ?rows. du_id r = i \<and> \<not> kept ws cid cps r)" for i
    unfolding existing_by_definition_rows [OF ok] by (auto simp: kept_def image_iff)
  have old: "du_id r \<in> set ?stale \<longleftrightarrow> \<not> kept ws cid cps r" if "r \<in> set ?rows" for r
  proof -
    have "r' = r" if "r' \<in> set ?rows" "du_id r' = du_id r" for r'
      using ok that \<open>r \<in> set ?rows\<close> by (auto simp: durations_ok_def distinct_map dest: inj_onD)
    then show ?thesis unfolding stale using that by blast
  qed
  have "filter (\<lambda>r. du_id r \<notin> set ?stale) (map (synced_row ws cid cps) ?rows)
      = map (synced_row ws cid cps) (filter (\<lambda>r. du_id r \<notin> set ?stale) ?rows)"
    unfolding filter_map comp_def by (simp only: synced_row_fields)
  also have "filter (\<lambda>r. du_id r \<notin> set ?stale) ?rows = filter (kept ws cid cps) ?rows"
    by (rule filter_cong [OF refl]) (simp only: old not_not)
  finally have rows: "filter (\<lambda>r. du_id r \<notin> set ?stale) (map (synced_row ws cid cps) ?rows)
      = map (synced_row ws cid cps) (filter (kept ws cid cps) ?rows)" .
  have new: "filter (\<lambda>r. du_id r \<notin> set ?stale) ?new = ?new"
  proof (rule filter_True, rule ballI)
    fix r assume "r \<in> set ?new"
    from set_new_rows [OF this] ok show "du_id r \<notin> set ?stale" unfolding stale by (auto simp: durations_ok_def)
  qed
  have "distinct (map cp_def cps)" unfolding cps_def by (rule computed_defs [OF ok])
  from fold_sync [OF ok this, of ws cid] rows new assms(2) show ?thesis
    unfolding missing_get [OF ok, symmetric]
    by (simp add: sync_case_durations_def resolve_case_def compute_duration_computed synced_rows_def Let_def cid_def [symmetric] cps_def [symmetric])
qed

lemma cp_values_get:
  assumes "distinct (map cp_def cps)" and "cp \<in> set cps"
  shows "dget (cp_values cps) (cp_def cp) = Some (cp_value cp)"
  using assms by (induction cps) (auto simp: cp_values_def image_iff)

lemma of_case_synced [simp]: "of_case ws cid (synced_row ws' cid' cps r) = of_case ws cid r"
  by (simp add: of_case_def)

lemma synced_row_other: "\<not> of_case ws cid r \<Longrightarrow> synced_row ws cid cps r = r"
  by (simp add: synced_row_def)

lemma synced_row_value:
  assumes "distinct (map cp_def cps)" and "cp \<in> set cps" and "of_case ws cid r" and "du_def r = cp_def cp"
  shows "du_value (synced_row ws cid cps r) = cp_value cp"
  using cp_values_get [OF assms(1,2)] assms(3,4) by (simp add: synced_row_def)

lemma set_missing:
  "cp \<in> set (missing ws cid rows cps) \<longleftrightarrow> cp \<in> set cps \<and> (\<forall>r\<in>set rows. of_case ws cid r \<longrightarrow> du_def r \<noteq> cp_def cp)"
  by (auto simp: missing_def)

lemma new_rows_all: "r \<in> set (new_rows ws cid n cps) \<Longrightarrow> of_case ws cid r"
  using set_new_rows by blast

lemma synced_rows_case:
  assumes "distinct (map cp_def cps)"
  shows "(\<lambda>r. (du_def r, du_value r)) ` set (filter (of_case ws cid) (synced_rows ws cid cps n rows))
       = (\<lambda>cp. (cp_def cp, cp_value cp)) ` set cps" (is "?f ` ?A = ?g ` set cps")
proof -
  have split: "?f ` ?A = ?f ` (synced_row ws cid cps ` {r \<in> set rows. kept ws cid cps r \<and> of_case ws cid r})
      \<union> ?g ` set (missing ws cid rows cps)"
  proof -
    have "?f ` set (new_rows ws cid n (missing ws cid rows cps)) = ?g ` set (missing ws cid rows cps)"
      using arg_cong [OF new_rows_maps(2) [of ws cid n "missing ws cid rows cps"], of set] by (simp only: set_map)
    moreover have "?A = synced_row ws cid cps ` {r \<in> set rows. kept ws cid cps r \<and> of_case ws cid r}
        \<union> set (new_rows ws cid n (missing ws cid rows cps))"
      by (auto simp: synced_rows_def dest: new_rows_all)
    ultimately show ?thesis by (simp only: image_Un)
  qed
  have old: "?f ` (synced_row ws cid cps ` {r \<in> set rows. kept ws cid cps r \<and> of_case ws cid r}) \<subseteq> ?g ` set cps"
  proof clarify
    fix r assume r: "r \<in> set rows" "kept ws cid cps r" "of_case ws cid r"
    then obtain cp where cp: "cp \<in> set cps" "du_def r = cp_def cp" by (auto simp: kept_def)
    from synced_row_value [OF assms cp(1) r(3) cp(2)] cp
    show "(du_def (synced_row ws cid cps r), du_value (synced_row ws cid cps r)) \<in> ?g ` set cps" by simp
  qed
  have all: "?g cp \<in> ?f ` ?A" if cp: "cp \<in> set cps" for cp
  proof (cases "cp \<in> set (missing ws cid rows cps)")
    case False
    with cp obtain r where r: "r \<in> set rows" "of_case ws cid r" "du_def r = cp_def cp" by (auto simp: set_missing)
    have "?f (synced_row ws cid cps r) = ?g cp" using synced_row_value [OF assms cp r(2,3)] r(3) by simp
    moreover have "kept ws cid cps r" using cp r by (simp add: kept_def)
    ultimately show ?thesis unfolding split using r by (intro UnI1) (force simp: image_iff)
  next
    case True
    then show ?thesis unfolding split by (intro UnI2 imageI)
  qed
  have "?g ` set (missing ws cid rows cps) \<subseteq> ?g ` set cps" by (rule image_mono) (auto simp: set_missing)
  with old have "?f ` ?A \<subseteq> ?g ` set cps" unfolding split by (rule Un_least)
  then show ?thesis using image_subsetI [of "set cps" ?g, OF all] by (rule equalityI)
qed

lemma synced_rows_others:
  "filter (\<lambda>r. \<not> of_case ws cid r) (synced_rows ws cid cps n rows) = filter (\<lambda>r. \<not> of_case ws cid r) rows"
proof -
  have "filter (\<lambda>r. \<not> of_case ws cid r) (new_rows ws cid n xs) = []" for xs
    by (rule filter_False) (simp add: new_rows_all)
  moreover have "filter (\<lambda>r. \<not> of_case ws cid r) (map (synced_row ws cid cps) (filter (kept ws cid cps) rows))
      = filter (\<lambda>r. \<not> of_case ws cid r) rows"
    by (induction rows) (auto simp: synced_row_other kept_def)
  ultimately show ?thesis by (simp add: synced_rows_def)
qed

lemma synced_rows_again:
  assumes "distinct (map cp_def cps)"
  shows "missing ws cid (synced_rows ws cid cps n rows) cps = []"
    and "synced_rows ws cid cps m (synced_rows ws cid cps n rows) = synced_rows ws cid cps n rows"
proof -
  let ?s = "synced_rows ws cid cps n rows"
  have in_cps: "\<exists>cp\<in>set cps. du_def r = cp_def cp \<and> du_value r = cp_value cp" if "r \<in> set ?s" "of_case ws cid r" for r
    using synced_rows_case [OF assms, of ws cid n rows] that by (auto simp: set_eq_iff image_iff)
  have "\<exists>r\<in>set ?s. of_case ws cid r \<and> du_def r = cp_def cp" if "cp \<in> set cps" for cp
    using synced_rows_case [OF assms, of ws cid n rows] that by (auto simp: set_eq_iff image_iff) metis
  then show m: "missing ws cid ?s cps = []" unfolding missing_def filter_empty_conv by blast
  have "filter (kept ws cid cps) ?s = ?s"
    by (rule filter_True) (use in_cps in \<open>auto simp: kept_def\<close>)
  moreover have "synced_row ws cid cps r = r" if "r \<in> set ?s" for r
  proof (cases "of_case ws cid r")
    case True
    from in_cps [OF that True] obtain cp where "cp \<in> set cps" "du_def r = cp_def cp" "du_value r = cp_value cp" by auto
    with cp_values_get [OF assms] True show ?thesis by (simp add: synced_row_def)
  qed (simp add: synced_row_other)
  ultimately show "synced_rows ws cid cps m ?s = ?s"
    by (simp add: synced_rows_def [of _ _ _ m] m new_rows_def map_idI)
qed

lemma durations_ok_synced:
  assumes ok: "durations_ok db" and c: "c \<in> set (db_cases db)" "c_ws c = ws" and "distinct (map cp_def cps)"
  shows "durations_ok (db\<lparr>db_next := db_next db + length (missing ws (c_id c) (db_durations db) cps),
       db_durations := synced_rows ws (c_id c) cps (db_next db) (db_durations db)\<rparr>)"
proof -
  let ?rows = "db_durations db" and ?m = "missing ws (c_id c) (db_durations db) cps"
  let ?old = "filter (kept ws (c_id c) cps) ?rows" and ?new = "new_rows ws (c_id c) (db_next db) ?m"
  have id_synced: "map du_id (map (synced_row ws (c_id c) cps) ?old) = map du_id ?old"
    and key_synced: "map (\<lambda>r. (du_case r, du_def r)) (map (synced_row ws (c_id c) cps) ?old) = map (\<lambda>r. (du_case r, du_def r)) ?old"
    by simp_all
  have ids: "distinct (map du_id (synced_rows ws (c_id c) cps (db_next db) ?rows))"
    unfolding synced_rows_def map_append id_synced new_rows_maps(1)
    using ok by (auto simp: durations_ok_def distinct_map_filter)
  have "distinct (map (\<lambda>cp. (c_id c, cp_def cp)) ?m)"
    using assms(4) by (auto simp: missing_def distinct_map inj_on_def)
  moreover have "False" if "r \<in> set ?rows" "cp \<in> set ?m" "du_case r = c_id c" "du_def r = cp_def cp" for r cp
  proof -
    have "of_case ws (c_id c) r" using ok c that(1,3) unfolding of_case_def durations_ok_def by metis
    with that(1,2,4) show False by (simp add: set_missing)
  qed
  ultimately have keys: "distinct (map (\<lambda>r. (du_case r, du_def r)) (synced_rows ws (c_id c) cps (db_next db) ?rows))"
    unfolding synced_rows_def map_append key_synced new_rows_maps(3)
    using ok by (auto simp: durations_ok_def distinct_map_filter)
  have new: "du_id r < db_next db + length ?m" "of_case ws (c_id c) r" if "r \<in> set ?new" for r
    using set_new_rows [OF that] by simp_all
  have bound: "du_id r < db_next db + length ?m" if "r \<in> set (synced_rows ws (c_id c) cps (db_next db) ?rows)" for r
    using that new(1) ok by (auto simp: synced_rows_def durations_ok_def intro: trans_less_add1)
  have ws: "c_ws x = du_ws r"
    if "r \<in> set (synced_rows ws (c_id c) cps (db_next db) ?rows)" "x \<in> set (db_cases db)" "c_id x = du_case r" for r x
  proof -
    have "x = c" if "r \<in> set ?new" using new(2) [OF that] \<open>c_id x = du_case r\<close> \<open>x \<in> set (db_cases db)\<close> c(1) ok
      by (auto simp: of_case_def durations_ok_def distinct_map dest: inj_onD)
    with that c(2) new(2) ok show ?thesis by (auto simp: synced_rows_def durations_ok_def of_case_def)
  qed
  show ?thesis using ok ids keys bound ws
    by (auto simp: durations_ok_def intro: trans_less_add1)
qed

lemma sync_exact_step:
  assumes "durations_ok db" and "c \<in> set (db_cases db)" and "sync_case_durations fromiso ws c db = Inr (cps, db')"
  shows "compute_duration fromiso ws c db = Inr cps
    \<and> (\<lambda>r. (du_def r, du_value r)) ` set (case_durations ws (c_id c) db') = (\<lambda>cp. (cp_def cp, cp_value cp)) ` set cps
    \<and> filter (\<lambda>r. du_case r \<noteq> c_id c) (db_durations db') = filter (\<lambda>r. du_case r \<noteq> c_id c) (db_durations db)
    \<and> durations_ok db' \<and> sync_case_durations fromiso ws c db' = Inr (cps, db')"
proof -
  have ws: "c_ws c = ws" using assms(3) by (simp add: sync_case_durations_def resolve_case_def split: if_splits)
  have cps: "cps = computed fromiso ws (c_id c) db" and db': "db' = db\<lparr>
      db_next := db_next db + length (missing ws (c_id c) (db_durations db) cps),
      db_durations := synced_rows ws (c_id c) cps (db_next db) (db_durations db)\<rparr>"
    using sync_result [OF assms(1) ws, of fromiso] assms(3) by simp_all
  have dist: "distinct (map cp_def cps)" unfolding cps by (rule computed_defs [OF assms(1)])
  have ok': "durations_ok db'" unfolding db' by (rule durations_ok_synced [OF assms(1,2) ws dist])
  have same: "computed fromiso ws (c_id c) db' = cps"
    by (simp add: cps db' computed_def list_case_events_def list_definitions_def)
  have again: "sync_case_durations fromiso ws c db' = Inr (cps, db')"
    using sync_result [OF ok' ws, of fromiso] synced_rows_again [OF dist] by (simp add: same) (simp add: db')
  have others: "filter (\<lambda>r. du_case r \<noteq> c_id c) (db_durations db') = filter (\<lambda>r. du_case r \<noteq> c_id c) (db_durations db)"
    using arg_cong [OF synced_rows_others [of ws "c_id c" cps "db_next db" "db_durations db"], of "filter (\<lambda>r. du_case r \<noteq> c_id c)"]
    by (simp add: db' of_case_def conj_commute disj_commute cong: conj_cong)
  show ?thesis
    using synced_rows_case [OF dist, of ws "c_id c" "db_next db" "db_durations db"] ok' again others
    by (simp add: compute_duration_computed ws cps [symmetric] case_durations_of_case db')
qed

text \<open>C11: After a synchronisation the records of the case are exactly the computed durations of the current
  definitions, those of other cases are untouched, and synchronising again changes nothing.
\<close>
theorem sync_exact:
  assumes "durations_ok db" and "c \<in> set (db_cases db)" and "sync_case_durations fromiso ws c db = Inr (cps, db')"
  shows "compute_duration fromiso ws c db = Inr cps
    \<and> (\<lambda>r. (du_def r, du_value r)) ` set (case_durations ws (c_id c) db') = (\<lambda>cp. (cp_def cp, cp_value cp)) ` set cps
    \<and> filter (\<lambda>r. du_case r \<noteq> c_id c) (db_durations db') = filter (\<lambda>r. du_case r \<noteq> c_id c) (db_durations db)
    \<and> durations_ok db' \<and> sync_case_durations fromiso ws c db' = Inr (cps, db')"
  using sync_exact_step [OF assms] .

section \<open>Concrete runs\<close>

definition resolution_time :: duration_def where
  "resolution_time = \<lparr>dd_id = 1, dd_ws = ''w'', dd_name = ''Time to close'', dd_description = None,
     dd_start = \<lparr>an_type = ''case_created'', an_path = ''created_at'', an_filters = [], an_last = False\<rparr>,
     dd_end = \<lparr>an_type = ''case_closed'', an_path = ''created_at'', an_filters = [(''data.new'', JArr [JStr ''closed''])], an_last = True\<rparr>\<rparr>"

definition sample_case :: case_row where
  "sample_case = \<lparr>c_id = 0, c_ws = ''w'', c_summary = Some ''s'', c_description = None, c_status = ''closed'', c_priority = ''low'',
     c_severity = ''low'', c_assignee = None, c_payload = JNull\<rparr>"

definition sample_case_db :: case_db where
  "sample_case_db = \<lparr>db_next = 5, db_cases = [sample_case],
     db_events = [\<lparr>e_id = 2, e_ws = ''w'', e_case = 0, e_type = ''case_created'', e_data = JObj [], e_user = None, e_at = 10\<rparr>,
       \<lparr>e_id = 3, e_ws = ''w'', e_case = 0, e_type = ''case_closed'', e_data = JObj [(''new'', JStr ''closed'')], e_user = None, e_at = 70\<rparr>],
     db_defs = [resolution_time],
     db_durations = [\<lparr>du_id = 4, du_ws = ''w'', du_case = 0, du_def = 9, du_value = \<lparr>dv_start_event = None, dv_end_event = None,
       dv_started = None, dv_ended = None, dv_duration = None\<rparr>\<rparr>],
     db_tasks = [], db_fields = [], db_comments = [], db_tags = [], db_links = []\<rparr>"

definition sample_cps :: "computation list" where
  "sample_cps = [\<lparr>cp_def = 1, cp_name = ''Time to close'', cp_description = None,
     cp_value = \<lparr>dv_start_event = Some 2, dv_end_event = Some 3, dv_started = Some 10, dv_ended = Some 70, dv_duration = Some 60\<rparr>\<rparr>]"

lemma sample_compute: "compute_duration (\<lambda>_. None) ''w'' sample_case sample_case_db = Inr sample_cps"
  by code_simp

lemma sample_sync: "sync_case_durations (\<lambda>_. None) ''w'' sample_case sample_case_db = Inr (sample_cps,
    sample_case_db\<lparr>db_next := 6, db_durations := [\<lparr>du_id = 5, du_ws = ''w'', du_case = 0, du_def = 1, du_value = cp_value (hd sample_cps)\<rparr>]\<rparr>)"
  by code_simp

lemma sample_ok: "durations_ok sample_case_db" "sample_case \<in> set (db_cases sample_case_db)" "c_ws sample_case = ''w''" "c_id sample_case = 0"
  by (simp_all add: durations_ok_def sample_case_db_def sample_case_def resolution_time_def)

lemma batch_matches_single_witness:
  "dget (compute_durations (\<lambda>_. None) ''w'' [sample_case] sample_case_db) 0 = Some sample_cps"
  using batch_matches_single [of sample_case "[sample_case]" "''w''" "\<lambda>_. None" sample_case_db sample_cps] sample_ok sample_compute
  by simp

lemma sync_exact_witness:
  "sync_case_durations (\<lambda>_. None) ''w'' sample_case
     (sample_case_db\<lparr>db_next := 6, db_durations := [\<lparr>du_id = 5, du_ws = ''w'', du_case = 0, du_def = 1, du_value = cp_value (hd sample_cps)\<rparr>]\<rparr>)
   = Inr (sample_cps,
      sample_case_db\<lparr>db_next := 6, db_durations := [\<lparr>du_id = 5, du_ws = ''w'', du_case = 0, du_def = 1, du_value = cp_value (hd sample_cps)\<rparr>]\<rparr>)"
  by (rule sync_exact [OF sample_ok(1,2) sample_sync, THEN conjunct2, THEN conjunct2, THEN conjunct2, THEN conjunct2])

end
