(* ===== verification/Case_Tables.thy ===== *)
theory Case_Tables
  imports CaseTasks Durations_Correct
begin

text \<open>
  The invariant of the case tables: rows are identified, owned by a case of their workspace and unique
  where the services check it. First the elementary changes of the tables, then the shape of an
  update of a case, then every operation.
\<close>

section \<open>Consistent tables\<close>

definition ids_ok :: "nat \<Rightarrow> nat list \<Rightarrow> bool" where
  "ids_ok n is \<longleftrightarrow> distinct is \<and> (\<forall>i\<in>set is. i < n)"

definition owned :: "case_row list \<Rightarrow> string \<Rightarrow> nat \<Rightarrow> bool" where
  "owned cs ws cid \<longleftrightarrow> (\<exists>c\<in>set cs. c_id c = cid \<and> c_ws c = ws)"

definition defs_ok :: "nat \<Rightarrow> duration_def list \<Rightarrow> bool" where
  "defs_ok n ds \<longleftrightarrow> ids_ok n (map dd_id ds) \<and> distinct (map (\<lambda>d. (dd_ws d, dd_name d)) ds)"

definition rows_ok :: "nat \<Rightarrow> case_row list \<Rightarrow> duration_def list \<Rightarrow> duration_row list \<Rightarrow> bool" where
  "rows_ok n cs ds rs \<longleftrightarrow>
     ids_ok n (map du_id rs) \<and> distinct (map (\<lambda>r. (du_case r, du_def r)) rs)
     \<and> (\<forall>r\<in>set rs. owned cs (du_ws r) (du_case r) \<and> (\<exists>d\<in>set ds. dd_id d = du_def r \<and> dd_ws d = du_ws r))"

definition tags_ok :: "case_env \<Rightarrow> nat \<Rightarrow> tag_row list \<Rightarrow> bool" where
  "tags_ok env n ts \<longleftrightarrow>
     ids_ok n (map t_id ts) \<and> distinct (map (\<lambda>t. (t_ws t, t_ref t)) ts)
     \<and> (\<forall>t\<in>set ts. \<exists>name. t_name t = Some name \<and> t_ref t = ce_slugify env name)"

definition links_ok :: "case_row list \<Rightarrow> tag_row list \<Rightarrow> (nat \<times> nat) list \<Rightarrow> bool" where
  "links_ok cs ts ls \<longleftrightarrow> distinct ls \<and> (\<forall>l\<in>set ls. \<exists>t\<in>set ts. t_id t = snd l \<and> owned cs (t_ws t) (fst l))"

definition tables_ok :: "case_env \<Rightarrow> case_db \<Rightarrow> bool" where
  "tables_ok env db \<longleftrightarrow>
     ids_ok (db_next db) (map c_id (db_cases db))
     \<and> ids_ok (db_next db) (map e_id (db_events db)) \<and> (\<forall>e\<in>set (db_events db). owned (db_cases db) (e_ws e) (e_case e))
     \<and> defs_ok (db_next db) (db_defs db) \<and> rows_ok (db_next db) (db_cases db) (db_defs db) (db_durations db)
     \<and> ids_ok (db_next db) (map k_id (db_tasks db)) \<and> (\<forall>k\<in>set (db_tasks db). owned (db_cases db) (k_ws k) (k_case k))
     \<and> ids_ok (db_next db) (map cm_id (db_comments db)) \<and> (\<forall>m\<in>set (db_comments db). owned (db_cases db) (cm_ws m) (cm_case m))
     \<and> tags_ok env (db_next db) (db_tags db) \<and> links_ok (db_cases db) (db_tags db) (db_links db)
     \<and> distinct (dkeys (db_fields db)) \<and> set (dkeys (db_fields db)) \<subseteq> set (map c_id (db_cases db))"

named_theorems table_intros "steps that keep the tables consistent"

lemma ids_ok_Suc: "ids_ok n is \<Longrightarrow> ids_ok (Suc n) is" and ids_ok_add: "ids_ok n is \<Longrightarrow> ids_ok (n + k) is"
  by (auto simp: ids_ok_def)

lemma ids_ok_snoc: "ids_ok n is \<Longrightarrow> ids_ok (Suc n) (is @ [n])"
  by (auto simp: ids_ok_def)

lemma ids_ok_filter: "ids_ok n (map f xs) \<Longrightarrow> ids_ok n (map f (filter P xs))"
  by (auto simp: ids_ok_def distinct_map_filter)

lemma ids_ok_inj: "ids_ok n (map f xs) \<Longrightarrow> x \<in> set xs \<Longrightarrow> y \<in> set xs \<Longrightarrow> f x = f y \<Longrightarrow> x = y"
  by (auto simp: ids_ok_def distinct_map dest: inj_onD)

lemma distinct_map_eq: "distinct (map f xs) \<Longrightarrow> x \<in> set xs \<Longrightarrow> y \<in> set xs \<Longrightarrow> f x = f y \<Longrightarrow> x = y"
  by (auto simp: distinct_map dest: inj_onD)

lemma map_if_id: "(\<And>x. x \<in> set xs \<Longrightarrow> P x \<Longrightarrow> f (g x) = f x) \<Longrightarrow> map f (map (\<lambda>x. if P x then g x else x) xs) = map f xs"
  by (induction xs) auto

lemma map_put_id: "map f (map (\<lambda>y. if f y = f x then x else y) xs) = map f xs"
  by (induction xs) auto

lemma owned_append: "owned cs ws i \<Longrightarrow> owned (cs @ ds) ws i"
  by (auto simp: owned_def)

lemma owned_filter: "owned cs ws i \<Longrightarrow> i \<noteq> j \<Longrightarrow> owned (filter (\<lambda>c. c_id c \<noteq> j) cs) ws i"
  by (auto simp: owned_def)

lemma find_caseD:
  assumes "find_case ws cid db = Some c"
  shows "c \<in> set (db_cases db)" "c_ws c = ws" "c_id c = cid" "owned (db_cases db) ws cid"
  using assms by (auto simp: find_case_def find_Some_iff owned_def)

lemma tables_durations_ok: "tables_ok env db \<Longrightarrow> durations_ok db"
proof -
  assume ok: "tables_ok env db"
  have "c_ws c = du_ws r" if "r \<in> set (db_durations db)" "c \<in> set (db_cases db)" "c_id c = du_case r" for c r
  proof -
    from ok that(1) obtain x where x: "x \<in> set (db_cases db)" "c_id x = du_case r" "c_ws x = du_ws r"
      by (auto simp: tables_ok_def rows_ok_def owned_def)
    have "ids_ok (db_next db) (map c_id (db_cases db))" using ok by (simp add: tables_ok_def)
    from ids_ok_inj [OF this x(1) that(2)] x that(3) show ?thesis by simp
  qed
  with ok show ?thesis by (auto simp: tables_ok_def durations_ok_def rows_ok_def defs_ok_def ids_ok_def)
qed

subsection \<open>Elementary changes\<close>

lemma tables_create_event [table_intros]:
  "tables_ok env db \<Longrightarrow> owned (db_cases db) (wh_ws who) cid \<Longrightarrow> tables_ok env (create_event who cid type data db)"
  by (auto simp: tables_ok_def create_event_def ids_ok_Suc ids_ok_snoc defs_ok_def rows_ok_def tags_ok_def)

lemma owned_create_event [simp]: "db_cases (create_event who cid type data db) = db_cases db"
  by (simp add: create_event_def)

lemma tables_synced:
  assumes "tables_ok env db" and "c \<in> set (db_cases db)" and "synced env who c db = Inr db'"
  shows "tables_ok env db'"
proof -
  have ws: "c_ws c = wh_ws who"
    using assms(3) by (auto simp: synced_def sync_case_durations_def resolve_case_def rbind_Inr_iff split: if_splits)
  have ok: "durations_ok db" by (rule tables_durations_ok [OF assms(1)])
  let ?cps = "computed (ce_fromiso env) (wh_ws who) (c_id c) db"
  let ?m = "missing (wh_ws who) (c_id c) (db_durations db) ?cps"
  have db': "db' = db\<lparr>db_next := db_next db + length ?m,
      db_durations := synced_rows (wh_ws who) (c_id c) ?cps (db_next db) (db_durations db)\<rparr>"
    using assms(3) sync_result [OF ok ws, of "ce_fromiso env"] by (simp add: synced_def)
  have ok': "durations_ok db'" unfolding db'
    by (rule durations_ok_synced [OF ok assms(2) ws computed_defs [OF ok]])
  have known: "\<exists>d\<in>set (db_defs db). dd_id d = cp_def cp \<and> dd_ws d = wh_ws who" if "cp \<in> set ?cps" for cp
    using that by (auto simp: computed_def compute_one_def Let_def list_definitions_def)
  have "owned (db_cases db) (du_ws r) (du_case r) \<and> (\<exists>d\<in>set (db_defs db). dd_id d = du_def r \<and> dd_ws d = du_ws r)"
    if r: "r \<in> set (synced_rows (wh_ws who) (c_id c) ?cps (db_next db) (db_durations db))" for r
  proof (cases "r \<in> set (new_rows (wh_ws who) (c_id c) (db_next db) ?m)")
    case True
    with set_new_rows [OF this] known assms(2) ws show ?thesis
      by (fastforce simp: of_case_def owned_def set_missing)
  next
    case False
    with r assms(1) show ?thesis by (auto simp: synced_rows_def tables_ok_def rows_ok_def)
  qed
  with ok' assms(1) show ?thesis
    by (auto simp: tables_ok_def db' rows_ok_def durations_ok_def ids_ok_def defs_ok_def tags_ok_def intro: trans_less_add1)
qed

lemma owned_put:
  assumes "c \<in> set cs" and "c_id c = c_id x" and "c_ws c = c_ws x" and "distinct (map c_id cs)"
  shows "owned (map (\<lambda>y. if c_id y = c_id x then x else y) cs) = owned cs"
proof -
  have "c_ws y = c_ws x" if "y \<in> set cs" "c_id y = c_id x" for y
  proof -
    have "y = c" using assms(1,2,4) that inj_onD [of c_id "set cs" y c] by (simp add: distinct_map)
    then show ?thesis by (simp add: assms(3))
  qed
  then have "map (\<lambda>c. (c_id c, c_ws c)) (map (\<lambda>y. if c_id y = c_id x then x else y) cs) = map (\<lambda>c. (c_id c, c_ws c)) cs"
    by (intro map_if_id) simp
  moreover have "owned l ws i \<longleftrightarrow> (i, ws) \<in> set (map (\<lambda>c. (c_id c, c_ws c)) l)" for l ws i
    by (auto simp: owned_def)
  ultimately show ?thesis by (intro ext) (simp only:)
qed

lemma tables_put_case:
  assumes "tables_ok env db" and "c \<in> set (db_cases db)" and "c_id c = c_id x" and "c_ws c = c_ws x"
  shows "tables_ok env (put_case x db)"
proof -
  have ids: "map c_id (map (\<lambda>y. if c_id y = c_id x then x else y) (db_cases db)) = map c_id (db_cases db)"
    by (rule map_if_id) simp
  have own: "owned (map (\<lambda>y. if c_id y = c_id x then x else y) (db_cases db)) = owned (db_cases db)"
    using assms by (intro owned_put [of c]) (auto simp: tables_ok_def ids_ok_def)
  show ?thesis using assms(1) unfolding tables_ok_def put_case_def
    by (simp add: ids own rows_ok_def links_ok_def del: map_map list.set_map)
qed

lemma tables_add_case:
  assumes "tables_ok env db" and "c_id c = db_next db"
  shows "tables_ok env (db\<lparr>db_next := Suc (db_next db), db_cases := db_cases db @ [c]\<rparr>)"
  using assms
  by (auto simp: tables_ok_def ids_ok_Suc ids_ok_snoc defs_ok_def rows_ok_def tags_ok_def links_ok_def intro!: owned_append)

lemma tables_delete_case:
  assumes "tables_ok env db"
  shows "tables_ok env (delete_case c db)"
proof -
  have own: "owned (filter (\<lambda>x. c_id x \<noteq> c_id c) (db_cases db)) ws i" if "owned (db_cases db) ws i" "i \<noteq> c_id c" for ws i
    by (rule owned_filter [OF that])
  have "distinct (map (\<lambda>r. (du_case r, du_def r)) (filter (\<lambda>r. du_case r \<noteq> c_id c) (db_durations db)))"
    using assms by (simp add: tables_ok_def rows_ok_def distinct_map_filter)
  moreover have "links_ok (filter (\<lambda>x. c_id x \<noteq> c_id c) (db_cases db)) (db_tags db) (filter (\<lambda>(i, _). i \<noteq> c_id c) (db_links db))"
    using assms own by (fastforce simp: tables_ok_def links_ok_def)
  moreover have "set (dkeys (filter (\<lambda>(i, _). i \<noteq> c_id c) (db_fields db))) \<subseteq> set (map c_id (filter (\<lambda>x. c_id x \<noteq> c_id c) (db_cases db)))"
  proof
    fix i assume "i \<in> set (dkeys (filter (\<lambda>(i, _). i \<noteq> c_id c) (db_fields db)))"
    then have "i \<in> set (dkeys (db_fields db))" and "i \<noteq> c_id c" by auto
    moreover from this assms have "i \<in> set (map c_id (db_cases db))" unfolding tables_ok_def by blast
    ultimately show "i \<in> set (map c_id (filter (\<lambda>x. c_id x \<noteq> c_id c) (db_cases db)))" by auto
  qed
  ultimately show ?thesis
    using assms own
    by (auto simp: tables_ok_def delete_case_def rows_ok_def ids_ok_filter distinct_map_filter simp del: list.set_map)
qed

lemma tables_set_fields:
  "tables_ok env db \<Longrightarrow> i \<in> set (map c_id (db_cases db)) \<Longrightarrow> tables_ok env (db\<lparr>db_fields := dset i row (db_fields db)\<rparr>)"
  using dkeys_dset [of i row "db_fields db"] distinct_dkeys_dset [of "db_fields db" i row]
  by (simp add: tables_ok_def del: set_map)

lemma tables_add_comment:
  "tables_ok env db \<Longrightarrow> cm_id m = db_next db \<Longrightarrow> owned (db_cases db) (cm_ws m) (cm_case m)
   \<Longrightarrow> tables_ok env (db\<lparr>db_next := Suc (db_next db), db_comments := db_comments db @ [m]\<rparr>)"
  by (auto simp: tables_ok_def ids_ok_Suc ids_ok_snoc defs_ok_def rows_ok_def tags_ok_def)

lemma tables_put_comment:
  "tables_ok env db \<Longrightarrow> owned (db_cases db) (cm_ws x) (cm_case x)
   \<Longrightarrow> tables_ok env (db\<lparr>db_comments := map (\<lambda>y. if cm_id y = cm_id x then x else y) (db_comments db)\<rparr>)"
  by (auto simp: tables_ok_def map_put_id simp del: map_map)

lemma tables_filter_comments: "tables_ok env db \<Longrightarrow> tables_ok env (db\<lparr>db_comments := filter P (db_comments db)\<rparr>)"
  by (auto simp: tables_ok_def ids_ok_filter)

lemma tables_add_task:
  "tables_ok env db \<Longrightarrow> k_id k = db_next db \<Longrightarrow> owned (db_cases db) (k_ws k) (k_case k)
   \<Longrightarrow> tables_ok env (db\<lparr>db_next := Suc (db_next db), db_tasks := db_tasks db @ [k]\<rparr>)"
  by (auto simp: tables_ok_def ids_ok_Suc ids_ok_snoc defs_ok_def rows_ok_def tags_ok_def)

lemma tables_put_task:
  "tables_ok env db \<Longrightarrow> owned (db_cases db) (k_ws k) (k_case k) \<Longrightarrow> tables_ok env (put_task k db)"
  by (auto simp: tables_ok_def put_task_def map_put_id simp del: map_map)

lemma tables_filter_tasks: "tables_ok env db \<Longrightarrow> tables_ok env (db\<lparr>db_tasks := filter P (db_tasks db)\<rparr>)"
  by (auto simp: tables_ok_def ids_ok_filter)

lemma distinct_put:
  assumes "distinct (map f xs)" and "distinct (map g xs)" and "\<And>y. y \<in> set xs \<Longrightarrow> f y \<noteq> f x \<Longrightarrow> g y \<noteq> g x"
  shows "distinct (map g (map (\<lambda>y. if f y = f x then x else y) xs))"
  using assms
proof (induction xs)
  case Nil
  then show ?case by simp
next
  case (Cons z zs)
  have unique: "f y \<noteq> f z" if "y \<in> set zs" for y
  proof
    assume "f y = f z"
    then have "f z \<in> f ` set zs" using imageI [OF that, of f] by (simp only:)
    with Cons.prems(1) show False by simp
  qed
  have IH: "distinct (map g (map (\<lambda>y. if f y = f x then x else y) zs))" using Cons by simp
  show ?case
  proof (cases "f z = f x")
    case True
    then have "map (\<lambda>y. if f y = f x then x else y) zs = zs" using unique by (intro map_idI) auto
    moreover have "g x \<notin> g ` set zs" using Cons.prems(3) unique True by (auto simp: image_iff) metis
    ultimately show ?thesis using True Cons.prems(2) by simp
  next
    case False
    have "g z \<notin> (\<lambda>y. g (if f y = f x then x else y)) ` set zs"
      using Cons.prems(2) Cons.prems(3) [of z] False by (auto simp: image_iff)
    with IH False show ?thesis by simp
  qed
qed

lemma tables_add_tag:
  assumes "tables_ok env db" and "t_id t = db_next db" and "t_name t = Some name" and "t_ref t = ce_slugify env name"
    and "get_tag_by_ref (t_ws t) (t_ref t) db = None"
  shows "tables_ok env (db\<lparr>db_next := Suc (db_next db), db_tags := db_tags db @ [t]\<rparr>)"
proof -
  have "tags_ok env (Suc (db_next db)) (db_tags db @ [t])"
    using assms by (auto simp: tables_ok_def tags_ok_def ids_ok_snoc get_tag_by_ref_def find_None_iff image_iff)
  with assms(1) show ?thesis
    by (auto simp: tables_ok_def ids_ok_Suc defs_ok_def rows_ok_def links_ok_def)
qed

lemma tables_put_tag:
  assumes "tables_ok env db" and "t \<in> set (db_tags db)" and "t_id t = t_id x" and "t_ws t = t_ws x"
    and "t_name x = Some name" and "t_ref x = ce_slugify env name"
    and "\<And>y. y \<in> set (db_tags db) \<Longrightarrow> t_id y \<noteq> t_id x \<Longrightarrow> (t_ws y, t_ref y) \<noteq> (t_ws x, t_ref x)"
  shows "tables_ok env (db\<lparr>db_tags := map (\<lambda>y. if t_id y = t_id x then x else y) (db_tags db)\<rparr>)"
proof -
  let ?ts = "map (\<lambda>y. if t_id y = t_id x then x else y) (db_tags db)"
  have ids: "ids_ok (db_next db) (map t_id (db_tags db))" and keys: "distinct (map (\<lambda>t. (t_ws t, t_ref t)) (db_tags db))"
    using assms(1) by (simp_all add: tables_ok_def tags_ok_def)
  have "distinct (map (\<lambda>t. (t_ws t, t_ref t)) ?ts)"
    by (rule distinct_put [OF _ keys assms(7)]) (use ids in \<open>simp_all add: ids_ok_def\<close>)
  moreover have "ids_ok (db_next db) (map t_id ?ts)" unfolding map_put_id by (rule ids)
  ultimately have tags: "tags_ok env (db_next db) ?ts"
    using assms(1,5,6) by (auto simp: tables_ok_def tags_ok_def simp del: map_map)
  have "\<exists>u\<in>set ?ts. t_id u = i \<and> owned (db_cases db) (t_ws u) j"
    if "y \<in> set (db_tags db)" "t_id y = i" "owned (db_cases db) (t_ws y) j" for y i j
  proof (cases "t_id y = t_id x")
    case True
    then have "y = t" using ids_ok_inj [OF ids that(1) assms(2)] assms(3) by simp
    with True that assms(2-4) show ?thesis by (intro bexI [of _ x]) auto
  next
    case False
    with that show ?thesis by (intro bexI [of _ y]) auto
  qed
  then have "links_ok (db_cases db) ?ts (db_links db)"
    using assms(1) unfolding tables_ok_def links_ok_def by blast
  with tags assms(1) show ?thesis by (simp add: tables_ok_def del: map_map)
qed

lemma tables_delete_tag:
  assumes "tables_ok env db"
  shows "tables_ok env (delete_tag t db)"
proof -
  have "tags_ok env (db_next db) (filter (\<lambda>x. t_id x \<noteq> t_id t) (db_tags db))"
    using assms by (auto simp: tables_ok_def tags_ok_def ids_ok_filter distinct_map_filter)
  moreover have "links_ok (db_cases db) (filter (\<lambda>x. t_id x \<noteq> t_id t) (db_tags db)) (filter (\<lambda>(_, i). i \<noteq> t_id t) (db_links db))"
    using assms by (fastforce simp: tables_ok_def links_ok_def)
  ultimately show ?thesis using assms by (simp add: tables_ok_def delete_tag_def)
qed

lemma tables_add_link:
  "tables_ok env db \<Longrightarrow> t \<in> set (db_tags db) \<Longrightarrow> owned (db_cases db) (t_ws t) i \<Longrightarrow> (i, t_id t) \<notin> set (db_links db)
   \<Longrightarrow> tables_ok env (db\<lparr>db_links := db_links db @ [(i, t_id t)]\<rparr>)"
  by (auto simp: tables_ok_def links_ok_def)

lemma tables_filter_links: "tables_ok env db \<Longrightarrow> tables_ok env (db\<lparr>db_links := filter P (db_links db)\<rparr>)"
  by (auto simp: tables_ok_def links_ok_def)

lemma tables_add_definition:
  assumes "tables_ok env db" and "dd_id d = db_next db" and "ensure_unique_name (dd_ws d) (dd_name d) None db = None"
  shows "tables_ok env (db\<lparr>db_next := Suc (db_next db), db_defs := db_defs db @ [d]\<rparr>)"
proof -
  have "defs_ok (Suc (db_next db)) (db_defs db @ [d])"
    using assms by (auto simp: tables_ok_def defs_ok_def ids_ok_snoc ensure_unique_name_def validation_simps list_ex_iff)
  with assms(1) show ?thesis by (auto simp: tables_ok_def ids_ok_Suc rows_ok_def tags_ok_def)
qed

lemma tables_put_definition:
  assumes "tables_ok env db" and "d \<in> set (db_defs db)" and "dd_id d = dd_id x" and "dd_ws d = dd_ws x"
    and "\<And>y. y \<in> set (db_defs db) \<Longrightarrow> dd_id y \<noteq> dd_id x \<Longrightarrow> (dd_ws y, dd_name y) \<noteq> (dd_ws x, dd_name x)"
  shows "tables_ok env (db\<lparr>db_defs := map (\<lambda>y. if dd_id y = dd_id x then x else y) (db_defs db)\<rparr>)"
proof -
  let ?ds = "map (\<lambda>y. if dd_id y = dd_id x then x else y) (db_defs db)"
  have ids: "ids_ok (db_next db) (map dd_id (db_defs db))" and keys: "distinct (map (\<lambda>d. (dd_ws d, dd_name d)) (db_defs db))"
    using assms(1) by (simp_all add: tables_ok_def defs_ok_def)
  have "distinct (map (\<lambda>d. (dd_ws d, dd_name d)) ?ds)"
    by (rule distinct_put [OF _ keys assms(5)]) (use ids in \<open>simp_all add: ids_ok_def\<close>)
  moreover have "ids_ok (db_next db) (map dd_id ?ds)" unfolding map_put_id by (rule ids)
  moreover have "\<exists>u\<in>set ?ds. dd_id u = i \<and> dd_ws u = w" if "y \<in> set (db_defs db)" "dd_id y = i" "dd_ws y = w" for y i w
  proof (cases "dd_id y = dd_id x")
    case True
    then have "y = d" using ids_ok_inj [OF ids that(1) assms(2)] assms(3) by simp
    with True that assms(2-4) show ?thesis by (intro bexI [of _ x]) auto
  next
    case False
    with that show ?thesis by (intro bexI [of _ y]) auto
  qed
  then have "rows_ok (db_next db) (db_cases db) ?ds (db_durations db)"
    using assms(1) unfolding tables_ok_def rows_ok_def by blast
  ultimately show ?thesis using assms(1) by (simp add: tables_ok_def defs_ok_def del: map_map)
qed

lemma tables_delete_definition:
  assumes "tables_ok env db"
  shows "tables_ok env (db\<lparr>db_defs := filter (\<lambda>x. dd_id x \<noteq> i) (db_defs db), db_durations := filter (\<lambda>r. du_def r \<noteq> i) (db_durations db)\<rparr>)"
proof -
  have "rows_ok (db_next db) (db_cases db) (filter (\<lambda>x. dd_id x \<noteq> i) (db_defs db)) (filter (\<lambda>r. du_def r \<noteq> i) (db_durations db))"
    using assms by (fastforce simp: tables_ok_def rows_ok_def ids_ok_filter distinct_map_filter)
  with assms show ?thesis by (simp add: tables_ok_def defs_ok_def ids_ok_filter distinct_map_filter)
qed

lemma tables_add_duration:
  assumes "tables_ok env db" and "owned (db_cases db) ws cid" and "d \<in> set (db_defs db)" and "dd_ws d = ws"
    and "ensure_unique_case_duration ws cid (dd_id d) None db = None"
  shows "tables_ok env (add_duration ws cid (dd_id d) v db)"
proof -
  let ?r = "\<lparr>du_id = db_next db, du_ws = ws, du_case = cid, du_def = dd_id d, du_value = v\<rparr>"
  have "du_case r \<noteq> cid" if "r \<in> set (db_durations db)" "du_def r = dd_id d" for r
  proof
    assume "du_case r = cid"
    moreover have "du_ws r = ws"
    proof -
      from assms(1) that obtain d' where d': "d' \<in> set (db_defs db)" "dd_id d' = dd_id d" "dd_ws d' = du_ws r"
        by (auto simp: tables_ok_def rows_ok_def)
      have "ids_ok (db_next db) (map dd_id (db_defs db))" using assms(1) by (simp add: tables_ok_def defs_ok_def)
      from ids_ok_inj [OF this d'(1) assms(3) d'(2)] d'(3) assms(4) show ?thesis by simp
    qed
    ultimately show False using that assms(5) by (auto simp: ensure_unique_case_duration_def validation_simps list_ex_iff)
  qed
  then have "\<forall>r\<in>set (db_durations db). du_def r = dd_id d \<longrightarrow> du_case r \<noteq> cid" by blast
  then have "rows_ok (Suc (db_next db)) (db_cases db) (db_defs db) (db_durations db @ [?r])"
    using assms by (auto simp: tables_ok_def rows_ok_def ids_ok_snoc)
  with assms(1) show ?thesis by (auto simp: tables_ok_def add_duration_def ids_ok_Suc defs_ok_def tags_ok_def)
qed

lemma tables_filter_durations: "tables_ok env db \<Longrightarrow> tables_ok env (db\<lparr>db_durations := filter P (db_durations db)\<rparr>)"
  by (auto simp: tables_ok_def rows_ok_def ids_ok_filter distinct_map_filter)

lemma tables_set_duration:
  assumes "tables_ok env db" and r: "r \<in> set (db_durations db)" and "du_id (f r) = du_id r" "du_ws (f r) = du_ws r" "du_case (f r) = du_case r"
    and "\<exists>d\<in>set (db_defs db). dd_id d = du_def (f r) \<and> dd_ws d = du_ws r"
    and "\<And>y. y \<in> set (db_durations db) \<Longrightarrow> du_id y \<noteq> du_id r \<Longrightarrow> (du_case y, du_def y) \<noteq> (du_case r, du_def (f r))"
  shows "tables_ok env (set_duration (du_id r) f db)"
proof -
  have ids: "ids_ok (db_next db) (map du_id (db_durations db))" and keys: "distinct (map (\<lambda>r. (du_case r, du_def r)) (db_durations db))"
    using assms(1) by (simp_all add: tables_ok_def rows_ok_def)
  let ?rs = "map (\<lambda>y. if du_id y = du_id (f r) then f r else y) (db_durations db)"
  have same: "db_durations (set_duration (du_id r) f db) = ?rs"
    using ids_ok_inj [OF ids _ r] by (auto simp: set_duration_def assms(3))
  have "distinct (map (\<lambda>r. (du_case r, du_def r)) ?rs)"
    by (rule distinct_put [OF _ keys]) (use ids assms(3,5,7) in \<open>simp_all add: ids_ok_def\<close>)
  moreover have "ids_ok (db_next db) (map du_id ?rs)" unfolding map_put_id by (rule ids)
  moreover have "owned (db_cases db) (du_ws y) (du_case y) \<and> (\<exists>d\<in>set (db_defs db). dd_id d = du_def y \<and> dd_ws d = du_ws y)"
    if "y \<in> set ?rs" for y
    using that assms by (auto simp: tables_ok_def rows_ok_def split: if_splits)
  ultimately have "rows_ok (db_next db) (db_cases db) (db_defs db) ?rs"
    by (simp add: rows_ok_def del: map_map)
  with assms(1) show ?thesis by (simp add: tables_ok_def same [unfolded set_duration_def] set_duration_def)
qed

subsection \<open>The shape of an update\<close>

definition new_events :: "actor \<Rightarrow> nat \<Rightarrow> nat \<Rightarrow> (string \<times> (string \<times> json) list) list \<Rightarrow> event_row list" where
  "new_events who cid n evs =
     map (\<lambda>(i, type, data). \<lparr>e_id = i, e_ws = wh_ws who, e_case = cid, e_type = type, e_data = JObj data, e_user = wh_user who, e_at = wh_now who\<rparr>)
       (zip [n..<n + length evs] evs)"

definition add_events :: "actor \<Rightarrow> nat \<Rightarrow> (string \<times> (string \<times> json) list) list \<Rightarrow> case_db \<Rightarrow> case_db" where
  "add_events who cid evs db = foldl (\<lambda>db (type, data). create_event who cid type data db) db evs"

lemma add_events_result:
  "add_events who cid evs db =
     db\<lparr>db_next := db_next db + length evs, db_events := db_events db @ new_events who cid (db_next db) evs\<rparr>"
  by (induction evs rule: rev_induct) (auto simp: add_events_def new_events_def create_event_def)

lemma new_events_all:
  "e \<in> set (new_events who cid n evs) \<Longrightarrow> e_case e = cid \<and> e_ws e = wh_ws who \<and> e_user e = wh_user who \<and> e_at e = wh_now who"
  by (auto simp: new_events_def)

lemma new_events_contents: "map (\<lambda>e. (e_type e, e_data e)) (new_events who cid n evs) = map (\<lambda>(type, data). (type, JObj data)) evs"
  by (rule nth_equalityI) (simp_all add: new_events_def split_beta)

lemma add_events_append: "add_events who cid evs (add_events who cid evs' db) = add_events who cid (evs' @ evs) db"
  by (simp add: add_events_def)

lemma add_events_one: "create_event who cid type data db = add_events who cid [(type, data)] db"
  by (simp add: add_events_def)

lemma add_events_tables:
  assumes "tables_ok env db" and "owned (db_cases db) (wh_ws who) cid"
  shows "tables_ok env (add_events who cid evs db)"
proof (induction evs rule: rev_induct)
  case Nil
  then show ?case using assms(1) by (simp add: add_events_def)
next
  case (snoc e evs)
  have "db_cases (add_events who cid evs db) = db_cases db" by (simp add: add_events_result)
  with snoc assms(2) have "tables_ok env (create_event who cid (fst e) (snd e) (add_events who cid evs db))"
    by (intro tables_create_event) simp_all
  then show ?case by (simp add: add_events_def split_beta)
qed

definition value_events :: "actor \<Rightarrow> (string \<Rightarrow> string \<Rightarrow> string) \<Rightarrow> string \<Rightarrow> string option \<Rightarrow> (string \<times> (string \<times> json) list) list" where
  "value_events who type old new =
     (case new of None \<Rightarrow> [] | Some v \<Rightarrow> if v = '''' \<or> v = old then [] else [(type old v, change_data who (Some old) (Some v))])"

definition new_value :: "string \<Rightarrow> string option \<Rightarrow> string" where
  "new_value old new = (case new of None \<Rightarrow> old | Some v \<Rightarrow> if v = '''' then old else v)"

lemma update_value_result:
  assumes "\<And>c. put (get c) c = c"
  shows "update_value who type get put new (c, db) = (put (new_value (get c) new) c, add_events who (c_id c) (value_events who type (get c) new) db)"
  using assms by (auto simp: update_value_def new_value_def value_events_def add_events_def split: option.splits)

definition field_events :: "actor \<Rightarrow> (string \<times> json) list \<Rightarrow> (string \<times> json) list option \<Rightarrow> (string \<times> (string \<times> json) list) list" where
  "field_events who old new =
     (case new of None \<Rightarrow> [] | Some fs \<Rightarrow> if fs = [] then [] else [(''fields_changed'', event_data who [(''changes'', JArr (field_diffs old fs))])])"

definition update_events :: "actor \<Rightarrow> case_update \<Rightarrow> (string \<times> json) list \<Rightarrow> case_row \<Rightarrow> (string \<times> (string \<times> json) list) list" where
  "update_events who p old c =
     value_events who status_event (c_status c) (up_status p)
     @ value_events who (\<lambda>_ _. ''priority_changed'') (c_priority c) (up_priority p)
     @ value_events who (\<lambda>_ _. ''severity_changed'') (c_severity c) (up_severity p)
     @ field_events who old (up_fields p) @ rest_events who p c"

definition updated_row :: "case_update \<Rightarrow> case_row \<Rightarrow> case_row" where
  "updated_row p c =
     rest_row p (c\<lparr>c_status := new_value (c_status c) (up_status p), c_priority := new_value (c_priority c) (up_priority p),
                   c_severity := new_value (c_severity c) (up_severity p)\<rparr>)"

definition stored_fields :: "nat \<Rightarrow> case_db \<Rightarrow> (string \<times> json) list" where
  "stored_fields cid db = (case dget (db_fields db) cid of Some row \<Rightarrow> row | None \<Rightarrow> [])"

definition fields_written :: "case_env \<Rightarrow> nat \<Rightarrow> (string \<times> json) list option \<Rightarrow> case_db \<Rightarrow> case_db \<Rightarrow> bool" where
  "fields_written env cid new db db1 \<longleftrightarrow>
     (case new of None \<Rightarrow> db1 = db | Some fs \<Rightarrow> if fs = [] then db1 = db else upsert_field_values env cid fs db = Inr db1)"

lemma update_fields_result:
  assumes "update_fields env who new (c, add_events who (c_id c) evs db) = Inr (c1, db1)"
  obtains db0 where "fields_written env (c_id c) new db db0" "c1 = c"
    "db1 = add_events who (c_id c) (evs @ field_events who (stored_fields (c_id c) db) new) db0"
proof (cases "new = None \<or> new = Some []")
  case True
  then have "c1 = c" "db1 = add_events who (c_id c) evs db" using assms by (auto simp: update_fields_def)
  with True show ?thesis by (intro that [of db]) (auto simp: fields_written_def field_events_def)
next
  case False
  then obtain f fs where new: "new = Some (f # fs)" by (cases new) (auto simp: neq_Nil_conv)
  have same: "db_fields (add_events who (c_id c) evs db) = db_fields db" by (simp add: add_events_result)
  from assms obtain row where row: "ce_write env (dget (db_fields db) (c_id c)) (f # fs) = Inr row"
    and db1: "c1 = c" "db1 = add_events who (c_id c) (field_events who (stored_fields (c_id c) db) new)
      ((add_events who (c_id c) evs db)\<lparr>db_fields := dset (c_id c) row (db_fields db)\<rparr>)"
    by (auto simp: update_fields_def new upsert_field_values_def rbind_Inr_iff same stored_fields_def field_events_def add_events_one)
  have "(add_events who (c_id c) evs db)\<lparr>db_fields := dset (c_id c) row (db_fields db)\<rparr>
      = add_events who (c_id c) evs (db\<lparr>db_fields := dset (c_id c) row (db_fields db)\<rparr>)"
    by (simp add: add_events_result)
  with row db1 show ?thesis
    by (intro that [of "db\<lparr>db_fields := dset (c_id c) row (db_fields db)\<rparr>"])
      (simp_all add: fields_written_def new upsert_field_values_def add_events_append)
qed

lemma rest_row_id [simp]: "c_id (rest_row p c) = c_id c" "c_ws (rest_row p c) = c_ws c"
  by (simp_all add: rest_row_def)

lemma updated_row_id [simp]: "c_id (updated_row p c) = c_id c" "c_ws (updated_row p c) = c_ws c"
  by (simp_all add: updated_row_def)

lemma rest_events_values [simp]: "rest_events who p (c\<lparr>c_status := s, c_priority := q, c_severity := v\<rparr>) = rest_events who p c"
  by (simp add: rest_events_def split: option.splits)

lemma update_case_shape:
  assumes "update_case env who c p db = Inr db'"
  obtains db0 where "fields_written env (c_id c) (up_fields p) db db0"
    "synced env who (updated_row p c)
       (put_case (updated_row p c) (add_events who (c_id c) (update_events who p (stored_fields (c_id c) db) c) db0)) = Inr db'"
    "c_summary (updated_row p c) \<noteq> None" "c_description (updated_row p c) \<noteq> None"
proof -
  let ?c = "c\<lparr>c_status := new_value (c_status c) (up_status p), c_priority := new_value (c_priority c) (up_priority p),
                   c_severity := new_value (c_severity c) (up_severity p)\<rparr>"
  let ?evs = "value_events who status_event (c_status c) (up_status p)
     @ value_events who (\<lambda>_ _. ''priority_changed'') (c_priority c) (up_priority p)
     @ value_events who (\<lambda>_ _. ''severity_changed'') (c_severity c) (up_severity p)"
  have vals: "update_severity who (up_severity p) (update_priority who (up_priority p) (update_status who (up_status p) (c, db)))
      = (?c, add_events who (c_id ?c) ?evs db)"
    by (simp add: update_status_def update_priority_def update_severity_def update_value_result add_events_append)
  from assms obtain c1 db1 where fs: "update_fields env who (up_fields p) (?c, add_events who (c_id ?c) ?evs db) = Inr (c1, db1)"
    and rest: "(let c2 = rest_row p c1; db2 = put_case c2 (add_events who (c_id c) (rest_events who p c1) db1)
       in if c_summary c2 = None \<or> c_description c2 = None then Inl integrity_error else synced env who c2 db2) = Inr db'"
    unfolding update_case_def vals rbind_Inr_iff add_events_def [symmetric] by auto
  from fs obtain db0 where db0: "fields_written env (c_id ?c) (up_fields p) db db0" "c1 = ?c"
    "db1 = add_events who (c_id ?c) (?evs @ field_events who (stored_fields (c_id ?c) db) (up_fields p)) db0"
    by (rule update_fields_result)
  have "update_events who p (stored_fields (c_id c) db) c
      = (?evs @ field_events who (stored_fields (c_id ?c) db) (up_fields p)) @ rest_events who p ?c"
    by (simp add: update_events_def)
  with rest db0 show ?thesis
    by (intro that [of db0]) (auto simp: updated_row_def add_events_append Let_def split: if_splits)
qed

subsection \<open>Every operation\<close>

lemma tables_or_same: "tables_ok env db \<Longrightarrow> (\<And>db'. r = Inr db' \<Longrightarrow> tables_ok env db') \<Longrightarrow> tables_ok env (or_same db r)"
  by (cases r) (simp_all add: or_same_def)

lemma tables_on_row:
  "tables_ok env db \<Longrightarrow> (\<And>x db'. r = Some x \<Longrightarrow> f x = Inr db' \<Longrightarrow> tables_ok env db') \<Longrightarrow> tables_ok env (on_row r f db)"
  by (cases r) (simp_all add: on_row_def tables_or_same)

lemma owned_row: "c \<in> set cs \<Longrightarrow> owned cs (c_ws c) (c_id c)"
  by (auto simp: owned_def)

lemma tables_create_case:
  assumes "tables_ok env db" and "create_case env who p db = Inr db'"
  shows "tables_ok env db'"
proof -
  let ?c = "new_case (wh_ws who) (db_next db) p"
  let ?db1 = "db\<lparr>db_next := Suc (db_next db), db_cases := db_cases db @ [?c]\<rparr>"
  have c: "c_id ?c = db_next db" "c_ws ?c = wh_ws who" by (simp_all add: new_case_def)
  from assms(2) obtain row where synced: "synced env who ?c (create_event who (db_next db) ''case_created'' (event_data who [])
      (?db1\<lparr>db_fields := dset (db_next db) row (db_fields ?db1)\<rparr>)) = Inr db'"
    by (auto simp: create_case_def rbind_Inr_iff upsert_field_values_def c Let_def)
  have "tables_ok env ?db1" by (rule tables_add_case [OF assms(1) c(1)])
  then have "tables_ok env (?db1\<lparr>db_fields := dset (db_next db) row (db_fields ?db1)\<rparr>)"
    by (rule tables_set_fields) (simp add: c)
  then have "tables_ok env (create_event who (db_next db) ''case_created'' (event_data who []) (?db1\<lparr>db_fields := dset (db_next db) row (db_fields ?db1)\<rparr>))"
    by (rule tables_create_event) (use c in \<open>auto simp: owned_def\<close>)
  from tables_synced [OF this _ synced] show ?thesis by simp
qed

lemma tables_view:
  assumes "tables_ok env db"
  shows "tables_ok env (snd (get_case env who track i db))"
proof (cases "find_case (wh_ws who) i db")
  case None
  with assms show ?thesis by (simp add: get_case_def)
next
  case (Some c)
  note d = find_caseD [OF Some]
  show ?thesis
  proof (cases "create_case_viewed_event who i db")
    case None
    with assms Some show ?thesis by (simp add: get_case_def)
  next
    case viewed: (Some db1)
    then have db1: "db1 = create_event who i ''case_viewed'' [(''wf_exec_id'', JNull)] db"
      by (simp add: create_case_viewed_event_def split: option.splits if_splits)
    have "tables_ok env db1" unfolding db1 by (rule tables_create_event [OF assms d(4)])
    then have "tables_ok env db2" if "sync_case_durations (ce_fromiso env) (wh_ws who) c db1 = Inr (cps, db2)" for cps db2
      by (rule tables_synced [of env db1 c who]) (simp_all add: d(1) db1 synced_def that [unfolded db1])
    with assms Some viewed show ?thesis by (simp add: get_case_def split: sum.split prod.split)
  qed
qed

lemma fields_written_tables:
  assumes "tables_ok env db" and "c \<in> set (db_cases db)" and "fields_written env (c_id c) new db db0"
  shows "tables_ok env db0" and "db_cases db0 = db_cases db" and "db_events db0 = db_events db" and "db_next db0 = db_next db"
  using assms by (auto simp: fields_written_def upsert_field_values_def rbind_Inr_iff intro!: tables_set_fields split: option.splits if_splits)

lemma tables_update_case:
  assumes "tables_ok env db" and c: "c \<in> set (db_cases db)" "c_ws c = wh_ws who" and "update_case env who c p db = Inr db'"
  shows "tables_ok env db'"
proof -
  from assms(4) obtain db0 where f: "fields_written env (c_id c) (up_fields p) db db0"
    and s: "synced env who (updated_row p c)
       (put_case (updated_row p c) (add_events who (c_id c) (update_events who p (stored_fields (c_id c) db) c) db0)) = Inr db'"
    by (rule update_case_shape)
  note w = fields_written_tables [OF assms(1) c(1) f]
  let ?db1 = "add_events who (c_id c) (update_events who p (stored_fields (c_id c) db) c) db0"
  have "tables_ok env ?db1"
    by (rule add_events_tables [OF w(1)]) (use c w(2) owned_row [OF c(1)] in simp)
  moreover have cases1: "db_cases ?db1 = db_cases db" by (simp add: add_events_result w(2))
  ultimately have "tables_ok env (put_case (updated_row p c) ?db1)"
    by (intro tables_put_case [of env _ c]) (simp_all add: c)
  from tables_synced [OF this _ s] c(1) show ?thesis
    by (auto simp: put_case_def cases1 image_iff intro!: bexI [of _ c])
qed

lemma tables_update_comment:
  assumes "tables_ok env db" and "get_comment who i db = Some m" and "update_comment who m p db = Inr db'"
  shows "tables_ok env db'"
proof -
  from assms(2) have m: "m \<in> set (db_comments db)" by (auto simp: get_comment_def find_Some_iff)
  let ?m = "m\<lparr>cm_content := (case mu_content p of Some x \<Rightarrow> x | None \<Rightarrow> cm_content m),
                   cm_parent := (case mu_parent p of Some x \<Rightarrow> x | None \<Rightarrow> cm_parent m), cm_edited := Some (wh_now who)\<rparr>"
  have "db' = db\<lparr>db_comments := map (\<lambda>y. if cm_id y = cm_id ?m then ?m else y) (db_comments db)\<rparr>"
    using assms(3) by (auto simp: update_comment_def Let_def split: if_splits)
  moreover have "owned (db_cases db) (cm_ws ?m) (cm_case ?m)" using assms(1) m by (simp add: tables_ok_def)
  ultimately show ?thesis using tables_put_comment [OF assms(1)] by (simp only:)
qed

lemma tables_create_task:
  assumes "tables_ok env db" and "create_task env who i p db = Inr db'"
  shows "tables_ok env db'"
proof -
  define k where "k = \<lparr>k_id = db_next db, k_ws = wh_ws who, k_case = i, k_title = tc_title p, k_description = tc_description p,
                    k_priority = tc_priority p, k_status = tc_status p, k_assignee = tc_assignee p, k_workflow = tc_workflow p,
                    k_defaults = tc_defaults p, k_at = wh_now who\<rparr>"
  then have k: "k_id k = db_next db" "k_ws k = wh_ws who" "k_case k = i" by simp_all
  from assms(2) obtain c where c: "find_case (wh_ws who) i db = Some c"
    and db': "db' = create_event who (c_id c) ''task_created'' (task_data who k []) (db\<lparr>db_next := Suc (db_next db), db_tasks := db_tasks db @ [k]\<rparr>)"
    unfolding create_task_def Let_def k_def [symmetric] by (auto simp: rbind_Inr_iff case_or_error_def split: option.splits)
  note d = find_caseD [OF c]
  have "tables_ok env (db\<lparr>db_next := Suc (db_next db), db_tasks := db_tasks db @ [k]\<rparr>)"
    by (rule tables_add_task [OF assms(1) k(1)]) (simp add: k d(4))
  then show ?thesis unfolding db' by (rule tables_create_event) (simp add: d(3,4))
qed

lemma update_task_value_shape:
  assumes "\<And>v. k_id (put v k) = k_id k" "\<And>v. k_ws (put v k) = k_ws k" "\<And>v. k_case (put v k) = k_case k"
  shows "\<exists>k' evs. update_task_value who type get put new (k, db) = (k', add_events who (k_case k) evs db)
    \<and> k_id k' = k_id k \<and> k_ws k' = k_ws k \<and> k_case k' = k_case k \<and> set (map fst evs) \<subseteq> {type}"
proof (cases "new = None \<or> new = get k")
  case True
  then show ?thesis by (intro exI [of _ k] exI [of _ "[]"]) (cases "get k"; auto simp: update_task_value_def add_events_def)
next
  case False
  then obtain v where v: "new = Some v" "Some v \<noteq> get k" by auto
  then show ?thesis using assms
    by (intro exI [of _ "put v k"] exI [of _ "[(type, task_data who k [(''old'', opt_str (get k)), (''new'', JStr v)])]"])
      (simp add: update_task_value_def add_events_one)
qed

lemma update_task_workflow_shape:
  assumes "update_task_workflow env who p (k, db) = Inr (k', db')"
  shows "\<exists>evs. db' = add_events who (k_case k) evs db \<and> k_id k' = k_id k \<and> k_ws k' = k_ws k \<and> k_case k' = k_case k
    \<and> set (map fst evs) \<subseteq> {''task_workflow_changed''}"
proof (cases "db' = db \<and> k' = k")
  case True
  then show ?thesis by (intro exI [of _ "[]"]) (simp add: add_events_def)
next
  case False
  with assms obtain w where w: "k' = k\<lparr>k_workflow := w\<rparr>" "db' = create_event who (k_case k) ''task_workflow_changed''
      (task_data who k [(''old'', opt_str (k_workflow k)), (''new'', opt_str w)]) db"
    by (auto simp: update_task_workflow_def split: option.splits if_splits)
  show ?thesis unfolding w
    by (intro exI [of _ "[(''task_workflow_changed'', task_data who k [(''old'', opt_str (k_workflow k)), (''new'', opt_str w)])]"])
      (simp add: add_events_one)
qed

text \<open>An update of a task is a new row and events about the task.\<close>

definition task_types :: "string list" where
  "task_types = [''task_status_changed'', ''task_assignee_changed'', ''task_priority_changed'', ''task_workflow_changed'',
     ''task_created'', ''task_deleted'']"

lemma update_task_shape:
  assumes "update_task env who i p db = Inr db'"
  obtains k c k' evs where "k \<in> set (db_tasks db)" "k_ws k = wh_ws who" "find_case (wh_ws who) (k_case k) db = Some c"
    "k_id k' = k_id k" "k_ws k' = k_ws k" "k_case k' = k_case k" "db' = put_task k' (add_events who (k_case k) evs db)"
    "set (map fst evs) \<subseteq> set task_types"
proof -
  from assms obtain k c where k: "get_task who i db = Inr k" and c: "case_or_error who (k_case k) db = Inr c"
    and rest: "rbind (update_task_workflow env who p
        (update_task_value who ''task_priority_changed'' (\<lambda>k. Some (k_priority k)) (\<lambda>v. k_priority_update (\<lambda>_. v)) (ku_priority p)
          (update_task_value who ''task_assignee_changed'' k_assignee (\<lambda>v. k_assignee_update (\<lambda>_. Some v)) (ku_assignee p)
            (update_task_value who ''task_status_changed'' (\<lambda>k. Some (k_status k)) (\<lambda>v. k_status_update (\<lambda>_. v)) (ku_status p) (k, db)))))
      (\<lambda>(k1, db1). rbind (update_task_defaults env who (ku_defaults p) k1) (\<lambda>k2.
            let k3 = k2\<lparr>k_title := (case ku_title p of Some t \<Rightarrow> t | None \<Rightarrow> k_title k2),
                        k_description := (case ku_description p of Some d \<Rightarrow> Some d | None \<Rightarrow> k_description k2)\<rparr>
            in Inr (put_task k3 db1))) = Inr db'"
    unfolding update_task_def Let_def by (auto simp: rbind_Inr_iff)
  from update_task_value_shape [of "\<lambda>v. k_status_update (\<lambda>_. v)" k who "''task_status_changed''" "\<lambda>k. Some (k_status k)" "ku_status p" db]
  obtain k1 e1 where 1: "update_task_value who ''task_status_changed'' (\<lambda>k. Some (k_status k)) (\<lambda>v. k_status_update (\<lambda>_. v)) (ku_status p) (k, db)
      = (k1, add_events who (k_case k) e1 db)" "k_id k1 = k_id k" "k_ws k1 = k_ws k" "k_case k1 = k_case k"
      "set (map fst e1) \<subseteq> {''task_status_changed''}" by auto
  from update_task_value_shape [of "\<lambda>v. k_assignee_update (\<lambda>_. Some v)" k1 who "''task_assignee_changed''" k_assignee "ku_assignee p" "add_events who (k_case k) e1 db"]
  obtain k2 e2 where 2: "update_task_value who ''task_assignee_changed'' k_assignee (\<lambda>v. k_assignee_update (\<lambda>_. Some v)) (ku_assignee p)
        (k1, add_events who (k_case k) e1 db)
      = (k2, add_events who (k_case k1) e2 (add_events who (k_case k) e1 db))" "k_id k2 = k_id k1" "k_ws k2 = k_ws k1" "k_case k2 = k_case k1"
      "set (map fst e2) \<subseteq> {''task_assignee_changed''}" by auto
  let ?db2 = "add_events who (k_case k1) e2 (add_events who (k_case k) e1 db)"
  from update_task_value_shape [of "\<lambda>v. k_priority_update (\<lambda>_. v)" k2 who "''task_priority_changed''" "\<lambda>k. Some (k_priority k)" "ku_priority p" ?db2]
  obtain k3 e3 where 3: "update_task_value who ''task_priority_changed'' (\<lambda>k. Some (k_priority k)) (\<lambda>v. k_priority_update (\<lambda>_. v)) (ku_priority p) (k2, ?db2)
      = (k3, add_events who (k_case k2) e3 ?db2)" "k_id k3 = k_id k2" "k_ws k3 = k_ws k2" "k_case k3 = k_case k2"
      "set (map fst e3) \<subseteq> {''task_priority_changed''}" by auto
  from rest obtain k4 db4 k5 where 4: "update_task_workflow env who p (k3, add_events who (k_case k2) e3 ?db2) = Inr (k4, db4)"
    and 5: "update_task_defaults env who (ku_defaults p) k4 = Inr k5"
    and 6: "db' = put_task (k5\<lparr>k_title := (case ku_title p of Some t \<Rightarrow> t | None \<Rightarrow> k_title k5),
                        k_description := (case ku_description p of Some d \<Rightarrow> Some d | None \<Rightarrow> k_description k5)\<rparr>) db4"
    unfolding 1(1) 2(1) 3(1) Let_def by (auto simp: rbind_Inr_iff)
  from update_task_workflow_shape [OF 4] obtain e4 where 7: "db4 = add_events who (k_case k3) e4 (add_events who (k_case k2) e3 ?db2)"
    "k_id k4 = k_id k3" "k_ws k4 = k_ws k3" "k_case k4 = k_case k3" "set (map fst e4) \<subseteq> {''task_workflow_changed''}" by blast
  from 5 have 8: "k_id k5 = k_id k4" "k_ws k5 = k_ws k4" "k_case k5 = k_case k4"
    by (auto simp: update_task_defaults_def split: option.splits if_splits)
  from k have task: "k \<in> set (db_tasks db)" "k_ws k = wh_ws who" by (auto simp: get_task_def find_Some_iff split: option.splits)
  from c have "find_case (wh_ws who) (k_case k) db = Some c" by (simp add: case_or_error_def split: option.splits)
  from task this 6 [unfolded 7(1)] 1(2-5) 2(2-5) 3(2-5) 7(2-5) 8 show ?thesis
    by (intro that [of k c "k5\<lparr>k_title := (case ku_title p of Some t \<Rightarrow> t | None \<Rightarrow> k_title k5),
                        k_description := (case ku_description p of Some d \<Rightarrow> Some d | None \<Rightarrow> k_description k5)\<rparr>" "((e1 @ e2) @ e3) @ e4"])
      (simp_all add: add_events_append task_types_def, auto)
qed

lemma tables_update_task:
  assumes "tables_ok env db" and "update_task env who i p db = Inr db'"
  shows "tables_ok env db'"
proof -
  from assms(2) obtain k c k' evs where k: "k \<in> set (db_tasks db)" "k_ws k = wh_ws who" "find_case (wh_ws who) (k_case k) db = Some c"
    "k_id k' = k_id k" "k_ws k' = k_ws k" "k_case k' = k_case k" and db': "db' = put_task k' (add_events who (k_case k) evs db)"
    by (rule update_task_shape)
  note own = find_caseD(4) [OF k(3)]
  have "tables_ok env (add_events who (k_case k) evs db)" by (rule add_events_tables [OF assms(1) own])
  then show ?thesis unfolding db' by (rule tables_put_task) (use own k in \<open>simp add: add_events_result\<close>)
qed

lemma tables_delete_task:
  assumes "tables_ok env db" and "delete_task who i db = Inr db'"
  shows "tables_ok env db'"
proof -
  from assms(2) obtain k c where c: "find_case (wh_ws who) (k_case k) db = Some c"
    and db': "db' = (let db1 = create_event who (c_id c) ''task_deleted'' (task_data who k []) db
       in db1\<lparr>db_tasks := filter (\<lambda>x. k_id x \<noteq> k_id k) (db_tasks db1)\<rparr>)"
    unfolding delete_task_def by (auto simp: rbind_Inr_iff Let_def case_or_error_def split: option.splits)
  have "tables_ok env (create_event who (c_id c) ''task_deleted'' (task_data who k []) db)"
    by (rule tables_create_event [OF assms(1)]) (use find_caseD [OF c] in simp)
  then show ?thesis unfolding db' Let_def by (rule tables_filter_tasks)
qed

lemma get_tagD:
  assumes "get_tag_by_ref_or_id env ws ident db = Inr t"
  shows "t \<in> set (db_tags db)" and "t_ws t = ws"
proof -
  have first: "t \<in> set (db_tags db) \<and> t_ws t = ws" if "first_tag ws rs db = Some t" for rs
    using that by (induction rs) (auto simp: get_tag_by_ref_def find_Some_iff split: option.splits)
  have "t \<in> set (db_tags db) \<and> t_ws t = ws"
    using assms first by (auto simp: get_tag_by_ref_or_id_def get_tag_def find_Some_iff split: option.splits)
  then show "t \<in> set (db_tags db)" "t_ws t = ws" by simp_all
qed

lemma get_tag_in: "get_tag ws i db = Some t \<Longrightarrow> t \<in> set (db_tags db)"
  by (auto simp: get_tag_def find_Some_iff)

lemma tables_create_tag:
  assumes "tables_ok env db" and "create_tag env ws name color db = Inr (t, db')"
  shows "tables_ok env db'" and "t \<in> set (db_tags db')" and "t_ws t = ws" and "db_cases db' = db_cases db" and "db_events db' = db_events db"
proof -
  have free: "get_tag_by_ref ws (ce_slugify env name) db = None"
    and t: "t = \<lparr>t_id = db_next db, t_ws = ws, t_name = Some name, t_ref = ce_slugify env name, t_color = color\<rparr>"
    and db': "db' = db\<lparr>db_next := Suc (db_next db), db_tags := db_tags db @ [t]\<rparr>"
    using assms(2) by (auto simp: create_tag_def Let_def split: if_splits)
  show "tables_ok env db'" unfolding db' by (rule tables_add_tag [OF assms(1), of _ name]) (simp_all add: t free)
  show "t \<in> set (db_tags db')" "t_ws t = ws" "db_cases db' = db_cases db" "db_events db' = db_events db" by (simp_all add: db' t)
qed

lemma resolve_tagD:
  assumes "tables_ok env db" and "resolve_tag env ws create ident db = Inr (t, db')"
  shows "tables_ok env db' \<and> t \<in> set (db_tags db') \<and> t_ws t = ws \<and> db_cases db' = db_cases db \<and> db_events db' = db_events db"
proof (cases "get_tag_by_ref_or_id env ws ident db")
  case (Inl e)
  with assms(2) have "create_tag env ws ident None db = Inr (t, db')" by (simp add: resolve_tag_def split: if_splits)
  from tables_create_tag [OF assms(1) this] show ?thesis by blast
next
  case (Inr u)
  with assms get_tagD [OF Inr] show ?thesis by (auto simp: resolve_tag_def)
qed

lemma tables_add_case_tag:
  assumes "tables_ok env db"
  shows "tables_ok env (snd (add_case_tag env who i ident create db))"
proof (cases "rbind (tagged_case who i db) (\<lambda>c. rbind (resolve_tag env (wh_ws who) create ident db) (\<lambda>r. Inr (c, r)))")
  case (Inl e)
  with assms show ?thesis by (simp add: add_case_tag_def)
next
  case (Inr r)
  obtain c t db1 where r: "r = (c, (t, db1))" by (cases r) auto
  from Inr r have c: "find_case (wh_ws who) i db = Some c" and t: "resolve_tag env (wh_ws who) create ident db = Inr (t, db1)"
    by (auto simp: rbind_Inr_iff tagged_case_def split: option.splits)
  note d = find_caseD [OF c] and u = resolve_tagD [OF assms t]
  have "tables_ok env db2"
    if "(i, t_id t) \<notin> set (db_links db1)"
      and "synced env who c (create_event who (c_id c) ''tag_added'' (tag_data t) (db1\<lparr>db_links := db_links db1 @ [(i, t_id t)]\<rparr>)) = Inr db2" for db2
  proof (rule tables_synced [OF _ _ that(2)])
    show "tables_ok env (create_event who (c_id c) ''tag_added'' (tag_data t) (db1\<lparr>db_links := db_links db1 @ [(i, t_id t)]\<rparr>))"
      by (intro tables_create_event tables_add_link) (use u d that(1) in simp_all)
  qed (simp add: u d)
  with Inr r u show ?thesis by (simp add: add_case_tag_def split: sum.split)
qed

lemma tables_remove_case_tag:
  assumes "tables_ok env db" and "remove_case_tag env who i ident db = Inr db'"
  shows "tables_ok env db'"
proof -
  from assms(2) obtain c t where c: "find_case (wh_ws who) i db = Some c"
    and s: "synced env who c (create_event who (c_id c) ''tag_removed'' (tag_data t) (db\<lparr>db_links := filter (\<lambda>l. l \<noteq> (i, t_id t)) (db_links db)\<rparr>)) = Inr db'"
    unfolding remove_case_tag_def by (auto simp: rbind_Inr_iff tagged_case_def split: option.splits if_splits)
  note d = find_caseD [OF c]
  show ?thesis
    by (rule tables_synced [OF _ _ s], intro tables_create_event tables_filter_links) (use assms(1) d in simp_all)
qed

lemma tables_update_tag:
  assumes "tables_ok env db" and t: "t \<in> set (db_tags db)" and "tag_update_ok p" and "update_tag env t p db = Inr db'"
  shows "tables_ok env db'"
proof -
  define ref where "ref = (case tu_name p of Some (Some n) \<Rightarrow> if n \<noteq> [] \<and> t_name t \<noteq> Some n then ce_slugify env n else t_ref t | _ \<Rightarrow> t_ref t)"
  define t' where "t' = t\<lparr>t_name := (case tu_name p of Some n \<Rightarrow> n | None \<Rightarrow> t_name t), t_ref := ref,
                      t_color := (case tu_color p of Some x \<Rightarrow> x | None \<Rightarrow> t_color t)\<rparr>"
  have ref_eq: "(case tu_name p of Some (Some n) \<Rightarrow>
        if (case tu_name p of Some (Some n) \<Rightarrow> n \<noteq> [] \<and> t_name t \<noteq> Some n | _ \<Rightarrow> False) then ce_slugify env n else t_ref t
      | _ \<Rightarrow> t_ref t) = ref"
    by (auto simp: ref_def split: option.split)
  have keep [simp]: "t_id t' = t_id t" "t_ws t' = t_ws t" "t_ref t' = ref" by (simp_all add: t'_def)
  have "update_tag env t p db =
      (if ref \<noteq> t_ref t \<and> list_ex (\<lambda>x. t_ws x = t_ws t \<and> t_ref x = ref \<and> t_id x \<noteq> t_id t) (db_tags db)
       then Inl (tag_value_error (''Case tag with slug '' @ quoted ref @ '' already exists''))
       else if t_name t' = None then Inl integrity_error
       else Inr (db\<lparr>db_tags := map (\<lambda>x. if t_id x = t_id t then t' else x) (db_tags db)\<rparr>))"
    unfolding update_tag_def Let_def ref_eq t'_def by (rule refl)
  with assms(4) have free: "\<not> (ref \<noteq> t_ref t \<and> list_ex (\<lambda>x. t_ws x = t_ws t \<and> t_ref x = ref \<and> t_id x \<noteq> t_id t) (db_tags db))"
    and name: "t_name t' \<noteq> None" and db': "db' = db\<lparr>db_tags := map (\<lambda>x. if t_id x = t_id t' then t' else x) (db_tags db)\<rparr>"
    by (auto split: if_splits)
  obtain old where old: "t_name t = Some old" "t_ref t = ce_slugify env old"
    using assms(1) t by (auto simp: tables_ok_def tags_ok_def)
  obtain n where n: "t_name t' = Some n" using name by auto
  have slug: "ref = ce_slugify env n"
    using n old assms(3) by (auto simp: ref_def t'_def tag_update_ok_def tag_name_ok_def split: option.splits if_splits)
  have keys: "distinct (map (\<lambda>t. (t_ws t, t_ref t)) (db_tags db))" using assms(1) by (simp add: tables_ok_def tags_ok_def)
  have "(t_ws y, t_ref y) \<noteq> (t_ws t', t_ref t')" if y: "y \<in> set (db_tags db)" "t_id y \<noteq> t_id t'" for y
  proof (cases "ref = t_ref t")
    case True
    have "y \<noteq> t" using y(2) by auto
    then show ?thesis using True keys y(1) t by (auto simp: distinct_map dest: inj_onD)
  next
    case False
    with free y show ?thesis by (auto simp: list_ex_iff)
  qed
  then show ?thesis unfolding db'
    by (intro tables_put_tag [OF assms(1) t, of _ n]) (use slug n in simp_all)
qed

lemma get_definitionD:
  "get_definition ws i db = Inr d \<Longrightarrow> d \<in> set (db_defs db) \<and> dd_id d = i \<and> dd_ws d = ws"
  by (auto simp: get_definition_def find_Some_iff split: option.splits)

lemma tables_create_definition:
  "tables_ok env db \<Longrightarrow> create_definition ws p db = Inr db' \<Longrightarrow> tables_ok env db'"
  by (auto simp: create_definition_def intro!: tables_add_definition split: option.splits)

lemma tables_update_definition:
  assumes "tables_ok env db" and "update_definition ws i p db = Inr db'"
  shows "tables_ok env db'"
proof -
  from assms(2) obtain d d1 s e where d: "get_definition ws i db = Inr d"
    and d1: "(case dp_name p of None \<Rightarrow> Inr d
            | Some n \<Rightarrow> (case ensure_unique_name ws n (Some (dd_id d)) db of Some e \<Rightarrow> Inl e | None \<Rightarrow> Inr (d\<lparr>dd_name := n\<rparr>))) = Inr d1"
    and eq: "db' = db\<lparr>db_defs := map (\<lambda>y. if dd_id y = i then d1\<lparr>dd_description := (case dp_description p of None \<Rightarrow> dd_description d1 | Some x \<Rightarrow> x),
      dd_start := s, dd_end := e\<rparr> else y) (db_defs db)\<rparr>"
    unfolding update_definition_def Let_def rbind_Inr_iff by auto
  obtain x where x: "dd_id x = dd_id d1" "dd_ws x = dd_ws d1" "dd_name x = dd_name d1"
    and db': "db' = db\<lparr>db_defs := map (\<lambda>y. if dd_id y = i then x else y) (db_defs db)\<rparr>"
    by (rule that [OF _ _ _ eq]) simp_all
  note g = get_definitionD [OF d]
  have same: "dd_id d1 = dd_id d" "dd_ws d1 = dd_ws d" using d1 by (auto split: option.splits)
  have keys: "distinct (map (\<lambda>d. (dd_ws d, dd_name d)) (db_defs db))" using assms(1) by (simp add: tables_ok_def defs_ok_def)
  have "(dd_ws y, dd_name y) \<noteq> (dd_ws x, dd_name x)" if y: "y \<in> set (db_defs db)" "dd_id y \<noteq> dd_id x" for y
  proof (cases "dd_name d1 = dd_name d")
    case True
    have "y \<noteq> d" using y(2) x same by auto
    then show ?thesis using True distinct_map_eq [OF keys y(1), of d] g x same by auto
  next
    case False
    then have "ensure_unique_name ws (dd_name d1) (Some (dd_id d)) db = None" using d1 by (auto split: option.splits)
    with y g x same show ?thesis by (auto simp: ensure_unique_name_def validation_simps list_ex_iff)
  qed
  then have "tables_ok env (db\<lparr>db_defs := map (\<lambda>y. if dd_id y = dd_id x then x else y) (db_defs db)\<rparr>)"
    by (intro tables_put_definition [OF assms(1), of d]) (use g x same in simp_all)
  then show ?thesis using g x same by (simp add: db')
qed

lemma tables_create_duration:
  assumes "tables_ok env db" and c: "c \<in> set (db_cases db)" and "create_duration ws c i v db = Inr db'"
  shows "tables_ok env db'"
proof -
  from assms(3) obtain d where d: "get_definition ws i db = Inr d" and "c_ws c = ws"
    "ensure_unique_case_duration ws (c_id c) i None db = None" "db' = add_duration ws (c_id c) i v db"
    by (auto simp: create_duration_def rbind_Inr_iff resolve_case_def split: option.splits if_splits)
  with tables_add_duration [OF assms(1), of ws "c_id c" d v] get_definitionD [OF d] owned_row [OF c] show ?thesis by simp
qed

lemma tables_update_duration:
  assumes "tables_ok env db" and "update_duration ws c j defn change db = Inr db'"
  shows "tables_ok env db'"
proof -
  have ws: "c_ws c = ws" using assms(2) by (simp add: update_duration_def resolve_case_def split: if_splits)
  obtain r where row: "get_case_duration ws j (c_id c) db = Inr r"
    using assms(2) ws by (cases "get_case_duration ws j (c_id c) db") (simp_all add: update_duration_def resolve_case_def)
  have rest: "(case defn of
         None \<Rightarrow> Inr (set_duration j (\<lambda>r. r\<lparr>du_value := change (du_value r)\<rparr>) db)
       | Some d \<Rightarrow>
           rbind (get_definition ws d db) (\<lambda>_.
             case ensure_unique_case_duration ws (c_id c) d (Some (du_id r)) db of
               Some e \<Rightarrow> Inl e
             | None \<Rightarrow> Inr (set_duration j (\<lambda>r. r\<lparr>du_def := d, du_value := change (du_value r)\<rparr>) db))) = Inr db'"
    using assms(2) by (simp add: update_duration_def resolve_case_def ws row)
  have r: "r \<in> set (db_durations db)" "du_id r = j" "du_ws r = ws" "du_case r = c_id c"
    using row by (auto simp: get_case_duration_def find_Some_iff split: option.splits)
  have rows: "rows_ok (db_next db) (db_cases db) (db_defs db) (db_durations db)" using assms(1) by (simp add: tables_ok_def)
  have keys: "(du_case y, du_def y) \<noteq> (du_case r, du_def r)" if "y \<in> set (db_durations db)" "du_id y \<noteq> du_id r" for y
  proof -
    have "y \<noteq> r" using that(2) by auto
    then show ?thesis using rows that(1) r(1) by (auto simp: rows_ok_def distinct_map dest: inj_onD)
  qed
  show ?thesis
  proof (cases defn)
    case None
    with rest r(2) have db': "db' = set_duration (du_id r) (\<lambda>r. r\<lparr>du_value := change (du_value r)\<rparr>) db" by simp
    have "\<exists>d\<in>set (db_defs db). dd_id d = du_def r \<and> dd_ws d = du_ws r" using rows r(1) by (simp add: rows_ok_def)
    then show ?thesis unfolding db' using keys by (intro tables_set_duration [OF assms(1) r(1)]) auto
  next
    case (Some d)
    with rest obtain e where e: "get_definition ws d db = Inr e" "ensure_unique_case_duration ws (c_id c) d (Some (du_id r)) db = None"
      and db': "db' = set_duration (du_id r) (\<lambda>r. r\<lparr>du_def := d, du_value := change (du_value r)\<rparr>) db"
      using r(2) by (auto simp: rbind_Inr_iff split: option.splits)
    have "(du_case y, du_def y) \<noteq> (du_case r, d)" if y: "y \<in> set (db_durations db)" "du_id y \<noteq> du_id r" for y
    proof
      assume eq: "(du_case y, du_def y) = (du_case r, d)"
      from rows y(1) obtain u where u: "u \<in> set (db_defs db)" "dd_id u = du_def y" "dd_ws u = du_ws y" by (auto simp: rows_ok_def)
      have "ids_ok (db_next db) (map dd_id (db_defs db))" using assms(1) by (simp add: tables_ok_def defs_ok_def)
      from ids_ok_inj [OF this u(1), of e] get_definitionD [OF e(1)] u eq have "du_ws y = ws" by auto
      with eq y e(2) r(4) show False by (auto simp: ensure_unique_case_duration_def validation_simps list_ex_iff)
    qed
    then show ?thesis unfolding db'
      by (intro tables_set_duration [OF assms(1) r(1)]) (use get_definitionD [OF e(1)] r(3) in auto)
  qed
qed

lemma tables_step:
  assumes ok: "tables_ok env db"
  shows "tables_ok env (case_step env db (who, req))"
proof (cases req)
  case (CreateCase p)
  then show ?thesis by (auto intro!: tables_or_same [OF ok] intro: tables_create_case [OF ok])
next
  case (ViewCase i)
  then show ?thesis by (simp add: tables_view [OF ok])
next
  case (UpdateCase i p)
  then show ?thesis by (auto intro!: tables_on_row [OF ok] intro: tables_update_case [OF ok find_caseD(1,2)])
next
  case (DeleteCase i)
  then show ?thesis by (auto intro!: tables_on_row [OF ok] intro: tables_delete_case [OF ok])
next
  case (CreateComment i content parent)
  then show ?thesis
    by (auto intro!: tables_on_row [OF ok]) (auto simp: create_comment_def find_caseD intro!: tables_add_comment [OF ok] dest: find_caseD(3) find_caseD(4))
next
  case (UpdateComment i p)
  then show ?thesis by (auto intro!: tables_on_row [OF ok] intro: tables_update_comment [OF ok])
next
  case (DeleteComment i)
  then show ?thesis by (auto intro!: tables_on_row [OF ok] tables_filter_comments [OF ok] simp: delete_comment_def split: if_splits)
next
  case (CreateTask i p)
  then show ?thesis by (auto intro!: tables_or_same [OF ok] intro: tables_create_task [OF ok])
next
  case (UpdateTask i p)
  then show ?thesis by (auto intro!: tables_or_same [OF ok] intro: tables_update_task [OF ok])
next
  case (DeleteTask i)
  then show ?thesis by (auto intro!: tables_or_same [OF ok] intro: tables_delete_task [OF ok])
next
  case (AddTag i ident create)
  then show ?thesis by (simp add: tables_add_case_tag [OF ok])
next
  case (RemoveTag i ident)
  then show ?thesis by (auto intro!: tables_or_same [OF ok] intro: tables_remove_case_tag [OF ok])
next
  case (CreateTag name color)
  then show ?thesis by (auto intro!: tables_or_same [OF ok] simp: ok rbind_Inr_iff dest: tables_create_tag(1) [OF ok])
next
  case (UpdateTag i p)
  then show ?thesis
    by (auto simp: ok intro!: tables_on_row [OF ok] intro: tables_update_tag [OF ok get_tag_in])
next
  case (DeleteTag i)
  then show ?thesis by (auto intro!: tables_on_row [OF ok] intro: tables_delete_tag [OF ok])
next
  case (CreateDefinition p)
  then show ?thesis by (auto intro!: tables_or_same [OF ok] intro: tables_create_definition [OF ok])
next
  case (UpdateDefinition i p)
  then show ?thesis by (auto intro!: tables_or_same [OF ok] intro: tables_update_definition [OF ok])
next
  case (DeleteDefinition i)
  then show ?thesis by (auto intro!: tables_or_same [OF ok] tables_delete_definition [OF ok] simp: delete_definition_def rbind_Inr_iff)
next
  case (CreateDuration i d v)
  then show ?thesis by (auto intro!: tables_on_row [OF ok] intro: tables_create_duration [OF ok find_caseD(1)])
next
  case (UpdateDuration i j d change)
  then show ?thesis by (auto intro!: tables_on_row [OF ok] intro: tables_update_duration [OF ok])
next
  case (DeleteDuration i j)
  then show ?thesis by (auto intro!: tables_on_row [OF ok] tables_filter_durations [OF ok] simp: delete_duration_def rbind_Inr_iff)
next
  case (SyncDurations i)
  then show ?thesis by (auto intro!: tables_on_row [OF ok] intro: tables_synced [OF ok find_caseD(1)])
qed

end
