(* ===== verification/Cases_Correct.thy ===== *)
theory Cases_Correct
  imports Case_Tables
begin

text \<open>
  What cases promise: consistent tables, recorded changes that replay to the present values of a case,
  views recorded at most once per window, and an update that has exactly its effect.
\<close>

section \<open>What operations do to cases and events\<close>

definition value_types :: "string list" where
  "value_types = [''status_changed'', ''case_closed'', ''case_reopened'', ''priority_changed'', ''severity_changed'']"

definition tracked_types :: "string list" where
  "tracked_types = ''case_viewed'' # value_types"

definition quiet :: "case_db \<Rightarrow> case_db \<Rightarrow> bool" where
  "quiet db db' \<longleftrightarrow> db_cases db' = db_cases db
     \<and> (\<exists>new. db_events db' = db_events db @ new \<and> (\<forall>e\<in>set new. e_type e \<notin> set tracked_types))"

lemma quiet_same: "db_cases db' = db_cases db \<Longrightarrow> db_events db' = db_events db \<Longrightarrow> quiet db db'"
  by (auto simp: quiet_def)

lemma quiet_trans:
  assumes "quiet a b" and "quiet b c"
  shows "quiet a c"
proof -
  from assms obtain x y where "db_events b = db_events a @ x" "db_events c = db_events b @ y"
    "\<forall>e\<in>set x. e_type e \<notin> set tracked_types" "\<forall>e\<in>set y. e_type e \<notin> set tracked_types" "db_cases c = db_cases a"
    by (auto simp: quiet_def)
  then show ?thesis unfolding quiet_def by (intro conjI exI [of _ "x @ y"]) auto
qed

lemma quiet_create_event: "type \<notin> set tracked_types \<Longrightarrow> quiet db (create_event who cid type data db)"
  by (auto simp: quiet_def create_event_def)

lemma quiet_add_events: "set (map fst evs) \<inter> set tracked_types = {} \<Longrightarrow> quiet db (add_events who cid evs db)"
proof -
  assume "set (map fst evs) \<inter> set tracked_types = {}"
  then have "\<forall>e\<in>set (new_events who cid n evs). e_type e \<notin> set tracked_types" for n
    by (fastforce simp: new_events_def dest: set_zip_rightD)
  then show ?thesis by (auto simp: quiet_def add_events_result)
qed

lemma synced_same:
  assumes "synced env who c db = Inr db'"
  shows "db_cases db' = db_cases db" and "db_events db' = db_events db"
proof -
  have "db_cases (foldl (\<lambda>db cp. sync_one ws cid ex cp db) db cps) = db_cases db
      \<and> db_events (foldl (\<lambda>db cp. sync_one ws cid ex cp db) db cps) = db_events db" for ws cid ex cps
    by (induction cps rule: rev_induct) (auto simp: sync_one_def set_duration_def add_duration_def split: option.splits)
  with assms show "db_cases db' = db_cases db" "db_events db' = db_events db"
    by (auto simp: synced_def sync_case_durations_def rbind_Inr_iff Let_def)
qed

lemma quiet_or_same: "(\<And>db'. r = Inr db' \<Longrightarrow> quiet db db') \<Longrightarrow> quiet db (or_same db r)"
  by (cases r) (simp_all add: or_same_def quiet_same)

lemma quiet_on_row: "(\<And>x db'. r = Some x \<Longrightarrow> f x = Inr db' \<Longrightarrow> quiet db db') \<Longrightarrow> quiet db (on_row r f db)"
  by (cases r) (simp_all add: on_row_def quiet_or_same quiet_same)

lemma quiet_task_ops:
  "create_task env who i p db = Inr db' \<Longrightarrow> quiet db db'" (is "?A \<Longrightarrow> _")
  "update_task env who j q db = Inr db' \<Longrightarrow> quiet db db'" (is "?B \<Longrightarrow> _")
  "delete_task who j db = Inr db' \<Longrightarrow> quiet db db'" (is "?C \<Longrightarrow> _")
proof -
  assume ?A
  then show "quiet db db'"
    unfolding create_task_def Let_def
    by (auto simp: rbind_Inr_iff quiet_def create_event_def tracked_types_def value_types_def split: option.splits)
next
  assume ?B
  then obtain k k' :: task_row and evs where "db' = put_task k' (add_events who (k_case k) evs db)" "set (map fst evs) \<subseteq> set task_types"
    by (rule update_task_shape) blast
  moreover from this(2) have "set (map fst evs) \<inter> set tracked_types = {}"
    by (auto simp: task_types_def tracked_types_def value_types_def)
  ultimately show "quiet db db'"
    using quiet_add_events [of evs db who "k_case k"] by (simp add: quiet_def put_task_def)
next
  assume ?C
  then show "quiet db db'"
    unfolding delete_task_def Let_def
    by (auto simp: rbind_Inr_iff quiet_def create_event_def tracked_types_def value_types_def)
qed

lemma quiet_synced_event:
  assumes "synced env who c (create_event who cid type data db0) = Inr db'" and "type \<notin> set tracked_types"
    and "db_cases db0 = db_cases db" and "db_events db0 = db_events db"
  shows "quiet db db'"
  using synced_same [OF assms(1)] assms(2-4) by (auto simp: quiet_def create_event_def)

lemma quiet_tag_ops:
  "quiet db (snd (add_case_tag env who i ident create db))"
  "remove_case_tag env who i ident db = Inr db' \<Longrightarrow> quiet db db'" (is "?B \<Longrightarrow> _")
proof -
  have t: "''tag_added'' \<notin> set tracked_types" "''tag_removed'' \<notin> set tracked_types"
    by (simp_all add: tracked_types_def value_types_def)
  show "quiet db (snd (add_case_tag env who i ident create db))"
  proof (cases "rbind (tagged_case who i db) (\<lambda>c. rbind (resolve_tag env (wh_ws who) create ident db) (\<lambda>r. Inr (c, r)))")
    case (Inl e)
    then show ?thesis by (simp add: add_case_tag_def quiet_same)
  next
    case (Inr r)
    obtain c t db1 where r: "r = (c, (t, db1))" by (cases r) auto
    from Inr r have "resolve_tag env (wh_ws who) create ident db = Inr (t, db1)" by (auto simp: rbind_Inr_iff)
    then have db1: "db_cases db1 = db_cases db" "db_events db1 = db_events db"
      by (auto simp: resolve_tag_def create_tag_def Let_def split: sum.splits if_splits)
    have "quiet db db2"
      if "synced env who c (create_event who (c_id c) ''tag_added'' (tag_data t) (db1\<lparr>db_links := db_links db1 @ [(i, t_id t)]\<rparr>)) = Inr db2" for db2
      by (rule quiet_synced_event [OF that t(1)]) (simp_all add: db1)
    then show ?thesis using Inr r db1 by (simp add: add_case_tag_def quiet_same split: sum.split)
  qed
  assume ?B
  then obtain c t where "synced env who c (create_event who (c_id c) ''tag_removed'' (tag_data t)
      (db\<lparr>db_links := filter (\<lambda>l. l \<noteq> (i, t_id t)) (db_links db)\<rparr>)) = Inr db'"
    unfolding remove_case_tag_def by (auto simp: rbind_Inr_iff split: if_splits)
  from quiet_synced_event [OF this t(2)] show "quiet db db'" by simp
qed

definition case_request :: "case_op \<Rightarrow> bool" where
  "case_request req = (case req of CreateCase _ \<Rightarrow> True | ViewCase _ \<Rightarrow> True | UpdateCase _ _ \<Rightarrow> True | DeleteCase _ \<Rightarrow> True | _ \<Rightarrow> False)"

lemma quiet_step:
  assumes "\<not> case_request req"
  shows "quiet db (case_step env db (who, req))"
proof (cases req)
  case (UpdateDefinition i p)
  then show ?thesis
    by (auto intro!: quiet_or_same simp: update_definition_def rbind_Inr_iff Let_def quiet_same)
next
  case (UpdateTag i p)
  then show ?thesis
    by (auto intro!: quiet_on_row simp: quiet_same) (auto simp: update_tag_def Let_def quiet_same split: if_splits)
next
  case (UpdateDuration i j d change)
  then show ?thesis
    by (cases d) (auto intro!: quiet_on_row simp: update_duration_def rbind_Inr_iff set_duration_def quiet_same split: option.splits)
next
  case (UpdateComment i p)
  then show ?thesis by (auto intro!: quiet_on_row simp: update_comment_def Let_def quiet_same split: if_splits)
next
  case (SyncDurations i)
  then show ?thesis by (auto intro!: quiet_on_row quiet_same dest: synced_same)
next
  case (CreateDuration i d v)
  then show ?thesis
    by (auto intro!: quiet_on_row simp: create_duration_def add_duration_def rbind_Inr_iff quiet_same split: option.splits)
qed (use assms in \<open>auto intro!: quiet_or_same quiet_on_row simp: case_request_def quiet_tag_ops quiet_same create_comment_def
  delete_comment_def create_tag_def delete_tag_def create_definition_def delete_definition_def delete_duration_def rbind_Inr_iff
  Let_def intro: quiet_task_ops quiet_tag_ops split: if_splits option.splits\<close>)

section \<open>Histories\<close>

text \<open>The old and new values that the events of some types record for a case.\<close>

definition change_pair :: "json \<Rightarrow> (string \<times> string) list" where
  "change_pair d =
     (case d of
        JObj kvs \<Rightarrow> (case (dget kvs ''old'', dget kvs ''new'') of (Some (JStr a), Some (JStr b)) \<Rightarrow> [(a, b)] | _ \<Rightarrow> [])
      | _ \<Rightarrow> [])"

definition history :: "string list \<Rightarrow> nat \<Rightarrow> event_row list \<Rightarrow> (string \<times> string) list" where
  "history tys cid events = concat (map (\<lambda>e. change_pair (e_data e)) (filter (\<lambda>e. e_case e = cid \<and> e_type e \<in> set tys) events))"

text \<open>From a value, every change starts at the present value and really changes it.\<close>

fun replay :: "string \<Rightarrow> (string \<times> string) list \<Rightarrow> string option" where
  "replay v [] = Some v"
| "replay v ((a, b) # xs) = (if a = v \<and> b \<noteq> v then replay b xs else None)"

definition recorded :: "string list \<Rightarrow> event_row list \<Rightarrow> nat \<Rightarrow> string \<Rightarrow> bool" where
  "recorded tys events cid v \<longleftrightarrow> (\<exists>v0. replay v0 (history tys cid events) = Some v)"

definition status_types :: "string list" where
  "status_types = [''status_changed'', ''case_closed'', ''case_reopened'']"

definition history_ok :: "case_db \<Rightarrow> bool" where
  "history_ok db \<longleftrightarrow>
     (\<forall>c\<in>set (db_cases db). recorded status_types (db_events db) (c_id c) (c_status c)
        \<and> recorded [''priority_changed''] (db_events db) (c_id c) (c_priority c)
        \<and> recorded [''severity_changed''] (db_events db) (c_id c) (c_severity c))
     \<and> (\<forall>e\<in>set (db_events db). e_type e \<in> set status_types \<longrightarrow> (\<exists>a b. change_pair (e_data e) = [(a, b)] \<and> e_type e = status_event a b))"

lemma replay_append: "replay v (xs @ ys) = (case replay v xs of Some w \<Rightarrow> replay w ys | None \<Rightarrow> None)"
  by (induction v xs rule: replay.induct) auto

lemma history_append: "history tys cid (es @ fs) = history tys cid es @ history tys cid fs"
  by (simp add: history_def)

lemma history_none: "(\<And>e. e \<in> set es \<Longrightarrow> e_case e = cid \<Longrightarrow> e_type e \<notin> set tys) \<Longrightarrow> history tys cid es = []"
  by (auto simp: history_def filter_empty_conv)

lemma history_other: "i \<noteq> cid \<Longrightarrow> history tys i (filter (\<lambda>e. e_case e \<noteq> cid) es) = history tys i es"
  by (auto simp: history_def intro!: arg_cong [of _ _ concat] arg_cong [of _ _ "map _"] filter_cong)

lemma recorded_append:
  assumes "recorded tys es cid v" and "replay v (history tys cid fs) = Some w"
  shows "recorded tys (es @ fs) cid w"
proof -
  obtain v0 where "replay v0 (history tys cid es) = Some v" using assms(1) by (auto simp: recorded_def)
  with assms(2) show ?thesis unfolding recorded_def history_append replay_append by (intro exI [of _ v0]) simp
qed

lemma recorded_quiet:
  assumes "recorded tys es cid v" and "\<And>e. e \<in> set fs \<Longrightarrow> e_type e \<notin> set tys"
  shows "recorded tys (es @ fs) cid v"
  by (rule recorded_append [OF assms(1)]) (simp add: history_none assms(2))

lemma recorded_fresh: "(\<And>e. e \<in> set es \<Longrightarrow> e_case e = cid \<Longrightarrow> e_type e \<notin> set tys) \<Longrightarrow> recorded tys es cid v"
  by (simp add: recorded_def history_none)

lemma value_types_cover: "set status_types \<subseteq> set value_types" "''priority_changed'' \<in> set value_types" "''severity_changed'' \<in> set value_types"
  by (simp_all add: status_types_def value_types_def)

lemma history_ok_untracked:
  assumes "history_ok db" and "db_cases db' = db_cases db" and "db_events db' = db_events db @ new"
    and "\<And>e. e \<in> set new \<Longrightarrow> e_type e \<notin> set value_types"
  shows "history_ok db'"
proof -
  have new: "e_type e \<notin> set status_types" "e_type e \<noteq> ''priority_changed''" "e_type e \<noteq> ''severity_changed''" if "e \<in> set new" for e
    using assms(4) [OF that] value_types_cover by auto
  have "recorded tys (db_events db') i v" if "recorded tys (db_events db) i v" "tys \<in> {status_types, [''priority_changed''], [''severity_changed'']}" for tys i v
    unfolding assms(3) by (rule recorded_quiet [OF that(1)]) (use that(2) new in auto)
  with assms(1,2) new show ?thesis by (auto simp: history_ok_def assms(3))
qed

lemma history_ok_quiet: "history_ok db \<Longrightarrow> quiet db db' \<Longrightarrow> history_ok db'"
  unfolding quiet_def tracked_types_def by (auto intro: history_ok_untracked)

lemma history_ok_delete:
  assumes "history_ok db"
  shows "history_ok (delete_case c db)"
  using assms by (auto simp: history_ok_def delete_case_def recorded_def history_other)

text \<open>The changes recorded by the events of an update.\<close>

definition pairs :: "string list \<Rightarrow> (string \<times> (string \<times> json) list) list \<Rightarrow> (string \<times> string) list" where
  "pairs tys evs = concat (map (\<lambda>(type, data). if type \<in> set tys then change_pair (JObj data) else []) evs)"

lemma pairs_append: "pairs tys (xs @ ys) = pairs tys xs @ pairs tys ys"
  by (simp add: pairs_def)

lemma pairs_none: "set (map fst evs) \<inter> set tys = {} \<Longrightarrow> pairs tys evs = []"
  by (fastforce simp: pairs_def)

lemma history_new_events:
  "history tys i (new_events who cid n evs) = (if i = cid then pairs tys evs else [])"
proof (cases "i = cid")
  case True
  have "history tys cid (new_events who cid n evs) = pairs tys evs"
  proof (induction evs rule: rev_induct)
    case Nil
    then show ?case by (simp add: history_def new_events_def pairs_def)
  next
    case (snoc x evs)
    have "new_events who cid n (evs @ [x]) = new_events who cid n evs @ new_events who cid (n + length evs) [x]"
      by (simp add: new_events_def)
    moreover have "history tys cid (new_events who cid m [x]) = pairs tys [x]" for m
      by (cases x) (simp add: history_def new_events_def pairs_def)
    ultimately show ?case using snoc by (simp only: history_append pairs_append)
  qed
  with True show ?thesis by simp
next
  case False
  then show ?thesis using new_events_all by (auto intro!: history_none)
qed

lemma change_pair_data: "change_pair (JObj (change_data who (Some a) (Some b))) = [(a, b)]"
  by (simp add: change_pair_def change_data_def event_data_def)

lemma pairs_values:
  "pairs tys (value_events who type old new) =
     (if new_value old new \<noteq> old \<and> type old (new_value old new) \<in> set tys then [(old, new_value old new)] else [])"
  by (auto simp: value_events_def new_value_def pairs_def change_pair_data split: option.splits)

lemma replay_values: "replay old (if new \<noteq> old \<and> P then [(old, new)] else []) = Some (if P then new else old)"
  by simp

lemma other_events:
  "set (map fst (field_events who old new)) \<inter> set value_types = {}" "set (map fst (rest_events who p c)) \<inter> set value_types = {}"
  by (auto simp: field_events_def rest_events_def value_types_def split: option.splits if_splits)

lemma status_event_in: "status_event a b \<in> set status_types"
  by (simp add: status_event_def status_types_def)

lemma status_not_value: "status_event a b \<noteq> ''priority_changed''" "status_event a b \<noteq> ''severity_changed''"
  by (simp_all add: status_event_def)

lemma update_pairs_only:
  assumes "set tys \<subseteq> set value_types"
  shows "pairs tys (update_events who p old c) =
     pairs tys (value_events who status_event (c_status c) (up_status p))
     @ pairs tys (value_events who (\<lambda>_ _. ''priority_changed'') (c_priority c) (up_priority p))
     @ pairs tys (value_events who (\<lambda>_ _. ''severity_changed'') (c_severity c) (up_severity p))"
proof -
  have "pairs tys (field_events who old new) = []" "pairs tys (rest_events who p c) = []" for new
    using other_events(1) [of who old new] other_events(2) [of who p c] assms by (auto intro!: pairs_none)
  then show ?thesis by (simp only: update_events_def pairs_append append_Nil2)
qed

lemma updated_values:
  "c_status (updated_row p c) = new_value (c_status c) (up_status p)" "c_priority (updated_row p c) = new_value (c_priority c) (up_priority p)"
  "c_severity (updated_row p c) = new_value (c_severity c) (up_severity p)"
  by (simp_all add: updated_row_def rest_row_def)

lemma not_status: "''priority_changed'' \<notin> set status_types" "''severity_changed'' \<notin> set status_types"
  by (simp_all add: status_types_def)

lemma update_pairs:
  "replay (c_status c) (pairs status_types (update_events who p old c)) = Some (c_status (updated_row p c))"
  "replay (c_priority c) (pairs [''priority_changed''] (update_events who p old c)) = Some (c_priority (updated_row p c))"
  "replay (c_severity c) (pairs [''severity_changed''] (update_events who p old c)) = Some (c_severity (updated_row p c))"
proof -
  have other: "''severity_changed'' \<notin> set [''priority_changed'']" "''priority_changed'' \<notin> set [''severity_changed'']"
    "''priority_changed'' \<in> set [''priority_changed'']" "''severity_changed'' \<in> set [''severity_changed'']"
    "status_event a b \<notin> set [''priority_changed'']" "status_event a b \<notin> set [''severity_changed'']" for a b
    using status_not_value by simp_all
  have cover: "set [''priority_changed''] \<subseteq> set value_types" "set [''severity_changed''] \<subseteq> set value_types"
    using value_types_cover by simp_all
  show "replay (c_status c) (pairs status_types (update_events who p old c)) = Some (c_status (updated_row p c))"
    unfolding update_pairs_only [OF value_types_cover(1)] pairs_values updated_values by (simp add: status_event_in not_status)
  show "replay (c_priority c) (pairs [''priority_changed''] (update_events who p old c)) = Some (c_priority (updated_row p c))"
    unfolding update_pairs_only [OF cover(1)] pairs_values updated_values by (simp only: other simp_thms if_False append_Nil append_Nil2) simp
  show "replay (c_severity c) (pairs [''severity_changed''] (update_events who p old c)) = Some (c_severity (updated_row p c))"
    unfolding update_pairs_only [OF cover(2)] pairs_values updated_values by (simp only: other simp_thms if_False append_Nil append_Nil2) simp
qed

lemma update_case_result:
  assumes "tables_ok env db" and c: "c \<in> set (db_cases db)" and "update_case env who c p db = Inr db'"
  shows "db_cases db' = map (\<lambda>x. if c_id x = c_id c then updated_row p c else x) (db_cases db)"
    and "db_events db' = db_events db @ new_events who (c_id c) (db_next db) (update_events who p (stored_fields (c_id c) db) c)"
proof -
  from assms(3) obtain db0 where f: "fields_written env (c_id c) (up_fields p) db db0"
    and s: "synced env who (updated_row p c)
       (put_case (updated_row p c) (add_events who (c_id c) (update_events who p (stored_fields (c_id c) db) c) db0)) = Inr db'"
    by (rule update_case_shape)
  note w = fields_written_tables [OF assms(1) c f] and y = synced_same [OF s]
  show "db_cases db' = map (\<lambda>x. if c_id x = c_id c then updated_row p c else x) (db_cases db)"
    "db_events db' = db_events db @ new_events who (c_id c) (db_next db) (update_events who p (stored_fields (c_id c) db) c)"
    using y w by (simp_all add: put_case_def add_events_result)
qed

lemma value_events_typed:
  "(t, d) \<in> set (value_events who type old new) \<Longrightarrow> t = type old (new_value old new) \<and> change_pair (JObj d) = [(old, new_value old new)]"
  by (auto simp: value_events_def new_value_def change_pair_data split: option.splits if_splits)

lemma status_pairs_typed:
  assumes "(type, data) \<in> set (update_events who p old c)" and "type \<in> set status_types"
  shows "\<exists>a b. change_pair (JObj data) = [(a, b)] \<and> type = status_event a b"
proof -
  have "type \<notin> set (map fst (field_events who old (up_fields p)))" "type \<notin> set (map fst (rest_events who p c))"
    using other_events(1) [of who old "up_fields p"] other_events(2) [of who p c] assms(2) value_types_cover(1) by blast+
  then have "(type, data) \<notin> set (field_events who old (up_fields p))" "(type, data) \<notin> set (rest_events who p c)"
    by (metis fst_conv image_eqI list.set_map)+
  moreover have "(type, data) \<notin> set (value_events who (\<lambda>_ _. ''priority_changed'') (c_priority c) (up_priority p))"
    "(type, data) \<notin> set (value_events who (\<lambda>_ _. ''severity_changed'') (c_severity c) (up_severity p))"
    using value_events_typed assms(2) not_status by blast+
  ultimately have "(type, data) \<in> set (value_events who status_event (c_status c) (up_status p))"
    using assms(1) unfolding update_events_def set_append by blast
  from value_events_typed [OF this] show ?thesis by blast
qed

lemma history_ok_update:
  assumes ok: "tables_ok env db" and "history_ok db" and c: "c \<in> set (db_cases db)" and "update_case env who c p db = Inr db'"
  shows "history_ok db'"
proof -
  let ?evs = "update_events who p (stored_fields (c_id c) db) c"
  note res = update_case_result [OF ok c assms(4)]
  have ids: "distinct (map c_id (db_cases db))" using ok by (simp add: tables_ok_def ids_ok_def)
  have step: "recorded tys (db_events db') i w"
    if "recorded tys (db_events db) i v" and "i = c_id c \<Longrightarrow> replay v (pairs tys ?evs) = Some w" and "i \<noteq> c_id c \<Longrightarrow> w = v" for tys i v w
    unfolding res(2) by (rule recorded_append [OF that(1)]) (use that(2,3) in \<open>simp add: history_new_events\<close>)
  have "recorded status_types (db_events db') (c_id x) (c_status x) \<and> recorded [''priority_changed''] (db_events db') (c_id x) (c_priority x)
      \<and> recorded [''severity_changed''] (db_events db') (c_id x) (c_severity x)" if "x \<in> set (db_cases db')" for x
  proof -
    from that obtain y where y: "y \<in> set (db_cases db)" "x = (if c_id y = c_id c then updated_row p c else y)" unfolding res(1) by auto
    have same: "c_id x = c_id y" using y(2) by simp
    have "y = c" if "c_id y = c_id c" by (rule distinct_map_eq [OF ids y(1) c that])
    with y(2) have x: "x = (if c_id y = c_id c then updated_row p y else y)" and yc: "c_id y = c_id c \<Longrightarrow> y = c" by auto
    have r: "recorded status_types (db_events db) (c_id x) (c_status y)" "recorded [''priority_changed''] (db_events db) (c_id x) (c_priority y)"
      "recorded [''severity_changed''] (db_events db) (c_id x) (c_severity y)" using assms(2) y(1) by (simp_all add: history_ok_def same)
    show ?thesis
      by (intro conjI step [OF r(1)] step [OF r(2)] step [OF r(3)]) (use yc update_pairs in \<open>auto simp: x\<close>)
  qed
  moreover have "\<exists>a b. change_pair (e_data e) = [(a, b)] \<and> e_type e = status_event a b"
    if e: "e \<in> set (db_events db')" "e_type e \<in> set status_types" for e
  proof (cases "e \<in> set (db_events db)")
    case True
    with assms(2) e(2) show ?thesis by (simp add: history_ok_def)
  next
    case False
    then have "e \<in> set (new_events who (c_id c) (db_next db) ?evs)" using e(1) res(2) by simp
    then have "(e_type e, e_data e) \<in> set (map (\<lambda>(type, data). (type, JObj data)) ?evs)"
      unfolding new_events_contents [of who "c_id c" "db_next db", symmetric] by (force simp: image_iff)
    with status_pairs_typed e(2) show ?thesis by fastforce
  qed
  ultimately show ?thesis by (simp add: history_ok_def)
qed

lemma create_case_result:
  assumes "create_case env who p db = Inr db'"
  shows "db_cases db' = db_cases db @ [new_case (wh_ws who) (db_next db) p]"
    and "db_events db' = db_events db @ new_events who (db_next db) (Suc (db_next db)) [(''case_created'', event_data who [])]"
proof -
  from assms obtain row where s: "synced env who (new_case (wh_ws who) (db_next db) p)
      (create_event who (db_next db) ''case_created'' (event_data who [])
        (db\<lparr>db_next := Suc (db_next db), db_cases := db_cases db @ [new_case (wh_ws who) (db_next db) p],
            db_fields := dset (db_next db) row (db_fields db)\<rparr>)) = Inr db'"
    by (auto simp: create_case_def rbind_Inr_iff upsert_field_values_def Let_def new_case_def)
  show "db_cases db' = db_cases db @ [new_case (wh_ws who) (db_next db) p]"
    "db_events db' = db_events db @ new_events who (db_next db) (Suc (db_next db)) [(''case_created'', event_data who [])]"
    using synced_same [OF s] by (simp_all add: create_event_def new_events_def)
qed

lemma history_ok_create:
  assumes ok: "tables_ok env db" and "history_ok db" and "create_case env who p db = Inr db'"
  shows "history_ok db'"
proof -
  note res = create_case_result [OF assms(3)]
  have new: "e_type e = ''case_created''" if "e \<in> set (new_events who (db_next db) (Suc (db_next db)) [(''case_created'', event_data who [])])" for e
    using that by (simp add: new_events_def)
  have untracked: "''case_created'' \<notin> set value_types" by (simp add: value_types_def)
  have old: "history_ok (db'\<lparr>db_cases := db_cases db\<rparr>)"
    by (rule history_ok_untracked [OF assms(2)]) (use new untracked in \<open>auto simp: res\<close>)
  have "e_case e \<noteq> db_next db" if "e \<in> set (db_events db)" for e
    using ok that by (fastforce simp: tables_ok_def owned_def ids_ok_def)
  then have "recorded tys (db_events db') (db_next db) v" if "set tys \<subseteq> set value_types" for tys v
    unfolding res(2) by (intro recorded_fresh) (use new untracked that in auto)
  then have "recorded status_types (db_events db') (db_next db) v" "recorded [''priority_changed''] (db_events db') (db_next db) v"
    "recorded [''severity_changed''] (db_events db') (db_next db) v" for v
    using value_types_cover by simp_all
  with old show ?thesis by (auto simp: history_ok_def res(1) new_case_def)
qed

lemma get_case_result:
  "snd (get_case env who True i db) = db \<or>
   (\<exists>c user. find_case (wh_ws who) i db = Some c \<and> wh_user who = Some user
      \<and> (\<forall>e. last_view who user i db = Some e \<longrightarrow> CASE_VIEW_EVENT_DEDUP_WINDOW \<le> wh_now who - e_at e)
      \<and> db_cases (snd (get_case env who True i db)) = db_cases db
      \<and> db_events (snd (get_case env who True i db)) = db_events db @ new_events who i (db_next db) [(''case_viewed'', [(''wf_exec_id'', JNull)])])"
proof (cases "find_case (wh_ws who) i db")
  case None
  then show ?thesis by (simp add: get_case_def)
next
  case (Some c)
  show ?thesis
  proof (cases "create_case_viewed_event who i db")
    case None
    with Some show ?thesis by (simp add: get_case_def)
  next
    case viewed: (Some db1)
    then obtain user where user: "wh_user who = Some user" and db1: "db1 = create_event who i ''case_viewed'' [(''wf_exec_id'', JNull)] db"
      and far: "\<forall>e. last_view who user i db = Some e \<longrightarrow> CASE_VIEW_EVENT_DEDUP_WINDOW \<le> wh_now who - e_at e"
      by (auto simp: create_case_viewed_event_def split: option.splits if_splits)
    show ?thesis
    proof (cases "synced env who c db1")
      case (Inl e)
      then have "snd (get_case env who True i db) = db"
        using Some viewed by (auto simp: get_case_def synced_def split: sum.split)
      then show ?thesis by simp
    next
      case (Inr db2)
      then have "snd (get_case env who True i db) = db2"
        using Some viewed by (auto simp: get_case_def synced_def rbind_Inr_iff)
      with synced_same [OF Inr] Some user far show ?thesis by (simp add: db1 create_event_def new_events_def)
    qed
  qed
qed

section \<open>Views\<close>

definition apart :: "event_row \<Rightarrow> event_row \<Rightarrow> bool" where
  "apart e f \<longleftrightarrow> e_case e = e_case f \<and> e_user e = e_user f \<longrightarrow> CASE_VIEW_EVENT_DEDUP_WINDOW \<le> e_at f - e_at e"

definition is_view :: "event_row \<Rightarrow> bool" where
  "is_view e \<longleftrightarrow> e_type e = ''case_viewed''"

definition views_ok :: "case_db \<Rightarrow> bool" where
  "views_ok db \<longleftrightarrow> sorted_wrt apart (filter is_view (db_events db))"

lemma views_ok_append:
  assumes "views_ok db" and "db_events db' = db_events db @ new" and "\<And>e. e \<in> set new \<Longrightarrow> \<not> is_view e"
  shows "views_ok db'"
proof -
  have "filter is_view new = []" using assms(3) by (simp add: filter_empty_conv)
  with assms(1,2) show ?thesis by (simp add: views_ok_def)
qed

lemma last_view_latest:
  assumes "e \<in> set (db_events db)" and "e_ws e = wh_ws who" and "e_case e = i" and "is_view e" and "e_user e = Some user"
  obtains l where "last_view who user i db = Some l" "e_at e \<le> e_at l"
proof -
  let ?es = "filter (\<lambda>e. e_ws e = wh_ws who \<and> e_case e = i \<and> e_type e = ''case_viewed'' \<and> e_user e = Some user) (db_events db)"
  have e: "e \<in> set ?es" using assms by (simp add: is_view_def)
  then have "sort_key e_at ?es \<noteq> []" by (rule sort_key_not_Nil)
  then obtain ys y where s: "sort_key e_at ?es = ys @ [y]" by (cases "sort_key e_at ?es" rule: rev_cases) auto
  have "e_at e \<le> e_at (last (sort_key e_at ?es))" by (rule last_sort_key_ge [OF e])
  then show ?thesis by (intro that [of y]) (simp_all add: last_view_def s)
qed

lemma views_ok_view:
  assumes ok: "tables_ok env db" and v: "views_ok db"
  shows "views_ok (snd (get_case env who True i db))"
  using get_case_result [of env who i db]
proof (elim disjE exE conjE)
  assume "snd (get_case env who True i db) = db"
  with v show ?thesis by simp
next
  fix c user
  assume c: "find_case (wh_ws who) i db = Some c" and user: "wh_user who = Some user"
    and far: "\<forall>e. last_view who user i db = Some e \<longrightarrow> CASE_VIEW_EVENT_DEDUP_WINDOW \<le> wh_now who - e_at e"
    and events: "db_events (snd (get_case env who True i db)) = db_events db @ new_events who i (db_next db) [(''case_viewed'', [(''wf_exec_id'', JNull)])]"
  note d = find_caseD [OF c]
  have "CASE_VIEW_EVENT_DEDUP_WINDOW \<le> wh_now who - e_at e"
    if e: "e \<in> set (db_events db)" "is_view e" "e_case e = i" "e_user e = Some user" for e
  proof -
    from ok e(1,3) obtain x where x: "x \<in> set (db_cases db)" "c_id x = i" "c_ws x = e_ws e" by (auto simp: tables_ok_def owned_def)
    have "x = c" using ok x(1,2) d(1,3) by (auto simp: tables_ok_def intro: ids_ok_inj)
    then have "e_ws e = wh_ws who" using x(3) d(2) by simp
    then obtain l where "last_view who user i db = Some l" "e_at e \<le> e_at l" using e by (auto elim: last_view_latest)
    with far show ?thesis by fastforce
  qed
  then show ?thesis using v user by (auto simp: views_ok_def events new_events_def sorted_wrt_append apart_def is_view_def)
qed

lemma update_events_no_view:
  assumes "e \<in> set (new_events who i n (update_events who p old c))"
  shows "\<not> is_view e"
proof -
  have v: "''case_viewed'' \<noteq> status_event a b" for a b by (simp add: status_event_def)
  have "(''case_viewed'', data) \<notin> set (value_events who status_event (c_status c) (up_status p))"
    "(''case_viewed'', data) \<notin> set (value_events who (\<lambda>_ _. ''priority_changed'') (c_priority c) (up_priority p))"
    "(''case_viewed'', data) \<notin> set (value_events who (\<lambda>_ _. ''severity_changed'') (c_severity c) (up_severity p))" for data
    using value_events_typed v by fastforce+
  moreover have "(''case_viewed'', data) \<notin> set (field_events who old (up_fields p))" "(''case_viewed'', data) \<notin> set (rest_events who p c)" for data
    by (auto simp: field_events_def rest_events_def split: option.splits if_splits)
  ultimately have "(''case_viewed'', data) \<notin> set (update_events who p old c)" for data unfolding update_events_def set_append by blast
  then show ?thesis using assms by (auto simp: new_events_def is_view_def dest: set_zip_rightD)
qed

section \<open>Every run\<close>

lemma history_ok_step:
  assumes ok: "tables_ok env db" and h: "history_ok db"
  shows "history_ok (case_step env db (who, req))"
proof (cases "case_request req")
  case False
  from history_ok_quiet [OF h quiet_step [OF this]] show ?thesis .
next
  case True
  then consider p where "req = CreateCase p" | i where "req = ViewCase i" | i p where "req = UpdateCase i p" | i where "req = DeleteCase i"
    by (auto simp: case_request_def split: case_op.splits)
  then show ?thesis
  proof cases
    case 1
    then show ?thesis using h history_ok_create [OF ok h] by (auto simp: or_same_def split: sum.split)
  next
    case (2 i)
    have view: "''case_viewed'' \<notin> set value_types" by (simp add: value_types_def)
    from get_case_result [of env who i db] h show ?thesis unfolding 2 case_step.simps
      by (elim disjE exE conjE) (simp, rule history_ok_untracked [OF h], use view in \<open>auto simp: new_events_def\<close>)
  next
    case (3 i p)
    then show ?thesis using h history_ok_update [OF ok h find_caseD(1)] by (auto simp: on_row_def or_same_def split: option.split sum.split)
  next
    case (4 i)
    then show ?thesis using h history_ok_delete by (simp add: on_row_def or_same_def split: option.split)
  qed
qed

lemma views_ok_step:
  assumes ok: "tables_ok env db" and v: "views_ok db"
  shows "views_ok (case_step env db (who, req))"
proof (cases "case_request req")
  case False
  from quiet_step [OF this, of db env who] v show ?thesis
    unfolding quiet_def tracked_types_def by (auto intro: views_ok_append simp: is_view_def)
next
  case True
  then consider p where "req = CreateCase p" | i where "req = ViewCase i" | i p where "req = UpdateCase i p" | i where "req = DeleteCase i"
    by (auto simp: case_request_def split: case_op.splits)
  then show ?thesis
  proof cases
    case (1 p)
    have "views_ok db'" if "create_case env who p db = Inr db'" for db'
      by (rule views_ok_append [OF v create_case_result(2) [OF that]]) (simp add: new_events_def is_view_def)
    then show ?thesis using v 1 by (simp add: or_same_def split: sum.split)
  next
    case 2
    then show ?thesis using views_ok_view [OF ok v] by simp
  next
    case (3 i p)
    have "views_ok db'" if "find_case (wh_ws who) i db = Some c" "update_case env who c p db = Inr db'" for c db'
      by (rule views_ok_append [OF v update_case_result(2) [OF ok find_caseD(1) [OF that(1)] that(2)]]) (rule update_events_no_view)
    then show ?thesis using v 3 by (auto simp: on_row_def or_same_def split: option.split sum.split)
  next
    case (4 i)
    have "views_ok (delete_case c db)" for c
      using v sorted_wrt_filter [of apart "filter is_view (db_events db)" "\<lambda>e. e_case e \<noteq> c_id c"]
      by (simp add: views_ok_def delete_case_def conj_commute)
    then show ?thesis using v 4 by (simp add: on_row_def or_same_def split: option.split)
  qed
qed

interpretation case_tables: total_machine "case_step env" "\<lambda>db. tables_ok env db \<and> history_ok db \<and> views_ok db" for env
proof
  fix db and r :: "actor \<times> case_op"
  assume inv: "tables_ok env db \<and> history_ok db \<and> views_ok db"
  obtain who req where r: "r = (who, req)" by (cases r)
  from inv show "tables_ok env (case_step env db r) \<and> history_ok (case_step env db r) \<and> views_ok (case_step env db r)"
    unfolding r by (blast intro: tables_step history_ok_step views_ok_step)
qed

lemma empty_case_db_ok: "tables_ok env empty_case_db \<and> history_ok empty_case_db \<and> views_ok empty_case_db"
  by (simp add: empty_case_db_def tables_ok_def history_ok_def views_ok_def ids_ok_def defs_ok_def rows_ok_def tags_ok_def links_ok_def)

text \<open>C15: Whatever operations were requested, in whatever order and whichever failed, the case tables stay
  consistent: rows are identified, events, comments, tasks, durations, fields and tag links belong to a
  case of their own workspace, a case has one record per definition, definition names and tag slugs are
  unique in a workspace and every slug is that of its name.
\<close>
theorem case_tables_consistent: "tables_ok env (foldl (case_step env) empty_case_db requests)"
  using case_tables.run_inv [OF empty_case_db_ok, of env requests] by (rule conjunct1)

text \<open>C4: The events of a case are a complete history of its status, priority and severity: each recorded
  change starts at the value the previous one ended with, changes it, and the last one ends at the
  present value; a status change is recorded as closing, reopening or changing according to its values.
\<close>
theorem case_history_replays: "history_ok (foldl (case_step env) empty_case_db requests)"
  using case_tables.run_inv [OF empty_case_db_ok, of env requests] by (rule conjunct1 [OF conjunct2])

text \<open>C40: Two views of one case by one user are never recorded less than the window of five minutes apart.\<close>
theorem views_spaced: "views_ok (foldl (case_step env) empty_case_db requests)"
  using case_tables.run_inv [OF empty_case_db_ok, of env requests] by (rule conjunct2 [OF conjunct2])

section \<open>The effect of an update\<close>

lemma synced_exact:
  assumes "tables_ok env db" and "c \<in> set (db_cases db)" and "synced env who c db = Inr db'"
  shows "\<exists>cps. compute_duration (ce_fromiso env) (wh_ws who) c db' = Inr cps
    \<and> (\<lambda>r. (du_def r, du_value r)) ` set (case_durations (wh_ws who) (c_id c) db') = (\<lambda>cp. (cp_def cp, cp_value cp)) ` set cps"
proof -
  from assms(3) obtain cps where s: "sync_case_durations (ce_fromiso env) (wh_ws who) c db = Inr (cps, db')"
    by (auto simp: synced_def rbind_Inr_iff)
  note e = sync_exact_step [OF tables_durations_ok [OF assms(1)] assms(2) s]
  have "c \<in> set (db_cases db')" using assms(2) synced_same(1) [OF assms(3)] by simp
  from sync_exact_step [OF conjunct1 [OF conjunct2 [OF conjunct2 [OF conjunct2 [OF e]]]] this] e show ?thesis by blast
qed

text \<open>
  What a request of an update asks for, column by column: an absent value keeps the old one, and for the three
  enumerations an empty one does too. The log has one entry per value that differs, of the fields that are given one
  entry with those that differ, and an entry for a given summary or assignee even when it is the old one; a
  description leaves no entry.
\<close>

definition given :: "'a \<Rightarrow> 'a option \<Rightarrow> 'a" where
  "given old new = (case new of None \<Rightarrow> old | Some v \<Rightarrow> v)"

definition chosen :: "string \<Rightarrow> string option \<Rightarrow> string" where
  "chosen old new = (if new = Some [] then old else given old new)"

definition requested_row :: "case_update \<Rightarrow> case_row \<Rightarrow> case_row" where
  "requested_row p c =
     \<lparr>c_id = c_id c, c_ws = c_ws c, c_summary = given (c_summary c) (up_summary p), c_description = given (c_description c) (up_description p),
      c_status = chosen (c_status c) (up_status p), c_priority = chosen (c_priority c) (up_priority p),
      c_severity = chosen (c_severity c) (up_severity p), c_assignee = given (c_assignee c) (up_assignee p),
      c_payload = given (c_payload c) (up_payload p)\<rparr>"

definition log_if :: "bool \<Rightarrow> string \<Rightarrow> (string \<times> json) list \<Rightarrow> (string \<times> (string \<times> json) list) list" where
  "log_if b type data = (if b then [(type, data)] else [])"

definition update_log :: "actor \<Rightarrow> case_update \<Rightarrow> (string \<times> json) list \<Rightarrow> case_row \<Rightarrow> (string \<times> (string \<times> json) list) list" where
  "update_log who p stored c =
     (let r = requested_row p c; exec = (''wf_exec_id'', opt_str (wh_exec who)); fs = given [] (up_fields p);
          before = \<lambda>f. (case dget stored f of None \<Rightarrow> JNull | Some v \<Rightarrow> v) in
      log_if (c_status r \<noteq> c_status c)
        (if c_status r = ''closed'' then ''case_closed'' else if c_status c = ''closed'' then ''case_reopened'' else ''status_changed'')
        [exec, (''old'', JStr (c_status c)), (''new'', JStr (c_status r))]
      @ log_if (c_priority r \<noteq> c_priority c) ''priority_changed'' [exec, (''old'', JStr (c_priority c)), (''new'', JStr (c_priority r))]
      @ log_if (c_severity r \<noteq> c_severity c) ''severity_changed'' [exec, (''old'', JStr (c_severity c)), (''new'', JStr (c_severity r))]
      @ log_if (fs \<noteq> []) ''fields_changed'' [exec, (''changes'', JArr (map (\<lambda>(f, v).
          JObj [(''field'', JStr f), (''old'', before f), (''new'', v)]) (filter (\<lambda>(f, v). \<not> py_eq (before f) v) fs)))]
      @ log_if (up_summary p \<noteq> None) ''case_updated''
        [exec, (''field'', JStr ''summary''), (''old'', opt_str (c_summary c)), (''new'', opt_str (c_summary r))]
      @ log_if (up_assignee p \<noteq> None) ''assignee_changed'' [exec, (''old'', opt_str (c_assignee c)), (''new'', opt_str (c_assignee r))]
      @ log_if (up_payload p \<noteq> None \<and> \<not> py_eq (c_payload c) (c_payload r)) ''payload_changed'' [exec])"

lemma updated_row_requested: "updated_row p c = requested_row p c"
  by (cases c) (auto simp: updated_row_def rest_row_def requested_row_def new_value_def given_def chosen_def split: option.splits)

lemma value_events_log:
  "value_events who type old new =
     log_if (chosen old new \<noteq> old) (type old (chosen old new)) [(''wf_exec_id'', opt_str (wh_exec who)), (''old'', JStr old), (''new'', JStr (chosen old new))]"
  by (auto simp: value_events_def log_if_def chosen_def given_def change_data_def event_data_def split: option.splits)

lemma field_diffs_log:
  "field_diffs old new = map (\<lambda>(f, v). JObj [(''field'', JStr f), (''old'', case dget old f of None \<Rightarrow> JNull | Some w \<Rightarrow> w), (''new'', v)])
     (filter (\<lambda>(f, v). \<not> py_eq (case dget old f of None \<Rightarrow> JNull | Some w \<Rightarrow> w) v) new)"
  by (induction new) (auto simp: field_diffs_def Let_def split: option.splits)

lemma update_events_log: "update_events who p stored c = update_log who p stored c"
proof -
  have "field_events who stored (up_fields p) = log_if (given [] (up_fields p) \<noteq> []) ''fields_changed''
      [(''wf_exec_id'', opt_str (wh_exec who)), (''changes'', JArr (field_diffs stored (given [] (up_fields p))))]"
    by (auto simp: field_events_def log_if_def given_def event_data_def split: option.splits)
  moreover have "rest_events who p c =
      log_if (up_summary p \<noteq> None) ''case_updated'' [(''wf_exec_id'', opt_str (wh_exec who)), (''field'', JStr ''summary''),
        (''old'', opt_str (c_summary c)), (''new'', opt_str (given (c_summary c) (up_summary p)))]
      @ log_if (up_assignee p \<noteq> None) ''assignee_changed'' [(''wf_exec_id'', opt_str (wh_exec who)),
        (''old'', opt_str (c_assignee c)), (''new'', opt_str (given (c_assignee c) (up_assignee p)))]
      @ log_if (up_payload p \<noteq> None \<and> \<not> py_eq (c_payload c) (given (c_payload c) (up_payload p))) ''payload_changed''
        [(''wf_exec_id'', opt_str (wh_exec who))]"
    by (auto simp: rest_events_def log_if_def given_def change_data_def event_data_def split: option.splits)
  ultimately show ?thesis
    by (simp add: update_events_def update_log_def value_events_log status_event_def requested_row_def field_diffs_log Let_def)
qed

text \<open>C21: On consistent tables, a successful update replaces the row of the case by the one the request asks for and leaves the other
  cases; it appends exactly the entries of the log of the request, in their order, by the acting user and at the
  present time: one for each of status, priority and severity that changes, one for given fields with those that
  differ, one for a given summary and a given assignee even if unchanged, one for a changed payload, and none for a
  description; and it leaves the recorded durations of the case equal to those its events now give.
\<close>
theorem update_case_effect:
  assumes "tables_ok env db" and "c \<in> set (db_cases db)" and "update_case env who c p db = Inr db'"
  shows "db_cases db' = map (\<lambda>x. if c_id x = c_id c then requested_row p c else x) (db_cases db)
    \<and> db_events db' = db_events db @ new_events who (c_id c) (db_next db) (update_log who p (stored_fields (c_id c) db) c)
    \<and> (\<exists>cps. compute_duration (ce_fromiso env) (wh_ws who) (requested_row p c) db' = Inr cps
         \<and> (\<lambda>r. (du_def r, du_value r)) ` set (case_durations (wh_ws who) (c_id c) db') = (\<lambda>cp. (cp_def cp, cp_value cp)) ` set cps)"
proof -
  from assms(3) obtain db0 where f: "fields_written env (c_id c) (up_fields p) db db0"
    and s: "synced env who (updated_row p c)
       (put_case (updated_row p c) (add_events who (c_id c) (update_events who p (stored_fields (c_id c) db) c) db0)) = Inr db'"
    by (rule update_case_shape)
  note w = fields_written_tables [OF assms(1,2) f]
  let ?db1 = "add_events who (c_id c) (update_events who p (stored_fields (c_id c) db) c) db0"
  have ws: "c_ws c = wh_ws who"
    using s by (auto simp: synced_def sync_case_durations_def resolve_case_def rbind_Inr_iff split: if_splits)
  have cases1: "db_cases ?db1 = db_cases db" by (simp add: add_events_result w(2))
  have "tables_ok env ?db1" by (rule add_events_tables [OF w(1)]) (use w(2) owned_row [OF assms(2)] ws in simp)
  then have "tables_ok env (put_case (updated_row p c) ?db1)"
    by (rule tables_put_case [of _ _ c]) (simp_all add: cases1 assms(2))
  moreover have "updated_row p c \<in> set (db_cases (put_case (updated_row p c) ?db1))"
    using assms(2) by (auto simp: put_case_def cases1 image_iff intro!: bexI [of _ c])
  ultimately show ?thesis
    using synced_exact [OF _ _ s] update_case_result [OF assms] by (simp add: updated_row_requested [symmetric] update_events_log)
qed

section \<open>Concrete runs\<close>

definition sample_env :: case_env where
  "sample_env = \<lparr>ce_fromiso = (\<lambda>_. None), ce_write = (\<lambda>_ kvs. Inr kvs), ce_workflow = (\<lambda>_ _. Some (''flow'', [])),
     ce_conforms = (\<lambda>_ _. None), ce_slugify = (\<lambda>s. filter (\<lambda>ch. ch \<noteq> CHR ''!'') s), ce_uuid = (\<lambda>_. None)\<rparr>"

definition sample_actor :: "int \<Rightarrow> actor" where
  "sample_actor t = \<lparr>wh_ws = ''w'', wh_user = Some ''ann'', wh_exec = None, wh_now = t\<rparr>"

definition sample_create :: case_create where
  "sample_create = \<lparr>cc_summary = ''s'', cc_description = ''d'', cc_status = ''new'', cc_priority = ''low'', cc_severity = ''low'',
     cc_fields = None, cc_assignee = None, cc_payload = JNull\<rparr>"

definition no_update :: case_update where
  "no_update = \<lparr>up_summary = None, up_description = None, up_status = None, up_priority = None, up_severity = None,
     up_fields = None, up_assignee = None, up_payload = None\<rparr>"

definition sample_case_task :: task_create where
  "sample_case_task = \<lparr>tc_title = ''t'', tc_description = None, tc_priority = ''low'', tc_status = ''todo'', tc_assignee = None,
     tc_workflow = Some ''wf'', tc_defaults = JObj [(''k'', JInt 1)]\<rparr>"

definition no_task_update :: task_update where
  "no_task_update = \<lparr>ku_title = None, ku_description = None, ku_priority = None, ku_status = None, ku_assignee = None,
     ku_workflow = None, ku_defaults = None\<rparr>"

definition task_time :: def_create where
  "task_time = \<lparr>dc_name = ''Time to task'', dc_description = None,
     dc_start = \<lparr>an_type = ''case_created'', an_path = ''created_at'', an_filters = [], an_last = False\<rparr>,
     dc_end = \<lparr>an_type = ''task_created'', an_path = ''created_at'', an_filters = [], an_last = False\<rparr>\<rparr>"

text \<open>An update of the status, with the summary given as it is and the assignee set.\<close>

definition sample_update :: case_update where
  "sample_update = no_update\<lparr>up_status := Some ''closed'', up_summary := Some (Some ''s''), up_assignee := Some (Some ''bob'')\<rparr>"

lemma sample_case_run:
  "db_cases (case_step sample_env empty_case_db (sample_actor 0, CreateCase sample_create)) = [new_case ''w'' 0 sample_create]"
  "(case update_case sample_env (sample_actor 9) (new_case ''w'' 0 sample_create) sample_update
      (case_step sample_env empty_case_db (sample_actor 0, CreateCase sample_create)) of Inl _ \<Rightarrow> False | Inr _ \<Rightarrow> True)"
  by code_simp+

theorem update_case_effect_witness:
  "\<exists>db' :: case_db. update_case sample_env (sample_actor 9) (new_case ''w'' 0 sample_create) sample_update
       (case_step sample_env empty_case_db (sample_actor 0, CreateCase sample_create)) = Inr db'
    \<and> map e_type (db_events db') = [''case_created'', ''case_closed'', ''case_updated'', ''assignee_changed'']
    \<and> map (\<lambda>c. (c_status c, c_assignee c)) (db_cases db') = [(''closed'', Some ''bob'')]"
proof -
  let ?db = "case_step sample_env empty_case_db (sample_actor 0, CreateCase sample_create)" and ?c = "new_case ''w'' 0 sample_create"
  obtain db' where u: "update_case sample_env (sample_actor 9) ?c sample_update ?db = Inr db'"
    using sample_case_run(2) by (auto split: sum.splits)
  have ok: "tables_ok sample_env ?db" by (rule tables_step) (simp add: empty_case_db_ok)
  have mem: "?c \<in> set (db_cases ?db)" unfolding sample_case_run(1) by simp
  note e = update_case_effect [OF ok mem u]
  have rows: "db_cases db' = map (\<lambda>x. if c_id x = c_id ?c then requested_row sample_update ?c else x) (db_cases ?db)"
    and events: "db_events db' = db_events ?db @ new_events (sample_actor 9) (c_id ?c) (db_next ?db) (update_log (sample_actor 9) sample_update (stored_fields (c_id ?c) ?db) ?c)"
    by (rule conjunct1 [OF e], rule conjunct1 [OF conjunct2 [OF e]])
  have status: "map (\<lambda>c. (c_status c, c_assignee c)) (map (\<lambda>x. if c_id x = c_id ?c then requested_row sample_update ?c else x) (db_cases ?db)) = [(''closed'', Some ''bob'')]"
    and types: "map e_type (db_events ?db @ new_events (sample_actor 9) (c_id ?c) (db_next ?db) (update_log (sample_actor 9) sample_update (stored_fields (c_id ?c) ?db) ?c))
      = [''case_created'', ''case_closed'', ''case_updated'', ''assignee_changed'']"
    by code_simp+
  show ?thesis by (rule exI [of _ db'], intro conjI, rule u, simp only: events types, simp only: rows status)
qed

text \<open>Task operations record an event but do not synchronise the durations of the case.\<close>

lemma task_leaves_durations_stale:
  "let db = foldl (case_step sample_env) empty_case_db [(sample_actor 0, CreateDefinition task_time), (sample_actor 0, CreateCase sample_create),
       (sample_actor 5, CreateTask 1 sample_case_task)]
   in map (\<lambda>r. dv_duration (du_value r)) (case_durations ''w'' 1 db) = [None]
     \<and> map (\<lambda>cp. dv_duration (cp_value cp)) (projr (compute_duration (ce_fromiso sample_env) ''w'' (new_case ''w'' 1 sample_create) db)) = [Some 5]"
  by code_simp

text \<open>A task cannot be created with trigger values and no workflow, but clearing the workflow leaves them.\<close>

lemma cleared_workflow_keeps_defaults:
  "(let db = foldl (case_step sample_env) empty_case_db [(sample_actor 0, CreateCase sample_create), (sample_actor 5, CreateTask 0 sample_case_task),
       (sample_actor 6, UpdateTask 2 (no_task_update\<lparr>ku_workflow := Some None\<rparr>))]
    in map k_workflow (db_tasks db) = [None] \<and> map k_defaults (db_tasks db) = [JObj [(''k'', JInt 1)]])
   \<and> db_tasks (foldl (case_step sample_env) empty_case_db [(sample_actor 0, CreateCase sample_create),
       (sample_actor 5, CreateTask 0 (sample_case_task\<lparr>tc_workflow := None\<rparr>))]) = []"
  by code_simp

text \<open>A tag whose name has an empty slug is created with the first request and cannot be found by the second.\<close>

lemma unsluggable_tag_fails_again:
  "let db = foldl (case_step sample_env) empty_case_db [(sample_actor 0, CreateCase sample_create), (sample_actor 1, AddTag 0 ''!!'' True)]
   in map t_ref (db_tags db) = [''''] \<and> fst (add_case_tag sample_env (sample_actor 2) 0 ''!!'' True db)
        = Inl (tag_value_error (''Case tag with slug '' @ quoted '''' @ '' already exists''))"
  by code_simp

end
