(* ===== verification/Folders.thy ===== *)
theory Folders
  imports Cases
begin

text \<open>
  Folders of workflows as materialized paths (\<open>workflow/management/folders/service.py\<close>), with the
  folders an import creates (\<open>_ensure_folder_exists\<close> of \<open>workflow/store/import_service.py\<close>). A folder is a
  row whose path is \<open>/parent/child/\<close>; the tree is only in the paths. \<open>startswith\<close> on a column is
  \<open>LIKE\<close> with the argument as the pattern, unescaped. Of a workflow only its folder is modelled. The
  unique constraint on workspace and path is checked at the end of an operation.
\<close>

record folder_row =
  f_id :: nat
  f_ws :: string
  f_name :: string
  f_path :: string

record placed_workflow =
  p_id :: nat
  p_ws :: string
  p_folder :: "nat option"

record folder_db =
  fb_next :: nat
  fb_folders :: "folder_row list"
  fb_workflows :: "placed_workflow list"

section \<open>Text\<close>

abbreviation SLASH :: char where
  "SLASH \<equiv> CHR ''/''"

text \<open>PostgreSQL's \<open>LIKE\<close> with its default escape character.\<close>

fun like :: "string \<Rightarrow> string \<Rightarrow> bool" where
  "like [] s \<longleftrightarrow> s = []"
| "like (p # ps) s \<longleftrightarrow>
     (if p = CHR ''%'' then like ps s \<or> (case s of [] \<Rightarrow> False | _ # cs \<Rightarrow> like (p # ps) cs)
      else if p = CHR ''_'' then (case s of [] \<Rightarrow> False | _ # cs \<Rightarrow> like ps cs)
      else if p = CHR 0x5C then (case (ps, s) of (q # qs, c # cs) \<Rightarrow> c = q \<and> like qs cs | _ \<Rightarrow> False)
      else (case s of [] \<Rightarrow> False | c # cs \<Rightarrow> c = p \<and> like ps cs))"

text \<open>\<open>str.replace(old, new, 1)\<close>.\<close>

fun replace_first :: "string \<Rightarrow> string \<Rightarrow> string \<Rightarrow> string" where
  "replace_first old new [] = (if old = [] then new else [])"
| "replace_first old new (c # cs) =
     (if startswith (c # cs) old then new @ drop (length old) (c # cs) else c # replace_first old new cs)"

fun rstrip_slash :: "string \<Rightarrow> string" where
  "rstrip_slash s = rev (dropWhile (\<lambda>c. c = SLASH) (rev s))"

definition strip_slash :: "string \<Rightarrow> string" where
  "strip_slash s = rstrip_slash (dropWhile (\<lambda>c. c = SLASH) s)"

definition slashed :: "string \<Rightarrow> string" where
  "slashed path = (if endswith path [SLASH] then path else path @ [SLASH])"

definition parent_path :: "string \<Rightarrow> string" where
  "parent_path path =
     (if path = [SLASH] then [SLASH]
      else let parts = split_on SLASH (rstrip_slash path) in
        if length parts \<le> 2 then [SLASH] else join_with [SLASH] (butlast parts) @ [SLASH])"

definition child_path :: "string \<Rightarrow> string \<Rightarrow> string" where
  "child_path parent name = (if parent \<noteq> [SLASH] then parent @ name @ [SLASH] else [SLASH] @ name @ [SLASH])"

section \<open>Queries\<close>

definition get_folder :: "string \<Rightarrow> nat \<Rightarrow> folder_db \<Rightarrow> folder_row option" where
  "get_folder ws i db = find (\<lambda>f. f_ws f = ws \<and> f_id f = i) (fb_folders db)"

definition get_folder_by_path :: "string \<Rightarrow> string \<Rightarrow> folder_db \<Rightarrow> folder_row option" where
  "get_folder_by_path ws path db = find (\<lambda>f. f_ws f = ws \<and> f_path f = slashed path) (fb_folders db)"

definition folder_path_exists :: "string \<Rightarrow> string \<Rightarrow> folder_db \<Rightarrow> bool" where
  "folder_path_exists ws path db = list_ex (\<lambda>f. f_ws f = ws \<and> f_path f = path) (fb_folders db)"

definition list_folders :: "string \<Rightarrow> string \<Rightarrow> folder_db \<Rightarrow> folder_row list" where
  "list_folders ws parent db = filter (\<lambda>f. f_ws f = ws \<and> like (parent @ ''%'') (f_path f)) (fb_folders db)"

definition get_descendants :: "string \<Rightarrow> string \<Rightarrow> folder_db \<Rightarrow> folder_row list" where
  "get_descendants ws path db =
     filter (\<lambda>f. f_ws f = ws \<and> like (slashed path @ ''%'') (f_path f) \<and> f_path f \<noteq> slashed path) (fb_folders db)"

definition has_children :: "string \<Rightarrow> string \<Rightarrow> folder_db \<Rightarrow> bool" where
  "has_children ws path db =
     list_ex (\<lambda>f. f_ws f = ws \<and> like (slashed path @ ''%'') (f_path f) \<and> f_path f \<noteq> slashed path) (fb_folders db)"

definition get_workflows_in_folder :: "string \<Rightarrow> nat option \<Rightarrow> folder_db \<Rightarrow> placed_workflow list" where
  "get_workflows_in_folder ws i db = filter (\<lambda>w. p_ws w = ws \<and> p_folder w = i) (fb_workflows db)"

definition has_workflows :: "string \<Rightarrow> nat \<Rightarrow> folder_db \<Rightarrow> bool" where
  "has_workflows ws i db = list_ex (\<lambda>w. p_ws w = ws \<and> p_folder w = Some i) (fb_workflows db)"

definition get_folder_tree :: "string \<Rightarrow> string \<Rightarrow> folder_db \<Rightarrow> folder_row list" where
  "get_folder_tree ws root_path db =
     sort_key f_path (filter (\<lambda>f. f_ws f = ws \<and> (like (slashed root_path @ ''%'') (f_path f) \<or> f_path f = slashed root_path)) (fb_folders db))"

text \<open>The folders and the workflows of a directory; a folder comes with its number of items.\<close>

definition directory_folders :: "string \<Rightarrow> string \<Rightarrow> folder_db \<Rightarrow> folder_row list" where
  "directory_folders ws path db =
     filter (\<lambda>f. f_ws f = ws \<and>
       (if path = [SLASH] then length (filter (\<lambda>c. c = SLASH) (f_path f)) = 2
        else like (path @ ''%'') (f_path f) \<and> f_path f \<noteq> path \<and> \<not> like (path @ ''%/%/'') (f_path f))) (fb_folders db)"

definition num_items :: "string \<Rightarrow> folder_row \<Rightarrow> folder_db \<Rightarrow> nat" where
  "num_items ws f db = (if has_children ws (f_path f) db then 1 else 0) + (if has_workflows ws (f_id f) db then 1 else 0)"

definition get_directory_items :: "string \<Rightarrow> string \<Rightarrow> folder_db \<Rightarrow> exn + (folder_row \<times> nat) list \<times> placed_workflow list" where
  "get_directory_items ws path0 db =
     (let path = slashed path0 in
      rbind (if path = [SLASH] then Inr None
             else (case get_folder_by_path ws path db of
                 None \<Rightarrow> Inl (not_found_error (''Folder '' @ path @ '' not found''))
               | Some f \<Rightarrow> Inr (Some (f_id f)))) (\<lambda>i.
        Inr (map (\<lambda>f. (f, num_items ws f db)) (directory_folders ws path db), get_workflows_in_folder ws i db)))"

section \<open>Changes\<close>

definition add_folder :: "string \<Rightarrow> string \<Rightarrow> string \<Rightarrow> folder_db \<Rightarrow> folder_db" where
  "add_folder ws name path db =
     db\<lparr>fb_next := Suc (fb_next db), fb_folders := fb_folders db @ [\<lparr>f_id = fb_next db, f_ws = ws, f_name = name, f_path = path\<rparr>]\<rparr>"

definition create_folder :: "string \<Rightarrow> string \<Rightarrow> string \<Rightarrow> folder_db \<Rightarrow> exn + folder_db" where
  "create_folder ws name parent db =
     (if SLASH \<in> set name then Inl (validation_error ''Folder name cannot contain slashes'')
      else if parent \<noteq> [SLASH] \<and> \<not> folder_path_exists ws parent db
        then Inl (validation_error (''Parent path '' @ parent @ '' not found''))
      else let path = child_path (slashed parent) name in
        if folder_path_exists ws path db then Inl (validation_error (''Folder '' @ path @ '' already exists''))
        else Inr (add_folder ws name path db))"

text \<open>The unique constraint.\<close>

definition unique_paths :: "folder_row list \<Rightarrow> bool" where
  "unique_paths fs = distinct (map (\<lambda>f. (f_ws f, f_path f)) fs)"

definition unique_violation :: exn where
  "unique_violation = Exn ''IntegrityError'' False ''duplicate key value violates unique constraint'' [] None"

text \<open>Both a rename and a move give the folder a new row and replace the path in its descendants.\<close>

definition relocate :: "string \<Rightarrow> folder_row \<Rightarrow> folder_row \<Rightarrow> folder_db \<Rightarrow> exn + folder_db" where
  "relocate ws old new db =
     (let below = map f_id (get_descendants ws (f_path old) db);
          fs = map (\<lambda>f. if f_id f = f_id old then new
                 else if f_id f \<in> set below then f\<lparr>f_path := replace_first (f_path old) (f_path new) (f_path f)\<rparr> else f) (fb_folders db)
      in if unique_paths fs then Inr (db\<lparr>fb_folders := fs\<rparr>) else Inl unique_violation)"

definition folder_or_error :: "string \<Rightarrow> string \<Rightarrow> nat \<Rightarrow> folder_db \<Rightarrow> exn + folder_row" where
  "folder_or_error ws what i db =
     (case get_folder ws i db of
        None \<Rightarrow> Inl (validation_error (what @ show_nat i @ '' not found''))
      | Some f \<Rightarrow> Inr f)"

definition rename_folder :: "string \<Rightarrow> nat \<Rightarrow> string \<Rightarrow> folder_db \<Rightarrow> exn + folder_db" where
  "rename_folder ws i name db =
     (if SLASH \<in> set name then Inl (validation_error ''Folder name cannot contain slashes'')
      else rbind (folder_or_error ws ''Folder '' i db) (\<lambda>f.
        relocate ws f (f\<lparr>f_name := name, f_path := child_path (parent_path (f_path f)) name\<rparr>) db))"

definition move_folder :: "string \<Rightarrow> nat \<Rightarrow> nat option \<Rightarrow> folder_db \<Rightarrow> exn + folder_db" where
  "move_folder ws i target db =
     rbind (folder_or_error ws ''Folder '' i db) (\<lambda>f.
     rbind (case target of
              None \<Rightarrow> Inr [SLASH]
            | Some j \<Rightarrow>
                rbind (folder_or_error ws ''Parent folder '' j db) (\<lambda>p.
                  if f_path f = f_path p then Inl (validation_error ''Cannot make a folder its own child'')
                  else if startswith (f_path p) (f_path f) then Inl (validation_error ''Cannot create cyclic folder structure'')
                  else Inr (f_path p))) (\<lambda>parent.
       let path = child_path parent (f_name f) in
       if path \<noteq> f_path f \<and> folder_path_exists ws path db
       then Inl (validation_error (''Folder '' @ path @ '' already exists''))
       else relocate ws f (f\<lparr>f_path := path\<rparr>) db))"

text \<open>Deleting recursively detaches the workflows and deletes the folders.\<close>

definition detach :: "string \<Rightarrow> nat list \<Rightarrow> placed_workflow list \<Rightarrow> placed_workflow list" where
  "detach ws is ws_list =
     map (\<lambda>w. if p_ws w = ws \<and> (case p_folder w of Some i \<Rightarrow> i \<in> set is | None \<Rightarrow> False) then w\<lparr>p_folder := None\<rparr> else w) ws_list"

definition delete_folder :: "string \<Rightarrow> nat \<Rightarrow> bool \<Rightarrow> folder_db \<Rightarrow> exn + folder_db" where
  "delete_folder ws i recursive db =
     rbind (folder_or_error ws ''Folder '' i db) (\<lambda>f.
       if f_path f = [SLASH] then Inl (validation_error ''Cannot delete root folder'')
       else if \<not> recursive then
         (if has_children ws (f_path f) db \<or> has_workflows ws i db
          then Inl (validation_error ''Folder is not empty. Please move or delete its contents first.'')
          else Inr (db\<lparr>fb_folders := filter (\<lambda>x. f_id x \<noteq> f_id f) (fb_folders db)\<rparr>))
       else
         let gone = map f_id (get_descendants ws (f_path f) db) @ [f_id f]
         in Inr (db\<lparr>fb_folders := filter (\<lambda>x. f_id x \<notin> set gone) (fb_folders db), fb_workflows := detach ws gone (fb_workflows db)\<rparr>))"

definition move_workflow :: "string \<Rightarrow> nat \<Rightarrow> folder_row option \<Rightarrow> folder_db \<Rightarrow> exn + folder_db" where
  "move_workflow ws i folder db =
     (if list_ex (\<lambda>w. p_ws w = ws \<and> p_id w = i) (fb_workflows db)
      then Inr (db\<lparr>fb_workflows := map (\<lambda>w. if p_ws w = ws \<and> p_id w = i then w\<lparr>p_folder := map_option f_id folder\<rparr> else w) (fb_workflows db)\<rparr>)
      else Inl (not_found_error (''Workflow '' @ show_nat i @ '' not found'')))"

text \<open>The loop of an import over the segments of a path: the current path and the tables.\<close>

definition ensure_segment :: "string \<Rightarrow> string \<Rightarrow> string \<times> folder_db \<Rightarrow> exn + string \<times> folder_db" where
  "ensure_segment ws segment st =
     (if segment = [] then Inr st
      else let (parent, db) = st; path = parent @ segment @ [SLASH] in
        if get_folder_by_path ws path db \<noteq> None then Inr (path, db)
        else rbind (create_folder ws segment parent db) (\<lambda>db'. Inr (path, db')))"

definition ensure_folder_exists :: "string \<Rightarrow> string \<Rightarrow> folder_db \<Rightarrow> exn + nat \<times> folder_db" where
  "ensure_folder_exists ws path db =
     (if path = [] \<or> path = [SLASH] then Inl (Exn ''ValueError'' False ''Invalid folder path'' [] None)
      else rbind (rfold (ensure_segment ws) (split_on SLASH (strip_slash path)) ([SLASH], db)) (\<lambda>(_, db').
        case get_folder_by_path ws path db' of
          None \<Rightarrow> Inl (Exn ''ValueError'' False (''Failed to create or find folder at path: '' @ path) [] None)
        | Some f \<Rightarrow> Inr (f_id f, db')))"

section \<open>The operations together\<close>

datatype folder_op =
    CreateFolder string string
  | RenameFolder nat string
  | MoveFolder nat "nat option"
  | RemoveFolder nat bool
  | PlaceWorkflow nat string
  | ImportFolder string

text \<open>The router resolves the path a workflow is placed at; what raises leaves the tables.\<close>

definition keep_on_error :: "folder_db \<Rightarrow> exn + folder_db \<Rightarrow> folder_db" where
  "keep_on_error db r = (case r of Inl _ \<Rightarrow> db | Inr db' \<Rightarrow> db')"

fun folder_step :: "folder_db \<Rightarrow> string \<times> folder_op \<Rightarrow> folder_db" where
  "folder_step db (ws, CreateFolder name parent) = keep_on_error db (create_folder ws name parent db)"
| "folder_step db (ws, RenameFolder i name) = keep_on_error db (rename_folder ws i name db)"
| "folder_step db (ws, MoveFolder i target) = keep_on_error db (move_folder ws i target db)"
| "folder_step db (ws, RemoveFolder i recursive) = keep_on_error db (delete_folder ws i recursive db)"
| "folder_step db (ws, PlaceWorkflow i path) =
     (if path = [SLASH] then keep_on_error db (move_workflow ws i None db)
      else case get_folder_by_path ws path db of None \<Rightarrow> db | Some f \<Rightarrow> keep_on_error db (move_workflow ws i (Some f) db))"
| "folder_step db (ws, ImportFolder path) = keep_on_error db (rbind (ensure_folder_exists ws path db) (\<lambda>r. Inr (snd r)))"

end
