(* ===== verification/Folders_Correct.thy ===== *)
theory Folders_Correct
  imports Folders "HOL-Library.Sublist"
begin

text \<open>
  The paths of folders form a tree: every operation keeps a folder below a folder of its workspace, a
  rename or a move carries exactly the subtree along, and a recursive delete removes exactly the subtree,
  as long as names are free of the wildcards of \<open>LIKE\<close>. Concrete runs show what wildcards do.
\<close>

section \<open>Paths as lists of names\<close>

definition plain :: "string \<Rightarrow> bool" where
  "plain n \<longleftrightarrow> n \<noteq> [] \<and> SLASH \<notin> set n \<and> CHR ''%'' \<notin> set n \<and> CHR ''_'' \<notin> set n \<and> CHR 0x5C \<notin> set n"

definition segments :: "string list \<Rightarrow> string" where
  "segments ns = concat (map (\<lambda>n. n @ [SLASH]) ns)"

definition path_of :: "string list \<Rightarrow> string" where
  "path_of ns = SLASH # segments ns"

definition names_of :: "string \<Rightarrow> string list option" where
  "names_of path = (if path = [] then None else Some (butlast (split_on SLASH (tl path))))"

lemma segments_simps [simp]: "segments [] = []" "segments (n # ns) = n @ SLASH # segments ns" "segments (ns @ ms) = segments ns @ segments ms"
  by (simp_all add: segments_def)

lemma split_segments: "list_all plain ns \<Longrightarrow> split_on SLASH (segments ns) = ns @ [[]]"
  by (induction ns) (auto simp: plain_def split_on_append)

interpretation folder_paths: codec path_of names_of "list_all plain"
  by unfold_locales (simp add: names_of_def path_of_def split_segments)

lemma path_of_append: "path_of (ns @ ms) = path_of ns @ segments ms"
  by (simp add: path_of_def)

lemma child_path_of: "child_path (path_of ns) n = path_of (ns @ [n])"
  by (simp add: child_path_def path_of_def)

lemma slashed_path_of [simp]: "slashed (path_of ns) = path_of ns"
  by (cases ns rule: rev_cases) (auto simp: slashed_def path_of_def endswith_iff)

lemma startswith_path_of:
  assumes "list_all plain ns" and "list_all plain ms"
  shows "startswith (path_of ms) (path_of ns) \<longleftrightarrow> prefix ns ms"
proof
  assume "prefix ns ms"
  then show "startswith (path_of ms) (path_of ns)" by (auto simp: prefix_def path_of_append startswith_iff)
next
  assume "startswith (path_of ms) (path_of ns)"
  then obtain r where "segments ms = segments ns @ r" by (auto simp: startswith_iff path_of_def)
  with assms show "prefix ns ms"
  proof (induction ns arbitrary: ms)
    case Nil
    then show ?case by simp
  next
    case (Cons n ns)
    then obtain m ms' where ms: "ms = m # ms'" by (cases ms) auto
    have fresh: "SLASH \<notin> set n" "SLASH \<notin> set m" using Cons.prems ms by (auto simp: plain_def)
    have "m @ SLASH # segments ms' = n @ SLASH # (segments ns @ r)" using Cons.prems(3) ms by simp
    from arg_cong [OF this, of "split_once SLASH"] have "m = n" "segments ms' = segments ns @ r"
      by (simp_all add: fresh)
    with Cons ms show ?case by simp
  qed
qed

lemma like_all: "like ''%'' s"
  by (induction s) auto

lemma like_literal:
  assumes "\<forall>c\<in>set p. c \<noteq> CHR ''%'' \<and> c \<noteq> CHR ''_'' \<and> c \<noteq> CHR 0x5C"
  shows "like (p @ ''%'') s \<longleftrightarrow> startswith s p"
  using assms
proof (induction p arbitrary: s)
  case Nil
  then show ?case using like_all by (simp add: startswith_iff)
next
  case (Cons c p)
  then show ?case by (cases s) (auto simp: startswith_iff)
qed

lemma like_path_of:
  assumes "list_all plain ns" and "list_all plain ms"
  shows "like (path_of ns @ ''%'') (path_of ms) \<longleftrightarrow> prefix ns ms"
proof -
  have "\<forall>c\<in>set (segments ns). c \<noteq> CHR ''%'' \<and> c \<noteq> CHR ''_'' \<and> c \<noteq> CHR 0x5C"
    using assms(1) by (induction ns) (auto simp: plain_def)
  then have "\<forall>c\<in>set (path_of ns). c \<noteq> CHR ''%'' \<and> c \<noteq> CHR ''_'' \<and> c \<noteq> CHR 0x5C" by (simp add: path_of_def)
  from like_literal [OF this] startswith_path_of [OF assms] show ?thesis by simp
qed

lemma replace_first_prefix: "old \<noteq> [] \<Longrightarrow> replace_first old new (old @ r) = new @ r"
  using startswith_append [of old r] by (cases old) simp_all

lemma rstrip_name: "SLASH \<notin> set n \<Longrightarrow> n \<noteq> [] \<Longrightarrow> rstrip_slash (s @ n @ [SLASH]) = s @ n"
  by (cases n rule: rev_cases) auto

lemma split_names: "list_all plain ns \<Longrightarrow> SLASH \<notin> set n \<Longrightarrow> split_on SLASH (segments ns @ n) = ns @ [n]"
  by (induction ns) (auto simp: plain_def split_on_append)

lemma join_names: "ns \<noteq> [] \<Longrightarrow> join_with [SLASH] ([] # ns) @ [SLASH] = path_of ns"
  by (induction ns rule: induct_list012) (auto simp: path_of_def)

lemma parent_path_of:
  assumes "list_all plain ns" and "plain n"
  shows "parent_path (path_of (ns @ [n])) = path_of ns"
proof -
  have n: "SLASH \<notin> set n" "n \<noteq> []" using assms(2) by (auto simp: plain_def)
  have "rstrip_slash (path_of (ns @ [n])) = SLASH # segments ns @ n"
    using rstrip_name [OF n, of "SLASH # segments ns"] by (simp add: path_of_def del: rstrip_slash.simps)
  moreover have "split_on SLASH (SLASH # segments ns @ n) = [] # ns @ [n]"
    using split_on_append [of SLASH "[]" "segments ns @ n"] split_names [OF assms(1) n(1)] by simp
  ultimately have "parent_path (path_of (ns @ [n])) = (if ns = [] then [SLASH] else join_with [SLASH] ([] # ns) @ [SLASH])"
    by (auto simp: parent_path_def path_of_def Let_def butlast_append simp del: rstrip_slash.simps)
  then show ?thesis using join_names [of ns] by (auto simp: path_of_def)
qed


section \<open>The tree\<close>

definition names :: "folder_row \<Rightarrow> string list" where
  "names f = (case names_of (f_path f) of None \<Rightarrow> [] | Some ns \<Rightarrow> ns)"

definition well_named :: "folder_row \<Rightarrow> bool" where
  "well_named f \<longleftrightarrow> names f \<noteq> [] \<and> list_all plain (names f) \<and> f_path f = path_of (names f) \<and> f_name f = last (names f)"

definition placed :: "folder_row list \<Rightarrow> string \<Rightarrow> string list \<Rightarrow> bool" where
  "placed fs ws ns \<longleftrightarrow> ns = [] \<or> list_ex (\<lambda>p. f_ws p = ws \<and> names p = ns) fs"

definition folder_tree :: "folder_db \<Rightarrow> bool" where
  "folder_tree db \<longleftrightarrow>
     distinct (map f_id (fb_folders db)) \<and> (\<forall>f\<in>set (fb_folders db). f_id f < fb_next db) \<and> unique_paths (fb_folders db)
     \<and> (\<forall>f\<in>set (fb_folders db). well_named f) \<and> (\<forall>f\<in>set (fb_folders db). placed (fb_folders db) (f_ws f) (butlast (names f)))
     \<and> (\<forall>w\<in>set (fb_workflows db). case p_folder w of None \<Rightarrow> True | Some i \<Rightarrow> list_ex (\<lambda>f. f_id f = i \<and> f_ws f = p_ws w) (fb_folders db))"

lemma folder_tree_iff:
  "folder_tree db \<longleftrightarrow>
     distinct (map f_id (fb_folders db)) \<and> (\<forall>f\<in>set (fb_folders db). f_id f < fb_next db) \<and> unique_paths (fb_folders db)
     \<and> (\<forall>f\<in>set (fb_folders db). well_named f) \<and> (\<forall>f\<in>set (fb_folders db). placed (fb_folders db) (f_ws f) (butlast (names f)))
     \<and> (\<forall>w\<in>set (fb_workflows db). \<forall>i. p_folder w = Some i \<longrightarrow> list_ex (\<lambda>f. f_id f = i \<and> f_ws f = p_ws w) (fb_folders db))"
  by (auto simp: folder_tree_def split: option.splits)

lemma names_path_of: "f_path f = path_of ns \<Longrightarrow> list_all plain ns \<Longrightarrow> names f = ns"
  by (simp add: names_def folder_paths.dec_enc)

lemma placed_iff: "placed fs ws ns \<longleftrightarrow> ns = [] \<or> (\<exists>p\<in>set fs. f_ws p = ws \<and> names p = ns)"
  by (auto simp: placed_def list_ex_iff)

lemma path_eq_iff: "well_named f \<Longrightarrow> list_all plain ns \<Longrightarrow> f_path f = path_of ns \<longleftrightarrow> names f = ns"
  by (metis names_path_of well_named_def)

lemma names_inj:
  assumes "folder_tree db" and "f \<in> set (fb_folders db)" and "g \<in> set (fb_folders db)" and "f_ws f = f_ws g" and "names f = names g"
  shows "f = g"
proof -
  have "f_path f = f_path g" using assms by (metis folder_tree_iff well_named_def)
  moreover have "inj_on (\<lambda>f. (f_ws f, f_path f)) (set (fb_folders db))"
    using assms(1) by (simp add: folder_tree_iff unique_paths_def distinct_map)
  ultimately show ?thesis using assms(2-4) by (auto simp: inj_on_def)
qed

lemma id_inj: "folder_tree db \<Longrightarrow> f \<in> set (fb_folders db) \<Longrightarrow> g \<in> set (fb_folders db) \<Longrightarrow> f_id f = f_id g \<longleftrightarrow> f = g"
  using inj_on_eq_iff [of f_id "set (fb_folders db)" f g] by (simp add: folder_tree_iff distinct_map)

lemma get_folder_in: "get_folder ws i db = Some f \<Longrightarrow> f \<in> set (fb_folders db) \<and> f_ws f = ws \<and> f_id f = i"
  by (auto simp: get_folder_def find_Some_iff)

text \<open>Above a folder there is one for each part of its path.\<close>

lemma ancestors_placed:
  assumes "folder_tree db" and "g \<in> set (fb_folders db)" and "prefix ns (names g)"
  shows "placed (fb_folders db) (f_ws g) ns"
proof -
  have "g \<in> set (fb_folders db) \<Longrightarrow> names g = ns @ r \<Longrightarrow> placed (fb_folders db) (f_ws g) ns" for r
  proof (induction r arbitrary: g rule: rev_induct)
    case Nil
    then show ?case by (auto simp: placed_iff)
  next
    case (snoc x r)
    have "placed (fb_folders db) (f_ws g) (ns @ r)"
      using assms(1) snoc.prems by (metis append_assoc butlast_snoc folder_tree_iff)
    then consider "ns = []" | p where "p \<in> set (fb_folders db)" "f_ws p = f_ws g" "names p = ns @ r"
      by (auto simp: placed_iff)
    then show ?case
    proof cases
      case 2
      then show ?thesis using snoc.IH [OF 2(1,3)] by simp
    qed (simp add: placed_iff)
  qed
  then show ?thesis using assms(2,3) by (auto simp: prefix_def)
qed

lemma path_exists_iff:
  assumes "folder_tree db" and "list_all plain ns"
  shows "folder_path_exists ws (path_of ns) db \<longleftrightarrow> ns \<noteq> [] \<and> placed (fb_folders db) ws ns"
proof -
  have "\<forall>f\<in>set (fb_folders db). f_path f = path_of ns \<longleftrightarrow> names f = ns" "\<forall>f\<in>set (fb_folders db). names f \<noteq> []"
    using assms path_eq_iff by (auto simp: folder_tree_iff well_named_def)
  then show ?thesis by (auto simp: folder_path_exists_def placed_iff list_ex_iff)
qed

lemma descendants_iff:
  assumes "folder_tree db" and "list_all plain ns" and "g \<in> set (fb_folders db)"
  shows "g \<in> set (get_descendants ws (path_of ns) db) \<longleftrightarrow> f_ws g = ws \<and> strict_prefix ns (names g)"
proof -
  have "well_named g" using assms by (auto simp: folder_tree_iff)
  then show ?thesis using assms(2,3) like_path_of [of ns "names g"] path_eq_iff [of g ns]
    by (auto simp: get_descendants_def well_named_def strict_prefix_def)
qed

lemma has_children_iff:
  assumes "folder_tree db" and "list_all plain ns"
  shows "has_children ws (path_of ns) db \<longleftrightarrow> (\<exists>g\<in>set (fb_folders db). f_ws g = ws \<and> strict_prefix ns (names g))"
proof -
  have "has_children ws (path_of ns) db \<longleftrightarrow> (\<exists>g\<in>set (fb_folders db). g \<in> set (get_descendants ws (path_of ns) db))"
    by (auto simp: has_children_def get_descendants_def list_ex_iff)
  then show ?thesis using descendants_iff [OF assms] by auto
qed


section \<open>Carrying a subtree\<close>

definition carry :: "string \<Rightarrow> string list \<Rightarrow> string list \<Rightarrow> folder_row \<Rightarrow> folder_row" where
  "carry ws old new f =
     (if f_ws f = ws \<and> prefix old (names f)
      then f\<lparr>f_name := last (new @ drop (length old) (names f)), f_path := path_of (new @ drop (length old) (names f))\<rparr> else f)"

lemma carry_keeps [simp]: "f_id (carry ws old new f) = f_id f" "f_ws (carry ws old new f) = f_ws f"
  by (simp_all add: carry_def)

lemma names_carry:
  assumes "well_named f" and "list_all plain new"
  shows "names (carry ws old new f) = (if f_ws f = ws \<and> prefix old (names f) then new @ drop (length old) (names f) else names f)"
proof -
  have "list_all plain (new @ drop (length old) (names f))"
    using assms by (auto simp: well_named_def list_all_iff dest: in_set_dropD)
  then show ?thesis by (simp add: carry_def names_path_of)
qed

lemma well_named_carry:
  assumes "well_named f" and "list_all plain new" and "new \<noteq> []"
  shows "well_named (carry ws old new f)"
  using assms names_carry [OF assms(1,2), of ws old]
  by (auto simp: well_named_def carry_def list_all_iff dest: in_set_dropD)

lemma unique_paths_iff:
  assumes "\<forall>f\<in>set fs. well_named f"
  shows "unique_paths fs \<longleftrightarrow> distinct fs \<and> (\<forall>f\<in>set fs. \<forall>g\<in>set fs. f_ws f = f_ws g \<longrightarrow> names f = names g \<longrightarrow> f = g)"
proof -
  have "f \<in> set fs \<Longrightarrow> g \<in> set fs \<Longrightarrow> f_path f = f_path g \<longleftrightarrow> names f = names g" for f g
    using assms by (metis names_path_of well_named_def)
  then show ?thesis by (auto simp: unique_paths_def distinct_map inj_on_def)
qed

lemma carry_names_inj:
  assumes tree: "folder_tree db" and fg: "f \<in> set (fb_folders db)" "g \<in> set (fb_folders db)" "f_ws f = f_ws g"
    and new: "list_all plain new" "new \<noteq> []" "\<not> placed (fb_folders db) ws new \<or> new = old"
    and eq: "names (carry ws old new f) = names (carry ws old new g)"
  shows "names f = names g"
proof -
  have wn: "well_named f" "well_named g" using tree fg by (auto simp: folder_tree_iff)
  have mixed: False
    if "h \<in> set (fb_folders db)" "f_ws h = ws" "\<not> prefix old (names h)" "names h = new @ r" for h r
  proof -
    have "placed (fb_folders db) ws new" using ancestors_placed [OF tree that(1), of new] that by auto
    then show False using new(3) that(3,4) by auto
  qed
  show ?thesis
    using eq fg(3) mixed [OF fg(1)] mixed [OF fg(2)]
    by (auto simp: names_carry [OF wn(1) new(1)] names_carry [OF wn(2) new(1)] prefix_def split: if_splits) metis+
qed

lemma placed_carry:
  assumes tree: "folder_tree db" and f: "f \<in> set (fb_folders db)"
    and new: "list_all plain new" "new \<noteq> []" "old \<noteq> []" "placed (fb_folders db) ws (butlast new)" "\<not> prefix old (butlast new)"
  shows "placed (map (carry ws old new) (fb_folders db)) (f_ws f) (butlast (names (carry ws old new f)))"
proof -
  have wn: "\<forall>g\<in>set (fb_folders db). well_named g" using tree by (simp add: folder_tree_iff)
  have keep: "placed (map (carry ws old new) (fb_folders db)) w ns"
    if "placed (fb_folders db) w ns" "\<not> (w = ws \<and> prefix old ns)" for w ns
    using that wn new(1) by (auto simp: placed_iff names_carry)
  have up: "placed (fb_folders db) (f_ws f) (butlast (names f))" using tree f by (simp add: folder_tree_iff)
  have nm: "names (carry ws old new f) = (if f_ws f = ws \<and> prefix old (names f) then new @ drop (length old) (names f) else names f)"
    using names_carry wn f new(1) by blast
  consider "\<not> (f_ws f = ws \<and> prefix old (names f))" | "f_ws f = ws" "names f = old"
    | r x where "f_ws f = ws" "names f = old @ r @ [x]"
    by (metis append_Nil2 prefix_def rev_exhaust)
  then show ?thesis
  proof cases
    case 1
    then have "\<not> (f_ws f = ws \<and> prefix old (butlast (names f)))" by (metis prefix_order.trans prefixeq_butlast)
    with keep [OF up] nm 1 show ?thesis by simp
  next
    case 2
    with keep [OF new(4)] new(5) nm show ?thesis by simp
  next
    case 3
    with up new(3) obtain p where p: "p \<in> set (fb_folders db)" "f_ws p = ws" "names p = old @ r"
      by (auto simp: placed_iff butlast_append split: if_splits)
    then have "names (carry ws old new p) = new @ r" using names_carry wn new(1) by auto
    with p 3 nm new(2) show ?thesis by (auto simp: placed_iff butlast_append)
  qed
qed

lemma carry_tree:
  assumes tree: "folder_tree db"
    and new: "list_all plain new" "new \<noteq> []" "old \<noteq> []" "placed (fb_folders db) ws (butlast new)" "\<not> prefix old (butlast new)"
      "\<not> placed (fb_folders db) ws new \<or> new = old"
  shows "folder_tree (db\<lparr>fb_folders := map (carry ws old new) (fb_folders db)\<rparr>)"
proof -
  let ?c = "carry ws old new"
  have wn: "\<forall>f\<in>set (map ?c (fb_folders db)). well_named f"
    using tree new(1,2) by (auto simp: folder_tree_iff intro: well_named_carry)
  have inj: "f = g" if "f \<in> set (fb_folders db)" "g \<in> set (fb_folders db)" "f_ws f = f_ws g" "names (?c f) = names (?c g)" for f g
    using carry_names_inj [OF tree that(1-3) new(1,2,6) that(4)] names_inj [OF tree that(1-3)] by simp
  have "inj_on ?c (set (fb_folders db))"
    using inj by (intro inj_onI) (metis carry_keeps(2))
  then have "unique_paths (map ?c (fb_folders db))"
    using tree inj unfolding unique_paths_iff [OF wn] by (auto simp: distinct_map folder_tree_iff)
  moreover have "\<forall>f\<in>set (fb_folders db). placed (map ?c (fb_folders db)) (f_ws f) (butlast (names (?c f)))"
    using placed_carry [OF tree _ new(1-5)] by blast
  moreover have "list_ex P (map ?c (fb_folders db)) \<longleftrightarrow> list_ex (\<lambda>f. P (?c f)) (fb_folders db)" for P
    by (simp add: list_ex_iff)
  ultimately show ?thesis using tree wn by (simp add: folder_tree_iff comp_def)
qed


section \<open>Renaming and moving\<close>

lemma replaced_path:
  assumes "f_path f = path_of ns" and "well_named h" and "strict_prefix ns (names h)"
  shows "replace_first (f_path f) (path_of new) (f_path h) = path_of (new @ drop (length ns) (names h))"
    and "f_name h = last (new @ drop (length ns) (names h))"
proof -
  from assms(3) obtain r where r: "names h = ns @ r" "r \<noteq> []" by (auto simp: strict_prefix_def prefix_def)
  have h: "f_path h = path_of ns @ segments r" "f_name h = last r"
    using assms(2) r by (auto simp: well_named_def path_of_append)
  then have "replace_first (f_path f) (path_of new) (f_path h) = path_of new @ segments r"
    using assms(1) replace_first_prefix [of "path_of ns"] by simp (simp add: path_of_def)
  then show "replace_first (f_path f) (path_of new) (f_path h) = path_of (new @ drop (length ns) (names h))"
    using r(1) by (simp add: path_of_def)
  show "f_name h = last (new @ drop (length ns) (names h))" using h(2) r by simp
qed

lemma rename_same: "f_name (h :: folder_row) = x \<Longrightarrow> h\<lparr>f_name := x, f_path := p\<rparr> = h\<lparr>f_path := p\<rparr>"
  by (cases h) simp

lemma relocated_row:
  assumes tree: "folder_tree db" and f: "f \<in> set (fb_folders db)" "f_ws f = ws"
    and g: "g = f\<lparr>f_name := n, f_path := path_of (qs @ [n])\<rparr>"
    and h: "h \<in> set (fb_folders db)"
  shows "(if f_id h = f_id f then g
         else if f_id h \<in> set (map f_id (get_descendants ws (f_path f) db)) then h\<lparr>f_path := replace_first (f_path f) (f_path g) (f_path h)\<rparr> else h)
      = carry ws (names f) (qs @ [n]) h"
proof -
  let ?new = "qs @ [n]" and ?below = "map f_id (get_descendants ws (f_path f) db)"
  have wn: "\<forall>h\<in>set (fb_folders db). well_named h" using tree by (simp add: folder_tree_iff)
  then have path: "f_path f = path_of (names f)" "list_all plain (names f)" using f by (auto simp: well_named_def)
  have "f_id h \<in> set ?below \<longleftrightarrow> h \<in> set (get_descendants ws (f_path f) db)"
    using id_inj [OF tree h] by (auto simp: get_descendants_def)
  then have below: "f_id h \<in> set ?below \<longleftrightarrow> f_ws h = ws \<and> strict_prefix (names f) (names h)"
    using descendants_iff [OF tree path(2) h] path(1) by simp
  have same: "f_id h = f_id f \<longleftrightarrow> f_ws h = ws \<and> names h = names f"
    using id_inj [OF tree h f(1)] names_inj [OF tree h f(1)] f(2) by auto
  consider "f_ws h = ws \<and> names h = names f" | "f_ws h = ws \<and> strict_prefix (names f) (names h)"
    | "\<not> (f_ws h = ws \<and> prefix (names f) (names h))" by (cases "names f = names h") (auto simp: strict_prefix_def)
  then show ?thesis
  proof cases
    case 1
    then have "h = f" using names_inj [OF tree h f(1)] f(2) by simp
    then show ?thesis using f(2) g by (simp add: carry_def)
  next
    case 2
    then have sp: "strict_prefix (names f) (names h)" by simp
    have "\<not> f_id h = f_id f" using same 2 by auto
    moreover have "carry ws (names f) ?new h = h\<lparr>f_path := replace_first (f_path f) (path_of ?new) (f_path h)\<rparr>"
      using 2 by (simp only: carry_def strict_prefix_def simp_thms if_True replaced_path(1) [OF path(1) wn [rule_format, OF h] sp]
        rename_same [OF replaced_path(2) [OF path(1) wn [rule_format, OF h] sp]])
    ultimately show ?thesis using 2 below g by simp
  next
    case 3
    then have "\<not> f_id h = f_id f" and "\<not> f_id h \<in> set ?below"
      unfolding same below by (auto simp only: strict_prefix_def prefix_order.order_refl)
    then show ?thesis using 3 by (simp only: carry_def if_False simp_thms)
  qed
qed

lemma relocate_carry:
  assumes tree: "folder_tree db" and f: "f \<in> set (fb_folders db)" "f_ws f = ws"
    and g: "g = f\<lparr>f_name := n, f_path := path_of (qs @ [n])\<rparr>"
  shows "relocate ws f g db =
    (if unique_paths (map (carry ws (names f) (qs @ [n])) (fb_folders db))
     then Inr (db\<lparr>fb_folders := map (carry ws (names f) (qs @ [n])) (fb_folders db)\<rparr>) else Inl unique_violation)"
proof -
  have "map (\<lambda>h. if f_id h = f_id f then g
         else if f_id h \<in> set (map f_id (get_descendants ws (f_path f) db)) then h\<lparr>f_path := replace_first (f_path f) (f_path g) (f_path h)\<rparr> else h) (fb_folders db)
      = map (carry ws (names f) (qs @ [n])) (fb_folders db)"
    by (intro map_cong refl relocated_row [OF tree f g])
  then show ?thesis by (simp only: relocate_def Let_def)
qed

text \<open>The constraint is violated exactly when another folder is at the new path.\<close>

lemma carry_unique_iff:
  assumes tree: "folder_tree db" and f: "f \<in> set (fb_folders db)" "f_ws f = ws"
    and new: "list_all plain new" "new \<noteq> []" "placed (fb_folders db) ws (butlast new)" "\<not> prefix (names f) (butlast new)"
  shows "unique_paths (map (carry ws (names f) new) (fb_folders db)) \<longleftrightarrow> \<not> placed (fb_folders db) ws new \<or> new = names f"
proof
  assume unique: "unique_paths (map (carry ws (names f) new) (fb_folders db))"
  show "\<not> placed (fb_folders db) ws new \<or> new = names f"
  proof (rule ccontr)
    assume "\<not> (\<not> placed (fb_folders db) ws new \<or> new = names f)"
    with new(2) obtain h where h: "h \<in> set (fb_folders db)" "f_ws h = ws" "names h = new" "new \<noteq> names f"
      by (auto simp: placed_iff)
    have "\<not> prefix (names f) new" using h(4) new(2,4) by (metis prefix_snoc append_butlast_last_id)
    then have "f_path (carry ws (names f) new h) = f_path (carry ws (names f) new f)"
      using h f tree by (auto simp: carry_def folder_tree_iff well_named_def)
    moreover have "inj_on (\<lambda>x. (f_ws x, f_path (carry ws (names f) new x))) (set (fb_folders db))"
      using unique by (simp add: unique_paths_def distinct_map comp_def)
    ultimately have "h = f" using h(1,2) f by (simp add: inj_on_def)
    with h(3,4) show False by simp
  qed
next
  assume "\<not> placed (fb_folders db) ws new \<or> new = names f"
  moreover have "names f \<noteq> []" using tree f by (auto simp: folder_tree_iff well_named_def)
  ultimately show "unique_paths (map (carry ws (names f) new) (fb_folders db))"
    using carry_tree [OF tree new(1,2) _ new(3,4)] by (simp add: folder_tree_iff)
qed


lemma names_of_folder:
  assumes "folder_tree db" and "f \<in> set (fb_folders db)"
  shows "f_path f = path_of (names f)" "list_all plain (names f)" "names f = butlast (names f) @ [f_name f]"
    "placed (fb_folders db) (f_ws f) (names f)" "placed (fb_folders db) (f_ws f) (butlast (names f))" "names f \<noteq> []"
  using assms by (auto simp: folder_tree_iff well_named_def placed_iff)

lemma relocate_result:
  assumes tree: "folder_tree db" and f: "f \<in> set (fb_folders db)" "f_ws f = ws"
    and g: "g = f\<lparr>f_name := n, f_path := path_of (qs @ [n])\<rparr>"
    and new: "list_all plain (qs @ [n])" "placed (fb_folders db) ws qs" "\<not> prefix (names f) qs"
  shows "relocate ws f g db =
    (if qs @ [n] \<noteq> names f \<and> placed (fb_folders db) ws (qs @ [n]) then Inl unique_violation
     else Inr (db\<lparr>fb_folders := map (carry ws (names f) (qs @ [n])) (fb_folders db)\<rparr>))"
  using relocate_carry [OF tree f g] carry_unique_iff [OF tree f new(1)] new(2,3) by auto

text \<open>A rename carries the subtree along, or another folder has the name and the constraint is violated.\<close>

lemma rename_exact:
  assumes tree: "folder_tree db" and f: "get_folder ws i db = Some f" and n: "plain n"
  shows "rename_folder ws i n db =
    (let new = butlast (names f) @ [n] in
     if new \<noteq> names f \<and> placed (fb_folders db) ws new then Inl unique_violation
     else Inr (db\<lparr>fb_folders := map (carry ws (names f) new) (fb_folders db)\<rparr>))"
proof -
  note f' = get_folder_in [OF f]
  note nf = names_of_folder [OF tree conjunct1 [OF f']]
  have ok: "list_all plain (butlast (names f))" "plain (f_name f)" using nf(2,3) by (metis list_all_append list.pred_inject(2))+
  have "parent_path (f_path f) = path_of (butlast (names f))"
    using parent_path_of [OF ok] nf(1,3) by metis
  then have "child_path (parent_path (f_path f)) n = path_of (butlast (names f) @ [n])" by (simp add: child_path_of)
  moreover have "\<not> prefix (names f) (butlast (names f))" 
    using prefix_length_le [of "names f" "butlast (names f)"] nf(6) by (cases "names f") auto
  moreover have "SLASH \<notin> set n" using n by (simp add: plain_def)
  ultimately show ?thesis
    using relocate_result [OF tree _ _ refl, of f ws "butlast (names f)" n] f f' nf(5) ok(1) n
    by (simp add: rename_folder_def folder_or_error_def Let_def)
qed

text \<open>The target of a move: the path of the new parent, or the refusals.\<close>

lemma move_target:
  assumes tree: "folder_tree db" and f: "get_folder ws i db = Some f"
    and target: "case target of None \<Rightarrow> qs = [] | Some j \<Rightarrow> map_option names (get_folder ws j db) = Some qs"
  shows "(case target of None \<Rightarrow> Inr [SLASH]
      | Some j \<Rightarrow> rbind (folder_or_error ws ''Parent folder '' j db) (\<lambda>p.
          if f_path f = f_path p then Inl (validation_error ''Cannot make a folder its own child'')
          else if startswith (f_path p) (f_path f) then Inl (validation_error ''Cannot create cyclic folder structure'')
          else Inr (f_path p)))
    = (if qs = names f then Inl (validation_error ''Cannot make a folder its own child'')
       else if prefix (names f) qs then Inl (validation_error ''Cannot create cyclic folder structure'') else Inr (path_of qs))"
proof (cases target)
  case None
  have "names f \<noteq> []" using names_of_folder(6) [OF tree] get_folder_in [OF f] by simp
  then show ?thesis using None target by (auto simp: path_of_def)
next
  case (Some j)
  then obtain p where p: "get_folder ws j db = Some p" "names p = qs" using target by auto
  note nf = names_of_folder [OF tree conjunct1 [OF get_folder_in [OF f]]]
  note np = names_of_folder [OF tree conjunct1 [OF get_folder_in [OF p(1)]]]
  have "f_path p = path_of qs" using np(1) p(2) by simp
  moreover have "startswith (f_path p) (f_path f) \<longleftrightarrow> prefix (names f) qs"
    using startswith_path_of [OF nf(2) np(2)] nf(1) np(1) p(2) by simp
  moreover have "f_path f = f_path p \<longleftrightarrow> qs = names f" using nf(1,2) np(1,2) p(2) names_path_of by metis
  ultimately show ?thesis using Some p(1) by (simp only: folder_or_error_def option.case rbind.simps)
qed

lemma move_result:
  assumes tree: "folder_tree db" and f: "get_folder ws i db = Some f"
    and target: "case target of None \<Rightarrow> qs = [] | Some j \<Rightarrow> map_option names (get_folder ws j db) = Some qs"
  shows "move_folder ws i target db =
    (if qs = names f then Inl (validation_error ''Cannot make a folder its own child'')
     else if prefix (names f) qs then Inl (validation_error ''Cannot create cyclic folder structure'')
     else if qs @ [f_name f] \<noteq> names f \<and> placed (fb_folders db) ws (qs @ [f_name f])
       then Inl (validation_error (''Folder '' @ path_of (qs @ [f_name f]) @ '' already exists''))
     else Inr (db\<lparr>fb_folders := map (carry ws (names f) (qs @ [f_name f])) (fb_folders db)\<rparr>))"
proof -
  note f' = get_folder_in [OF f]
  note nf = names_of_folder [OF tree conjunct1 [OF f']]
  have qs: "list_all plain qs" "placed (fb_folders db) ws qs"
    using target names_of_folder(2,4) [OF tree] by (auto split: option.splits dest!: get_folder_in simp: placed_def)
  have new: "list_all plain (qs @ [f_name f])" using qs(1) nf(2,3) by (metis list_all_append)
  have path: "f_path f = path_of (qs @ [f_name f]) \<longleftrightarrow> names f = qs @ [f_name f]"
    using names_path_of [OF _ new] nf(1) by metis
  have same: "f\<lparr>f_path := p\<rparr> = f\<lparr>f_name := f_name f, f_path := p\<rparr>" for p using rename_same [OF refl] by simp
  have found: "folder_or_error ws ''Folder '' i db = Inr f" using f by (simp add: folder_or_error_def)
  have exists: "path_of (qs @ [f_name f]) \<noteq> f_path f \<and> folder_path_exists ws (path_of (qs @ [f_name f])) db
      \<longleftrightarrow> qs @ [f_name f] \<noteq> names f \<and> placed (fb_folders db) ws (qs @ [f_name f])"
  proof -
    have "folder_path_exists ws (path_of (qs @ [f_name f])) db \<longleftrightarrow> placed (fb_folders db) ws (qs @ [f_name f])"
      using path_exists_iff [OF tree new, of ws] by simp
    then show ?thesis using path by metis
  qed
  have moved: "\<not> prefix (names f) qs \<Longrightarrow> relocate ws f (f\<lparr>f_path := path_of (qs @ [f_name f])\<rparr>) db =
    (if qs @ [f_name f] \<noteq> names f \<and> placed (fb_folders db) ws (qs @ [f_name f]) then Inl unique_violation
     else Inr (db\<lparr>fb_folders := map (carry ws (names f) (qs @ [f_name f])) (fb_folders db)\<rparr>))"
    by (rule relocate_result [OF tree _ _ same new qs(2)]) (use f' in auto)
  show ?thesis
    unfolding move_folder_def found move_target [OF tree f target] rbind.simps Let_def using moved
    by (auto simp only: rbind.simps child_path_of exists if_True if_False simp_thms split: if_split)
qed

text \<open>C22: A move, on a tree of folders with plain names (free of \<open>/\<close>, \<open>%\<close>, \<open>_\<close> and backslash): a target that is the folder or below it is refused, as is
  a target that already has a folder of that name; otherwise exactly the rows at and below the folder, in its
  workspace, get their path under the target in place of their path under the old parent. No move raises a
  violation of the unique constraint.\<close>

theorem move_exact:
  assumes tree: "folder_tree db" and f: "get_folder ws i db = Some f"
    and target: "case target of None \<Rightarrow> qs = [] | Some j \<Rightarrow> map_option names (get_folder ws j db) = Some qs"
  shows "move_folder ws i target db =
    (if qs = names f then Inl (validation_error ''Cannot make a folder its own child'')
     else if prefix (names f) qs then Inl (validation_error ''Cannot create cyclic folder structure'')
     else if qs @ [f_name f] \<noteq> names f \<and> placed (fb_folders db) ws (qs @ [f_name f])
       then Inl (validation_error (''Folder '' @ path_of (qs @ [f_name f]) @ '' already exists''))
     else Inr (db\<lparr>fb_folders := map (carry ws (names f) (qs @ [f_name f])) (fb_folders db)\<rparr>))"
  using assms by (rule move_result)


section \<open>Deleting\<close>

definition below :: "string \<Rightarrow> string list \<Rightarrow> folder_row \<Rightarrow> bool" where
  "below ws ns g \<longleftrightarrow> f_ws g = ws \<and> prefix ns (names g)"

definition holds_folder :: "string \<Rightarrow> string list \<Rightarrow> folder_row list \<Rightarrow> placed_workflow \<Rightarrow> bool" where
  "holds_folder ws ns fs w \<longleftrightarrow> list_ex (\<lambda>g. below ws ns g \<and> p_folder w = Some (f_id g)) fs"

definition prune :: "string \<Rightarrow> string list \<Rightarrow> folder_db \<Rightarrow> folder_db" where
  "prune ws ns db = db\<lparr>fb_folders := filter (\<lambda>g. \<not> below ws ns g) (fb_folders db),
     fb_workflows := map (\<lambda>w. if holds_folder ws ns (fb_folders db) w then w\<lparr>p_folder := None\<rparr> else w) (fb_workflows db)\<rparr>"

lemma workflow_folder:
  assumes "folder_tree db" and "w \<in> set (fb_workflows db)" and "p_folder w = Some i"
  obtains f :: folder_row where "f \<in> set (fb_folders db)" "f_id f = i" "f_ws f = p_ws w"
proof -
  from assms(1) have "\<forall>w\<in>set (fb_workflows db). \<forall>i. p_folder w = Some i \<longrightarrow> (\<exists>f\<in>set (fb_folders db). f_id f = i \<and> f_ws f = p_ws w)"
    by (simp add: folder_tree_iff list_ex_iff)
  with assms(2,3) that show thesis by blast
qed

lemma holds_folder_ws:
  assumes "folder_tree db" and "w \<in> set (fb_workflows db)" and "holds_folder ws ns (fb_folders db) w"
  shows "p_ws w = ws"
proof -
  from assms(3) obtain g where g: "g \<in> set (fb_folders db)" "f_ws g = ws" "p_folder w = Some (f_id g)"
    by (auto simp: holds_folder_def below_def list_ex_iff)
  obtain f where "f \<in> set (fb_folders db)" "f_id f = f_id g" "f_ws f = p_ws w" using workflow_folder [OF assms(1,2) g(3)] .
  then show ?thesis using id_inj [OF assms(1) _ g(1)] g(2) by auto
qed

lemma prune_tree:
  assumes tree: "folder_tree db"
  shows "folder_tree (prune ws ns db)"
proof -
  have "placed (filter (\<lambda>g. \<not> below ws ns g) (fb_folders db)) (f_ws f) (butlast (names f))"
    if f: "f \<in> set (fb_folders db)" "\<not> below ws ns f" for f
  proof -
    have "\<not> below ws ns g" if "f_ws g = f_ws f" "names g = butlast (names f)" for g
      using f(2) that by (auto simp: below_def intro: prefix_order.trans prefixeq_butlast)
    then show ?thesis using names_of_folder(5) [OF tree f(1)] by (auto simp: placed_iff)
  qed
  moreover have "\<forall>w\<in>set (fb_workflows (prune ws ns db)). \<forall>i. p_folder w = Some i \<longrightarrow>
      list_ex (\<lambda>f. f_id f = i \<and> f_ws f = p_ws w) (fb_folders (prune ws ns db))"
  proof (intro ballI allI impI)
    fix w :: placed_workflow and i
    assume "w \<in> set (fb_workflows (prune ws ns db))" and i: "p_folder w = Some i"
    then have w: "w \<in> set (fb_workflows db)" "\<not> holds_folder ws ns (fb_folders db) w" by (auto simp: prune_def split: if_splits)
    obtain f where "f \<in> set (fb_folders db)" "f_id f = i" "f_ws f = p_ws w" using workflow_folder [OF tree w(1) i] .
    with w(2) i show "list_ex (\<lambda>f. f_id f = i \<and> f_ws f = p_ws w) (fb_folders (prune ws ns db))"
      by (auto simp: prune_def holds_folder_def list_ex_iff)
  qed
  ultimately show ?thesis
    using tree unfolding folder_tree_iff by (simp add: prune_def unique_paths_def distinct_map_filter)
qed

lemma recursive_prune:
  assumes tree: "folder_tree db" and f: "f \<in> set (fb_folders db)" "f_ws f = ws"
    and gone: "gone = map f_id (get_descendants ws (f_path f) db) @ [f_id f]"
  shows "db\<lparr>fb_folders := filter (\<lambda>x. f_id x \<notin> set gone) (fb_folders db), fb_workflows := detach ws gone (fb_workflows db)\<rparr>
    = prune ws (names f) db"
proof -
  note nf = names_of_folder [OF tree f(1)]
  have gone_iff: "f_id g \<in> set gone \<longleftrightarrow> below ws (names f) g" if g: "g \<in> set (fb_folders db)" for g
  proof -
    have "f_id g \<in> set gone \<longleftrightarrow> g \<in> set (get_descendants ws (f_path f) db) \<or> g = f"
      using id_inj [OF tree g] f(1) gone by (auto simp: get_descendants_def)
    also have "\<dots> \<longleftrightarrow> f_ws g = ws \<and> strict_prefix (names f) (names g) \<or> g = f"
      using descendants_iff [OF tree nf(2) g] nf(1) by simp
    finally show ?thesis using names_inj [OF tree g f(1)] f(2) by (auto simp: below_def strict_prefix_def)
  qed
  have "(p_ws w = ws \<and> (case p_folder w of Some i \<Rightarrow> i \<in> set gone | None \<Rightarrow> False)) \<longleftrightarrow> holds_folder ws (names f) (fb_folders db) w"
    if w: "w \<in> set (fb_workflows db)" for w
  proof (cases "p_folder w")
    case None
    then show ?thesis by (auto simp: holds_folder_def list_ex_iff)
  next
    case (Some i)
    obtain g where g: "g \<in> set (fb_folders db)" "f_id g = i" "f_ws g = p_ws w" using workflow_folder [OF tree w Some] .
    have "holds_folder ws (names f) (fb_folders db) w \<longleftrightarrow> below ws (names f) g"
      using Some g id_inj [OF tree _ g(1)] by (auto simp: holds_folder_def list_ex_iff)
    then show ?thesis using gone_iff [OF g(1)] Some g by (auto simp: below_def)
  qed
  then have "detach ws gone (fb_workflows db)
      = map (\<lambda>w. if holds_folder ws (names f) (fb_folders db) w then w\<lparr>p_folder := None\<rparr> else w) (fb_workflows db)"
    by (simp add: detach_def cong: map_cong)
  moreover have "filter (\<lambda>x. f_id x \<notin> set gone) (fb_folders db) = filter (\<lambda>g. \<not> below ws (names f) g) (fb_folders db)"
    by (intro filter_cong refl) (simp add: gone_iff)
  ultimately show ?thesis by (simp add: prune_def)
qed


lemma delete_result:
  assumes tree: "folder_tree db" and f: "get_folder ws i db = Some f"
  shows "delete_folder ws i recursive db =
    (if \<not> recursive \<and> (list_ex (\<lambda>g. below ws (names f) g \<and> g \<noteq> f) (fb_folders db) \<or> list_ex (\<lambda>w. p_folder w = Some i) (fb_workflows db))
     then Inl (validation_error ''Folder is not empty. Please move or delete its contents first.'')
     else Inr (prune ws (names f) db))"
proof -
  note f' = get_folder_in [OF f]
  note nf = names_of_folder [OF tree conjunct1 [OF f']]
  have "f_path f \<noteq> path_of []" using nf(1,2,6) names_path_of [of f "[]"] by auto
  then have root: "f_path f \<noteq> [SLASH]" by (simp add: path_of_def)
  have children: "has_children ws (f_path f) db \<longleftrightarrow> list_ex (\<lambda>g. below ws (names f) g \<and> g \<noteq> f) (fb_folders db)"
  proof -
    have "strict_prefix (names f) (names g) \<longleftrightarrow> prefix (names f) (names g) \<and> g \<noteq> f" if "g \<in> set (fb_folders db)" "f_ws g = ws" for g
      using names_inj [OF tree that(1) conjunct1 [OF f']] f' that(2) by (auto simp: strict_prefix_def)
    then show ?thesis unfolding nf(1) has_children_iff [OF tree nf(2)] list_ex_iff below_def by blast
  qed
  have inside: "p_ws w = ws" if w: "w \<in> set (fb_workflows db)" "p_folder w = Some i" for w
  proof -
    obtain g where "g \<in> set (fb_folders db)" "f_id g = i" "f_ws g = p_ws w" using workflow_folder [OF tree w] .
    then show ?thesis using id_inj [OF tree _ conjunct1 [OF f'], of g] f' by auto
  qed
  have workflows: "has_workflows ws i db \<longleftrightarrow> list_ex (\<lambda>w. p_folder w = Some i) (fb_workflows db)"
    using inside by (auto simp: has_workflows_def list_ex_iff)
  have leaf: "db\<lparr>fb_folders := filter (\<lambda>x. f_id x \<noteq> f_id f) (fb_folders db)\<rparr> = prune ws (names f) db"
    if none: "\<not> list_ex (\<lambda>g. below ws (names f) g \<and> g \<noteq> f) (fb_folders db)" "\<not> list_ex (\<lambda>w. p_folder w = Some i) (fb_workflows db)"
  proof -
    have only: "below ws (names f) g \<longleftrightarrow> g = f" if "g \<in> set (fb_folders db)" for g
      using none(1) that f' by (auto simp: list_ex_iff below_def)
    have "\<not> holds_folder ws (names f) (fb_folders db) w" if "w \<in> set (fb_workflows db)" for w
      using none(2) only that f' by (auto simp: holds_folder_def list_ex_iff)
    moreover have "filter (\<lambda>x. f_id x \<noteq> f_id f) (fb_folders db) = filter (\<lambda>g. \<not> below ws (names f) g) (fb_folders db)"
      by (intro filter_cong refl) (simp add: only id_inj [OF tree _ conjunct1 [OF f']])
    ultimately show ?thesis by (simp add: prune_def map_idI)
  qed
  show ?thesis
    using root f f' children workflows leaf recursive_prune [OF tree conjunct1 [OF f'] _ refl, of ws]
    by (simp add: delete_folder_def folder_or_error_def Let_def)
qed



section \<open>Creating, placing and importing\<close>

lemma add_tree:
  assumes tree: "folder_tree db" and new: "list_all plain ms" "plain n" "placed (fb_folders db) ws ms" "\<not> placed (fb_folders db) ws (ms @ [n])"
  shows "folder_tree (add_folder ws n (path_of (ms @ [n])) db)"
    and "placed (fb_folders (add_folder ws n (path_of (ms @ [n])) db)) ws (ms @ [n])"
proof -
  let ?f = "\<lparr>f_id = fb_next db, f_ws = ws, f_name = n, f_path = path_of (ms @ [n])\<rparr>"
  have plain: "list_all plain (ms @ [n])" using new(1,2) by simp
  have nf: "names ?f = ms @ [n]" using names_path_of [OF _ plain, of ?f] by simp
  then show "placed (fb_folders (add_folder ws n (path_of (ms @ [n])) db)) ws (ms @ [n])"
    by (auto simp: add_folder_def placed_iff)
  have wn: "\<forall>g\<in>set (fb_folders db @ [?f]). well_named g"
    using tree nf new(1,2) by (auto simp: folder_tree_iff well_named_def)
  have fresh: "\<forall>g\<in>set (fb_folders db). f_id g < fb_next db" "distinct (map f_id (fb_folders db))" using tree by (simp_all add: folder_tree_iff)
  have "\<not> (f_ws g = ws \<and> names g = ms @ [n])" if "g \<in> set (fb_folders db)" for g using new(4) that by (auto simp: placed_iff)
  then have "unique_paths (fb_folders db @ [?f])"
    unfolding unique_paths_iff [OF wn] using fresh names_inj [OF tree] nf by (auto simp: distinct_map)
  moreover have "placed (fb_folders db @ [?f]) w ns" if "placed (fb_folders db) w ns" for w ns
    using that by (auto simp: placed_iff)
  moreover have "list_ex P (fb_folders db @ [?f])" if "list_ex P (fb_folders db)" for P using that by simp
  ultimately show "folder_tree (add_folder ws n (path_of (ms @ [n])) db)"
    using tree wn fresh nf new(3) by (auto simp: folder_tree_iff add_folder_def less_Suc_eq)
qed

lemma path_exists_names:
  assumes "folder_tree db" and "folder_path_exists ws path db"
  obtains ms where "path = path_of ms" "list_all plain ms" "placed (fb_folders db) ws ms"
proof -
  from assms(2) obtain f where f: "f \<in> set (fb_folders db)" "f_ws f = ws" "f_path f = path"
    by (auto simp: folder_path_exists_def list_ex_iff)
  with that names_of_folder [OF assms(1) f(1)] show thesis by simp
qed

lemma create_child:
  assumes tree: "folder_tree db" and parent: "list_all plain ms" "placed (fb_folders db) ws ms" and n: "plain n"
  shows "create_folder ws n (path_of ms) db =
    (if placed (fb_folders db) ws (ms @ [n]) then Inl (validation_error (''Folder '' @ path_of (ms @ [n]) @ '' already exists''))
     else Inr (add_folder ws n (path_of (ms @ [n])) db))"
proof -
  have parent_ok: "(path_of ms \<noteq> [SLASH] \<and> \<not> folder_path_exists ws (path_of ms) db) = False"
    using path_exists_iff [OF tree parent(1)] parent(2) by (auto simp: path_of_def)
  have exists: "folder_path_exists ws (path_of (ms @ [n])) db \<longleftrightarrow> placed (fb_folders db) ws (ms @ [n])"
    using path_exists_iff [OF tree, of "ms @ [n]"] parent(1) n by simp
  have name: "(SLASH \<in> set n) = False" using n by (simp add: plain_def)
  show ?thesis unfolding create_folder_def slashed_path_of child_path_of Let_def exists parent_ok name if_False ..
qed

lemma create_tree:
  assumes tree: "folder_tree db" and n: "plain n" and r: "create_folder ws n parent db = Inr db'"
  shows "folder_tree db'"
proof -
  have "parent = [SLASH] \<or> folder_path_exists ws parent db" using r by (auto simp: create_folder_def split: if_splits)
  then obtain ms where ms: "parent = path_of ms" "list_all plain ms" "placed (fb_folders db) ws ms"
  proof
    assume "parent = [SLASH]"
    then show thesis using that [of "[]"] by (simp add: path_of_def placed_def)
  qed (rule path_exists_names [OF tree])
  show ?thesis
    using r add_tree(1) [OF tree ms(2) n ms(3)] create_child [OF tree ms(2,3) n] ms(1) by (auto split: if_splits)
qed

lemma find_path_iff:
  assumes "folder_tree db" and "list_all plain ns"
  shows "get_folder_by_path ws (path_of ns) db \<noteq> None \<longleftrightarrow> ns \<noteq> [] \<and> placed (fb_folders db) ws ns"
  using path_exists_iff [OF assms, of ws] by (auto simp: get_folder_by_path_def folder_path_exists_def find_None_iff list_ex_iff)


lemma ensure_segment_tree:
  assumes tree: "folder_tree db" and parent: "list_all plain ms" "placed (fb_folders db) ws ms" and seg: "seg = [] \<or> plain seg"
    and r: "ensure_segment ws seg (path_of ms, db) = Inr (cur, db')"
  shows "folder_tree db' \<and> (\<exists>ns. list_all plain ns \<and> placed (fb_folders db') ws ns \<and> cur = path_of ns)"
proof (cases "seg = []")
  case True
  then show ?thesis using assms by (auto simp: ensure_segment_def)
next
  case False
  with seg have seg: "plain seg" by simp
  then have plain: "list_all plain (ms @ [seg])" using parent(1) by simp
  have path: "path_of ms @ seg @ [SLASH] = path_of (ms @ [seg])" by (simp add: path_of_def)
  have r: "(if get_folder_by_path ws (path_of (ms @ [seg])) db \<noteq> None then Inr (path_of (ms @ [seg]), db)
      else rbind (create_folder ws seg (path_of ms) db) (\<lambda>db'. Inr (path_of (ms @ [seg]), db'))) = Inr (cur, db')"
    using r False unfolding ensure_segment_def by (simp only: Let_def prod.case path if_False)
  have cur: "cur = path_of (ms @ [seg])" using r by (auto simp: rbind_Inr_iff split: if_splits)
  show ?thesis
  proof (cases "placed (fb_folders db) ws (ms @ [seg])")
    case True
    then have "db' = db" using r find_path_iff [OF tree plain, of ws] by (auto split: if_splits)
    then show ?thesis using tree cur plain True by blast
  next
    case False
    then have "create_folder ws seg (path_of ms) db = Inr db'"
      using r find_path_iff [OF tree plain, of ws] by (auto simp: rbind_Inr_iff split: if_splits)
    then have "db' = add_folder ws seg (path_of (ms @ [seg])) db" using create_child [OF tree parent seg] False by simp
    then show ?thesis using add_tree [OF tree parent(1) seg parent(2) False] cur plain by blast
  qed
qed

lemma ensure_tree:
  assumes tree: "folder_tree db" and segs: "list_all (\<lambda>s. s = [] \<or> plain s) (split_on SLASH (strip_slash path))"
    and r: "ensure_folder_exists ws path db = Inr (i, db')"
  shows "folder_tree db'"
proof -
  let ?I = "\<lambda>(cur, db). folder_tree db \<and> (\<exists>ns. list_all plain ns \<and> placed (fb_folders db) ws ns \<and> cur = path_of ns)"
  from r obtain cur where cur: "rfold (ensure_segment ws) (split_on SLASH (strip_slash path)) ([SLASH], db) = Inr (cur, db')"
    by (auto simp: ensure_folder_exists_def rbind_Inr_iff split: if_splits option.splits)
  have start: "?I ([SLASH], db)" using tree by (auto simp: path_of_def placed_def intro: exI [of _ "[]"])
  have step: "?I st'" if "seg \<in> set (split_on SLASH (strip_slash path))" "?I st" "ensure_segment ws seg st = Inr st'" for seg st st'
  proof -
    obtain cur db1 cur' db2 where st: "st = (cur, db1)" "st' = (cur', db2)" by (cases st, cases st')
    from that(2) st obtain ms where ms: "folder_tree db1" "list_all plain ms" "placed (fb_folders db1) ws ms" "cur = path_of ms" by auto
    have "seg = [] \<or> plain seg" using that(1) segs by (auto simp: list_all_iff)
    from ensure_segment_tree [OF ms(1-3) this, of cur' db2] that(3) st ms(4) show ?thesis by auto
  qed
  have "?I (cur, db')" by (rule rfold_invariant [where P = ?I, OF cur start step])
  then show ?thesis by simp
qed

lemma move_workflow_tree:
  assumes tree: "folder_tree db" and folder: "\<forall>f. folder = Some f \<longrightarrow> f \<in> set (fb_folders db) \<and> f_ws f = ws"
    and r: "move_workflow ws i folder db = Inr db'"
  shows "folder_tree db'"
proof -
  from r have db': "db' = db\<lparr>fb_workflows := map (\<lambda>w. if p_ws w = ws \<and> p_id w = i then w\<lparr>p_folder := map_option f_id folder\<rparr> else w) (fb_workflows db)\<rparr>"
    by (simp add: move_workflow_def split: if_splits)
  have "\<forall>w\<in>set (fb_workflows db'). \<forall>j. p_folder w = Some j \<longrightarrow> list_ex (\<lambda>f. f_id f = j \<and> f_ws f = p_ws w) (fb_folders db)"
  proof (intro ballI allI impI)
    fix w :: placed_workflow and j
    assume "w \<in> set (fb_workflows db')" and j: "p_folder w = Some j"
    then consider v where "p_ws w = ws" "map_option f_id folder = Some j" "v \<in> set (fb_workflows db)" | "w \<in> set (fb_workflows db)"
      by (auto simp: db' split: if_splits)
    then show "list_ex (\<lambda>f. f_id f = j \<and> f_ws f = p_ws w) (fb_folders db)"
    proof cases
      case 1
      then show ?thesis using folder by (auto simp: list_ex_iff)
    next
      case 2
      obtain f where "f \<in> set (fb_folders db)" "f_id f = j" "f_ws f = p_ws w" using workflow_folder [OF tree 2 j] .
      then show ?thesis by (auto simp: list_ex_iff)
    qed
  qed
  then show ?thesis using tree by (simp add: folder_tree_iff db')
qed


section \<open>Every run of requests\<close>

text \<open>The names a request brings are plain; everything else of it is arbitrary.\<close>

fun folder_request_ok :: "folder_db \<Rightarrow> string \<times> folder_op \<Rightarrow> bool" where
  "folder_request_ok db (ws, CreateFolder name parent) = plain name"
| "folder_request_ok db (ws, RenameFolder i name) = plain name"
| "folder_request_ok db (ws, ImportFolder path) = list_all (\<lambda>s. s = [] \<or> plain s) (split_on SLASH (strip_slash path))"
| "folder_request_ok db (ws, _) = True"

lemma rename_tree:
  assumes tree: "folder_tree db" and n: "plain n" and r: "rename_folder ws i n db = Inr db'"
  shows "folder_tree db'"
proof -
  from r obtain f where f: "get_folder ws i db = Some f"
    by (auto simp: rename_folder_def folder_or_error_def rbind_Inr_iff split: if_splits option.splits)
  note f' = get_folder_in [OF f]
  note nf = names_of_folder [OF tree conjunct1 [OF f']]
  have "\<not> prefix (names f) (butlast (names f))"
    using prefix_length_le [of "names f" "butlast (names f)"] nf(6) by (cases "names f") auto
  moreover have "list_all plain (butlast (names f) @ [n])" using nf(2) n by (auto simp: list_all_iff dest: in_set_butlastD)
  ultimately show ?thesis
    using carry_tree [OF tree, of "butlast (names f) @ [n]" "names f" ws] rename_exact [OF tree f n] r nf(5,6) f'
    by (auto simp: Let_def split: if_splits)
qed

lemma move_tree:
  assumes tree: "folder_tree db" and r: "move_folder ws i target db = Inr db'"
  shows "folder_tree db'"
proof -
  from r obtain f where f: "get_folder ws i db = Some f"
    by (auto simp: move_folder_def folder_or_error_def rbind_Inr_iff split: option.splits)
  note f' = get_folder_in [OF f]
  note nf = names_of_folder [OF tree conjunct1 [OF f']]
  have "target \<noteq> None \<Longrightarrow> get_folder ws (the target) db \<noteq> None"
    using r by (auto simp: move_folder_def folder_or_error_def rbind_Inr_iff split: option.splits)
  then obtain qs where target: "case target of None \<Rightarrow> qs = [] | Some j \<Rightarrow> map_option names (get_folder ws j db) = Some qs"
    by (cases target) auto
  have qs: "list_all plain qs" "placed (fb_folders db) ws qs"
    using target names_of_folder(2,4) [OF tree] by (auto split: option.splits dest!: get_folder_in simp: placed_def)
  have "list_all plain (qs @ [f_name f])" using qs(1) nf(2,3) by (metis list_all_append)
  then show ?thesis
    using carry_tree [OF tree, of "qs @ [f_name f]" "names f" ws] move_result [OF tree f target] r qs(2) nf(6)
    by (auto split: if_splits)
qed

lemma delete_tree:
  assumes tree: "folder_tree db" and r: "delete_folder ws i recursive db = Inr db'"
  shows "folder_tree db'"
proof -
  from r obtain f where "get_folder ws i db = Some f"
    by (auto simp: delete_folder_def folder_or_error_def rbind_Inr_iff split: option.splits)
  from delete_result [OF tree this] r prune_tree [OF tree] show ?thesis by (auto split: if_splits)
qed

lemma place_tree:
  assumes tree: "folder_tree db"
  shows "folder_tree (folder_step db (ws, PlaceWorkflow i path))"
proof -
  have keep: "folder_tree (keep_on_error db (move_workflow ws i folder db))"
    if "\<forall>f. folder = Some f \<longrightarrow> f \<in> set (fb_folders db) \<and> f_ws f = ws" for folder
    using tree move_workflow_tree [OF tree that] by (cases "move_workflow ws i folder db") (simp_all add: keep_on_error_def)
  have "f \<in> set (fb_folders db) \<and> f_ws f = ws" if "get_folder_by_path ws path db = Some f" for f
    using that by (auto simp: get_folder_by_path_def find_Some_iff)
  then show ?thesis using tree keep by (auto split: option.splits)
qed

lemma folder_step_tree:
  assumes tree: "folder_tree db" and ok: "folder_request_ok db e"
  shows "folder_tree (folder_step db e)"
proof -
  have keep: "folder_tree (keep_on_error db r)" if "\<And>db'. r = Inr db' \<Longrightarrow> folder_tree db'" for r
    using that tree by (auto simp: keep_on_error_def split: sum.splits)
  obtain ws op where e: "e = (ws, op)" by (cases e)
  show ?thesis
  proof (cases op)
    case (PlaceWorkflow i path)
    then show ?thesis using place_tree [OF tree] e by simp
  next
    case (ImportFolder path)
    then show ?thesis using ok e by (auto simp: rbind_Inr_iff intro!: keep dest: ensure_tree [OF tree])
  qed (use ok e in \<open>auto intro!: keep dest: create_tree [OF tree] rename_tree [OF tree] move_tree [OF tree] delete_tree [OF tree]\<close>)
qed

interpretation folder_machine: machine folder_step folder_tree folder_request_ok
  by unfold_locales (rule folder_step_tree)

text \<open>C16: Whatever create, rename, move, delete, placement and import requests of any workspaces arrive in whatever
  order, refused ones included, as long as the names they bring are plain: the folders stay a tree. Paths are
  unique in a workspace, every folder's path is its parent's path and its name, the parent exists in the same
  workspace, and every workflow is in no folder or in an existing folder of its own workspace.\<close>

theorem folder_tree_invariant:
  assumes "folder_tree db" and "legal folder_step folder_request_ok db es"
  shows "folder_tree (foldl folder_step db es)"
  using assms by (rule folder_machine.run_inv)


section \<open>Runs\<close>

definition no_folders :: folder_db where
  "no_folders = \<lparr>fb_next = 1, fb_folders = [],
     fb_workflows = [\<lparr>p_id = 7, p_ws = ''ws'', p_folder = None\<rparr>, \<lparr>p_id = 8, p_ws = ''other'', p_folder = None\<rparr>]\<rparr>"

text \<open>Two trees; then the rows \<open>/sec/\<close> (1), \<open>/sec/net/\<close> (2), \<open>/sec/net/dns/\<close> (3), \<open>/ops/\<close> (4) and another workspace's \<open>/sec/\<close> (5).\<close>

definition sample_requests :: "(string \<times> folder_op) list" where
  "sample_requests = [(''ws'', CreateFolder ''sec'' ''/''), (''ws'', CreateFolder ''sec'' ''/''), (''ws'', ImportFolder ''/sec/net/dns/''),
     (''ws'', CreateFolder ''ops'' ''/''), (''other'', CreateFolder ''sec'' ''/''), (''ws'', PlaceWorkflow 7 ''/sec/net''),
     (''ws'', MoveFolder 1 (Some 2)), (''ws'', RenameFolder 4 ''sec'')]"

definition sample_db :: folder_db where
  "sample_db = foldl folder_step no_folders sample_requests"

lemma folder_tree_empty: "folder_tree no_folders"
  by code_simp

theorem folder_tree_invariant_witness:
  "folder_tree (foldl folder_step no_folders sample_requests)
   \<and> map f_path (fb_folders (foldl folder_step no_folders sample_requests)) = [''/sec/'', ''/sec/net/'', ''/sec/net/dns/'', ''/ops/'', ''/sec/'']"
proof
  show "folder_tree (foldl folder_step no_folders sample_requests)"
    by (rule folder_tree_invariant) code_simp+
qed code_simp

lemma sample_tree: "folder_tree sample_db"
  by code_simp

definition net_folder :: folder_row where
  "net_folder = \<lparr>f_id = 2, f_ws = ''ws'', f_name = ''net'', f_path = ''/sec/net/''\<rparr>"

lemma net_folder_row: "get_folder ''ws'' 2 sample_db = Some net_folder" "names net_folder = [''sec'', ''net'']" "f_name net_folder = ''net''"
  by code_simp+

text \<open>The subtree at \<open>/sec/net/\<close> moves under \<open>/ops/\<close>.\<close>

theorem move_exact_witness:
  "move_folder ''ws'' 2 (Some 4) sample_db
     = Inr (sample_db\<lparr>fb_folders := map (carry ''ws'' [''sec'', ''net''] [''ops'', ''net'']) (fb_folders sample_db)\<rparr>)
   \<and> map f_path (map (carry ''ws'' [''sec'', ''net''] [''ops'', ''net'']) (fb_folders sample_db))
     = [''/sec/'', ''/ops/net/'', ''/ops/net/dns/'', ''/ops/'', ''/sec/'']"
proof
  have "case Some 4 of None \<Rightarrow> [''ops''] = [] | Some j \<Rightarrow> map_option names (get_folder ''ws'' j sample_db) = Some [''ops'']"
    by code_simp
  from move_exact [OF sample_tree net_folder_row(1) this]
  have move: "move_folder ''ws'' 2 (Some 4) sample_db =
    (if [''ops''] @ [''net''] \<noteq> [''sec'', ''net''] \<and> placed (fb_folders sample_db) ''ws'' ([''ops''] @ [''net''])
      then Inl (validation_error (''Folder '' @ path_of ([''ops''] @ [''net'']) @ '' already exists''))
     else Inr (sample_db\<lparr>fb_folders := map (carry ''ws'' [''sec'', ''net''] ([''ops''] @ [''net''])) (fb_folders sample_db)\<rparr>))"
    unfolding net_folder_row(2,3) by simp
  have "\<not> placed (fb_folders sample_db) ''ws'' ([''ops''] @ [''net''])" by code_simp
  with move show "move_folder ''ws'' 2 (Some 4) sample_db
     = Inr (sample_db\<lparr>fb_folders := map (carry ''ws'' [''sec'', ''net''] [''ops'', ''net'']) (fb_folders sample_db)\<rparr>)" by simp
qed code_simp


text \<open>
  With a wildcard in a name. \<open>/a_b/\<close> matches \<open>/axb/\<close>: a recursive delete of the first deletes the second's
  folders and detaches its workflow; a delete of the empty first is refused because the second has a child.
\<close>

definition wildcard_db :: folder_db where
  "wildcard_db = foldl folder_step no_folders [(''ws'', CreateFolder ''a_b'' ''/''), (''ws'', ImportFolder ''/axb/c/''), (''ws'', PlaceWorkflow 7 ''/axb/c/'')]"

lemma wildcard_delete_hits_others:
  "map f_path (fb_folders wildcard_db) = [''/a_b/'', ''/axb/'', ''/axb/c/''] \<and> map p_folder (fb_workflows wildcard_db) = [Some 3, None]
   \<and> map_sum (\<lambda>e. ()) (\<lambda>db. (map f_path (fb_folders db), map p_folder (fb_workflows db))) (delete_folder ''ws'' 1 True wildcard_db) = Inr ([], [None, None])
   \<and> delete_folder ''ws'' 1 False wildcard_db = Inl (validation_error ''Folder is not empty. Please move or delete its contents first.'')"
  by code_simp

text \<open>A rename of \<open>/a_/\<close> rewrites a row of \<open>/ax/\<close> in the middle of its path, and \<open>/ax/a_/\<close> is no longer below \<open>/ax/\<close>.\<close>

lemma wildcard_rename_corrupts:
  "map_sum (\<lambda>e. ()) (\<lambda>db. map f_path (fb_folders db))
     (rename_folder ''ws'' 1 ''b'' (foldl folder_step no_folders [(''ws'', CreateFolder ''a_'' ''/''), (''ws'', ImportFolder ''/ax/a_/'')]))
   = Inr [''/b/'', ''/ax/'', ''/ax/b/''] \<and>
   map_sum (\<lambda>e. ()) (\<lambda>db. map f_name (fb_folders db))
     (rename_folder ''ws'' 1 ''b'' (foldl folder_step no_folders [(''ws'', CreateFolder ''a_'' ''/''), (''ws'', ImportFolder ''/ax/a_/'')]))
   = Inr [''b'', ''ax'', ''a_'']"
  by code_simp

text \<open>A backslash escapes the character after it, so a folder with one has no descendants to the queries and a rename strands them.\<close>

lemma backslash_strands_children:
  "map_sum (\<lambda>e. ()) (\<lambda>db. map f_path (fb_folders db))
     (rename_folder ''ws'' 1 ''x'' (foldl folder_step no_folders [(''ws'', CreateFolder [CHR ''a'', CHR 0x5C, CHR ''b''] ''/''),
        (''ws'', CreateFolder ''c'' ([CHR ''/'', CHR ''a'', CHR 0x5C, CHR ''b'', CHR ''/'']))]))
   = Inr [''/x/'', [CHR ''/'', CHR ''a'', CHR 0x5C, CHR ''b'', CHR ''/'', CHR ''c'', CHR ''/'']]"
  by code_simp

text \<open>A rename to a sibling's name is only stopped by the constraint, and an empty name is accepted.\<close>

lemma rename_onto_sibling_violates:
  "rename_folder ''ws'' 4 ''sec'' sample_db = Inl unique_violation"
  by code_simp

lemma empty_name_accepted:
  "map_sum (\<lambda>e. ()) (\<lambda>db. map f_path (fb_folders db)) (create_folder ''ws'' [] ''/'' no_folders) = Inr [''//'']"
  by code_simp

lemma list_folders_lists_siblings:
  "map f_path (list_folders ''ws'' ''/a'' (foldl folder_step no_folders [(''ws'', CreateFolder ''a'' ''/''), (''ws'', CreateFolder ''ab'' ''/'')]))
   = [''/a/'', ''/ab/'']"
  by code_simp


text \<open>An import skips empty segments but looks the path up as given, so it fails after creating the folders; so does a path without the leading slash.\<close>

lemma skipped_segments_not_found:
  "ensure_folder_exists ''ws'' ''/sec//net/'' no_folders
     = Inl (Exn ''ValueError'' False ''Failed to create or find folder at path: /sec//net/'' [] None)
   \<and> ensure_folder_exists ''ws'' ''sec/net/'' no_folders
     = Inl (Exn ''ValueError'' False ''Failed to create or find folder at path: sec/net/'' [] None)"
  by code_simp

end
