(* ===== verification/Spec2Isabelle.thy ===== *)
theory Spec2Isabelle
  imports Scheduler_Streams Management_Correct WorkerPool_Correct Collection_Correct Executor_Correct Cases_Correct Folders_Correct
begin

text \<open>
  Verification of the workflow engine of Allama.

  \<^bold>\<open>The program.\<close> A workflow is a definition in a YAML language (\<open>dsl/common.py\<close>, \<open>dsl/schemas.py\<close>) or a graph of
  nodes and edges in the database (\<open>workflow/graph/service.py\<close>, \<open>dsl/view.py\<close>). A Temporal workflow
  (\<open>dsl/workflow.py\<close>) runs it: a scheduler (\<open>dsl/scheduler.py\<close>) queues tasks as their dependencies
  finish, in streams that scatter creates and gather joins; activities (\<open>dsl/action.py\<close>) shape the data;
  results larger than a threshold are kept in a blob store (\<open>storage/\<close>); an action runs in the executor
  (\<open>executor/\<close>), which resolves it from registry manifests, loads its secrets, evaluates its arguments,
  invokes it or its template's steps on a worker, and masks the result. Beside the engine, cases
  (\<open>cases/\<close>) record events from which durations are computed.

  \<^bold>\<open>Theories and sources\<close> (paths under \<open>src/allama/\<close>).

  \<^item> Prelude: results of fallible code, dictionaries as association lists in insertion order, strings,
    JSON; the interfaces \<open>codec\<close>, \<open>machine\<close> and \<open>total_machine\<close>.
  \<^item> Schemas, Templates, Identifiers: statements, enumerations and edge types; template expressions in
    arguments (\<open>parse.py\<close>, \<open>expressions/\<close>); base 62 and workflow identifiers (\<open>identifiers/\<close>).
  \<^item> Dsl, Dsl_Correct: validation of a definition (\<open>DSLInput\<close>): structure, scopes, cycles and
    expressions. The lemmas are the invariant of Kahn's algorithm with scopes, and that the scatters open at an
    action, defined along the paths of dependencies, are the same on every path of an accepted definition.
  \<^item> Scheduler, Scheduler_Ops, Scheduler_Flat, Scheduler_Streams: \<open>DSLScheduler\<close>. Its state is the record
    \<open>sstate\<close> (queue, indegrees, marked edges, contexts of streams, open streams, results); a task is a
    coroutine whose position is a \<open>pc\<close>, and the interleaving of the coroutines is an explicit choice.
    Scheduler_Ops gives the effect of each operation, Scheduler_Flat the invariant, order, termination and
    completion of workflows without scatter, Scheduler_Streams scatter, gather and lookup across streams.
  \<^item> Execution, Execution_Correct: \<open>DSLWorkflow\<close>: executing one task, retries, loops over child workflows in
    batches, error handlers, the run. Activities, Activities_Correct: the activities of \<open>dsl/action.py\<close>.
  \<^item> Storage, Storage_Correct, Collection_Correct: object storage, chunked collections and the sized
    cache; what is stored is what is retrieved.
  \<^item> GraphOps, Graph_Correct, Management, Management_Correct: the rows behind the graph and its operations
    with optimistic versions; import, export, aliases and error handlers (\<open>workflow/management/\<close>).
  \<^item> WorkerPool, WorkerPool_Correct: the warm pool (\<open>executor/backends/pool/pool.py\<close>); the segments
    between two awaits of its calls are the steps of a machine.
  \<^item> Secrets, Registry, Executor and their correctness theories: masking, loading and flattening of secrets
    (\<open>secrets/\<close>, \<open>auth/sandbox.py\<close>), resolution of actions (\<open>executor/registry_resolver.py\<close>), the
    executor's preparation, invocation, loops, templates and activity (\<open>executor/service.py\<close>, \<open>activities.py\<close>).
  \<^item> Durations, Durations_Correct: definitions, computation and synchronisation of case durations
    (\<open>cases/durations/service.py\<close>). Cases, CaseTasks, Case_Tables, Cases_Correct: cases, events, comments,
    tasks and tags (\<open>cases/service.py\<close>, \<open>cases/tags/service.py\<close>). The tables are the record \<open>case_db\<close>, a request
    is a \<open>case_op\<close>, and \<open>case_step\<close> is a request with its rollback. Case_Tables shows that every
    operation keeps the tables consistent, Cases_Correct that events are a history of the case and that an update has exactly the effect and the log that a
    table of its columns, written independently of the code, asks for.
  \<^item> Folders, Folders_Correct: folders of workflows as materialized paths
    (\<open>workflow/management/folders/service.py\<close>), with those an import creates. The tables are the record
    \<open>folder_db\<close>; a path is a list of names, and the lemmas show that the folders stay a tree and which rows a
    move, a rename and a delete change.

  A function that raises returns the exception on the left of a sum; a transaction that raises leaves
  its tables. Long-running components are machines whose invariant is the law of \<open>machine\<close> or
  \<open>total_machine\<close>, interpreted on the graph service, the scheduler's streams, the storage cache, the
  manifest cache, the worker pool, the case tables and the folders; the properties about runs rest on these.

  \<^bold>\<open>Bounds and fuel.\<close> The lookup of a result climbs the streams with the length of the stream's
  identifier as fuel, which is enough because a parent's identifier is a proper prefix. The loops over
  batches and the retry loop are \<open>partial_function (option)\<close>; the properties about them state that they return. The
  recursion of templates and of the secret collection is bounded by \<open>xe_depth\<close>, Python's recursion
  limit, and is independent of it once it exceeds the rank of the template. Rate limited attempts are
  bounded by \<open>MAX_RATE_LIMIT_ATTEMPTS\<close>. Other recursions end by measures proved with the functions.

  \<^bold>\<open>Parameters and assumptions.\<close> Third-party code is an argument of the definitions that use it: the
  expression parser and evaluator, slugify, YAML and the pydantic dumps (\<open>dsl_lib\<close>), the database's
  identifiers, Temporal (\<open>sdk\<close>), S3, the JSON codec and SHA-256 (\<open>storage_env\<close>, with the laws \<open>env_ok\<close> and
  \<open>no_collision\<close>), the backend of the executor (\<open>exec_env\<close>), the secret tables and OAuth integrations
  (\<open>secrets_env\<close>), child workflows (\<open>subflow_env\<close>), \<open>datetime.fromisoformat\<close>, \<open>uuid.UUID\<close> and the physical
  table of custom fields (\<open>case_env\<close>). The scheduler assumes that the executor of a task writes only the
  context of the task's stream, which the evaluation of \<open>retry_until\<close> does not respect. The version of a child
  workflow is read from its validated arguments, where the code reads the evaluated ones; the text of an exception is
  its message; a stored manifest is assumed to validate. Stored references leave
  out their constant fields; messages of registry errors are shortened; prefetching reports the first
  failure in the order of the lock. One clock serves for the application and the database. The properties
  of folders assume names without \<open>/\<close>, \<open>%\<close>, \<open>_\<close> and backslash, which the queries do not escape, and the unique
  constraint is checked at the end of a request. Characters are
  the 256 of the type \<open>char\<close>, floating point numbers are rationals.

  \<^bold>\<open>Not modelled.\<close> What is left has no logic of its own to state, or its behaviour is that of another
  system: database queries, HTTP handlers, sessions and middleware (the rate limit middleware is never installed);
  authentication protocols; the agents, their sessions and the adapters of model providers; user tables,
  which construct SQL; the integrations and OAuth providers; the sandbox, action runners and processes of the
  backends; registry synchronisation, git, migrations and the registry's YAML templates; the administration
  command line, the frontend and deployment. In the engine, the expression grammar and evaluator (a Lark
  grammar) are a parameter, and the executor's in-process path for subprocesses of agents and the
  older path of looped child workflows that the prepared one replaced are left out. In the case service, search and
  pagination, attachments and the definition of custom fields are left out; of the workflows in a folder only their place is modelled.
\<close>

end
